(* ===== verification/Prelude.thy ===== *)
theory Prelude
  imports Main "HOL-Library.Word" "HOL-Library.Monad_Syntax"
begin

unbundle bit_operations_syntax

text \<open>
  Shared material of the development: the names of the machine types and of the errno values the
  client returns, little and big endian byte encodings of fixed width (what the
  \<^verbatim>\<open>htoles\<close>/\<^verbatim>\<open>letohs\<close> family of kernel/sys5/sys/smb\_byte\_order.h together with
  a byte copy produces on any host), and generic lemmas on lists and words.

  The collections \<open>wire\<close> (rewrites that evaluate encodings) and \<open>chain\<close> (rewrites on buffer
  chains) carry the component proofs.
\<close>

named_theorems wire "evaluation of wire encodings"
named_theorems chain "rewrites on buffer chains"

type_synonym byte = "8 word"
type_synonym u16 = "16 word"
type_synonym u32 = "32 word"
type_synonym u64 = "64 word"

text \<open>
  A C function that returns an \<^verbatim>\<open>int\<close> error code, \<^verbatim>\<open>0\<close> for success, is
  modelled with the result type \<open>errno\<close>. The names are the errno macros, with the values of the
  platform's \<^verbatim>\<open>sys/errno.h\<close>.
\<close>

type_synonym errno = int

abbreviation (input) EPERM :: errno where "EPERM \<equiv> 1"
abbreviation (input) ENOENT :: errno where "ENOENT \<equiv> 2"
abbreviation (input) EIO :: errno where "EIO \<equiv> 5"
abbreviation (input) ENXIO :: errno where "ENXIO \<equiv> 6"
abbreviation (input) E2BIG :: errno where "E2BIG \<equiv> 7"
abbreviation (input) EBADF :: errno where "EBADF \<equiv> 9"
abbreviation (input) ENOMEM :: errno where "ENOMEM \<equiv> 12"
abbreviation (input) EACCES :: errno where "EACCES \<equiv> 13"
abbreviation (input) EFAULT :: errno where "EFAULT \<equiv> 14"
abbreviation (input) EBUSY :: errno where "EBUSY \<equiv> 16"
abbreviation (input) EEXIST :: errno where "EEXIST \<equiv> 17"
abbreviation (input) EXDEV :: errno where "EXDEV \<equiv> 18"
abbreviation (input) ENODEV :: errno where "ENODEV \<equiv> 19"
abbreviation (input) ENOTDIR :: errno where "ENOTDIR \<equiv> 20"
abbreviation (input) EISDIR :: errno where "EISDIR \<equiv> 21"
abbreviation (input) EINVAL :: errno where "EINVAL \<equiv> 22"
abbreviation (input) EMFILE :: errno where "EMFILE \<equiv> 24"
abbreviation (input) ENOSPC :: errno where "ENOSPC \<equiv> 28"
abbreviation (input) ESPIPE :: errno where "ESPIPE \<equiv> 29"
abbreviation (input) EROFS :: errno where "EROFS \<equiv> 30"
abbreviation (input) EMLINK :: errno where "EMLINK \<equiv> 31"
abbreviation (input) EPIPE :: errno where "EPIPE \<equiv> 32"
abbreviation (input) ERANGE :: errno where "ERANGE \<equiv> 34"
abbreviation (input) EAGAIN :: errno where "EAGAIN \<equiv> 35"
abbreviation (input) EMSGSIZE :: errno where "EMSGSIZE \<equiv> 40"
abbreviation (input) ENOPROTOOPT :: errno where "ENOPROTOOPT \<equiv> 42"
abbreviation (input) ENOTSUP :: errno where "ENOTSUP \<equiv> 45"
abbreviation (input) EADDRINUSE :: errno where "EADDRINUSE \<equiv> 48"
abbreviation (input) ENETUNREACH :: errno where "ENETUNREACH \<equiv> 51"
abbreviation (input) ENETRESET :: errno where "ENETRESET \<equiv> 52"
abbreviation (input) ECONNABORTED :: errno where "ECONNABORTED \<equiv> 53"
abbreviation (input) ENOBUFS :: errno where "ENOBUFS \<equiv> 55"
abbreviation (input) EISCONN :: errno where "EISCONN \<equiv> 56"
abbreviation (input) ESHUTDOWN :: errno where "ESHUTDOWN \<equiv> 58"
abbreviation (input) ETIMEDOUT :: errno where "ETIMEDOUT \<equiv> 60"
abbreviation (input) ECONNREFUSED :: errno where "ECONNREFUSED \<equiv> 61"
abbreviation (input) ENAMETOOLONG :: errno where "ENAMETOOLONG \<equiv> 63"
abbreviation (input) EHOSTUNREACH :: errno where "EHOSTUNREACH \<equiv> 65"
abbreviation (input) ENOTEMPTY :: errno where "ENOTEMPTY \<equiv> 66"
abbreviation (input) EUSERS :: errno where "EUSERS \<equiv> 68"
abbreviation (input) EDQUOT :: errno where "EDQUOT \<equiv> 69"
abbreviation (input) EBADRPC :: errno where "EBADRPC \<equiv> 72"
abbreviation (input) ERPCMISMATCH :: errno where "ERPCMISMATCH \<equiv> 73"
abbreviation (input) EPROGMISMATCH :: errno where "EPROGMISMATCH \<equiv> 75"
abbreviation (input) ENOLCK :: errno where "ENOLCK \<equiv> 77"
abbreviation (input) ENOSYS :: errno where "ENOSYS \<equiv> 78"
abbreviation (input) EAUTH :: errno where "EAUTH \<equiv> 80"
abbreviation (input) ECANCELED :: errno where "ECANCELED \<equiv> 89"
abbreviation (input) ENOATTR :: errno where "ENOATTR \<equiv> 93"
abbreviation (input) ENODATA :: errno where "ENODATA \<equiv> 96"
abbreviation (input) EPROTO :: errno where "EPROTO \<equiv> 100"
abbreviation (input) ETIME :: errno where "ETIME \<equiv> 101"

section \<open>Byte encodings of fixed width\<close>

primrec le_enc :: "nat \<Rightarrow> nat \<Rightarrow> byte list" where
  "le_enc 0 k = []"
| "le_enc (Suc n) k = of_nat (k mod 256) # le_enc n (k div 256)"

fun le_dec :: "byte list \<Rightarrow> nat" where
  "le_dec [] = 0"
| "le_dec (b # bs) = unat b + 256 * le_dec bs"

definition be_enc :: "nat \<Rightarrow> nat \<Rightarrow> byte list" where
  "be_enc n k = rev (le_enc n k)"

definition be_dec :: "byte list \<Rightarrow> nat" where
  "be_dec bs = le_dec (rev bs)"

lemma unat_byte_less: "unat (b :: byte) < 256"
  using unsigned_less [of b] by simp

lemma length_le_enc [simp]: "length (le_enc n k) = n"
  by (induction n arbitrary: k) auto

lemma length_be_enc [simp]: "length (be_enc n k) = n"
  by (simp add: be_enc_def)

lemma le_dec_enc: "le_dec (le_enc n k) = k mod 256 ^ n"
proof (induction n arbitrary: k)
  case 0
  then show ?case by simp
next
  case (Suc n)
  have "unat (of_nat (k mod 256) :: byte) = k mod 256"
    by (simp add: unat_of_nat)
  then show ?case
    by (simp add: Suc mod_mult2_eq)
qed

lemma be_dec_enc: "be_dec (be_enc n k) = k mod 256 ^ n"
  by (simp add: be_dec_def be_enc_def le_dec_enc)

lemma le_dec_bound: "le_dec bs < 256 ^ length bs"
proof (induction bs)
  case Nil
  then show ?case by simp
next
  case (Cons b bs)
  have "unat b < 256" by (rule unat_byte_less)
  with Cons show ?case by simp
qed

lemma be_dec_bound: "be_dec bs < 256 ^ length bs"
  using le_dec_bound [of "rev bs"] by (simp add: be_dec_def)

lemma le_enc_dec: "le_enc (length bs) (le_dec bs) = bs"
proof (induction bs)
  case Nil
  then show ?case by simp
next
  case (Cons b bs)
  have b: "unat b < 256" by (rule unat_byte_less)
  then have "(unat b + 256 * le_dec bs) mod 256 = unat b"
    and "(unat b + 256 * le_dec bs) div 256 = le_dec bs"
    by simp_all
  with Cons show ?case by simp
qed

text \<open>The words of the wire format: an encoding and a decoding for each width.\<close>

definition le16 :: "u16 \<Rightarrow> byte list" where "le16 x = le_enc 2 (unat x)"
definition le32 :: "u32 \<Rightarrow> byte list" where "le32 x = le_enc 4 (unat x)"
definition le64 :: "u64 \<Rightarrow> byte list" where "le64 x = le_enc 8 (unat x)"
definition be16 :: "u16 \<Rightarrow> byte list" where "be16 x = be_enc 2 (unat x)"
definition be32 :: "u32 \<Rightarrow> byte list" where "be32 x = be_enc 4 (unat x)"
definition be64 :: "u64 \<Rightarrow> byte list" where "be64 x = be_enc 8 (unat x)"

lemma length_words [simp]:
  "length (le16 x) = 2" "length (le32 y) = 4" "length (le64 z) = 8"
  "length (be16 x) = 2" "length (be32 y) = 4" "length (be64 z) = 8"
  by (simp_all add: le16_def le32_def le64_def be16_def be32_def be64_def)

lemma word_decode [wire]:
  "of_nat (le_dec (le16 x)) = x" "of_nat (le_dec (le32 y)) = y" "of_nat (le_dec (le64 z)) = z"
  "of_nat (be_dec (be16 x)) = x" "of_nat (be_dec (be32 y)) = y" "of_nat (be_dec (be64 z)) = z"
proof -
  have lt: "unat x < 256 ^ 2" "unat y < 256 ^ 4" "unat z < 256 ^ 8"
    using unsigned_less [of x] unsigned_less [of y] unsigned_less [of z] by simp_all
  show "of_nat (le_dec (le16 x)) = x" "of_nat (le_dec (le32 y)) = y" "of_nat (le_dec (le64 z)) = z"
    "of_nat (be_dec (be16 x)) = x" "of_nat (be_dec (be32 y)) = y" "of_nat (be_dec (be64 z)) = z"
    using lt by (simp_all add: le16_def le32_def le64_def be16_def be32_def be64_def
        le_dec_enc be_dec_enc)
qed

section \<open>Lists\<close>

lemma concat_map_Nil [chain]: "(\<And>x. x \<in> set xs \<Longrightarrow> f x = []) \<Longrightarrow> concat (map f xs) = []"
  by (induction xs) auto

lemma drop_eq_Cons_nth: "i < length xs \<Longrightarrow> drop i xs = xs ! i # drop (Suc i) xs"
  by (rule Cons_nth_drop_Suc [symmetric])

lemma concat_map_split:
  "i < length xs \<Longrightarrow>
     concat (map f xs) = concat (map f (take i xs)) @ f (xs ! i) @ concat (map f (drop (Suc i) xs))"
  by (metis append_take_drop_id concat_append drop_eq_Cons_nth map_append list.simps(9) concat.simps(2))

lemma concat_map_update:
  "i < length xs \<Longrightarrow>
     concat (map f (xs[i := y])) =
       concat (map f (take i xs)) @ f y @ concat (map f (drop (Suc i) xs))"
  by (subst concat_map_split [of i]) auto

section \<open>Objects in memory\<close>

text \<open>
  A read of \<open>n\<close> bytes at an offset of an object, \<open>None\<close> when it is not inside of it, and a store.
\<close>

definition mem_read :: "byte list \<Rightarrow> nat \<Rightarrow> nat \<Rightarrow> byte list option" where
  "mem_read b off n = (if off + n \<le> length b then Some (take n (drop off b)) else None)"

definition mem_write :: "nat \<Rightarrow> byte list \<Rightarrow> byte list \<Rightarrow> byte list" where
  "mem_write off xs b = take off b @ xs @ drop (off + length xs) b"

lemma length_mem_write [simp]: "off + length xs \<le> length b \<Longrightarrow> length (mem_write off xs b) = length b"
  by (simp add: mem_write_def)

lemma mem_write_inside:
  assumes "off \<le> length b" "off \<le> i" "i < off + length xs"
  shows "mem_write off xs b ! i = xs ! (i - off)"
proof -
  have "i - off < length xs" using assms by linarith
  with assms show ?thesis by (simp add: mem_write_def nth_append)
qed

lemma mem_write_outside:
  assumes "off + length xs \<le> length b" "i < off \<or> off + length xs \<le> i \<and> i < length b"
  shows "mem_write off xs b ! i = b ! i"
  using assms by (auto simp: mem_write_def nth_append nth_drop)

lemma mem_write_read:
  assumes "off + length xs \<le> length b"
  shows "take (length xs) (drop off (mem_write off xs b)) = xs"
  using assms by (simp add: mem_write_def)

section \<open>Signed readings\<close>

lemma sint_small: "uint w < 2 ^ (LENGTH('a) - 1) \<Longrightarrow> sint (w :: 'a::len word) = uint w"
  by (simp add: sint_uint signed_take_bit_int_eq_self_iff) (metis neg_le_0_iff_le order_trans uint_ge_0 zero_le_numeral zero_le_power)

lemma sint_add_small:
  fixes a b :: "'a::len word"
  assumes "- (2 ^ (LENGTH('a) - 1)) \<le> sint a + sint b" "sint a + sint b < 2 ^ (LENGTH('a) - 1)"
  shows "sint (a + b) = sint a + sint b"
  using assms by (simp add: sint_word_add signed_take_bit_int_eq_self_iff)

lemma sint_of_int_small:
  assumes "- (2 ^ (LENGTH('a) - 1)) \<le> k" "k < 2 ^ (LENGTH('a) - 1)"
  shows "sint (word_of_int k :: 'a::len word) = k"
  using assms by (simp add: sint_sbintrunc' signed_take_bit_int_eq_self_iff)

lemma uint_of_int_small:
  assumes "0 \<le> k" "k < 2 ^ LENGTH('a)"
  shows "uint (word_of_int k :: 'a::len word) = k"
  using assms by (simp add: uint_word_of_int)

lemma uint_ucast_small:
  assumes "uint w < 2 ^ LENGTH('b)"
  shows "uint (ucast (w :: 'a::len word) :: 'b::len word) = uint w"
  using assms by (simp add: unsigned_ucast_eq take_bit_int_eq_self_iff)

section \<open>State machines\<close>

text \<open>What the components with a step relation share: a property that every step keeps is kept by every sequence of steps.\<close>

locale stepwise_invariant =
  fixes step :: "'s \<Rightarrow> 's \<Rightarrow> bool" and inv :: "'s \<Rightarrow> bool"
  assumes kept: "step s s' \<Longrightarrow> inv s \<Longrightarrow> inv s'"
begin

lemma kept_along: "step\<^sup>*\<^sup>* s s' \<Longrightarrow> inv s \<Longrightarrow> inv s'"
  by (induction rule: rtranclp_induct) (auto intro: kept)

end

end
