(* ===== verification/Fid.thy ===== *)
theory Fid
  imports Prelude
begin

text \<open>
  The table of open files of a share (\<^verbatim>\<open>src/kernel/netsmb/smb_fid.c\<close>). The client hands out one 64 bit
  number for each pair of 64 bit ids an SMB 2/3 server uses: a hash of the pair. The table maps these
  numbers back; a slot is the list of the nodes whose numbers end in the same twelve bits. The table
  lock is held during every operation, so each is one step.
\<close>

section \<open>The table\<close>

record SMB2FID =
  fid_persistent :: u64
  fid_volatile :: u64

record fid_node =
  fid :: u64
  smb2_fid :: SMB2FID

record fid_table =
  ss_fid_collisions :: u64
  ss_fid_inserted :: u64
  ss_fid_max_iter :: u64
  ss_fid_table :: "nat \<Rightarrow> fid_node list"

abbreviation (input) SMB_FID_TABLE_SIZE :: nat where "SMB_FID_TABLE_SIZE \<equiv> 4096"
abbreviation (input) SMB_FID_TABLE_MASK :: u64 where "SMB_FID_TABLE_MASK \<equiv> 0xfff"
abbreviation (input) SMB2_CMPD_FID :: u64 where "SMB2_CMPD_FID \<equiv> 0xffffffffffffffff"

definition table_index :: "u64 \<Rightarrow> nat" where
  "table_index f = unat (f AND SMB_FID_TABLE_MASK)"

text \<open>The hash of the bytes of a number, by Bob Jenkins; \<open>step\<close> is the body of its loop.\<close>

definition one_at_a_time_step :: "byte \<Rightarrow> u32 \<Rightarrow> u32" where
  "one_at_a_time_step k hash =
     (let hash = hash + ucast k;
          hash = hash + push_bit 10 hash
      in hash XOR drop_bit 6 hash)"

definition smb_fid_one_at_a_time :: "byte list \<Rightarrow> u32" where
  "smb_fid_one_at_a_time key =
     (let hash = fold one_at_a_time_step key 0;
          hash = hash + push_bit 3 hash;
          hash = hash XOR drop_bit 11 hash
      in hash + push_bit 15 hash)"

text \<open>The number for a pair; the bytes of a 64 bit integer in memory start with the low one.\<close>

definition user_fid :: "SMB2FID \<Rightarrow> u64" where
  "user_fid f =
     push_bit 32 (ucast (smb_fid_one_at_a_time (le64 (fid_persistent f))))
       OR ucast (smb_fid_one_at_a_time (le64 (fid_volatile f)))"

definition smb_fid_count_all :: "fid_table \<Rightarrow> nat" where
  "smb_fid_count_all share = sum_list (map (\<lambda>i. length (ss_fid_table share i)) [0..<SMB_FID_TABLE_SIZE])"

definition smb_fid_delete_all :: "fid_table \<Rightarrow> fid_table" where
  "smb_fid_delete_all share =
     share\<lparr>ss_fid_table := (\<lambda>i. if i < SMB_FID_TABLE_SIZE then [] else ss_fid_table share i)\<rparr>"

definition smb_fid_insert_new_node :: "fid_table \<Rightarrow> fid_node \<Rightarrow> fid_table" where
  "smb_fid_insert_new_node share node =
     (let i = table_index (fid node); slot = ss_fid_table share i
      in share\<lparr>ss_fid_collisions := (if slot = [] then ss_fid_collisions share else ss_fid_collisions share + 1),
               ss_fid_table := (ss_fid_table share)(i := node # slot),
               ss_fid_inserted := ss_fid_inserted share + 1\<rparr>)"

text \<open>\<open>malloced\<close> says whether there was memory for the node.\<close>

definition smb_fid_get_user_fid :: "bool \<Rightarrow> fid_table \<Rightarrow> SMB2FID \<Rightarrow> (errno + u64) \<times> fid_table" where
  "smb_fid_get_user_fid malloced share f =
     (if malloced
      then (Inr (user_fid f), smb_fid_insert_new_node share \<lparr>fid = user_fid f, smb2_fid = f\<rparr>)
      else (Inl ENOMEM, share))"

text \<open>Walking a slot up to the first node with the number: how many nodes were passed, and the node.\<close>

primrec fid_walk :: "u64 \<Rightarrow> fid_node list \<Rightarrow> nat \<times> fid_node option" where
  "fid_walk f [] = (0, None)"
| "fid_walk f (node # nodes) =
     (if fid node = f then (0, Some node)
      else (let (iter, r) = fid_walk f nodes in (Suc iter, r)))"

definition note_iter :: "nat \<Rightarrow> fid_table \<Rightarrow> fid_table" where
  "note_iter iter share =
     (if of_nat iter \<ge> ss_fid_max_iter share then share\<lparr>ss_fid_max_iter := of_nat iter\<rparr> else share)"

definition smb_fid_get_kernel_fid :: "fid_table \<Rightarrow> u64 \<Rightarrow> bool \<Rightarrow> (errno + SMB2FID) \<times> fid_table" where
  "smb_fid_get_kernel_fid share f remove_fid =
     (if f = SMB2_CMPD_FID then
        (Inr \<lparr>fid_persistent = 0xffffffffffffffff, fid_volatile = 0xffffffffffffffff\<rparr>, share)
      else
        let i = table_index f
        in if i \<ge> SMB_FID_TABLE_SIZE then (Inl EINVAL, share)
           else
             (case fid_walk f (ss_fid_table share i) of
                (iter, None) \<Rightarrow> (Inl EINVAL, note_iter iter share)
              | (iter, Some node) \<Rightarrow>
                  (Inr (smb2_fid node),
                   note_iter iter
                     (if remove_fid
                      then share\<lparr>ss_fid_table := (ss_fid_table share)
                                   (i := take iter (ss_fid_table share i) @ drop (Suc iter) (ss_fid_table share i))\<rparr>
                      else share))))"

definition smb_fid_update_kernel_fid :: "fid_table \<Rightarrow> u64 \<Rightarrow> SMB2FID \<Rightarrow> errno \<times> fid_table" where
  "smb_fid_update_kernel_fid share f new_smb2_fid =
     (let i = table_index f
      in if i \<ge> SMB_FID_TABLE_SIZE then (EINVAL, share)
         else
           (case fid_walk f (ss_fid_table share i) of
              (iter, None) \<Rightarrow> (EINVAL, note_iter iter share)
            | (iter, Some node) \<Rightarrow>
                (0, note_iter iter
                      (share\<lparr>ss_fid_table := (ss_fid_table share)
                               (i := (ss_fid_table share i)[iter := node\<lparr>smb2_fid := new_smb2_fid\<rparr>])\<rparr>))))"

section \<open>What the table means\<close>

text \<open>
  The meaning of the table is a stack of pairs for each number: a lookup sees the top, inserting pushes,
  removing pops. A stack has more than one element only when two open files got the same number.
\<close>

definition fid_stack :: "fid_table \<Rightarrow> u64 \<Rightarrow> SMB2FID list" where
  "fid_stack share f = map smb2_fid (filter (\<lambda>n. fid n = f) (ss_fid_table share (table_index f)))"

lemma table_index_less: "table_index f < SMB_FID_TABLE_SIZE"
proof -
  have "f AND SMB_FID_TABLE_MASK \<le> SMB_FID_TABLE_MASK" by (rule word_and_le1)
  then have "unat (f AND SMB_FID_TABLE_MASK) \<le> unat (0xfff :: u64)" by (simp add: word_le_nat_alt)
  then show ?thesis by (simp add: table_index_def)
qed

text \<open>What a walk finds, in terms of the nodes with the number.\<close>

lemma fid_walk_spec:
  assumes "fid_walk f nodes = (iter, r)"
  shows "case r of
      None \<Rightarrow> filter (\<lambda>n. fid n = f) nodes = []
    | Some node \<Rightarrow> iter < length nodes \<and> nodes ! iter = node \<and> fid node = f \<and>
        filter (\<lambda>n. fid n = f) (take iter nodes) = []"
  using assms
proof (induction nodes arbitrary: iter r)
  case (Cons n nodes)
  obtain iter' r' where w: "fid_walk f nodes = (iter', r')" by fastforce
  with Cons.IH [OF w] Cons.prems show ?case
    by (auto split: if_splits option.splits)
qed auto

lemma note_iter_simps [simp]:
  "ss_fid_table (note_iter iter share) = ss_fid_table share" "fid_stack (note_iter iter share) = fid_stack share"
  by (simp_all add: note_iter_def fid_stack_def fun_eq_iff)

lemma fid_stack_insert:
  "fid_stack (smb_fid_insert_new_node share node) =
     (fid_stack share)(fid node := smb2_fid node # fid_stack share (fid node))"
  by (auto simp: fid_stack_def smb_fid_insert_new_node_def Let_def fun_eq_iff)

text \<open>A slot around the node that a walk has found.\<close>

lemma fid_walk_found:
  assumes "fid_walk f nodes = (iter, Some node)"
  obtains pre post where "nodes = pre @ node # post" "take iter nodes = pre" "drop (Suc iter) nodes = post"
    "filter (\<lambda>n. fid n = f) pre = []" "fid node = f" "length pre = iter"
proof -
  have w: "iter < length nodes" "nodes ! iter = node" "fid node = f" "filter (\<lambda>n. fid n = f) (take iter nodes) = []"
    using fid_walk_spec [OF assms] by auto
  show thesis
    using that [of "take iter nodes" "drop (Suc iter) nodes"] w id_take_nth_drop [OF w(1)] by simp
qed

definition top_of :: "'a list \<Rightarrow> errno + 'a" where
  "top_of xs = (case xs of [] \<Rightarrow> Inl EINVAL | x # _ \<Rightarrow> Inr x)"

lemma get_kernel_fid_refines:
  assumes "f \<noteq> SMB2_CMPD_FID" and "smb_fid_get_kernel_fid share f remove_fid = (r, share')"
  shows "r = top_of (fid_stack share f)"
    and "fid_stack share' = (if remove_fid then (fid_stack share)(f := tl (fid_stack share f)) else fid_stack share)"
proof -
  let ?slot = "ss_fid_table share (table_index f)"
  obtain iter n where w: "fid_walk f ?slot = (iter, n)" by fastforce
  have i: "\<not> table_index f \<ge> SMB_FID_TABLE_SIZE" using table_index_less [of f] by simp
  have "r = top_of (fid_stack share f) \<and>
    fid_stack share' = (if remove_fid then (fid_stack share)(f := tl (fid_stack share f)) else fid_stack share)"
  proof (cases n)
    case None
    then have "fid_stack share f = []" using fid_walk_spec [OF w] by (simp add: fid_stack_def)
    then show ?thesis
      using assms w None i by (auto simp: smb_fid_get_kernel_fid_def Let_def top_of_def fun_eq_iff)
  next
    case (Some node)
    with w have w: "fid_walk f ?slot = (iter, Some node)" by simp
    from fid_walk_found [OF w] obtain pre post where
      p: "?slot = pre @ node # post" "take iter ?slot = pre" "drop (Suc iter) ?slot = post"
        "filter (\<lambda>n. fid n = f) pre = []" "fid node = f" by metis
    have r: "r = Inr (smb2_fid node)" and sh: "ss_fid_table share' =
        (if remove_fid then (ss_fid_table share)(table_index f := pre @ post) else ss_fid_table share)"
      using assms w i p(2,3) by (auto simp: smb_fid_get_kernel_fid_def Let_def)
    have "fid_stack share f = smb2_fid node # map smb2_fid (filter (\<lambda>n. fid n = f) post)"
      using p by (simp add: fid_stack_def)
    moreover have "fid_stack share' = (if remove_fid then (fid_stack share)(f := tl (fid_stack share f)) else fid_stack share)"
      using sh p by (auto simp: fid_stack_def fun_eq_iff)
    ultimately show ?thesis using r by (simp add: top_of_def)
  qed
  then show "r = top_of (fid_stack share f)"
    "fid_stack share' = (if remove_fid then (fid_stack share)(f := tl (fid_stack share f)) else fid_stack share)"
    by simp_all
qed

lemma update_kernel_fid_refines:
  assumes "smb_fid_update_kernel_fid share f new = (e, share')"
  shows "e = (if fid_stack share f = [] then EINVAL else 0)"
    and "fid_stack share' =
      (if fid_stack share f = [] then fid_stack share else (fid_stack share)(f := new # tl (fid_stack share f)))"
proof -
  let ?slot = "ss_fid_table share (table_index f)"
  obtain iter n where w: "fid_walk f ?slot = (iter, n)" by fastforce
  have i: "\<not> table_index f \<ge> SMB_FID_TABLE_SIZE" using table_index_less [of f] by simp
  have "e = (if fid_stack share f = [] then EINVAL else 0) \<and> fid_stack share' =
      (if fid_stack share f = [] then fid_stack share else (fid_stack share)(f := new # tl (fid_stack share f)))"
  proof (cases n)
    case None
    then have "fid_stack share f = []" using fid_walk_spec [OF w] by (simp add: fid_stack_def)
    then show ?thesis using assms w None i by (auto simp: smb_fid_update_kernel_fid_def Let_def)
  next
    case (Some node)
    with w have w: "fid_walk f ?slot = (iter, Some node)" by simp
    from fid_walk_found [OF w] obtain pre post where
      p: "?slot = pre @ node # post" "filter (\<lambda>n. fid n = f) pre = []" "fid node = f" "length pre = iter" by metis
    have e: "e = 0" and sh: "ss_fid_table share' =
        (ss_fid_table share)(table_index f := pre @ node\<lparr>smb2_fid := new\<rparr> # post)"
      using assms w i p(1,4) by (auto simp: smb_fid_update_kernel_fid_def Let_def)
    have "fid_stack share f = smb2_fid node # map smb2_fid (filter (\<lambda>n. fid n = f) post)"
      using p by (simp add: fid_stack_def)
    moreover have "fid_stack share' = (fid_stack share)(f := new # tl (fid_stack share f))"
      using sh p by (auto simp: fid_stack_def fun_eq_iff)
    ultimately show ?thesis using e by simp
  qed
  then show "e = (if fid_stack share f = [] then EINVAL else 0)" "fid_stack share' =
      (if fid_stack share f = [] then fid_stack share else (fid_stack share)(f := new # tl (fid_stack share f)))"
    by simp_all
qed

lemma fid_stack_delete_all: "fid_stack (smb_fid_delete_all share) = (\<lambda>_. [])"
  using table_index_less by (simp add: fid_stack_def smb_fid_delete_all_def fun_eq_iff)

lemma fid_count_insert: "smb_fid_count_all (smb_fid_insert_new_node share node) = Suc (smb_fid_count_all share)"
proof -
  let ?i = "table_index (fid node)"
  have "(\<Sum>j<4096. length (((ss_fid_table share)(?i := node # ss_fid_table share ?i)) j)) =
      (\<Sum>j<4096. length (ss_fid_table share j) + (if j = ?i then 1 else 0))"
    by (rule sum.cong) auto
  also have "\<dots> = Suc (\<Sum>j<4096. length (ss_fid_table share j))"
    using table_index_less [of "fid node"] by (simp add: sum.distrib)
  finally show ?thesis
    by (simp add: smb_fid_count_all_def smb_fid_insert_new_node_def Let_def interv_sum_list_conv_sum_set_nat
        atLeast0LessThan)
qed

section \<open>The interface to the file system\<close>

text \<open>
  The file system keeps numbers for its open files and relies on one thing: an operation does not change
  the meaning of the numbers it is not about.
\<close>

locale handle_table =
  fixes look :: "'t \<Rightarrow> 'h \<Rightarrow> 'f" and run :: "'op \<Rightarrow> 't \<Rightarrow> 't" and about :: "'op \<Rightarrow> 'h set"
  assumes frame: "h \<notin> about op \<Longrightarrow> look (run op t) h = look t h"
begin

lemma frame_runs: "h \<notin> \<Union> (about ` set ops) \<Longrightarrow> look (fold run ops t) h = look t h"
  by (induction ops arbitrary: t) (simp_all add: frame)

end

datatype fid_op = Open bool SMB2FID | Use u64 | Close u64 | Update u64 SMB2FID | Count

fun fid_run :: "fid_op \<Rightarrow> fid_table \<Rightarrow> fid_table" where
  "fid_run (Open malloced f) share = snd (smb_fid_get_user_fid malloced share f)"
| "fid_run (Use h) share = snd (smb_fid_get_kernel_fid share h False)"
| "fid_run (Close h) share = snd (smb_fid_get_kernel_fid share h True)"
| "fid_run (Update h f) share = snd (smb_fid_update_kernel_fid share h f)"
| "fid_run Count share = share"

fun fid_about :: "fid_op \<Rightarrow> u64 set" where
  "fid_about (Open malloced f) = {user_fid f}"
| "fid_about (Use h) = {}"
| "fid_about (Close h) = {h}"
| "fid_about (Update h f) = {h}"
| "fid_about Count = {}"

lemma get_kernel_fid_cmpd: "snd (smb_fid_get_kernel_fid share SMB2_CMPD_FID r) = share"
  by (simp add: smb_fid_get_kernel_fid_def)

lemma fid_run_frame: "h \<notin> fid_about op \<Longrightarrow> fid_stack (fid_run op share) h = fid_stack share h"
proof (cases op)
  case (Use g)
  then show ?thesis
    using get_kernel_fid_refines(2) [of g share False] get_kernel_fid_cmpd [of share False]
    by (cases "g = SMB2_CMPD_FID") (auto simp: prod_eq_iff)
next
  case (Close g)
  moreover assume "h \<notin> fid_about op"
  ultimately show ?thesis
    using get_kernel_fid_refines(2) [of g share True] get_kernel_fid_cmpd [of share True]
    by (cases "g = SMB2_CMPD_FID") (auto simp: prod_eq_iff)
next
  case (Update g f)
  moreover assume "h \<notin> fid_about op"
  ultimately show ?thesis
    using update_kernel_fid_refines(2) [of share g f] by (auto simp: prod_eq_iff)
qed (auto simp: smb_fid_get_user_fid_def fid_stack_insert)

interpretation fids: handle_table fid_stack fid_run fid_about
  by unfold_locales (rule fid_run_frame)

section \<open>Properties\<close>

definition wit_table :: fid_table where
  "wit_table = \<lparr>ss_fid_collisions = 0, ss_fid_inserted = 0, ss_fid_max_iter = 0, ss_fid_table = (\<lambda>_. [])\<rparr>"

text \<open>C26: The hash table of open files implements a stack of server ids for each number the client hands
  out: opening a file pushes its id on the stack of its number and is counted, a lookup returns the top
  or EINVAL, closing pops it, a reconnect replaces the top, and no operation touches another number's
  stack. The hash slots, their collisions and the statistics cannot be seen.\<close>

theorem fid_table_refines_stacks:
  assumes "h \<noteq> SMB2_CMPD_FID"
  shows "fid_stack (snd (smb_fid_get_user_fid True share f)) =
           (fid_stack share)(user_fid f := f # fid_stack share (user_fid f)) \<and>
         smb_fid_count_all (snd (smb_fid_get_user_fid True share f)) = Suc (smb_fid_count_all share) \<and>
         fst (smb_fid_get_kernel_fid share h r) = top_of (fid_stack share h) \<and>
         fid_stack (snd (smb_fid_get_kernel_fid share h False)) = fid_stack share \<and>
         fid_stack (snd (smb_fid_get_kernel_fid share h True)) = (fid_stack share)(h := tl (fid_stack share h)) \<and>
         fid_stack (snd (smb_fid_update_kernel_fid share h f)) =
           (if fid_stack share h = [] then fid_stack share
            else (fid_stack share)(h := f # tl (fid_stack share h))) \<and>
         fst (smb_fid_update_kernel_fid share h f) = (if fid_stack share h = [] then EINVAL else 0) \<and>
         fid_stack (smb_fid_delete_all share) = (\<lambda>_. [])"
proof -
  note k = get_kernel_fid_refines [OF assms] and u = update_kernel_fid_refines [of share h f]
  have "fst (smb_fid_get_kernel_fid share h r) = top_of (fid_stack share h)"
    using k(1) [of share r] by (simp add: prod_eq_iff)
  moreover have "fid_stack (snd (smb_fid_get_kernel_fid share h False)) = fid_stack share"
    "fid_stack (snd (smb_fid_get_kernel_fid share h True)) = (fid_stack share)(h := tl (fid_stack share h))"
    using k(2) [of share False] k(2) [of share True] by (simp_all add: prod_eq_iff)
  ultimately show ?thesis
    using u fid_stack_insert fid_count_insert fid_stack_delete_all
    by (auto simp: smb_fid_get_user_fid_def prod_eq_iff)
qed

theorem fid_table_refines_stacks_witness:
  "fst (smb_fid_get_kernel_fid wit_table 5 False) = Inl EINVAL"
  using fid_table_refines_stacks [of 5 wit_table _ False] by (simp add: top_of_def fid_stack_def wit_table_def)

text \<open>The number of an open file keeps leading to that file: after any sequence of opens, lookups, closes
  and updates of other numbers, with no other open file hashed to the same number, the lookup still
  returns the id the file was opened with, and closing it then leaves the number without a file.\<close>

lemma open_file_stays_reachable:
  assumes "fid_stack share (user_fid f) = []" "user_fid f \<noteq> SMB2_CMPD_FID"
    and "user_fid f \<notin> \<Union> (fid_about ` set ops)"
    and "share' = fold fid_run ops (snd (smb_fid_get_user_fid True share f))"
  shows "fst (smb_fid_get_kernel_fid share' (user_fid f) r) = Inr f \<and>
         fid_stack (snd (smb_fid_get_kernel_fid share' (user_fid f) True)) (user_fid f) = []"
proof -
  have "fid_stack share' (user_fid f) = [f]"
    using fids.frame_runs [OF assms(3)] assms(1,4) by (simp add: smb_fid_get_user_fid_def fid_stack_insert)
  then show ?thesis
    using get_kernel_fid_refines [OF assms(2), of share' r] get_kernel_fid_refines [OF assms(2), of share' True]
    by (simp add: prod_eq_iff top_of_def)
qed

lemma le_enc_8:
  "le_enc 8 k = [of_nat (k mod 256), of_nat (k div 256 mod 256), of_nat (k div 256 div 256 mod 256),
     of_nat (k div 256 div 256 div 256 mod 256), of_nat (k div 256 div 256 div 256 div 256 mod 256),
     of_nat (k div 256 div 256 div 256 div 256 div 256 mod 256),
     of_nat (k div 256 div 256 div 256 div 256 div 256 div 256 mod 256),
     of_nat (k div 256 div 256 div 256 div 256 div 256 div 256 div 256 mod 256)]"
proof -
  have "(8 :: nat) = Suc (Suc (Suc (Suc (Suc (Suc (Suc (Suc 0)))))))" by simp
  then show ?thesis by (simp only: le_enc.simps)
qed

lemma le64_values:
  "le64 0x41 = [0x41, 0, 0, 0, 0, 0, 0, 0]" "le64 0x813f = [0x3f, 0x81, 0, 0, 0, 0, 0, 0]"
  "le64 1 = [1, 0, 0, 0, 0, 0, 0, 0]"
  by (simp_all add: le64_def le_enc_8)

lemma hash_values:
  "smb_fid_one_at_a_time (le64 0x41) = 0xe22fcc55" "smb_fid_one_at_a_time (le64 0x813f) = 0xe22fcc55"
  "smb_fid_one_at_a_time (le64 1) = 0x98adb391"
  by (simp_all add: le64_values smb_fid_one_at_a_time_def one_at_a_time_step_def)

lemma user_fid_values:
  "user_fid \<lparr>fid_persistent = 0x41, fid_volatile = 0x41\<rparr> = 0xe22fcc55e22fcc55"
  "user_fid \<lparr>fid_persistent = 0x813f, fid_volatile = 0x813f\<rparr> = 0xe22fcc55e22fcc55"
  "user_fid \<lparr>fid_persistent = 1, fid_volatile = 1\<rparr> = 0x98adb39198adb391"
  by (simp_all add: user_fid_def hash_values)

text \<open>C34: Two files that are open at the same time can get the same number. A server that numbers its files
  consecutively and uses the same number for both parts of the id reaches such a pair, 0x41 and 0x813f,
  in its first 33087 files. The second open then hides the first: what the client does with the first
  file's number goes to the second file, and closing the first file closes the second.\<close>

theorem open_files_collide:
  fixes share
  defines "a \<equiv> \<lparr>fid_persistent = 0x41, fid_volatile = 0x41\<rparr>"
    and "b \<equiv> \<lparr>fid_persistent = 0x813f, fid_volatile = 0x813f\<rparr>"
  defines "share1 \<equiv> snd (smb_fid_get_user_fid True share a)"
  defines "share2 \<equiv> snd (smb_fid_get_user_fid True share1 b)"
  shows "fst (smb_fid_get_user_fid True share a) = fst (smb_fid_get_user_fid True share1 b) \<and>
         fst (smb_fid_get_kernel_fid share2 (user_fid a) True) = Inr b \<and>
         fst (smb_fid_get_kernel_fid (snd (smb_fid_get_kernel_fid share2 (user_fid a) True)) (user_fid b) False) = Inr a"
proof -
  have h: "user_fid a = 0xe22fcc55e22fcc55" "user_fid b = 0xe22fcc55e22fcc55"
    unfolding a_def b_def by (rule user_fid_values)+
  have st: "fid_stack share2 (user_fid a) = b # a # fid_stack share (user_fid a)"
    by (simp add: share2_def share1_def smb_fid_get_user_fid_def fid_stack_insert h)
  have n: "user_fid a \<noteq> SMB2_CMPD_FID" by (simp add: h)
  note k = get_kernel_fid_refines [OF n, of share2 True]
  have st': "fid_stack (snd (smb_fid_get_kernel_fid share2 (user_fid a) True)) (user_fid b) =
      a # fid_stack share (user_fid a)"
    using k(2) st h by (simp add: prod_eq_iff)
  show ?thesis
    using k(1) st st' n h
      get_kernel_fid_refines(1) [of "user_fid b" "snd (smb_fid_get_kernel_fid share2 (user_fid a) True)" False]
    by (simp add: prod_eq_iff top_of_def smb_fid_get_user_fid_def share1_def)
qed

end
