(* ===== verification/Nic.thy ===== *)
theory Nic
  imports Prelude
begin

text \<open>
  The network interfaces of multichannel (\<^verbatim>\<open>src/kernel/netsmb/smb2_mc.h\<close>, \<^verbatim>\<open>smb2_mc_support.c\<close>): socket
  addresses, the lists of the interfaces of the client and of the server, ordered by speed, and the
  parsing of the two messages that bring them, the server's reply to a network interface query and the
  array the client's own notifier passes in. The connections between interfaces are in theory
  \<open>Multichannel\<close>.

  Interfaces and connections are linked by pointers in both directions, so they live in stores: maps
  from numbers to records, with the number of the next new object. \<open>mem\<close> says of an allocation, by
  that number, whether it succeeds.
\<close>

section \<open>Socket addresses\<close>

text \<open>
  A socket address is the bytes of the object that holds it: length, family, and the address at an offset
  that depends on the family. \<open>None\<close> is a read outside of the object.
\<close>

type_synonym sockaddr = "byte list"

abbreviation (input) AF_INET :: byte where "AF_INET \<equiv> 2"
abbreviation (input) AF_INET6 :: byte where "AF_INET6 \<equiv> 30"
abbreviation (input) AF_NETBIOS :: byte where "AF_NETBIOS \<equiv> 33"

definition sa_len :: "sockaddr \<Rightarrow> nat option" where
  "sa_len sa = (if length sa < 1 then None else Some (unat (sa ! 0)))"

definition sa_family :: "sockaddr \<Rightarrow> byte option" where
  "sa_family sa = (if length sa < 2 then None else Some (sa ! 1))"

text \<open>Where the address proper is, for the families that have one.\<close>

definition smb2_extract_ip_and_len :: "sockaddr \<Rightarrow> (nat \<times> nat) option option" where
  "smb2_extract_ip_and_len sa =
     do {
       family \<leftarrow> sa_family sa;
       Some (if family = AF_INET then Some (4, 4)
             else if family = AF_NETBIOS then Some (8, 4)
             else if family = AF_INET6 then Some (8, 16)
             else None)
     }"

definition smb2_mc_sockaddr_cmp :: "sockaddr \<Rightarrow> sockaddr \<Rightarrow> bool option" where
  "smb2_mc_sockaddr_cmp x y =
     do {
       ex \<leftarrow> smb2_extract_ip_and_len x;
       case ex of
         None \<Rightarrow> Some False
       | Some (x_addr, x_len) \<Rightarrow>
           do {
             ey \<leftarrow> smb2_extract_ip_and_len y;
             case ey of
               None \<Rightarrow> Some False
             | Some (y_addr, y_len) \<Rightarrow>
                 if x_len \<noteq> y_len then Some False
                 else do {
                   xs \<leftarrow> mem_read x x_addr x_len;
                   ys \<leftarrow> mem_read y y_addr y_len;
                   Some (xs = ys)
                 }
           }
     }"

section \<open>Interfaces\<close>

abbreviation (input) SMB2_MC_IPV4 :: byte where "SMB2_MC_IPV4 \<equiv> 1"
abbreviation (input) SMB2_MC_IPV6 :: byte where "SMB2_MC_IPV6 \<equiv> 2"
abbreviation (input) SMB2_MC_NIC_IN_IGNORELIST :: u32 where "SMB2_MC_NIC_IN_IGNORELIST \<equiv> 1"
abbreviation (input) SMB2_IF_CAP_RSS_CAPABLE :: u32 where "SMB2_IF_CAP_RSS_CAPABLE \<equiv> 1"
abbreviation (input) SMB2_IF_RSS_INDEX_MASK :: u64 where "SMB2_IF_RSS_INDEX_MASK \<equiv> 0xF00000000"
abbreviation (input) SMB2_IF_INDEX_MASK :: u64 where "SMB2_IF_INDEX_MASK \<equiv> 0xFFFFFFFF"
abbreviation (input) IFM_ETHER :: u32 where "IFM_ETHER \<equiv> 0x20"

text \<open>What one message entry says of an interface, with one address.\<close>

record network_nic_info =
  ni_next_offset :: u32
  ni_index :: u32
  ni_caps :: u32
  ni_link_speed :: u64
  ni_type :: u32
  ni_addr :: sockaddr

datatype nic_state =
  SMB2_MC_STATE_IDLE | SMB2_MC_STATE_ON_TRIAL | SMB2_MC_STATE_USED | SMB2_MC_STATE_DISCONNECTED

record nic =
  nic_index :: u64
  nic_link_speed :: u64
  nic_caps :: u32
  nic_type :: u32
  nic_ip_types :: byte
  nic_flags :: u32
  nic_state :: nic_state
  addr_list :: "sockaddr list"
  possible_connections :: "nat list"

text \<open>A new interface, all zero.\<close>

definition zero_nic :: nic where
  "zero_nic = \<lparr>nic_index = 0, nic_link_speed = 0, nic_caps = 0, nic_type = 0, nic_ip_types = 0,
     nic_flags = 0, nic_state = SMB2_MC_STATE_IDLE, addr_list = [], possible_connections = []\<rparr>"

primrec find_addr :: "sockaddr list \<Rightarrow> sockaddr \<Rightarrow> sockaddr option option" where
  "find_addr [] ip = Some None"
| "find_addr (a # as) ip =
     do {
       same \<leftarrow> smb2_mc_sockaddr_cmp a ip;
       if same then Some (Some a) else find_addr as ip
     }"

definition smb2_mc_does_ip_belong_to_interface :: "nic \<Rightarrow> sockaddr \<Rightarrow> sockaddr option option" where
  "smb2_mc_does_ip_belong_to_interface info ip = find_addr (addr_list info) ip"

text \<open>
  Adding an address. \<open>ok\<close> says whether there is memory for the copy; the copy takes as many bytes as the
  length field of the address says. The flag of the result says that something changed.
\<close>

definition smb2_mc_update_info_with_ip :: "bool \<Rightarrow> nic \<Rightarrow> sockaddr \<Rightarrow> (errno \<times> nic \<times> bool) option" where
  "smb2_mc_update_info_with_ip ok nic_info addr =
     do {
       known \<leftarrow> smb2_mc_does_ip_belong_to_interface nic_info addr;
       if known \<noteq> None then Some (0, nic_info, False)
       else if \<not> ok then Some (ENOMEM, nic_info, False)
       else do {
         n \<leftarrow> sa_len addr;
         new_addr \<leftarrow> mem_read addr 0 n;
         family \<leftarrow> sa_family addr;
         Some (0, nic_info\<lparr>nic_ip_types := nic_ip_types nic_info OR
                             (if family = AF_INET then SMB2_MC_IPV4 else SMB2_MC_IPV6),
                           addr_list := addr_list nic_info @ [new_addr]\<rparr>, True)
       }
     }"

section \<open>Lists of interfaces\<close>

type_synonym nic_store = "nat \<Rightarrow> nic"

definition smb2_mc_get_nic_by_index :: "nic_store \<Rightarrow> nat list \<Rightarrow> u64 \<Rightarrow> nat option" where
  "smb2_mc_get_nic_by_index nics list index = List.find (\<lambda>n. nic_index (nics n) = index) list"

primrec smb2_mc_get_nic_by_ip :: "nic_store \<Rightarrow> nat list \<Rightarrow> sockaddr \<Rightarrow> nat option option" where
  "smb2_mc_get_nic_by_ip nics [] ip = Some None"
| "smb2_mc_get_nic_by_ip nics (n # list) ip =
     (if nic_index (nics n) AND SMB2_IF_RSS_INDEX_MASK \<noteq> 0 then smb2_mc_get_nic_by_ip nics list ip
      else do {
        found \<leftarrow> smb2_mc_does_ip_belong_to_interface (nics n) ip;
        if found \<noteq> None then Some (Some n) else smb2_mc_get_nic_by_ip nics list ip
      })"

text \<open>Insertion before the first interface that is not faster.\<close>

primrec insert_by_speed :: "nic_store \<Rightarrow> nat \<Rightarrow> nat list \<Rightarrow> nat list" where
  "insert_by_speed nics n [] = [n]"
| "insert_by_speed nics n (i # is) =
     (if nic_link_speed (nics i) \<le> nic_link_speed (nics n) then n # i # is
      else i # insert_by_speed nics n is)"

text \<open>
  A list of interfaces with its counter, in a store. \<open>nt_next\<close> is the number of the next allocation, of an
  interface or of anything else; \<open>mem\<close> says which allocations succeed.
\<close>

record nic_table =
  nt_nics :: nic_store
  nt_list :: "nat list"
  nt_count :: u32
  nt_next :: nat

definition smb2_mc_insert_new_nic_by_speed :: "nic_table \<Rightarrow> nat \<Rightarrow> nic_table" where
  "smb2_mc_insert_new_nic_by_speed t n =
     t\<lparr>nt_list := insert_by_speed (nt_nics t) n (nt_list t), nt_count := nt_count t + 1\<rparr>"

definition smb2_mc_release_interface_list :: "nic_table \<Rightarrow> nic_table" where
  "smb2_mc_release_interface_list t = t\<lparr>nt_list := []\<rparr>"

text \<open>
  An entry of a message becomes an interface of the list, or updates the one with its index and adds its
  address. An update of an interface stays even when there is no memory for the address.
\<close>

definition set_nic_params :: "network_nic_info \<Rightarrow> u64 \<Rightarrow> bool \<Rightarrow> nic \<Rightarrow> nic" where
  "set_nic_params new_info index in_ignore_list nic_info =
     nic_info\<lparr>nic_caps := ni_caps new_info, nic_index := index,
       nic_link_speed := ni_link_speed new_info, nic_type := ni_type new_info,
       nic_flags := (if in_ignore_list then nic_flags nic_info OR SMB2_MC_NIC_IN_IGNORELIST
                     else nic_flags nic_info)\<rparr>"

definition smb2_mc_add_new_interface_info_to_list ::
  "(nat \<Rightarrow> bool) \<Rightarrow> nic_table \<Rightarrow> network_nic_info \<Rightarrow> u32 \<Rightarrow> bool \<Rightarrow> (errno \<times> nic_table) option" where
  "smb2_mc_add_new_interface_info_to_list mem t new_info rss_val in_ignore_list =
     (let index = push_bit 32 (ucast rss_val) OR ucast (ni_index new_info)
      in case smb2_mc_get_nic_by_index (nt_nics t) (nt_list t) index of
           Some n \<Rightarrow>
             do {
               (e, info, _) \<leftarrow> smb2_mc_update_info_with_ip (mem (nt_next t))
                  (set_nic_params new_info index in_ignore_list (nt_nics t n)) (ni_addr new_info);
               Some (e, t\<lparr>nt_nics := (nt_nics t)(n := info), nt_next := nt_next t + 1\<rparr>)
             }
         | None \<Rightarrow>
             if \<not> mem (nt_next t) then Some (ENOMEM, t\<lparr>nt_next := nt_next t + 1\<rparr>)
             else do {
               (e, info, _) \<leftarrow> smb2_mc_update_info_with_ip (mem (nt_next t + 1))
                  (set_nic_params new_info index in_ignore_list zero_nic) (ni_addr new_info);
               let n = nt_next t; t = t\<lparr>nt_next := nt_next t + 2\<rparr> in
               if e \<noteq> 0 then Some (e, t)
               else Some (0, smb2_mc_insert_new_nic_by_speed (t\<lparr>nt_nics := (nt_nics t)(n := info)\<rparr>) n)
             })"

text \<open>
  The copies of an interface with receive side scaling, one for each further channel; each is made in an
  object of its own that has room for 128 bytes of address. The flag says that there was no memory for
  such an object, which ends the parsing; an error of the addition ends only this loop.
\<close>

primrec rss_nics ::
  "(nat \<Rightarrow> bool) \<Rightarrow> network_nic_info \<Rightarrow> bool \<Rightarrow> u32 list \<Rightarrow> nic_table \<Rightarrow> (bool \<times> errno \<times> nic_table) option" where
  "rss_nics mem info in_ignore_list [] t = Some (False, 0, t)"
| "rss_nics mem info in_ignore_list (i # is) t =
     (if \<not> mem (nt_next t) then Some (True, ENOMEM, t\<lparr>nt_next := nt_next t + 1\<rparr>)
      else do {
        (e, t) \<leftarrow> smb2_mc_add_new_interface_info_to_list mem (t\<lparr>nt_next := nt_next t + 1\<rparr>)
                    (info\<lparr>ni_addr := take 128 (ni_addr info)\<rparr>) i in_ignore_list;
        if e \<noteq> 0 then Some (False, e, t) else rss_nics mem info in_ignore_list is t
      })"

definition rss_indexes :: "u32 \<Rightarrow> u32 list" where
  "rss_indexes channels = map of_nat [1 ..< unat channels]"

section \<open>The reply of the server\<close>

definition smb2_mc_protocol_family_to_inet :: "u16 \<Rightarrow> byte" where
  "smb2_mc_protocol_family_to_inet family = (if family = 2 then AF_INET else if family = 0x17 then AF_INET6 else 0)"

text \<open>
  The routines that read a value and advance, or fail when fewer bytes are left. A place in the message is
  the rest of the message from there.
\<close>

definition smb2_mc_safe_buffer_get_and_advance_16 :: "byte list \<Rightarrow> (u16 \<times> byte list) option" where
  "smb2_mc_safe_buffer_get_and_advance_16 buff =
     (if length buff < 2 then None else Some (of_nat (le_dec (take 2 buff)), drop 2 buff))"

definition smb2_mc_safe_buffer_get_and_advance_32 :: "byte list \<Rightarrow> (u32 \<times> byte list) option" where
  "smb2_mc_safe_buffer_get_and_advance_32 buff =
     (if length buff < 4 then None else Some (of_nat (le_dec (take 4 buff)), drop 4 buff))"

definition smb2_mc_safe_buffer_get_and_advance_64 :: "byte list \<Rightarrow> (u64 \<times> byte list) option" where
  "smb2_mc_safe_buffer_get_and_advance_64 buff =
     (if length buff < 8 then None else Some (of_nat (le_dec (take 8 buff)), drop 8 buff))"

definition smb2_mc_safe_buffer_get_and_advance_in6_addr :: "byte list \<Rightarrow> (byte list \<times> byte list) option" where
  "smb2_mc_safe_buffer_get_and_advance_in6_addr buff =
     (if length buff < 16 then None else Some (take 16 buff, drop 16 buff))"

text \<open>
  One entry of the reply, read into the entry that the loop uses for all of them: the offset of the next
  entry and whether the family of the address is one the client knows. \<open>None\<close> is the jump to
  \<^verbatim>\<open>bad_offset\<close>.
\<close>

definition server_entry :: "network_nic_info \<Rightarrow> byte list \<Rightarrow> (u32 \<times> bool \<times> network_nic_info) option" where
  "server_entry new_info interface_data =
     do {
       (next_offset, b) \<leftarrow> smb2_mc_safe_buffer_get_and_advance_32 interface_data;
       (index, b) \<leftarrow> smb2_mc_safe_buffer_get_and_advance_32 b;
       (caps, b) \<leftarrow> smb2_mc_safe_buffer_get_and_advance_32 b;
       (reserved, b) \<leftarrow> smb2_mc_safe_buffer_get_and_advance_32 b;
       (speed, b) \<leftarrow> smb2_mc_safe_buffer_get_and_advance_64 b;
       (family, b) \<leftarrow> smb2_mc_safe_buffer_get_and_advance_16 b;
       let new_info = new_info\<lparr>ni_index := index, ni_caps := caps, ni_link_speed := speed,
             ni_addr := mem_write 1 [smb2_mc_protocol_family_to_inet family] (ni_addr new_info)\<rparr> in
       if family = 2 then
         do {
           (port, b) \<leftarrow> smb2_mc_safe_buffer_get_and_advance_16 b;
           (ip, b) \<leftarrow> smb2_mc_safe_buffer_get_and_advance_32 b;
           Some (next_offset, True, new_info\<lparr>ni_addr :=
             mem_write 4 (le32 ip) (mem_write 2 (le16 port) (mem_write 0 [0x10] (ni_addr new_info)))\<rparr>)
         }
       else if family = 0x17 then
         do {
           (port, b) \<leftarrow> smb2_mc_safe_buffer_get_and_advance_16 b;
           (flow_info, b) \<leftarrow> smb2_mc_safe_buffer_get_and_advance_32 b;
           (ip, b) \<leftarrow> smb2_mc_safe_buffer_get_and_advance_in6_addr b;
           (scope_id, b) \<leftarrow> smb2_mc_safe_buffer_get_and_advance_32 b;
           Some (next_offset, True, new_info\<lparr>ni_addr :=
             mem_write 8 ip (mem_write 2 (le16 port) (mem_write 0 [0x1C] (ni_addr new_info)))\<rparr>)
         }
       else Some (next_offset, False, new_info)
     }"

text \<open>
  What the loop does with an entry. The first component is the error with which the loop is left;
  when an interface cannot be added the loop is left without one, since the update of the table that
  follows overwrites the error.
\<close>

definition server_add ::
  "(nat \<Rightarrow> bool) \<Rightarrow> u32 \<Rightarrow> network_nic_info \<Rightarrow> nic_table \<Rightarrow> (errno option \<times> nic_table) option" where
  "server_add mem rss new_info t =
     do {
       (e, t) \<leftarrow> smb2_mc_add_new_interface_info_to_list mem t new_info 0 False;
       if e \<noteq> 0 then Some (Some 0, t)
       else if ni_caps new_info AND SMB2_IF_CAP_RSS_CAPABLE \<noteq> 0 then
         do {
           (stop, e, t) \<leftarrow> rss_nics mem new_info False (rss_indexes rss) t;
           Some (if stop then Some e else None, t)
         }
       else Some (None, t)
     }"

lemma server_entry_nonempty: "server_entry info b = Some r \<Longrightarrow> b \<noteq> []"
  by (auto simp: server_entry_def smb2_mc_safe_buffer_get_and_advance_32_def)

function server_loop ::
  "(nat \<Rightarrow> bool) \<Rightarrow> u32 \<Rightarrow> network_nic_info \<Rightarrow> nic_table \<Rightarrow> byte list \<Rightarrow> (errno \<times> nic_table) option" where
  "server_loop mem rss new_info t buf =
     (case server_entry new_info buf of
        None \<Rightarrow> Some (EINVAL, t)
      | Some (next_offset, known, new_info') \<Rightarrow>
          (case (if known then server_add mem rss new_info' t else Some (None, t)) of
             None \<Rightarrow> None
           | Some (Some e, t') \<Rightarrow> Some (e, t')
           | Some (None, t') \<Rightarrow>
               if next_offset = 0 then Some (0, t')
               else if length buf < unat next_offset then Some (EINVAL, t')
               else server_loop mem rss new_info' t' (drop (unat next_offset) buf)))"
  by pat_completeness auto

termination
  by (relation "measure (\<lambda>(mem, rss, new_info, t, buf). length buf)")
    (auto dest: server_entry_nonempty simp: unat_gt_0)

definition zero_nic_info :: network_nic_info where
  "zero_nic_info = \<lparr>ni_next_offset = 0, ni_index = 0, ni_caps = 0, ni_link_speed = 0, ni_type = 0,
     ni_addr = replicate 128 0\<rparr>"

text \<open>Parsing of a reply into a new list of interfaces.\<close>

definition parse_server_reply ::
  "(nat \<Rightarrow> bool) \<Rightarrow> u32 \<Rightarrow> nic_table \<Rightarrow> byte list \<Rightarrow> (errno \<times> nic_table) option" where
  "parse_server_reply mem rss t buf =
     (if \<not> mem (nt_next t) then Some (ENOMEM, t\<lparr>nt_next := nt_next t + 1\<rparr>)
      else server_loop mem rss zero_nic_info (t\<lparr>nt_next := nt_next t + 1\<rparr>) buf)"

section \<open>The array of the client\<close>

text \<open>
  An entry of the array, an object of 160 bytes with the address at 32; the address that is passed on
  reaches to the end of the array.
\<close>

definition client_entry :: "byte list \<Rightarrow> nat \<Rightarrow> network_nic_info" where
  "client_entry array off =
     (let fld = (\<lambda>i n. le_dec (take n (drop (off + i) array)))
      in \<lparr>ni_next_offset = of_nat (fld 0 4), ni_index = of_nat (fld 4 4), ni_caps = of_nat (fld 8 4),
          ni_link_speed = of_nat (fld 16 8), ni_type = of_nat (fld 24 4), ni_addr = drop (off + 32) array\<rparr>)"

text \<open>The entry with its capabilities as the client wants them.\<close>

definition client_info_entry :: "bool \<Rightarrow> byte list \<Rightarrow> nat \<Rightarrow> network_nic_info" where
  "client_info_entry force array off =
     (let entry = client_entry array off
      in if force then entry\<lparr>ni_caps := ni_caps entry OR SMB2_IF_CAP_RSS_CAPABLE\<rparr> else entry)"

primrec client_loop ::
  "(nat \<Rightarrow> bool) \<Rightarrow> u32 \<Rightarrow> u32 list \<Rightarrow> bool \<Rightarrow> byte list \<Rightarrow> nat \<Rightarrow> nat \<Rightarrow> errno \<Rightarrow> nic_table \<Rightarrow>
     (errno \<times> nic_table) option" where
  "client_loop mem rss ignorelist force array 0 off error t = Some (error, t)"
| "client_loop mem rss ignorelist force array (Suc counter) off error t =
     (if length array < off + 160 then Some (EINVAL, t)
      else
        let entry = client_info_entry force array off;
            in_ignorelist = (ni_index entry \<in> set ignorelist)
        in do {
          uSockLen \<leftarrow> sa_len (ni_addr entry);
          if length array < off + 34 + uSockLen then Some (EINVAL, t)
          else do {
            (error, t) \<leftarrow> smb2_mc_add_new_interface_info_to_list mem t entry 0 in_ignorelist;
            if error \<noteq> 0 then Some (error, smb2_mc_release_interface_list t)
            else do {
              (stop, error, t) \<leftarrow>
                (if \<not> in_ignorelist \<and> ni_caps entry AND SMB2_IF_CAP_RSS_CAPABLE \<noteq> 0
                 then rss_nics mem entry in_ignorelist (rss_indexes rss) t
                 else Some (False, 0, t));
              if stop then Some (error, t)
              else if unat (ni_next_offset entry) < 160 then Some (EINVAL, t)
              else client_loop mem rss ignorelist force array counter (off + unat (ni_next_offset entry)) error t
            }
          }
        })"

text \<open>
  The array is copied in from user space; the copy, or the allocation for it, may fail.
\<close>

definition smb2_mc_parse_client_interface_array ::
  "(nat \<Rightarrow> bool) \<Rightarrow> u32 \<Rightarrow> u32 list \<Rightarrow> bool \<Rightarrow> errno + byte list \<Rightarrow> u32 \<Rightarrow> nic_table \<Rightarrow>
     (errno \<times> nic_table) option" where
  "smb2_mc_parse_client_interface_array mem rss ignorelist force array interface_instance_count t =
     (case array of
        Inl error \<Rightarrow> Some (error, t)
      | Inr client_info_array \<Rightarrow>
          client_loop mem rss ignorelist force client_info_array (unat interface_instance_count) 0 0 t)"

section \<open>Well-formed addresses\<close>

text \<open>The bytes an address of a family needs, and the address proper.\<close>

definition sa_need :: "byte \<Rightarrow> nat" where
  "sa_need family = (if family = AF_INET then 8 else if family = AF_NETBIOS then 12
                     else if family = AF_INET6 then 24 else 2)"

definition sa_ok :: "sockaddr \<Rightarrow> bool" where
  "sa_ok sa \<longleftrightarrow> 2 \<le> length sa \<and> sa_need (sa ! 1) \<le> length sa"

definition ip_of :: "sockaddr \<Rightarrow> byte list option" where
  "ip_of sa = (if sa ! 1 = AF_INET then Some (take 4 (drop 4 sa))
               else if sa ! 1 = AF_NETBIOS then Some (take 4 (drop 8 sa))
               else if sa ! 1 = AF_INET6 then Some (take 16 (drop 8 sa)) else None)"

text \<open>An address in a message: its length field covers what its family needs and is inside the object.\<close>

definition addr_ok :: "sockaddr \<Rightarrow> bool" where
  "addr_ok sa \<longleftrightarrow> 2 \<le> length sa \<and> unat (sa ! 0) \<le> length sa \<and> sa_need (sa ! 1) \<le> unat (sa ! 0)"

lemma sa_need_ge2: "2 \<le> sa_need f"
  by (simp add: sa_need_def)

lemma addr_ok_sa_ok: "addr_ok sa \<Longrightarrow> sa_ok sa"
  by (simp add: addr_ok_def sa_ok_def)

lemma addr_ok_copy:
  assumes "addr_ok sa"
  shows "addr_ok (take (unat (sa ! 0)) sa)" "ip_of (take (unat (sa ! 0)) sa) = ip_of sa"
proof -
  have n: "1 < unat (sa ! 0)" "unat (sa ! 0) \<le> length sa" "sa_need (sa ! 1) \<le> unat (sa ! 0)"
    using assms sa_need_ge2 [of "sa ! 1"] by (auto simp: addr_ok_def)
  then show "addr_ok (take (unat (sa ! 0)) sa)"
    by (simp add: addr_ok_def)
  show "ip_of (take (unat (sa ! 0)) sa) = ip_of sa"
    using n by (auto simp: ip_of_def sa_need_def drop_take min_def)
qed

lemma sockaddr_cmp_ip:
  assumes "sa_ok x" "sa_ok y"
  shows "smb2_mc_sockaddr_cmp x y = Some (ip_of x \<noteq> None \<and> ip_of x = ip_of y)"
proof -
  have l: "2 \<le> length x" "2 \<le> length y" "sa_need (x ! 1) \<le> length x" "sa_need (y ! 1) \<le> length y"
    using assms by (auto simp: sa_ok_def)
  have n: "24 \<le> length v \<Longrightarrow> take 4 (drop k u) \<noteq> take 16 (drop 8 v)" for u v :: sockaddr and k
    by (rule notI, drule arg_cong [of _ _ length]) auto
  show ?thesis
    using l n [of y _ x] n [of x _ y, symmetric]
    by (auto simp: smb2_mc_sockaddr_cmp_def smb2_extract_ip_and_len_def sa_family_def mem_read_def
        ip_of_def sa_need_def split: if_splits)
qed

lemma find_addr_ip:
  assumes "\<forall>a \<in> set as. sa_ok a" "sa_ok ip"
  shows "find_addr as ip = Some (List.find (\<lambda>a. ip_of a \<noteq> None \<and> ip_of a = ip_of ip) as)"
  using assms(1) by (induction as) (auto simp: sockaddr_cmp_ip assms(2))

lemma find_eq_None: "List.find P xs = None \<longleftrightarrow> (\<forall>x \<in> set xs. \<not> P x)"
  by (auto simp: find_None_iff)

definition nic_ok :: "nic \<Rightarrow> bool" where
  "nic_ok nic_info \<longleftrightarrow> (\<forall>a \<in> set (addr_list nic_info). addr_ok a)"

definition nic_ips :: "nic \<Rightarrow> byte list option list" where
  "nic_ips nic_info = map ip_of (addr_list nic_info)"

text \<open>The addresses of an interface after one more.\<close>

definition add_ip :: "byte list option \<Rightarrow> byte list option list \<Rightarrow> byte list option list" where
  "add_ip ip ips = (if ip \<noteq> None \<and> ip \<in> set ips then ips else ips @ [ip])"

lemma update_info_with_ip:
  assumes "nic_ok nic_info" "addr_ok addr"
  obtains e info ch where
    "smb2_mc_update_info_with_ip ok nic_info addr = Some (e, info, ch)" "nic_ok info"
    "\<exists>ts as. info = nic_info\<lparr>nic_ip_types := ts, addr_list := as\<rparr>"
    "e = 0 \<and> nic_ips info = add_ip (ip_of addr) (nic_ips nic_info) \<or> e = ENOMEM \<and> \<not> ok \<and> info = nic_info"
    "ch \<longleftrightarrow> info \<noteq> nic_info" 
proof -
  let ?P = "\<lambda>a. ip_of a \<noteq> None \<and> ip_of a = ip_of addr"
  have f: "smb2_mc_does_ip_belong_to_interface nic_info addr = Some (List.find ?P (addr_list nic_info))"
    using assms by (simp add: smb2_mc_does_ip_belong_to_interface_def find_addr_ip nic_ok_def addr_ok_sa_ok)
  have same: "\<exists>ts as. nic_info = nic_info\<lparr>nic_ip_types := ts, addr_list := as\<rparr>"
    by (intro exI [of _ "nic_ip_types nic_info"] exI [of _ "addr_list nic_info"]) simp
  show thesis
  proof (cases "\<exists>a \<in> set (addr_list nic_info). ?P a")
    case True
    then have "List.find ?P (addr_list nic_info) \<noteq> None" by (auto simp: find_eq_None)
    then have "smb2_mc_update_info_with_ip ok nic_info addr = Some (0, nic_info, False)"
      by (simp add: smb2_mc_update_info_with_ip_def f)
    moreover have "ip_of addr \<noteq> None \<and> ip_of addr \<in> set (nic_ips nic_info)"
      using True by (metis (no_types, lifting) imageI list.set_map nic_ips_def)
    ultimately show thesis
      using assms(1) that [OF _ _ same, of 0 False] by (auto simp: add_ip_def)
  next
    case False
    then have "List.find ?P (addr_list nic_info) = None" by (auto simp: find_eq_None)
    then have none: "smb2_mc_does_ip_belong_to_interface nic_info addr = Some None" by (simp only: f)
    have known: "\<not> (ip_of addr \<noteq> None \<and> ip_of addr \<in> set (nic_ips nic_info))"
      using False by (auto simp: nic_ips_def)
    have len: "sa_len addr = Some (unat (addr ! 0))" "sa_family addr = Some (addr ! 1)"
      "mem_read addr 0 (unat (addr ! 0)) = Some (take (unat (addr ! 0)) addr)"
      using assms(2) by (auto simp: addr_ok_def sa_len_def sa_family_def mem_read_def)
    let ?new = "nic_info\<lparr>nic_ip_types := nic_ip_types nic_info OR
        (if addr ! 1 = AF_INET then SMB2_MC_IPV4 else SMB2_MC_IPV6),
        addr_list := addr_list nic_info @ [take (unat (addr ! 0)) addr]\<rparr>"
    have eq: "smb2_mc_update_info_with_ip ok nic_info addr =
        Some (if ok then (0, ?new, True) else (ENOMEM, nic_info, False))"
      by (simp add: smb2_mc_update_info_with_ip_def none len)
    have "nic_ok ?new" "nic_ips ?new = add_ip (ip_of addr) (nic_ips nic_info)"
      using assms known addr_ok_copy [OF assms(2)] by (auto simp: nic_ok_def nic_ips_def add_ip_def)
    moreover have "?new \<noteq> nic_info"
      by (rule notI, drule arg_cong [of _ _ "\<lambda>n. length (addr_list n)"]) simp
    ultimately show thesis
      using assms(1) eq that [of 0 ?new True] that [OF _ _ same, of ENOMEM False]
      by (cases ok) auto
  qed
qed

section \<open>Well-formed lists of interfaces\<close>

lemma insert_by_speed_list [simp]:
  "set (insert_by_speed nics n list) = insert n (set list)"
  "length (insert_by_speed nics n list) = Suc (length list)"
  "distinct (insert_by_speed nics n list) \<longleftrightarrow> n \<notin> set list \<and> distinct list"
  by (induction list) auto

text \<open>
  No interface is listed twice, none has the index of another, each has an address and its addresses are
  well formed, and the counter is the length of the list.
\<close>

definition nt_wf :: "nic_table \<Rightarrow> bool" where
  "nt_wf t \<longleftrightarrow> distinct (nt_list t) \<and> inj_on (\<lambda>n. nic_index (nt_nics t n)) (set (nt_list t)) \<and>
     (\<forall>n \<in> set (nt_list t). n < nt_next t \<and> nic_ok (nt_nics t n) \<and> addr_list (nt_nics t n) \<noteq> []) \<and>
     nt_count t = of_nat (length (nt_list t))"

lemma get_nic_Some:
  assumes "inj_on (\<lambda>n. nic_index (nics n)) (set list)"
  shows "smb2_mc_get_nic_by_index nics list index = Some n \<longleftrightarrow> n \<in> set list \<and> nic_index (nics n) = index"
proof
  assume "smb2_mc_get_nic_by_index nics list index = Some n"
  then show "n \<in> set list \<and> nic_index (nics n) = index"
    by (auto simp: smb2_mc_get_nic_by_index_def find_Some_iff)
next
  assume n: "n \<in> set list \<and> nic_index (nics n) = index"
  then obtain m where m: "smb2_mc_get_nic_by_index nics list index = Some m"
    by (cases "smb2_mc_get_nic_by_index nics list index")
      (auto simp: smb2_mc_get_nic_by_index_def find_eq_None)
  then have "m \<in> set list" "nic_index (nics m) = index"
    by (auto simp: smb2_mc_get_nic_by_index_def find_Some_iff)
  with n m assms show "smb2_mc_get_nic_by_index nics list index = Some n"
    by (auto dest: inj_onD)
qed

lemma get_nic_None:
  "smb2_mc_get_nic_by_index nics list index = None \<longleftrightarrow> (\<forall>n \<in> set list. nic_index (nics n) \<noteq> index)"
  by (auto simp: smb2_mc_get_nic_by_index_def find_eq_None)

text \<open>What a list says of each index: capabilities, speed, type, flags and addresses.\<close>

type_synonym nic_abs = "u32 \<times> u64 \<times> u32 \<times> u32 \<times> byte list option list"

definition nic_abs :: "nic \<Rightarrow> nic_abs" where
  "nic_abs n = (nic_caps n, nic_link_speed n, nic_type n, nic_flags n, nic_ips n)"

definition nic_view :: "nic_table \<Rightarrow> u64 \<Rightarrow> nic_abs option" where
  "nic_view t index =
     map_option (\<lambda>n. nic_abs (nt_nics t n)) (smb2_mc_get_nic_by_index (nt_nics t) (nt_list t) index)"

text \<open>What a list says after it learns of an interface with one address.\<close>

definition learn ::
  "u32 \<Rightarrow> bool \<Rightarrow> u32 \<Rightarrow> u32 \<Rightarrow> u64 \<Rightarrow> u32 \<Rightarrow> byte list option \<Rightarrow> (u64 \<Rightarrow> nic_abs option) \<Rightarrow> (u64 \<Rightarrow> nic_abs option)"
where
  "learn rss ign if_index caps speed type ip v =
     (let index = push_bit 32 (ucast rss) OR ucast if_index;
          (flags, ips) = (case v index of None \<Rightarrow> (0, []) | Some (_, _, _, flags, ips) \<Rightarrow> (flags, ips))
      in v(index \<mapsto> (caps, speed, type, if ign then flags OR SMB2_MC_NIC_IN_IGNORELIST else flags, add_ip ip ips)))"

definition spec_add ::
  "u32 \<Rightarrow> bool \<Rightarrow> network_nic_info \<Rightarrow> (u64 \<Rightarrow> nic_abs option) \<Rightarrow> (u64 \<Rightarrow> nic_abs option)" where
  "spec_add rss ign info =
     learn rss ign (ni_index info) (ni_caps info) (ni_link_speed info) (ni_type info) (ip_of (ni_addr info))"

lemma set_nic_params_simps [simp]:
  "nic_index (set_nic_params info i ign n) = i"
  "nic_ok (set_nic_params info i ign n) = nic_ok n"
  "addr_list (set_nic_params info i ign n) = addr_list n"
  "nic_ips (set_nic_params info i ign n) = nic_ips n"
  "nic_caps (set_nic_params info i ign n) = ni_caps info"
  "nic_link_speed (set_nic_params info i ign n) = ni_link_speed info"
  "nic_type (set_nic_params info i ign n) = ni_type info"
  "nic_flags (set_nic_params info i ign n) =
     (if ign then nic_flags n OR SMB2_MC_NIC_IN_IGNORELIST else nic_flags n)"
  by (simp_all add: set_nic_params_def nic_ok_def nic_ips_def)

lemma zero_nic_ok: "nic_ok zero_nic" "nic_ips zero_nic = []" "nic_flags zero_nic = 0"
  by (simp_all add: zero_nic_def nic_ok_def nic_ips_def)

lemma nic_ips_Nil [simp]: "nic_ips n = [] \<longleftrightarrow> addr_list n = []"
  by (simp add: nic_ips_def)

lemma add_ip_nonempty [simp]: "add_ip ip ips \<noteq> []"
  by (auto simp: add_ip_def)

text \<open>An interface that is changed in place, and one that is new.\<close>

lemma nt_wf_update:
  assumes "nt_wf t" "n \<in> set (nt_list t)" "nic_index info = nic_index (nt_nics t n)" "nic_ok info"
    "addr_list info \<noteq> []" "nt_next t \<le> k"
  shows "nt_wf (t\<lparr>nt_nics := (nt_nics t)(n := info), nt_next := k\<rparr>)"
    and "nic_view (t\<lparr>nt_nics := (nt_nics t)(n := info), nt_next := k\<rparr>) =
           (nic_view t)(nic_index info \<mapsto> nic_abs info)"
proof -
  let ?t = "t\<lparr>nt_nics := (nt_nics t)(n := info), nt_next := k\<rparr>"
  have ix: "nic_index (nt_nics ?t m) = nic_index (nt_nics t m)" for m
    using assms(3) by simp
  have inj: "inj_on (\<lambda>n. nic_index (nt_nics ?t n)) (set (nt_list t))"
    "inj_on (\<lambda>n. nic_index (nt_nics t n)) (set (nt_list t))"
    using assms(1) by (simp_all only: ix) (simp_all add: nt_wf_def)
  have "\<forall>m \<in> set (nt_list t). m < k"
    using assms(1,6) by (auto simp: nt_wf_def intro: less_le_trans)
  then show "nt_wf ?t"
    using assms(1,4,5) inj by (auto simp: nt_wf_def)
  have get: "smb2_mc_get_nic_by_index (nt_nics ?t) (nt_list t) i = smb2_mc_get_nic_by_index (nt_nics t) (nt_list t) i" for i
    by (simp only: smb2_mc_get_nic_by_index_def ix)
  have n: "smb2_mc_get_nic_by_index (nt_nics t) (nt_list t) i = Some n \<longleftrightarrow> i = nic_index info" for i
    using assms(2,3) by (auto simp: get_nic_Some [OF inj(2)])
  show "nic_view ?t = (nic_view t)(nic_index info \<mapsto> nic_abs info)"
  proof
    fix i
    show "nic_view ?t i = ((nic_view t)(nic_index info \<mapsto> nic_abs info)) i"
    proof (cases "i = nic_index info")
      case True
      then show ?thesis using get [of i] n [of i] by (simp add: nic_view_def)
    next
      case False
      then show ?thesis using get [of i] n [of i]
        by (cases "smb2_mc_get_nic_by_index (nt_nics t) (nt_list t) i") (auto simp: nic_view_def)
    qed
  qed
qed

lemma nt_wf_new:
  assumes "nt_wf t" "\<forall>m \<in> set (nt_list t). nic_index (nt_nics t m) \<noteq> nic_index info" "nic_ok info"
    "addr_list info \<noteq> []"
  defines "n \<equiv> nt_next t"
  defines "t' \<equiv> smb2_mc_insert_new_nic_by_speed (t\<lparr>nt_next := n + 2, nt_nics := (nt_nics t)(n := info)\<rparr>) n"
  shows "nt_wf t'" "nic_view t' = (nic_view t)(nic_index info \<mapsto> nic_abs info)"
proof -
  have new: "n \<notin> set (nt_list t)" and less: "\<forall>m \<in> set (nt_list t). m < n"
    using assms(1) by (auto simp: nt_wf_def n_def)
  have inj: "inj_on (\<lambda>m. nic_index (nt_nics t m)) (set (nt_list t))"
    using assms(1) by (simp add: nt_wf_def)
  have inj': "inj_on (\<lambda>m. nic_index (((nt_nics t)(n := info)) m)) (insert n (set (nt_list t)))"
    using inj new assms(2) by (auto simp: inj_on_def)
  then show wf: "nt_wf t'"
    using assms(1,3,4) new less
    by (auto simp: t'_def smb2_mc_insert_new_nic_by_speed_def nt_wf_def)
  have iff: "smb2_mc_get_nic_by_index (nt_nics t') (nt_list t') i = Some m \<longleftrightarrow>
      m = n \<and> i = nic_index info \<or> smb2_mc_get_nic_by_index (nt_nics t) (nt_list t) i = Some m" for i m
    using new inj' by (subst get_nic_Some)
      (auto simp: t'_def smb2_mc_insert_new_nic_by_speed_def get_nic_Some [OF inj])
  have no: "smb2_mc_get_nic_by_index (nt_nics t) (nt_list t) (nic_index info) = None"
    using assms(2) by (simp add: get_nic_None)
  have nics: "nt_nics t' = (nt_nics t)(n := info)"
    by (simp add: t'_def smb2_mc_insert_new_nic_by_speed_def)
  show "nic_view t' = (nic_view t)(nic_index info \<mapsto> nic_abs info)"
  proof
    fix i
    show "nic_view t' i = ((nic_view t)(nic_index info \<mapsto> nic_abs info)) i"
    proof (cases "smb2_mc_get_nic_by_index (nt_nics t') (nt_list t') i")
      case None
      then have "i \<noteq> nic_index info" "smb2_mc_get_nic_by_index (nt_nics t) (nt_list t) i = None"
        using iff [of i] by (cases "smb2_mc_get_nic_by_index (nt_nics t) (nt_list t) i"; auto)+
      with None show ?thesis by (simp add: nic_view_def)
    next
      case (Some m)
      then have c: "m = n \<and> i = nic_index info \<or> smb2_mc_get_nic_by_index (nt_nics t) (nt_list t) i = Some m"
        by (simp only: iff)
      have "m \<noteq> n" if "smb2_mc_get_nic_by_index (nt_nics t) (nt_list t) i = Some m"
        using that new by (auto simp: get_nic_Some [OF inj])
      with c Some no show ?thesis by (auto simp: nic_view_def nics)
    qed
  qed
qed

section \<open>Additions\<close>

lemma nic_view_in:
  assumes "nt_wf t" "n \<in> set (nt_list t)"
  shows "nic_view t (nic_index (nt_nics t n)) = Some (nic_abs (nt_nics t n))"
  using assms get_nic_Some [of "nt_nics t" "nt_list t" _ n] by (auto simp: nt_wf_def nic_view_def)

text \<open>
  What an operation that adds interfaces promises: it reads inside its objects, keeps the list well formed,
  and, when no allocation fails, gives no error and does to the list what \<open>spec\<close> says.
\<close>

definition adds ::
  "(nat \<Rightarrow> bool) \<Rightarrow> nic_table \<Rightarrow> ((u64 \<Rightarrow> nic_abs option) \<Rightarrow> u64 \<Rightarrow> nic_abs option) \<Rightarrow> errno \<times> nic_table \<Rightarrow> bool" where
  "adds mem t spec r \<longleftrightarrow> nt_wf (snd r) \<and>
     ((\<forall>k. mem k) \<longrightarrow> fst r = 0 \<and> nic_view (snd r) = spec (nic_view t))"

lemma add_new_interface_adds:
  assumes wf: "nt_wf t" and ok: "addr_ok (ni_addr info)"
  obtains r where "smb2_mc_add_new_interface_info_to_list mem t info rss ign = Some r"
    "adds mem t (spec_add rss ign info) r"
proof -
  define i where "i = push_bit 32 (ucast rss) OR (ucast (ni_index info) :: u64)"
  let ?add = "smb2_mc_add_new_interface_info_to_list mem t info rss ign"
  show thesis
  proof (cases "smb2_mc_get_nic_by_index (nt_nics t) (nt_list t) i")
    case None
    have z: "nic_ok (set_nic_params info i ign zero_nic)" by (simp add: zero_nic_ok)
    have v: "nic_view t i = None" using None by (simp add: nic_view_def)
    obtain e n ch where u: "smb2_mc_update_info_with_ip (mem (nt_next t + 1)) (set_nic_params info i ign zero_nic) (ni_addr info) = Some (e, n, ch)"
      and n: "nic_ok n" "\<exists>ts as. n = (set_nic_params info i ign zero_nic)\<lparr>nic_ip_types := ts, addr_list := as\<rparr>"
      and e: "e = 0 \<and> nic_ips n = add_ip (ip_of (ni_addr info)) (nic_ips (set_nic_params info i ign zero_nic)) \<or>
        e = ENOMEM \<and> \<not> mem (nt_next t + 1) \<and> n = set_nic_params info i ign zero_nic"
      and "ch \<longleftrightarrow> n \<noteq> set_nic_params info i ign zero_nic"
      by (rule update_info_with_ip [OF z ok])
    have idx: "nic_index n = i" and ab: "e = 0 \<Longrightarrow> nic_abs n = (ni_caps info, ni_link_speed info, ni_type info,
        if ign then SMB2_MC_NIC_IN_IGNORELIST else 0, add_ip (ip_of (ni_addr info)) [])"
      using n(2) e by (auto simp: nic_abs_def zero_nic_ok)
    let ?new = "smb2_mc_insert_new_nic_by_speed (t\<lparr>nt_next := nt_next t + 2, nt_nics := (nt_nics t)(nt_next t := n)\<rparr>) (nt_next t)"
    have fresh: "\<forall>m \<in> set (nt_list t). nic_index (nt_nics t m) \<noteq> nic_index n"
      using None by (simp add: idx get_nic_None)
    have ne: "e = 0 \<Longrightarrow> addr_list n \<noteq> []"
      using e by (metis add_ip_nonempty nic_ips_Nil zero_neq_numeral)
    have eq: "?add = Some (if mem (nt_next t) then if e = 0 then (0, ?new) else (e, t\<lparr>nt_next := nt_next t + 2\<rparr>)
        else (ENOMEM, t\<lparr>nt_next := nt_next t + 1\<rparr>))"
      using None u by (simp add: smb2_mc_add_new_interface_info_to_list_def i_def Let_def)
    have weak: "nt_wf (t\<lparr>nt_next := nt_next t + k\<rparr>)" for k
      using wf by (auto simp: nt_wf_def)
    have "adds mem t (spec_add rss ign info) (0, ?new)" if "e = 0"
    proof -
      have new: "nt_wf ?new" "nic_view ?new = (nic_view t)(i \<mapsto> nic_abs n)"
        using nt_wf_new [OF wf fresh n(1) ne [OF that]] idx by simp_all
      have "spec_add rss ign info (nic_view t) = (nic_view t)(i \<mapsto> nic_abs n)"
        unfolding spec_add_def learn_def i_def [symmetric] ab [OF that] by (simp add: v)
      with new show ?thesis by (simp add: adds_def)
    qed
    moreover have "adds mem t (spec_add rss ign info) (e, t\<lparr>nt_next := nt_next t + 2\<rparr>)" if "e \<noteq> 0"
      using that e weak [of 2] by (auto simp: adds_def)
    moreover have "adds mem t (spec_add rss ign info) (ENOMEM, t\<lparr>nt_next := nt_next t + 1\<rparr>)" if "\<not> mem (nt_next t)"
      using that weak [of 1] by (auto simp: adds_def)
    ultimately show thesis using that [OF eq] by simp
  next
    case (Some m)
    have inj: "inj_on (\<lambda>n. nic_index (nt_nics t n)) (set (nt_list t))" using wf by (simp add: nt_wf_def)
    have m: "m \<in> set (nt_list t)" "nic_index (nt_nics t m) = i" "nic_ok (nt_nics t m)" "addr_list (nt_nics t m) \<noteq> []"
      using Some wf by (auto simp: get_nic_Some [OF inj] nt_wf_def)
    have z: "nic_ok (set_nic_params info i ign (nt_nics t m))" by (simp add: m(3))
    have v: "nic_view t i = Some (nic_abs (nt_nics t m))" using nic_view_in [OF wf m(1)] m(2) by simp
    obtain e n ch where u: "smb2_mc_update_info_with_ip (mem (nt_next t)) (set_nic_params info i ign (nt_nics t m)) (ni_addr info) = Some (e, n, ch)"
      and n: "nic_ok n" "\<exists>ts as. n = (set_nic_params info i ign (nt_nics t m))\<lparr>nic_ip_types := ts, addr_list := as\<rparr>"
      and e: "e = 0 \<and> nic_ips n = add_ip (ip_of (ni_addr info)) (nic_ips (set_nic_params info i ign (nt_nics t m))) \<or>
        e = ENOMEM \<and> \<not> mem (nt_next t) \<and> n = set_nic_params info i ign (nt_nics t m)"
      and "ch \<longleftrightarrow> n \<noteq> set_nic_params info i ign (nt_nics t m)"
      by (rule update_info_with_ip [OF z ok])
    have idx: "nic_index n = nic_index (nt_nics t m)" and ab: "e = 0 \<Longrightarrow> nic_abs n = (ni_caps info, ni_link_speed info, ni_type info,
        if ign then nic_flags (nt_nics t m) OR SMB2_MC_NIC_IN_IGNORELIST else nic_flags (nt_nics t m),
        add_ip (ip_of (ni_addr info)) (nic_ips (nt_nics t m)))"
      using n(2) e m(2) by (auto simp: nic_abs_def)
    have ne: "addr_list n \<noteq> []"
      using e m(4) by (metis add_ip_nonempty nic_ips_Nil set_nic_params_simps(3))
    have eq: "?add = Some (e, t\<lparr>nt_nics := (nt_nics t)(m := n), nt_next := nt_next t + 1\<rparr>)"
      using Some u by (simp add: smb2_mc_add_new_interface_info_to_list_def i_def Let_def)
    let ?new = "t\<lparr>nt_nics := (nt_nics t)(m := n), nt_next := nt_next t + 1\<rparr>"
    have new: "nt_wf ?new" "nic_view ?new = (nic_view t)(i \<mapsto> nic_abs n)"
      using nt_wf_update [OF wf m(1) idx n(1) ne, of "nt_next t + 1"] idx m(2) by simp_all
    have "spec_add rss ign info (nic_view t) = (nic_view t)(i \<mapsto> nic_abs n)" if "e = 0"
      unfolding spec_add_def learn_def i_def [symmetric] ab [OF that] by (simp add: v nic_abs_def)
    then have "adds mem t (spec_add rss ign info) (e, ?new)"
      using new e by (auto simp: adds_def)
    then show thesis by (rule that [OF eq])
  qed
qed

lemma adds_trans:
  assumes "adds mem t f r" "adds mem (snd r) g r'"
  shows "adds mem t (g \<circ> f) r'"
  using assms by (auto simp: adds_def)

lemma nt_wf_next: "nt_wf t \<Longrightarrow> nt_wf (t\<lparr>nt_next := nt_next t + k\<rparr>)"
  by (auto simp: nt_wf_def)

lemma nic_view_next [simp]: "nic_view (t\<lparr>nt_next := k\<rparr>) = nic_view t"
  by (rule ext) (simp add: nic_view_def)

lemma rss_nics_adds:
  assumes "nt_wf t" "addr_ok (take 128 (ni_addr info))"
  shows "\<exists>stop r. rss_nics mem info ign is t = Some (stop, r) \<and> ((\<forall>k. mem k) \<longrightarrow> \<not> stop) \<and>
    adds mem t (fold (\<lambda>i. spec_add i ign (info\<lparr>ni_addr := take 128 (ni_addr info)\<rparr>)) is) r"
  using assms(1)
proof (induction "is" arbitrary: t)
  case Nil
  then show ?case by (intro exI [of _ False] exI [of _ "(0, t)"]) (simp add: adds_def)
next
  case (Cons i "is")
  let ?info = "info\<lparr>ni_addr := take 128 (ni_addr info)\<rparr>"
  let ?t = "t\<lparr>nt_next := nt_next t + 1\<rparr>"
  have wf: "nt_wf ?t" using Cons.prems by (rule nt_wf_next)
  obtain r where add: "smb2_mc_add_new_interface_info_to_list mem ?t ?info i ign = Some r"
    and r: "adds mem ?t (spec_add i ign ?info) r"
    using add_new_interface_adds [OF wf, of ?info mem i ign] assms(2) by auto
  obtain stop s where s: "rss_nics mem info ign is (snd r) = Some (stop, s)" "(\<forall>k. mem k) \<longrightarrow> \<not> stop"
    "adds mem (snd r) (fold (\<lambda>i. spec_add i ign ?info) is) s"
    using Cons.IH [of "snd r"] r unfolding adds_def by blast
  have r': "adds mem t (spec_add i ign ?info) r" using r by (simp add: adds_def)
  consider "\<not> mem (nt_next t)" | "mem (nt_next t)" "fst r \<noteq> 0" | "mem (nt_next t)" "fst r = 0" by blast
  then show ?case
  proof cases
    case 1
    then show ?thesis using wf by (intro exI [of _ True] exI [of _ "(ENOMEM, ?t)"]) (auto simp: adds_def)
  next
    case 2
    then have "rss_nics mem info ign (i # is) t = Some (False, r)" using add by (cases r) simp
    moreover have "\<not> (\<forall>k. mem k)" using 2 r by (auto simp: adds_def)
    ultimately show ?thesis using r' by (intro exI [of _ False] exI [of _ r]) (auto simp: adds_def)
  next
    case 3
    then have "rss_nics mem info ign (i # is) t = Some (stop, s)" using add s(1) by (cases r) simp
    then show ?thesis
      using s(2) adds_trans [OF r' s(3)] by (intro exI [of _ stop] exI [of _ s]) (simp add: comp_def)
  qed
qed

section \<open>Parsing of a reply\<close>

text \<open>The entry the loop reads into keeps its 128 bytes, and a known address is well formed.\<close>

lemma v4_addr:
  fixes ip :: u32 and port :: u16 and a :: "byte list"
  assumes "length a = 128" 
  defines "b \<equiv> mem_write 4 (le32 ip) (mem_write 2 (le16 port) (mem_write 0 [0x10] (mem_write 1 [AF_INET] a)))"
  shows "length b = 128" "addr_ok b" "ip_of b = Some (le32 ip)"
proof -
  show len: "length b = 128" using assms by (simp add: b_def)
  have "b ! 1 = AF_INET" "b ! 0 = 0x10"
    using assms by (simp_all add: b_def mem_write_inside mem_write_outside)
  moreover have "take 4 (drop 4 b) = le32 ip"
    using mem_write_read [of 4 "le32 ip"] assms(1) by (simp add: b_def)
  ultimately show "addr_ok b" "ip_of b = Some (le32 ip)"
    using len by (simp_all add: addr_ok_def sa_need_def ip_of_def)
qed

lemma v6_addr:
  fixes ip a :: "byte list" and port :: u16
  assumes "length a = 128" "length ip = 16"
  defines "b \<equiv> mem_write 8 ip (mem_write 2 (le16 port) (mem_write 0 [0x1C] (mem_write 1 [AF_INET6] a)))"
  shows "length b = 128" "addr_ok b" "ip_of b = Some ip"
proof -
  show len: "length b = 128" using assms by (simp add: b_def)
  have "b ! 1 = AF_INET6" "b ! 0 = 0x1C"
    using assms by (simp_all add: b_def mem_write_inside mem_write_outside)
  moreover have "take 16 (drop 8 b) = ip"
    using mem_write_read [of 8 ip] assms(1,2) by (simp add: b_def)
  ultimately show "addr_ok b" "ip_of b = Some ip"
    using len by (simp_all add: addr_ok_def sa_need_def ip_of_def)
qed

lemmas get_and_advance_defs =
  smb2_mc_safe_buffer_get_and_advance_16_def smb2_mc_safe_buffer_get_and_advance_32_def
  smb2_mc_safe_buffer_get_and_advance_64_def smb2_mc_safe_buffer_get_and_advance_in6_addr_def

lemma in6_addr_length:
  "smb2_mc_safe_buffer_get_and_advance_in6_addr buff = Some (ip, b) \<Longrightarrow> length ip = 16"
  by (auto simp: get_and_advance_defs split: if_splits)

lemma server_entry_ok:
  assumes "server_entry info buf = Some (next_offset, known, info')" "length (ni_addr info) = 128"
  shows "length (ni_addr info') = 128" "known \<Longrightarrow> addr_ok (ni_addr info')"
  using assms
  by (auto simp: server_entry_def Let_def smb2_mc_protocol_family_to_inet_def in6_addr_length
      v4_addr [unfolded One_nat_def] v6_addr [unfolded One_nat_def]
      split: if_splits bind_splits)

lemma server_add_adds:
  assumes "nt_wf t" "addr_ok (ni_addr info)" "length (ni_addr info) = 128"
  shows "\<exists>stop t'. server_add mem rss info t = Some (stop, t') \<and> ((\<forall>k. mem k) \<longrightarrow> stop = None) \<and>
    adds mem t (fold (\<lambda>i. spec_add i False info)
      (0 # (if ni_caps info AND SMB2_IF_CAP_RSS_CAPABLE \<noteq> 0 then rss_indexes rss else []))) (0, t')"
proof -
  have tk: "info\<lparr>ni_addr := take 128 (ni_addr info)\<rparr> = info" using assms(3) by simp
  obtain e t1 where add: "smb2_mc_add_new_interface_info_to_list mem t info 0 False = Some (e, t1)"
    and r: "adds mem t (spec_add 0 False info) (e, t1)"
    using add_new_interface_adds [OF assms(1,2), of mem 0 False] by (metis surj_pair)
  then have wf: "nt_wf t1" by (simp add: adds_def)
  obtain stop e2 t2 where rss: "rss_nics mem info False (rss_indexes rss) t1 = Some (stop, e2, t2)"
    "(\<forall>k. mem k) \<longrightarrow> \<not> stop" "adds mem t1 (fold (\<lambda>i. spec_add i False info) (rss_indexes rss)) (e2, t2)"
    using rss_nics_adds [OF wf, of info mem False "rss_indexes rss"] assms(2,3) unfolding tk by auto
  have all: "(\<forall>k. mem k) \<Longrightarrow> e = 0" using r by (auto simp: adds_def)
  show ?thesis
  proof (cases "e = 0 \<and> ni_caps info AND SMB2_IF_CAP_RSS_CAPABLE \<noteq> 0")
    case True
    then have "server_add mem rss info t = Some (if stop then Some e2 else None, t2)"
      using add rss(1) by (simp add: server_add_def)
    moreover have "adds mem t (fold (\<lambda>i. spec_add i False info) (0 # rss_indexes rss)) (e2, t2)"
      using adds_trans [OF r, of "fold (\<lambda>i. spec_add i False info) (rss_indexes rss)" "(e2, t2)"] rss(3)
      by (simp add: comp_def)
    ultimately show ?thesis using True rss(2) by (auto simp: adds_def)
  next
    case False
    then have "server_add mem rss info t = Some (if e \<noteq> 0 then Some 0 else None, t1)"
      using add by (auto simp: server_add_def)
    then show ?thesis using False r all by (auto simp: adds_def)
  qed
qed

lemma server_loop_safe:
  assumes "nt_wf t" "length (ni_addr info) = 128"
  shows "\<exists>e t'. server_loop mem rss info t buf = Some (e, t') \<and> nt_wf t'"
  using assms
proof (induction mem rss info t buf rule: server_loop.induct)
  case (1 mem rss info t buf)
  show ?case
  proof (cases "server_entry info buf")
    case None
    then show ?thesis using "1.prems" by (simp add: server_loop.simps)
  next
    case (Some r)
    obtain next_offset known info' where r: "r = (next_offset, known, info')" by (cases r)
    note entry = server_entry_ok [OF Some [unfolded r] "1.prems"(2)]
    obtain stop t1 where add: "(if known then server_add mem rss info' t else Some (None, t)) = Some (stop, t1)"
      and wf: "nt_wf t1"
      using server_add_adds [OF "1.prems"(1), of info' mem rss] entry "1.prems"(1)
      by (cases known) (auto simp: adds_def)
    show ?thesis
      using "1.IH" [OF Some r [symmetric] refl add refl _ _ _ wf entry(1)] Some r add wf
      by (cases stop) (auto simp: server_loop.simps [of mem rss info t buf])
  qed
qed

text \<open>The entries of a reply and their encoding, 152 bytes each.\<close>

datatype ip_addr = V4 u16 u32 | V6 u16 "byte list"

record reply_entry =
  re_index :: u32
  re_caps :: u32
  re_speed :: u64
  re_ip :: ip_addr

fun enc_ip :: "ip_addr \<Rightarrow> byte list" where
  "enc_ip (V4 port ip) = le16 2 @ le16 port @ le32 ip @ replicate 120 0"
| "enc_ip (V6 port ip) = le16 0x17 @ le16 port @ le32 0 @ ip @ le32 0 @ replicate 100 0"

fun ip_bytes :: "ip_addr \<Rightarrow> byte list" where
  "ip_bytes (V4 port ip) = le32 ip"
| "ip_bytes (V6 port ip) = ip"

definition enc_entry :: "u32 \<Rightarrow> reply_entry \<Rightarrow> byte list" where
  "enc_entry nxt e = le32 nxt @ le32 (re_index e) @ le32 (re_caps e) @ le32 0 @ le64 (re_speed e) @ enc_ip (re_ip e)"

fun enc_reply :: "reply_entry list \<Rightarrow> byte list" where
  "enc_reply [] = []"
| "enc_reply [e] = enc_entry 0 e"
| "enc_reply (e # es) = enc_entry 152 e @ enc_reply es"

fun ip_wf :: "ip_addr \<Rightarrow> bool" where
  "ip_wf (V4 port ip) \<longleftrightarrow> True"
| "ip_wf (V6 port ip) \<longleftrightarrow> length ip = 16"

lemma length_enc_entry [simp]: "ip_wf (re_ip e) \<Longrightarrow> length (enc_entry nxt e) = 152"
  by (cases "re_ip e") (simp_all add: enc_entry_def)

text \<open>What the client is to learn from an entry.\<close>

definition learn_entry :: "u32 \<Rightarrow> reply_entry \<Rightarrow> (u64 \<Rightarrow> nic_abs option) \<Rightarrow> (u64 \<Rightarrow> nic_abs option)" where
  "learn_entry rss e =
     fold (\<lambda>i. learn i False (re_index e) (re_caps e) (re_speed e) 0 (Some (ip_bytes (re_ip e))))
       (0 # (if re_caps e AND SMB2_IF_CAP_RSS_CAPABLE \<noteq> 0 then rss_indexes rss else []))"

lemma get_and_advance_app [simp]:
  "smb2_mc_safe_buffer_get_and_advance_16 (le16 x @ b) = Some (x, b)"
  "smb2_mc_safe_buffer_get_and_advance_32 (le32 y @ b) = Some (y, b)"
  "smb2_mc_safe_buffer_get_and_advance_64 (le64 z @ b) = Some (z, b)"
  "length ip = 16 \<Longrightarrow> smb2_mc_safe_buffer_get_and_advance_in6_addr (ip @ b) = Some (ip, b)"
  by (simp_all add: get_and_advance_defs wire)

lemma server_entry_enc:
  assumes "ip_wf (re_ip e)" "length (ni_addr info) = 128"
  obtains info' where "server_entry info (enc_entry nxt e @ rest) = Some (nxt, True, info')"
    "ni_index info' = re_index e" "ni_caps info' = re_caps e" "ni_link_speed info' = re_speed e"
    "ni_type info' = ni_type info" "ip_of (ni_addr info') = Some (ip_bytes (re_ip e))"
proof (cases "re_ip e")
  case (V4 port ip)
  then show thesis
    using that assms by (simp add: server_entry_def enc_entry_def smb2_mc_protocol_family_to_inet_def
        v4_addr [unfolded One_nat_def])
next
  case (V6 port ip)
  then show thesis
    using that assms by (simp add: server_entry_def enc_entry_def smb2_mc_protocol_family_to_inet_def
        v6_addr [unfolded One_nat_def])
qed

lemma server_loop_reply:
  assumes "es \<noteq> []" "\<forall>e \<in> set es. ip_wf (re_ip e)" "nt_wf t" "length (ni_addr info) = 128" "ni_type info = 0"
  shows "\<exists>t'. server_loop (\<lambda>_. True) rss info t (enc_reply es) = Some (0, t') \<and> nt_wf t' \<and>
    nic_view t' = fold (learn_entry rss) es (nic_view t)"
  using assms
proof (induction es arbitrary: t info rule: enc_reply.induct)
  case 1
  then show ?case by simp
next
  case (2 e)
  obtain info' where i: "server_entry info (enc_entry 0 e @ []) = Some (0, True, info')"
    "ni_index info' = re_index e" "ni_caps info' = re_caps e" "ni_link_speed info' = re_speed e"
    "ni_type info' = ni_type info" "ip_of (ni_addr info') = Some (ip_bytes (re_ip e))"
    by (rule server_entry_enc [of e info 0 "[]"]) (use 2 in simp_all)
  note ok = server_entry_ok [OF i(1) "2.prems"(4)]
  have le: "learn_entry rss e = fold (\<lambda>i. spec_add i False info')
      (0 # (if ni_caps info' AND SMB2_IF_CAP_RSS_CAPABLE \<noteq> 0 then rss_indexes rss else []))"
    using i 2 by (simp only: learn_entry_def spec_add_def)
  obtain t1 where "server_add (\<lambda>_. True) rss info' t = Some (None, t1)" "nt_wf t1"
    "nic_view t1 = learn_entry rss e (nic_view t)"
    using server_add_adds [OF "2.prems"(3) ok(2) ok(1), of "\<lambda>_. True" rss] unfolding le by (auto simp: adds_def)
  then show ?case using i(1) by (simp add: server_loop.simps)
next
  case (3 e e2 es)
  let ?rest = "enc_reply (e2 # es)"
  obtain info' where i: "server_entry info (enc_entry 152 e @ ?rest) = Some (152, True, info')"
    "ni_index info' = re_index e" "ni_caps info' = re_caps e" "ni_link_speed info' = re_speed e"
    "ni_type info' = ni_type info" "ip_of (ni_addr info') = Some (ip_bytes (re_ip e))"
    by (rule server_entry_enc [of e info 152 ?rest]) (use 3 in simp_all)
  note ok = server_entry_ok [OF i(1) "3.prems"(4)]
  have le: "learn_entry rss e = fold (\<lambda>i. spec_add i False info')
      (0 # (if ni_caps info' AND SMB2_IF_CAP_RSS_CAPABLE \<noteq> 0 then rss_indexes rss else []))"
    using i 3 by (simp only: learn_entry_def spec_add_def)
  obtain t1 where t1: "server_add (\<lambda>_. True) rss info' t = Some (None, t1)" "nt_wf t1"
    "nic_view t1 = learn_entry rss e (nic_view t)"
    using server_add_adds [OF "3.prems"(3) ok(2) ok(1), of "\<lambda>_. True" rss] unfolding le by (auto simp: adds_def)
  have "server_loop (\<lambda>_. True) rss info t (enc_entry 152 e @ ?rest) = server_loop (\<lambda>_. True) rss info' t1 ?rest"
    using i(1) t1(1) "3.prems"(2) by (subst server_loop.simps) simp
  with "3.IH" [of t1 info'] t1 ok(1) i(5) "3.prems" show ?case by simp
qed

section \<open>Parsing of the array of the client\<close>

text \<open>The addresses of the entries the loop visits are well formed and fit their 128 bytes.\<close>

primrec client_addrs_ok :: "byte list \<Rightarrow> nat \<Rightarrow> nat \<Rightarrow> bool" where
  "client_addrs_ok array 0 off \<longleftrightarrow> True"
| "client_addrs_ok array (Suc n) off \<longleftrightarrow>
     (off + 160 \<le> length array \<longrightarrow>
        addr_ok (take 128 (drop (off + 32) array)) \<and>
        (160 \<le> unat (ni_next_offset (client_entry array off)) \<longrightarrow>
           client_addrs_ok array n (off + unat (ni_next_offset (client_entry array off)))))"

lemma addr_ok_take: "addr_ok (take k sa) \<Longrightarrow> addr_ok sa"
  by (auto simp: addr_ok_def)

lemma client_entry_addr [simp]: "ni_addr (client_entry array off) = drop (off + 32) array"
  by (simp add: client_entry_def Let_def)

lemma add_new_interface_ends:
  assumes "nt_wf t" "addr_ok (ni_addr info)"
  shows "\<exists>e t'. smb2_mc_add_new_interface_info_to_list mem t info rss ign = Some (e, t') \<and> nt_wf t' \<and>
    ((\<forall>k. mem k) \<longrightarrow> e = 0)"
  by (rule add_new_interface_adds [OF assms, of mem rss ign]) (auto simp: adds_def)

lemma client_loop_safe:
  assumes "nt_wf t" "client_addrs_ok array n off"
  shows "\<exists>e t'. client_loop mem rss ign force array n off err t = Some (e, t') \<and>
    ((\<forall>k. mem k) \<or> e = 0 \<longrightarrow> nt_wf t')"
  using assms
proof (induction n arbitrary: off err t)
  case 0
  then show ?case by simp
next
  case (Suc n)
  show ?case
  proof (cases "length array < off + 160")
    case True
    then show ?thesis using Suc.prems by simp
  next
    case False
    let ?entry = "client_info_entry force array off"
    let ?ign = "ni_index ?entry \<in> set ign"
    have addr: "ni_addr ?entry = drop (off + 32) array"
      and nxt: "ni_next_offset ?entry = ni_next_offset (client_entry array off)"
      by (simp_all add: client_info_entry_def Let_def)
    have ok: "addr_ok (take 128 (ni_addr ?entry))"
      using Suc.prems(2) False by (simp add: addr)
    obtain e t1 where add: "smb2_mc_add_new_interface_info_to_list mem t ?entry 0 ?ign = Some (e, t1)"
      and wf: "nt_wf t1" and e: "(\<forall>k. mem k) \<longrightarrow> e = 0"
      using add_new_interface_ends [OF Suc.prems(1) addr_ok_take [OF ok], of mem 0 ?ign] by auto
    obtain stop e2 t2 where rss: "(if \<not> ?ign \<and> ni_caps ?entry AND SMB2_IF_CAP_RSS_CAPABLE \<noteq> 0
        then rss_nics mem ?entry ?ign (rss_indexes rss) t1 else Some (False, 0, t1)) = Some (stop, e2, t2)"
      and wf2: "nt_wf t2"
      using rss_nics_adds [OF wf ok, of mem ?ign "rss_indexes rss"] wf unfolding adds_def
      by (metis prod.exhaust_sel)
    have len: "sa_len (ni_addr ?entry) = Some (unat (array ! (off + 32)))"
      using False by (simp add: sa_len_def addr)
    have step: "client_loop mem rss ign force array (Suc n) off err t =
        (if length array < off + 34 + unat (array ! (off + 32)) then Some (EINVAL, t)
         else if e \<noteq> 0 then Some (e, smb2_mc_release_interface_list t1)
         else if stop then Some (e2, t2)
         else if unat (ni_next_offset ?entry) < 160 then Some (EINVAL, t2)
         else client_loop mem rss ign force array n (off + unat (ni_next_offset ?entry)) e2 t2)"
      using False add rss len by (simp add: Let_def)
    have "client_addrs_ok array n (off + unat (ni_next_offset ?entry))" if "160 \<le> unat (ni_next_offset ?entry)"
      using Suc.prems(2) False that by (simp add: nxt)
    then show ?thesis
      using Suc.IH [OF wf2, of "off + unat (ni_next_offset ?entry)" e2] Suc.prems(1) wf2 e
      unfolding step by auto
  qed
qed

section \<open>What parsing leaves alone\<close>

text \<open>
  Relative to a store, a list and a number of the next allocation: the listed interfaces keep their index and
  their connections, the ones that join the list are new and have no connections, and all others are untouched.
\<close>

definition nt_ext :: "nic_store \<Rightarrow> nat list \<Rightarrow> nat \<Rightarrow> nic_table \<Rightarrow> bool" where
  "nt_ext s l k t \<longleftrightarrow> k \<le> nt_next t \<and>
     (\<forall>n \<in> set (nt_list t). n \<in> set l \<or> k \<le> n \<and> n < nt_next t \<and> possible_connections (nt_nics t n) = []) \<and>
     (\<forall>n < k. n \<notin> set l \<longrightarrow> nt_nics t n = s n) \<and>
     (\<forall>n \<in> set l. nic_index (nt_nics t n) = nic_index (s n) \<and> possible_connections (nt_nics t n) = possible_connections (s n))"

lemma nt_ext_start: "\<forall>n \<in> set l. n < k \<Longrightarrow> nt_next t = k \<Longrightarrow> nt_nics t = s \<Longrightarrow> nt_list t = l \<Longrightarrow> nt_ext s l k t"
  by (simp add: nt_ext_def)

lemma nt_ext_next: "nt_ext s l k t \<Longrightarrow> nt_ext s l k (t\<lparr>nt_next := nt_next t + i\<rparr>)"
  by (auto simp: nt_ext_def)

lemma nt_ext_update:
  assumes "nt_ext s l k t" "n \<in> set (nt_list t)" "nic_index info = nic_index (nt_nics t n)"
    "possible_connections info = possible_connections (nt_nics t n)"
  shows "nt_ext s l k (t\<lparr>nt_nics := (nt_nics t)(n := info), nt_next := nt_next t + i\<rparr>)"
  using assms unfolding nt_ext_def by (auto simp: trans_less_add1)

lemma nt_ext_new:
  assumes "nt_ext s l k t" "\<forall>n \<in> set l. n < k" "possible_connections info = []"
  shows "nt_ext s l k (smb2_mc_insert_new_nic_by_speed
    (t\<lparr>nt_next := nt_next t + 2, nt_nics := (nt_nics t)(nt_next t := info)\<rparr>) (nt_next t))"
  using assms by (auto simp: nt_ext_def smb2_mc_insert_new_nic_by_speed_def)

lemma update_info_frame:
  assumes "smb2_mc_update_info_with_ip ok nic_info addr = Some (e, info, ch)"
  shows "nic_index info = nic_index nic_info" "possible_connections info = possible_connections nic_info"
  using assms by (auto simp: smb2_mc_update_info_with_ip_def split: bind_splits if_splits)

lemma add_new_interface_ext:
  assumes "smb2_mc_add_new_interface_info_to_list mem t info rss ign = Some (e, t')" "nt_ext s l k t" "\<forall>n \<in> set l. n < k"
  shows "nt_ext s l k t'" "set (nt_list t) \<subseteq> set (nt_list t')"
proof -
  let ?i = "push_bit 32 (ucast rss) OR ucast (ni_index info) :: u64"
  have p: "possible_connections (set_nic_params info ?i ign n) = possible_connections n" for n
    by (simp add: set_nic_params_def)
  have z: "possible_connections zero_nic = []" by (simp add: zero_nic_def)
  have "nt_ext s l k t' \<and> set (nt_list t) \<subseteq> set (nt_list t')"
  proof (cases "smb2_mc_get_nic_by_index (nt_nics t) (nt_list t) ?i")
    case None
    show ?thesis
      using assms None nt_ext_next [OF assms(2), of 1] nt_ext_next [OF assms(2), of 2]
      by (auto simp: smb2_mc_add_new_interface_info_to_list_def Let_def smb2_mc_insert_new_nic_by_speed_def
          dest!: update_info_frame simp: p z intro!: nt_ext_new [unfolded smb2_mc_insert_new_nic_by_speed_def, simplified]
          split: bind_splits if_splits)
  next
    case (Some n)
    then have n: "n \<in> set (nt_list t)" "nic_index (nt_nics t n) = ?i"
      by (auto simp: smb2_mc_get_nic_by_index_def find_Some_iff)
    obtain i2 ch where u: "smb2_mc_update_info_with_ip (mem (nt_next t)) (set_nic_params info ?i ign (nt_nics t n)) (ni_addr info) = Some (e, i2, ch)"
      and t': "t' = t\<lparr>nt_nics := (nt_nics t)(n := i2), nt_next := nt_next t + 1\<rparr>"
      using assms(1) Some by (auto simp: smb2_mc_add_new_interface_info_to_list_def Let_def split: bind_splits)
    then show ?thesis
      using update_info_frame [OF u] n nt_ext_update [OF assms(2) n(1), of i2 1] by (simp add: p)
  qed
  then show "nt_ext s l k t'" "set (nt_list t) \<subseteq> set (nt_list t')" by auto
qed

lemma rss_nics_ext:
  assumes "rss_nics mem info ign is t = Some (stop, e, t')" "nt_ext s l k t" "\<forall>n \<in> set l. n < k"
  shows "nt_ext s l k t' \<and> set (nt_list t) \<subseteq> set (nt_list t')"
  using assms(1,2)
proof (induction "is" arbitrary: t)
  case (Cons i "is")
  show ?case
  proof (cases "mem (nt_next t)")
    case True
    let ?t = "t\<lparr>nt_next := nt_next t + 1\<rparr>"
    obtain e1 t1 where a: "smb2_mc_add_new_interface_info_to_list mem ?t (info\<lparr>ni_addr := take 128 (ni_addr info)\<rparr>) i ign = Some (e1, t1)"
      and r: "(if e1 \<noteq> 0 then Some (False, e1, t1) else rss_nics mem info ign is t1) = Some (stop, e, t')"
      using Cons.prems(1) True by (auto split: bind_splits)
    note x = add_new_interface_ext [OF a nt_ext_next [OF Cons.prems(2)] assms(3)]
    show ?thesis using Cons.IH [of t1] r x by (auto split: if_splits)
  next
    case False
    then show ?thesis using Cons.prems nt_ext_next [OF Cons.prems(2), of 1] by auto
  qed
qed simp

lemma server_add_ext:
  assumes "server_add mem rss info t = Some (stop, t')" "nt_ext s l k t" "\<forall>n \<in> set l. n < k"
  shows "nt_ext s l k t'"
proof -
  obtain e1 t1 where a: "smb2_mc_add_new_interface_info_to_list mem t info 0 False = Some (e1, t1)"
    using assms(1) by (auto simp: server_add_def split: bind_splits)
  note x = add_new_interface_ext [OF a assms(2,3)]
  show ?thesis
    using assms(1) a x rss_nics_ext [OF _ x(1) assms(3)]
    by (auto simp: server_add_def split: bind_splits if_splits)
qed

lemma server_loop_ext:
  assumes "server_loop mem rss info t buf = Some (e, t')" "nt_ext s l k t" "\<forall>n \<in> set l. n < k"
  shows "nt_ext s l k t'"
  using assms(1,2)
proof (induction mem rss info t buf rule: server_loop.induct)
  case (1 mem rss info t buf)
  show ?case
  proof (cases "server_entry info buf")
    case None
    then show ?thesis using "1.prems" by (simp add: server_loop.simps)
  next
    case (Some r)
    obtain next_offset known info' where r: "r = (next_offset, known, info')" by (cases r)
    obtain stop t1 where add: "(if known then server_add mem rss info' t else Some (None, t)) = Some (stop, t1)"
      using "1.prems"(1) Some r by (subst (asm) server_loop.simps) (auto split: option.splits if_splits)
    have x: "nt_ext s l k t1"
      using add "1.prems"(2) server_add_ext [OF _ "1.prems"(2) assms(3)] by (auto split: if_splits)
    show ?thesis
      using "1.IH" [OF Some r [symmetric] refl add refl _ _ _ _ x] "1.prems"(1) Some r add x
      by (subst (asm) (2) server_loop.simps) (auto split: option.splits if_splits)
  qed
qed

lemma parse_server_reply_ext:
  assumes "parse_server_reply mem rss t buf = Some (e, t')" "nt_ext s l k t" "\<forall>n \<in> set l. n < k"
  shows "nt_ext s l k t'"
  using assms(1) server_loop_ext [OF _ nt_ext_next [OF assms(2), of 1] assms(3)] nt_ext_next [OF assms(2), of 1]
  by (auto simp: parse_server_reply_def split: if_splits)

lemma client_loop_ext:
  assumes "client_loop mem rss ign force array n off err t = Some (e, t')" "nt_ext s l k t" "\<forall>n \<in> set l. n < k"
  shows "nt_ext s l k t' \<and> (e = 0 \<longrightarrow> set (nt_list t) \<subseteq> set (nt_list t'))"
  using assms(1,2)
proof (induction n arbitrary: off err t)
  case 0
  then show ?case by simp
next
  case (Suc n)
  let ?entry = "client_info_entry force array off"
  let ?ign = "ni_index ?entry \<in> set ign"
  show ?case
  proof (cases "length array < off + 160 \<or> (\<exists>m. sa_len (ni_addr ?entry) = Some m \<and> length array < off + 34 + m)")
    case True
    then show ?thesis using Suc.prems by (auto simp: Let_def split: if_splits bind_splits)
  next
    case False
    obtain e1 t1 where a: "smb2_mc_add_new_interface_info_to_list mem t ?entry 0 ?ign = Some (e1, t1)"
      and r: "(if e1 \<noteq> 0 then Some (e1, smb2_mc_release_interface_list t1)
        else do {
          (stop, e2, t2) \<leftarrow> (if \<not> ?ign \<and> ni_caps ?entry AND SMB2_IF_CAP_RSS_CAPABLE \<noteq> 0
             then rss_nics mem ?entry ?ign (rss_indexes rss) t1 else Some (False, 0, t1));
          if stop then Some (e2, t2)
          else if unat (ni_next_offset ?entry) < 160 then Some (EINVAL, t2)
          else client_loop mem rss ign force array n (off + unat (ni_next_offset ?entry)) e2 t2 }) = Some (e, t')"
      using Suc.prems(1) False by (auto simp: Let_def split: bind_splits)
    note x = add_new_interface_ext [OF a Suc.prems(2) assms(3)]
    show ?thesis
    proof (cases "e1 = 0")
      case False
      then show ?thesis using r x by (auto simp: smb2_mc_release_interface_list_def nt_ext_def)
    next
      case True
      then obtain stop e2 t2 where c: "(if \<not> ?ign \<and> ni_caps ?entry AND SMB2_IF_CAP_RSS_CAPABLE \<noteq> 0
          then rss_nics mem ?entry ?ign (rss_indexes rss) t1 else Some (False, 0, t1)) = Some (stop, e2, t2)"
        and d: "(if stop then Some (e2, t2) else if unat (ni_next_offset ?entry) < 160 then Some (EINVAL, t2)
          else client_loop mem rss ign force array n (off + unat (ni_next_offset ?entry)) e2 t2) = Some (e, t')"
        using r by (auto split: bind_splits)
      have y: "nt_ext s l k t2 \<and> set (nt_list t1) \<subseteq> set (nt_list t2)"
        using c x rss_nics_ext [OF _ x(1) assms(3)] by (auto split: if_splits)
      show ?thesis using d y x(2) Suc.IH [OF _ conjunct1 [OF y]] by (auto split: if_splits) blast
    qed
  qed
qed

section \<open>The properties\<close>

definition empty_table :: nic_table where
  "empty_table = \<lparr>nt_nics = (\<lambda>_. zero_nic), nt_list = [], nt_count = 0, nt_next = 0\<rparr>"

lemma empty_table_wf [simp]: "nt_wf empty_table"
  by (simp add: nt_wf_def empty_table_def)

lemma nic_view_empty [simp]: "nic_view empty_table = (\<lambda>_. None)"
  by (rule ext) (simp add: nic_view_def empty_table_def smb2_mc_get_nic_by_index_def)

lemma zero_nic_info_addr [simp]: "length (ni_addr zero_nic_info) = 128" "ni_type zero_nic_info = 0"
  by (simp_all add: zero_nic_info_def)



text \<open>C23: A reply that lists interfaces is understood as it was meant. When memory suffices, the list of the
  client says afterwards of each index exactly what the entries with that index said, the last one for
  capabilities and speed and all of them, in their order and without repetition, for the addresses; an
  interface that can spread its load has one further index for each further channel.\<close>

theorem server_reply_roundtrip:
  assumes "es \<noteq> []" "\<forall>e \<in> set es. ip_wf (re_ip e)" "nt_wf t"
  shows "\<exists>t'. parse_server_reply (\<lambda>_. True) rss t (enc_reply es) = Some (0, t') \<and> nt_wf t' \<and>
    nic_view t' = fold (learn_entry rss) es (nic_view t)"
  using server_loop_reply [OF assms(1,2) nt_wf_next [OF assms(3), of 1], of zero_nic_info rss]
  by (simp add: parse_server_reply_def)

definition wit_entries :: "reply_entry list" where
  "wit_entries = [\<lparr>re_index = 4, re_caps = 1, re_speed = 1000, re_ip = V4 0 0x0100000A\<rparr>,
     \<lparr>re_index = 4, re_caps = 1, re_speed = 1000, re_ip = V6 0 (replicate 16 1)\<rparr>,
     \<lparr>re_index = 5, re_caps = 0, re_speed = 10, re_ip = V4 0 0x0200000A\<rparr>]"

theorem server_reply_roundtrip_witness:
  "\<exists>t'. parse_server_reply (\<lambda>_. True) 2 empty_table (enc_reply wit_entries) = Some (0, t') \<and> nt_wf t' \<and>
    nic_view t' = fold (learn_entry 2) wit_entries (nic_view empty_table)"
  by (rule server_reply_roundtrip) (simp_all add: wit_entries_def)

text \<open>The array that the client's own process passes in is read inside its bounds, whatever its offsets and
  counts are, as long as the addresses in it are well formed: as long as the length field of each covers what
  the family needs and is at most the 128 bytes an entry has for it. The list is then well formed, unless an
  allocation fails and the parsing gives an error.\<close>

lemma client_array_safe:
  assumes "nt_wf t" "client_addrs_ok array (unat count) 0"
  shows "\<exists>e t'. smb2_mc_parse_client_interface_array mem rss ign force (Inr array) count t = Some (e, t') \<and>
    ((\<forall>k. mem k) \<or> e = 0 \<longrightarrow> nt_wf t')"
  using client_loop_safe [OF assms] by (simp add: smb2_mc_parse_client_interface_array_def)

definition wit_array :: "byte list" where
  "wit_array = le32 160 @ le32 3 @ le32 1 @ le32 0 @ le64 1000 @ le32 0x20 @ le32 0 @
     [0x10, 2, 0, 0, 10, 0, 0, 1] @ replicate 120 0"

lemma wit_array_ok: "client_addrs_ok wit_array 1 0"
  by (simp add: wit_array_def addr_ok_def sa_need_def)

text \<open>Without that condition the array makes the kernel read outside of its objects. The length field of an
  address is compared with the end of the array only. When it is above 128 and the interface can spread its
  load, the copy of the entry that is made for the second channel, an object of its own with 128 bytes of
  address, is read past its end.\<close>

lemma client_rss_overread:
  assumes "160 \<le> length array" "34 + unat (array ! 32) \<le> length array" "128 < unat (array ! 32)"
    and "ni_caps (client_entry array 0) AND SMB2_IF_CAP_RSS_CAPABLE \<noteq> 0" "2 \<le> rss" "count \<noteq> 0"
  shows "smb2_mc_parse_client_interface_array (\<lambda>_. True) rss [] False (Inr array) count empty_table = None"
proof -
  obtain n where n: "unat count = Suc n" using assms(6) by (metis not0_implies_Suc unat_eq_zero)
  obtain "is" where "is": "rss_indexes rss = 1 # is"
  proof -
    have "1 < unat rss" using assms(5) by (simp add: word_le_nat_alt)
    then show thesis using that by (simp add: rss_indexes_def upt_conv_Cons)
  qed
  let ?e = "client_entry array 0"
  have len: "sa_len (ni_addr ?e) = Some (unat (array ! 32))" "sa_family (ni_addr ?e) \<noteq> None"
    "mem_read (ni_addr ?e) 0 (unat (array ! 32)) \<noteq> None"
    using assms(1,2) by (simp_all add: sa_len_def sa_family_def mem_read_def)
  have cut: "sa_len (take 128 (ni_addr ?e)) = Some (unat (array ! 32))"
    "mem_read (take 128 (ni_addr ?e)) 0 (unat (array ! 32)) = None"
    using assms(1,3) by (simp_all add: sa_len_def mem_read_def)
  have over: "smb2_mc_add_new_interface_info_to_list (\<lambda>_. True) t (?e\<lparr>ni_addr := take 128 (ni_addr ?e)\<rparr>) 1 False = None"
    if "\<forall>n \<in> set (nt_list t). nic_index (nt_nics t n) \<noteq> push_bit 32 1 OR ucast (ni_index ?e)" for t
    using that cut
    by (simp add: smb2_mc_add_new_interface_info_to_list_def get_nic_None [THEN iffD2] Let_def
        smb2_mc_update_info_with_ip_def smb2_mc_does_ip_belong_to_interface_def zero_nic_def)
  have idx: "push_bit 32 1 OR ucast (ni_index ?e) \<noteq> (ucast (ni_index ?e) :: u64)"
  proof
    assume "push_bit 32 1 OR ucast (ni_index ?e) = (ucast (ni_index ?e) :: u64)"
    then have "bit (push_bit 32 1 OR ucast (ni_index ?e) :: u64) 32 = bit (ucast (ni_index ?e) :: u64) 32" by simp
    then show False by (auto simp: bit_simps dest: bit_imp_le_length)
  qed
  obtain info t1 where first: "smb2_mc_add_new_interface_info_to_list (\<lambda>_. True) empty_table ?e 0 False = Some (0, t1)"
    "nt_list t1 = [0]" "nic_index (nt_nics t1 0) = ucast (ni_index ?e)"
    using len
    by (auto simp: smb2_mc_add_new_interface_info_to_list_def empty_table_def Let_def smb2_mc_get_nic_by_index_def
        smb2_mc_update_info_with_ip_def smb2_mc_does_ip_belong_to_interface_def zero_nic_def set_nic_params_def
        smb2_mc_insert_new_nic_by_speed_def)
  have "rss_nics (\<lambda>_. True) ?e False (rss_indexes rss) t1 = None"
    using over [of "t1\<lparr>nt_next := nt_next t1 + 1\<rparr>"] first(2,3) idx by (simp add: "is")
  then show ?thesis
    using assms(1,2,4) n len(1) first(1)
    by (simp add: smb2_mc_parse_client_interface_array_def client_info_entry_def Let_def)
qed

definition wit_long :: "byte list" where
  "wit_long = le32 160 @ le32 3 @ le32 1 @ le32 0 @ le64 1000 @ le32 0x20 @ le32 0 @
     [200, 2, 0, 0, 10, 0, 0, 1] @ replicate 300 0"

end
