(* ===== verification/Multichannel.thy ===== *)
theory Multichannel
  imports Nic
begin

unbundle bit_operations_syntax

text \<open>
  The connection table of multichannel (\<^verbatim>\<open>src/kernel/netsmb/smb2_mc_support.c\<close>): which pairs of a client
  and a server interface may carry a channel, which of them are tried, connected, active or to be removed.
  Every operation of the table is a definition here; the caller holds the table's lock throughout, so an
  operation is one step. \<open>None\<close> is an access through a NULL pointer or outside of an object.

  A channel (\<^verbatim>\<open>struct smbiod\<close>) is known by its number, and of its flags the table sets two.
\<close>

section \<open>The table\<close>

datatype con_state =
  SMB2_MC_STATE_POTENTIAL | SMB2_MC_STATE_NO_POTENTIAL | SMB2_MC_STATE_IN_TRIAL
| SMB2_MC_STATE_FAILED_TO_CONNECT | SMB2_MC_STATE_CONNECTED | SMB2_MC_STATE_SURPLUS
| SMB2_MC_STATE_IN_REMOVAL

datatype con_active_state =
  SMB2_MC_FUNC_ACTIVE | SMB2_MC_FUNC_INACTIVE | SMB2_MC_FUNC_INACTIVE_REDUNDANT

record session_con_entry =
  con_state :: con_state
  active_state :: con_active_state
  con_speed :: u64
  con_iod :: "nat option"
  con_client_nic :: nat
  con_server_nic :: nat

text \<open>
  Interfaces and connections are in stores; an object that is freed is one that no list has any more.
\<close>

record mc_table =
  nics :: nic_store
  cons :: "nat \<Rightarrow> session_con_entry"
  next_id :: nat
  iod_inactive :: "nat \<Rightarrow> bool"
  iod_abort :: "nat \<Rightarrow> bool"
  pause_trials :: u32
  client_nic_count :: u32
  client_nic_info_list :: "nat list"
  server_nic_count :: u32
  server_nic_info_list :: "nat list"
  max_channels :: u32
  srvr_rss_channels :: u32
  clnt_rss_channels :: u32
  client_if_ignorelist :: "u32 list"
  prefer_wired :: bool
  session_con_list :: "nat list"
  active_on_trial_connections :: u32
  successful_con_list :: "nat list"

definition upd_con :: "nat \<Rightarrow> (session_con_entry \<Rightarrow> session_con_entry) \<Rightarrow> mc_table \<Rightarrow> mc_table" where
  "upd_con c f t = t\<lparr>cons := (cons t)(c := f (cons t c))\<rparr>"

definition upd_nic :: "nat \<Rightarrow> (nic \<Rightarrow> nic) \<Rightarrow> mc_table \<Rightarrow> mc_table" where
  "upd_nic n f t = t\<lparr>nics := (nics t)(n := f (nics t n))\<rparr>"

abbreviation client_of :: "mc_table \<Rightarrow> nat \<Rightarrow> nic" where
  "client_of t c \<equiv> nics t (con_client_nic (cons t c))"

abbreviation server_of :: "mc_table \<Rightarrow> nat \<Rightarrow> nic" where
  "server_of t c \<equiv> nics t (con_server_nic (cons t c))"

text \<open>The speed of a connection is the one of its slower interface.\<close>

definition pair_speed :: "mc_table \<Rightarrow> nat \<Rightarrow> u64" where
  "pair_speed t c = min (nic_link_speed (client_of t c)) (nic_link_speed (server_of t c))"

definition set_con_state :: "nat \<Rightarrow> con_state \<Rightarrow> mc_table \<Rightarrow> mc_table" where
  "set_con_state c s = upd_con c (con_state_update (\<lambda>_. s))"

definition set_nic_states :: "nat \<Rightarrow> nic_state \<Rightarrow> mc_table \<Rightarrow> mc_table" where
  "set_nic_states c s t =
     upd_nic (con_server_nic (cons t c)) (nic_state_update (\<lambda>_. s))
       (upd_nic (con_client_nic (cons t c)) (nic_state_update (\<lambda>_. s)) t)"

definition smb_iod_active :: "nat option \<Rightarrow> mc_table \<Rightarrow> mc_table option" where
  "smb_iod_active iod t = map_option (\<lambda>i. t\<lparr>iod_inactive := (iod_inactive t)(i := False)\<rparr>) iod"

definition smb_iod_inactive :: "nat option \<Rightarrow> mc_table \<Rightarrow> mc_table option" where
  "smb_iod_inactive iod t = map_option (\<lambda>i. t\<lparr>iod_inactive := (iod_inactive t)(i := True)\<rparr>) iod"

definition smb2_mc_init ::
  "bool \<Rightarrow> u32 \<Rightarrow> u32 \<Rightarrow> u32 \<Rightarrow> u32 list \<Rightarrow> bool \<Rightarrow> mc_table \<Rightarrow> mc_table" where
  "smb2_mc_init ok channels srvr_rss clnt_rss ignorelist wired t =
     t\<lparr>client_nic_count := 0, server_nic_count := 0,
       max_channels := (if channels \<noteq> 0 then channels else 17),
       srvr_rss_channels := (if srvr_rss \<noteq> 0 then srvr_rss else 4),
       clnt_rss_channels := (if clnt_rss \<noteq> 0 then clnt_rss else 4),
       prefer_wired := wired, pause_trials := 0,
       client_if_ignorelist := (if length ignorelist \<le> 32 \<and> ok then ignorelist else []),
       server_nic_info_list := [], client_nic_info_list := [], session_con_list := [], successful_con_list := []\<rparr>"

definition smb2_mc_destroy :: "mc_table \<Rightarrow> mc_table" where
  "smb2_mc_destroy t =
     t\<lparr>session_con_list := [], server_nic_info_list := [], client_nic_info_list := [], client_if_ignorelist := []\<rparr>"

section \<open>Counting\<close>

record conn_states_results =
  active_cnt :: u32
  inactive_cnt :: u32
  wired_inactive_cnt :: u32
  max_active_speed :: u64
  max_inactive_speed :: u64
  max_potential_speed :: u64
  max_potential_wired_speed :: u64
  potential_con_with_max_speed :: "nat option"
  potential_wired_con_with_max_speed :: "nat option"
  fastest_inactive :: "nat option"

definition zero_results :: conn_states_results where
  "zero_results = \<lparr>active_cnt = 0, inactive_cnt = 0, wired_inactive_cnt = 0, max_active_speed = 0,
     max_inactive_speed = 0, max_potential_speed = 0, max_potential_wired_speed = 0,
     potential_con_with_max_speed = None, potential_wired_con_with_max_speed = None, fastest_inactive = None\<rparr>"

definition count_active :: "session_con_entry \<Rightarrow> conn_states_results \<Rightarrow> conn_states_results" where
  "count_active con r =
     r\<lparr>active_cnt := active_cnt r + 1,
       max_active_speed := (if con_speed con > max_active_speed r then con_speed con else max_active_speed r)\<rparr>"

definition count_inactive :: "nat \<Rightarrow> session_con_entry \<Rightarrow> nic \<Rightarrow> conn_states_results \<Rightarrow> conn_states_results" where
  "count_inactive c con client r =
     (let faster = (con_speed con > max_inactive_speed r)
      in r\<lparr>inactive_cnt := inactive_cnt r + 1,
           max_inactive_speed := (if faster then con_speed con else max_inactive_speed r),
           fastest_inactive := (if faster then Some c else fastest_inactive r),
           wired_inactive_cnt := (if nic_type client = IFM_ETHER then wired_inactive_cnt r + 1
                                  else wired_inactive_cnt r)\<rparr>)"

definition count_potential :: "bool \<Rightarrow> nat \<Rightarrow> u64 \<Rightarrow> nic \<Rightarrow> conn_states_results \<Rightarrow> conn_states_results" where
  "count_potential wired c speed client r =
     (let r = (if speed > max_potential_speed r
               then r\<lparr>max_potential_speed := speed, potential_con_with_max_speed := Some c\<rparr> else r)
      in if wired \<and> nic_type client = IFM_ETHER \<and> speed > max_potential_wired_speed r
         then r\<lparr>max_potential_wired_speed := speed, potential_wired_con_with_max_speed := Some c\<rparr> else r)"

definition count_step :: "nat \<Rightarrow> mc_table \<times> conn_states_results \<Rightarrow> mc_table \<times> conn_states_results" where
  "count_step c tr =
     (let (t, r) = tr; con = cons t c
      in if con_state con = SMB2_MC_STATE_CONNECTED then
           (t, if active_state con = SMB2_MC_FUNC_ACTIVE then count_active con r
               else if active_state con = SMB2_MC_FUNC_INACTIVE then count_inactive c con (client_of t c) r
               else r)
         else if con_state con = SMB2_MC_STATE_POTENTIAL \<and>
                 nic_state (client_of t c) = SMB2_MC_STATE_IDLE \<and> nic_state (server_of t c) = SMB2_MC_STATE_IDLE then
           (upd_con c (con_speed_update (\<lambda>_. pair_speed t c)) t,
            count_potential (prefer_wired t) c (pair_speed t c) (client_of t c) r)
         else (t, r))"

text \<open>
  The search for a connection that would be faster than the active ones and has one interface in use and
  one idle; it ends with the first.
\<close>

definition one_idle :: "mc_table \<Rightarrow> nat \<Rightarrow> bool" where
  "one_idle t c \<longleftrightarrow>
     nic_state (client_of t c) = SMB2_MC_STATE_USED \<and> nic_state (server_of t c) = SMB2_MC_STATE_IDLE \<or>
     nic_state (client_of t c) = SMB2_MC_STATE_IDLE \<and> nic_state (server_of t c) = SMB2_MC_STATE_USED"

primrec faster_scan :: "nat list \<Rightarrow> mc_table \<times> conn_states_results \<Rightarrow> mc_table \<times> conn_states_results" where
  "faster_scan [] tr = tr"
| "faster_scan (c # cs) tr =
     (let (t, r) = tr; con = cons t c
      in if (con_state con = SMB2_MC_STATE_SURPLUS \<or> con_state con = SMB2_MC_STATE_POTENTIAL) \<and> one_idle t c then
           let speed = pair_speed t c; t = upd_con c (con_speed_update (\<lambda>_. speed)) t
           in if prefer_wired t \<and> nic_type (client_of t c) \<noteq> IFM_ETHER then faster_scan cs (t, r)
              else if speed > max_active_speed r \<and> nic_state (server_of t c) \<noteq> SMB2_MC_STATE_ON_TRIAL then
                (set_con_state c SMB2_MC_STATE_POTENTIAL t,
                 r\<lparr>max_potential_speed := speed, potential_con_with_max_speed := Some c,
                   max_potential_wired_speed := speed, potential_wired_con_with_max_speed := Some c\<rparr>)
              else faster_scan cs (t, r)
         else faster_scan cs (t, r))"

definition smb2_mc_count_connection_stats :: "mc_table \<Rightarrow> mc_table \<times> conn_states_results" where
  "smb2_mc_count_connection_stats t =
     (let (t, r) = fold count_step (session_con_list t) (t, zero_results);
          check_for_faster_rss = (active_cnt r > 0 \<and>
            (if prefer_wired t then potential_wired_con_with_max_speed r = None
             else potential_con_with_max_speed r = None))
      in if check_for_faster_rss then faster_scan (session_con_list t) (t, r) else (t, r))"

section \<open>Connections to remove\<close>

definition con_client_or_server_on_active :: "mc_table \<Rightarrow> nat \<Rightarrow> nat \<Rightarrow> bool" where
  "con_client_or_server_on_active t client_nic server_nic =
     list_ex (\<lambda>c. active_state (cons t c) = SMB2_MC_FUNC_ACTIVE \<and>
                  (con_client_nic (cons t c) = client_nic \<or> con_server_nic (cons t c) = server_nic)) (session_con_list t)"

text \<open>The fastest connection, and the fastest over a wired interface.\<close>

definition max_speeds :: "mc_table \<Rightarrow> u64 \<times> u64" where
  "max_speeds t =
     fold (\<lambda>c (wired, speed).
         (if prefer_wired t \<and> nic_type (client_of t c) = IFM_ETHER \<and> con_speed (cons t c) > wired
          then con_speed (cons t c) else wired,
          if con_speed (cons t c) > speed then con_speed (cons t c) else speed))
       (successful_con_list t) (0, 0)"

text \<open>
  What the second loop knows: the numbers of active and inactive connections and, of the inactive ones that
  share no interface with an active one, the fastest and the fastest wired one.
\<close>

record excess_marks =
  num_of_actives :: u32
  num_of_inactives :: u32
  xm_inactive_speed :: u64
  xm_fastest_inactive :: "nat option"
  xm_inactive_wired_speed :: u64
  xm_fastest_wired_inactive :: "nat option"

definition mark_activity :: "u64 \<Rightarrow> u64 \<Rightarrow> nat \<Rightarrow> mc_table \<Rightarrow> mc_table option" where
  "mark_activity wired_speed max_speed c t =
     (if con_speed (cons t c) = max_speed \<and> (wired_speed = 0 \<or> nic_type (client_of t c) = IFM_ETHER) then
        if active_state (cons t c) \<noteq> SMB2_MC_FUNC_ACTIVE then
          smb_iod_active (con_iod (cons t c)) (upd_con c (active_state_update (\<lambda>_. SMB2_MC_FUNC_ACTIVE)) t)
        else Some t
      else
        if active_state (cons t c) \<noteq> SMB2_MC_FUNC_INACTIVE then
          smb_iod_inactive (con_iod (cons t c)) (upd_con c (active_state_update (\<lambda>_. SMB2_MC_FUNC_INACTIVE)) t)
        else Some t)"

definition note_activity :: "mc_table \<Rightarrow> nat \<Rightarrow> excess_marks \<Rightarrow> excess_marks" where
  "note_activity t c m =
     (let con = cons t c;
          free = (\<not> con_client_or_server_on_active t (con_client_nic con) (con_server_nic con));
          fast = (con_speed con > xm_inactive_speed m \<and> free);
          wired = (prefer_wired t \<and> nic_type (client_of t c) = IFM_ETHER \<and>
                   con_speed con > xm_inactive_wired_speed m \<and> free)
      in if active_state con = SMB2_MC_FUNC_ACTIVE then m\<lparr>num_of_actives := num_of_actives m + 1\<rparr>
         else if active_state con = SMB2_MC_FUNC_INACTIVE then
           m\<lparr>num_of_inactives := num_of_inactives m + 1,
             xm_inactive_speed := (if fast then con_speed con else xm_inactive_speed m),
             xm_fastest_inactive := (if fast then Some c else xm_fastest_inactive m),
             xm_inactive_wired_speed := (if wired then con_speed con else xm_inactive_wired_speed m),
             xm_fastest_wired_inactive := (if wired then Some c else xm_fastest_wired_inactive m)\<rparr>
         else m)"

primrec mark_scan ::
  "u64 \<Rightarrow> u64 \<Rightarrow> nat list \<Rightarrow> mc_table \<times> excess_marks \<Rightarrow> (mc_table \<times> excess_marks) option" where
  "mark_scan wired_speed max_speed [] tm = Some tm"
| "mark_scan wired_speed max_speed (c # cs) tm =
     do {
       t \<leftarrow> mark_activity wired_speed max_speed c (fst tm);
       mark_scan wired_speed max_speed cs (t, note_activity t c (snd tm))
     }"

text \<open>All inactive connections but the fastest become redundant, until one is left.\<close>

primrec mark_redundant :: "nat option \<Rightarrow> u32 \<Rightarrow> nat list \<Rightarrow> mc_table \<Rightarrow> mc_table" where
  "mark_redundant fastest n [] t = t"
| "mark_redundant fastest n (c # cs) t =
     (if Some c \<noteq> fastest \<and> active_state (cons t c) = SMB2_MC_FUNC_INACTIVE then
        let t = upd_con c (active_state_update (\<lambda>_. SMB2_MC_FUNC_INACTIVE_REDUNDANT)) t
        in if n - 1 = 1 then t else mark_redundant fastest (n - 1) cs t
      else mark_redundant fastest n cs t)"

text \<open>
  The removal of redundant connections, and of active ones as long as there are more than the limit. The
  vector has room for \<open>max_out_len\<close> connections; the loop ends when it is full.
\<close>

primrec remove_scan :: "u32 \<Rightarrow> nat list \<Rightarrow> u32 \<Rightarrow> int \<Rightarrow> mc_table \<Rightarrow> nat list \<times> mc_table" where
  "remove_scan inactive [] active max_out_len t = ([], t)"
| "remove_scan inactive (c # cs) active max_out_len t =
     (if con_state (cons t c) = SMB2_MC_STATE_IN_REMOVAL then remove_scan inactive cs active max_out_len t
      else
        let over = (inactive + active > max_channels t \<and> active_state (cons t c) = SMB2_MC_FUNC_ACTIVE)
        in if \<not> over \<and> active_state (cons t c) \<noteq> SMB2_MC_FUNC_INACTIVE_REDUNDANT
           then remove_scan inactive cs active max_out_len t
           else
             let t = set_con_state c SMB2_MC_STATE_IN_REMOVAL t;
                 active = (if over then active - 1 else active)
             in if max_out_len - 1 = 0 then ([c], t)
                else
                  let (removal_vector, t) = remove_scan inactive cs active (max_out_len - 1) t
                  in (c # removal_vector, t))"

text \<open>The result: the connections to remove, the number of active connections and their speed.\<close>

definition smb2_mc_return_excess_connections ::
  "int \<Rightarrow> mc_table \<Rightarrow> (nat list \<times> u32 \<times> u64 \<times> mc_table) option" where
  "smb2_mc_return_excess_connections max_out_len t =
     (let (wired_speed, max_speed) = max_speeds t;
          max_speed = (if wired_speed \<noteq> 0 then wired_speed else max_speed)
      in do {
        (t, m) \<leftarrow> mark_scan wired_speed max_speed (successful_con_list t)
                   (t, \<lparr>num_of_actives = 0, num_of_inactives = 0, xm_inactive_speed = 0, xm_fastest_inactive = None,
                        xm_inactive_wired_speed = 0, xm_fastest_wired_inactive = None\<rparr>);
        let fastest = (if xm_fastest_wired_inactive m \<noteq> None then xm_fastest_wired_inactive m
                       else xm_fastest_inactive m);
            t = (if num_of_inactives m > 1
                 then mark_redundant fastest (num_of_inactives m) (successful_con_list t) t else t);
            (t, r) = smb2_mc_count_connection_stats t;
            (removal_vector, t) =
              remove_scan (inactive_cnt r) (successful_con_list t) (active_cnt r) max_out_len t
        in Some (removal_vector, num_of_actives m, max_speed, t)
      })"

section \<open>Connections to try\<close>

text \<open>The lemmas the termination of the loop rests on: counting changes speeds and surplus connections only.\<close>

lemma upd_con_simps [simp]:
  "cons (upd_con c f t) = (cons t)(c := f (cons t c))"
  "nics (upd_con c f t) = nics t" "next_id (upd_con c f t) = next_id t"
  "session_con_list (upd_con c f t) = session_con_list t"
  "successful_con_list (upd_con c f t) = successful_con_list t"
  "client_nic_info_list (upd_con c f t) = client_nic_info_list t"
  "server_nic_info_list (upd_con c f t) = server_nic_info_list t"
  "client_nic_count (upd_con c f t) = client_nic_count t"
  "server_nic_count (upd_con c f t) = server_nic_count t"
  "max_channels (upd_con c f t) = max_channels t" "prefer_wired (upd_con c f t) = prefer_wired t"
  "pause_trials (upd_con c f t) = pause_trials t"
  "active_on_trial_connections (upd_con c f t) = active_on_trial_connections t"
  by (simp_all add: upd_con_def)

lemma upd_nic_simps [simp]:
  "nics (upd_nic n g t) = (nics t)(n := g (nics t n))"
  "cons (upd_nic n g t) = cons t" "next_id (upd_nic n g t) = next_id t"
  "session_con_list (upd_nic n g t) = session_con_list t"
  "successful_con_list (upd_nic n g t) = successful_con_list t"
  "client_nic_info_list (upd_nic n g t) = client_nic_info_list t"
  "server_nic_info_list (upd_nic n g t) = server_nic_info_list t"
  "client_nic_count (upd_nic n g t) = client_nic_count t"
  "server_nic_count (upd_nic n g t) = server_nic_count t"
  "max_channels (upd_nic n g t) = max_channels t" "prefer_wired (upd_nic n g t) = prefer_wired t"
  "pause_trials (upd_nic n g t) = pause_trials t"
  "active_on_trial_connections (upd_nic n g t) = active_on_trial_connections t"
  by (simp_all add: upd_nic_def)

text \<open>
  What counting may do to a table: give connections a speed and make surplus ones potential.
\<close>

definition recon :: "session_con_entry \<Rightarrow> session_con_entry \<Rightarrow> bool" where
  "recon a b \<longleftrightarrow> active_state b = active_state a \<and> con_iod b = con_iod a \<and>
     con_client_nic b = con_client_nic a \<and> con_server_nic b = con_server_nic a \<and>
     (con_state b = con_state a \<or> con_state a = SMB2_MC_STATE_SURPLUS \<and> con_state b = SMB2_MC_STATE_POTENTIAL)"

definition recount :: "mc_table \<Rightarrow> mc_table \<Rightarrow> bool" where
  "recount t t' \<longleftrightarrow> t' = t\<lparr>cons := cons t'\<rparr> \<and> (\<forall>c. recon (cons t c) (cons t' c))"

lemma recount_refl [simp]: "recount t t"
  by (simp add: recount_def recon_def)

lemma recount_trans:
  assumes "recount t t'" "recount t' t''"
  shows "recount t t''"
proof -
  have a: "t' = t\<lparr>cons := cons t'\<rparr>" and b: "t'' = t'\<lparr>cons := cons t''\<rparr>"
    using assms by (simp_all only: recount_def)
  have "t'\<lparr>cons := cons t''\<rparr> = t\<lparr>cons := cons t''\<rparr>" by (subst a) simp
  with b have "t'' = t\<lparr>cons := cons t''\<rparr>" by (rule trans)
  moreover have "recon (cons t c) (cons t'' c)" for c
    using assms unfolding recount_def recon_def by metis
  ultimately show ?thesis unfolding recount_def by blast
qed

lemma recount_speed: "recount t (upd_con c (con_speed_update (\<lambda>_. v)) t)"
  by (simp add: recount_def recon_def upd_con_def)

lemma recount_surplus:
  "con_state (cons t c) = SMB2_MC_STATE_SURPLUS \<or> con_state (cons t c) = SMB2_MC_STATE_POTENTIAL \<Longrightarrow>
     recount t (set_con_state c SMB2_MC_STATE_POTENTIAL t)"
  by (auto simp: recount_def recon_def upd_con_def set_con_state_def)

lemma recount_simps:
  assumes "recount t t'"
  shows "session_con_list t' = session_con_list t" "successful_con_list t' = successful_con_list t" "nics t' = nics t"
    "client_nic_info_list t' = client_nic_info_list t" "server_nic_info_list t' = server_nic_info_list t"
    "client_nic_count t' = client_nic_count t" "server_nic_count t' = server_nic_count t"
    "next_id t' = next_id t" "max_channels t' = max_channels t" "prefer_wired t' = prefer_wired t"
    "pause_trials t' = pause_trials t" "active_on_trial_connections t' = active_on_trial_connections t"
    "active_state (cons t' c) = active_state (cons t c)" "con_iod (cons t' c) = con_iod (cons t c)"
    "con_client_nic (cons t' c) = con_client_nic (cons t c)" "con_server_nic (cons t' c) = con_server_nic (cons t c)"
    "con_state (cons t' c) = con_state (cons t c) \<or>
       con_state (cons t c) = SMB2_MC_STATE_SURPLUS \<and> con_state (cons t' c) = SMB2_MC_STATE_POTENTIAL"
proof -
  have t': "t' = t\<lparr>cons := cons t'\<rparr>" and r: "recon (cons t c) (cons t' c)"
    using assms by (auto simp: recount_def)
  show "session_con_list t' = session_con_list t" "successful_con_list t' = successful_con_list t" "nics t' = nics t"
    "client_nic_info_list t' = client_nic_info_list t" "server_nic_info_list t' = server_nic_info_list t"
    "client_nic_count t' = client_nic_count t" "server_nic_count t' = server_nic_count t"
    "next_id t' = next_id t" "max_channels t' = max_channels t" "prefer_wired t' = prefer_wired t"
    "pause_trials t' = pause_trials t" "active_on_trial_connections t' = active_on_trial_connections t"
    by (subst t', simp)+
  show "active_state (cons t' c) = active_state (cons t c)" "con_iod (cons t' c) = con_iod (cons t c)"
    "con_client_nic (cons t' c) = con_client_nic (cons t c)" "con_server_nic (cons t' c) = con_server_nic (cons t c)"
    "con_state (cons t' c) = con_state (cons t c) \<or>
       con_state (cons t c) = SMB2_MC_STATE_SURPLUS \<and> con_state (cons t' c) = SMB2_MC_STATE_POTENTIAL"
    using r by (auto simp: recon_def)
qed

lemma recount_state_iff:
  assumes "recount t t'" "s \<noteq> SMB2_MC_STATE_SURPLUS" "s \<noteq> SMB2_MC_STATE_POTENTIAL"
  shows "con_state (cons t' c) = s \<longleftrightarrow> con_state (cons t c) = s"
  using recount_simps(17) [OF assms(1), of c] assms(2,3) by auto

lemma count_step_recount: "recount (fst tr) (fst (count_step c tr))"
  by (cases tr) (simp add: count_step_def Let_def recount_speed)

lemma count_scan_recount: "recount (fst tr) (fst (fold count_step cs tr))"
proof (induction cs arbitrary: tr)
  case (Cons c cs)
  then show ?case using recount_trans [OF count_step_recount [of tr c] Cons.IH [of "count_step c tr"]] by simp
qed simp

lemma faster_scan_recount: "recount t (fst (faster_scan cs (t, r)))"
proof (induction cs arbitrary: t r)
  case Nil
  then show ?case by simp
next
  case (Cons c cs)
  let ?u = "upd_con c (con_speed_update (\<lambda>_. pair_speed t c)) t"
  have "recount t (set_con_state c SMB2_MC_STATE_POTENTIAL ?u)"
    if "con_state (cons t c) = SMB2_MC_STATE_SURPLUS \<or> con_state (cons t c) = SMB2_MC_STATE_POTENTIAL"
    by (rule recount_trans [OF recount_speed recount_surplus]) (use that in simp)
  moreover have "recount t (fst (faster_scan cs (?u, r)))"
    by (rule recount_trans [OF recount_speed Cons.IH])
  ultimately show ?case
    using Cons.IH [of t r] by (simp add: Let_def)
qed

lemma count_connection_stats_recount: "recount t (fst (smb2_mc_count_connection_stats t))"
proof -
  obtain t1 r1 where t1: "fold count_step (session_con_list t) (t, zero_results) = (t1, r1)"
    by (cases "fold count_step (session_con_list t) (t, zero_results)")
  then have "recount t t1" using count_scan_recount [of "(t, zero_results)" "session_con_list t"] by simp
  then show ?thesis
    using recount_trans [OF _ faster_scan_recount]
    by (simp add: smb2_mc_count_connection_stats_def t1 Let_def)
qed

text \<open>The connections that are connected and inactive, and the one the count returns.\<close>

definition spares :: "mc_table \<Rightarrow> nat set" where
  "spares t = {c \<in> set (session_con_list t). con_state (cons t c) = SMB2_MC_STATE_CONNECTED \<and>
                                             active_state (cons t c) = SMB2_MC_FUNC_INACTIVE}"

lemma finite_spares [simp]: "finite (spares t)"
  by (simp add: spares_def)

lemma recount_spares: "recount t t' \<Longrightarrow> spares t' = spares t"
  by (simp add: spares_def recount_simps recount_state_iff)

lemma count_step_fastest:
  assumes "fastest_inactive (snd (count_step c (t, r))) = Some d"
  shows "fastest_inactive r = Some d \<or> d = c \<and> con_state (cons t c) = SMB2_MC_STATE_CONNECTED \<and>
    active_state (cons t c) = SMB2_MC_FUNC_INACTIVE"
  using assms
  by (auto simp: count_step_def count_active_def count_inactive_def count_potential_def Let_def split: if_splits)

lemma count_scan_fastest:
  assumes "recount t0 t" "set cs \<subseteq> set (session_con_list t0)" "\<forall>d. fastest_inactive r = Some d \<longrightarrow> d \<in> spares t0"
    and "fastest_inactive (snd (fold count_step cs (t, r))) = Some c"
  shows "c \<in> spares t0"
  using assms
proof (induction cs arbitrary: t r)
  case Nil
  then show ?case by simp
next
  case (Cons d cs)
  obtain t1 r1 where t1: "count_step d (t, r) = (t1, r1)" by (cases "count_step d (t, r)")
  have "recount t0 t1"
    using recount_trans [OF Cons.prems(1) count_step_recount [of "(t, r)" d, simplified]] t1 by simp
  moreover have "\<forall>e. fastest_inactive r1 = Some e \<longrightarrow> e \<in> spares t0"
    using count_step_fastest [of d t r] t1 Cons.prems(1,2,3)
    by (auto simp: spares_def recount_simps recount_state_iff)
  ultimately show ?case using Cons.IH [of t1 r1] Cons.prems(2,4) t1 by simp
qed

lemma faster_scan_fastest: "fastest_inactive (snd (faster_scan cs (t, r))) = fastest_inactive r"
  by (induction cs arbitrary: t) (simp_all add: Let_def)

lemma stats_fastest_spare:
  assumes "fastest_inactive (snd (smb2_mc_count_connection_stats t)) = Some c"
  shows "c \<in> spares t"
proof -
  obtain t1 r1 where t1: "fold count_step (session_con_list t) (t, zero_results) = (t1, r1)"
    by (cases "fold count_step (session_con_list t) (t, zero_results)")
  have "fastest_inactive r1 = Some c"
    using assms faster_scan_fastest [of _ t1 r1]
    by (auto simp: smb2_mc_count_connection_stats_def t1 Let_def split: if_splits)
  then show ?thesis
    using count_scan_fastest [of t t "session_con_list t" zero_results c] t1 by (simp add: zero_results_def)
qed

text \<open>
  The loop. A spare connection is made active when no connection is; otherwise the best candidate, if it is
  worth it, goes to trial.
\<close>

definition wake_spare :: "mc_table \<Rightarrow> conn_states_results \<Rightarrow> (nat \<times> nat) option" where
  "wake_spare t r =
     (if active_cnt r = 0 \<and> inactive_cnt r \<noteq> 0 then
        do {
          c \<leftarrow> fastest_inactive r;
          iod \<leftarrow> con_iod (cons t c);
          Some (c, iod)
        }
      else None)"

definition activate :: "nat \<Rightarrow> nat \<Rightarrow> mc_table \<Rightarrow> mc_table" where
  "activate c iod t =
     (upd_con c (active_state_update (\<lambda>_. SMB2_MC_FUNC_ACTIVE)) t)\<lparr>iod_inactive := (iod_inactive t)(iod := False)\<rparr>"

definition enough_connections :: "mc_table \<Rightarrow> conn_states_results \<Rightarrow> bool" where
  "enough_connections t r \<longleftrightarrow> inactive_cnt r + active_cnt r \<ge> max_channels t \<and>
     max_active_speed r \<ge> max_potential_speed r \<and> max_active_speed r > max_inactive_speed r"

definition potential_con :: "mc_table \<Rightarrow> conn_states_results \<Rightarrow> (nat \<times> u64 \<times> bool) option" where
  "potential_con t r =
     (if prefer_wired t then
        case potential_wired_con_with_max_speed r of
          Some c \<Rightarrow> Some (c, max_potential_wired_speed r, False)
        | None \<Rightarrow>
            if inactive_cnt r = 0
            then map_option (\<lambda>c. (c, max_potential_speed r, True)) (potential_con_with_max_speed r)
            else None
      else map_option (\<lambda>c. (c, max_potential_speed r, False)) (potential_con_with_max_speed r))"

definition con_to_add :: "mc_table \<Rightarrow> conn_states_results \<Rightarrow> bool \<Rightarrow> (nat \<times> con_active_state) option" where
  "con_to_add t r inactive_added =
     (case potential_con t r of
        None \<Rightarrow> None
      | Some (c, potential_speed, dont_test_for_active) \<Rightarrow>
          if potential_speed \<ge> max_active_speed r \<and> \<not> dont_test_for_active then Some (c, SMB2_MC_FUNC_ACTIVE)
          else if potential_speed > max_inactive_speed r \<or>
                  \<not> inactive_added \<and> (inactive_cnt r = 0 \<or> prefer_wired t \<and> wired_inactive_cnt r = 0)
          then Some (c, SMB2_MC_FUNC_INACTIVE)
          else None)"

definition start_trial :: "nat \<Rightarrow> con_active_state \<Rightarrow> mc_table \<Rightarrow> mc_table" where
  "start_trial c a t =
     (let t = set_nic_states c SMB2_MC_STATE_ON_TRIAL
                (upd_con c (\<lambda>con. con\<lparr>active_state := a, con_state := SMB2_MC_STATE_IN_TRIAL\<rparr>) t)
      in (upd_con c (con_speed_update (\<lambda>_. pair_speed t c)) t)
           \<lparr>active_on_trial_connections := active_on_trial_connections t + 1\<rparr>)"

lemma spares_activate: "c \<in> spares t \<Longrightarrow> spares (activate c iod t) = spares t - {c}"
  by (auto simp: spares_def activate_def)

lemma wake_spare_fewer:
  assumes "smb2_mc_count_connection_stats t = (t', r)" "wake_spare t' r = Some (c, iod)"
  shows "card (spares (activate c iod t')) < card (spares t)"
proof -
  have "fastest_inactive r = Some c"
    using assms(2) by (auto simp: wake_spare_def split: if_splits bind_splits)
  then have c: "c \<in> spares t" using stats_fastest_spare [of t c] assms(1) by simp
  have "spares t' = spares t"
    using recount_spares [OF count_connection_stats_recount [of t]] assms(1) by simp
  then have "spares (activate c iod t') = spares t - {c}" using c by (simp add: spares_activate)
  then show ?thesis using c by (metis card_Diff1_less finite_spares)
qed

function trial_loop :: "nat \<Rightarrow> bool \<Rightarrow> mc_table \<Rightarrow> nat list \<times> mc_table" where
  "trial_loop max_out_len inactive_added t =
     (if max_out_len = 0 then ([], t)
      else
        let (t', r) = smb2_mc_count_connection_stats t
        in case wake_spare t' r of
             Some (c, iod) \<Rightarrow> trial_loop max_out_len inactive_added (activate c iod t')
           | None \<Rightarrow>
               if enough_connections t' r then ([], t')
               else
                 case con_to_add t' r inactive_added of
                   None \<Rightarrow> ([], t')
                 | Some (c, a) \<Rightarrow>
                     let (trial_vector, t'') =
                           trial_loop (max_out_len - 1) (inactive_added \<or> a = SMB2_MC_FUNC_INACTIVE) (start_trial c a t')
                     in (c # trial_vector, t''))"
  by pat_completeness auto

termination
  by (relation "inv_image (less_than <*lex*> less_than) (\<lambda>(n, a, t). (n, card (spares t)))")
    (auto intro: wake_spare_fewer sym)

declare trial_loop.simps [simp del]

definition smb2_mc_ask_for_new_connection_trial :: "u32 \<Rightarrow> mc_table \<Rightarrow> nat list \<times> mc_table" where
  "smb2_mc_ask_for_new_connection_trial max_out_len t =
     (if pause_trials t \<noteq> 0 then ([], t)
      else if active_on_trial_connections t > max_channels t then ([], t)
      else trial_loop (unat max_out_len) False t)"

section \<open>The pairs\<close>

definition find_con_by_nics :: "mc_table \<Rightarrow> nat \<Rightarrow> nat \<Rightarrow> nat option" where
  "find_con_by_nics t c s =
     List.find (\<lambda>con. con_client_nic (cons t con) = c \<and> con_server_nic (cons t con) = s) (session_con_list t)"

definition new_con_state :: "nic \<Rightarrow> nic \<Rightarrow> con_state" where
  "new_con_state client server =
     (if nic_ip_types client AND nic_ip_types server = 0 \<or> nic_flags client AND SMB2_MC_NIC_IN_IGNORELIST \<noteq> 0
      then SMB2_MC_STATE_NO_POTENTIAL
      else if nic_state server = SMB2_MC_STATE_USED then SMB2_MC_STATE_SURPLUS
      else SMB2_MC_STATE_POTENTIAL)"

definition new_con :: "nat \<Rightarrow> nat \<Rightarrow> mc_table \<Rightarrow> mc_table" where
  "new_con c s t =
     upd_nic c (\<lambda>n. n\<lparr>possible_connections := possible_connections n @ [next_id t]\<rparr>)
       (t\<lparr>cons := (cons t)(next_id t := \<lparr>con_state = new_con_state (nics t c) (nics t s),
                      active_state = SMB2_MC_FUNC_ACTIVE, con_speed = 0, con_iod = None,
                      con_client_nic = c, con_server_nic = s\<rparr>),
          session_con_list := session_con_list t @ [next_id t], next_id := next_id t + 1\<rparr>)"

text \<open>One pair of the nested loops: a connection is made if there is none, unless memory runs out.\<close>

definition update_pair :: "(nat \<Rightarrow> bool) \<Rightarrow> nat \<Rightarrow> nat \<Rightarrow> mc_table \<Rightarrow> mc_table option" where
  "update_pair mem c s t =
     (case find_con_by_nics t c s of
        None \<Rightarrow> if mem (next_id t) then Some (new_con c s t) else None
      | Some con \<Rightarrow>
          Some (if nic_state (nics t c) = SMB2_MC_STATE_IDLE \<and> nic_state (nics t s) = SMB2_MC_STATE_IDLE \<and>
                   con_state (cons t con) = SMB2_MC_STATE_SURPLUS
                then set_con_state con SMB2_MC_STATE_POTENTIAL t else t))"

primrec update_pairs :: "(nat \<Rightarrow> bool) \<Rightarrow> (nat \<times> nat) list \<Rightarrow> mc_table \<Rightarrow> errno \<times> mc_table" where
  "update_pairs mem [] t = (0, t)"
| "update_pairs mem (p # ps) t =
     (case update_pair mem (fst p) (snd p) t of
        None \<Rightarrow> (ENOMEM, t)
      | Some t \<Rightarrow> update_pairs mem ps t)"

definition smb2_mc_update_con_list :: "(nat \<Rightarrow> bool) \<Rightarrow> mc_table \<Rightarrow> errno \<times> mc_table" where
  "smb2_mc_update_con_list mem t =
     update_pairs mem (List.product (client_nic_info_list t) (server_nic_info_list t)) t"

section \<open>Results of trials\<close>

definition connect :: "nat option \<Rightarrow> nat \<Rightarrow> mc_table \<Rightarrow> mc_table" where
  "connect iod c t =
     (let t = set_nic_states c SMB2_MC_STATE_USED
                (upd_con c (\<lambda>con. con\<lparr>con_iod := (if iod \<noteq> None then iod else con_iod con),
                                      con_state := SMB2_MC_STATE_CONNECTED\<rparr>) t)
      in (upd_con c (con_speed_update (\<lambda>_. pair_speed t c)) t)
           \<lparr>successful_con_list := successful_con_list t @ [c]\<rparr>)"

definition make_surplus :: "nat \<Rightarrow> mc_table \<Rightarrow> mc_table" where
  "make_surplus c t =
     (if con_state (cons t c) = SMB2_MC_STATE_POTENTIAL then set_con_state c SMB2_MC_STATE_SURPLUS t else t)"

text \<open>The result is the connection that was made, if any.\<close>

definition smb2_mc_update_new_connection ::
  "u64 \<Rightarrow> u64 \<Rightarrow> nat option \<Rightarrow> mc_table \<Rightarrow> errno \<times> nat option \<times> mc_table" where
  "smb2_mc_update_new_connection client_idx server_idx iod t =
     (case (smb2_mc_get_nic_by_index (nics t) (client_nic_info_list t) client_idx,
            smb2_mc_get_nic_by_index (nics t) (server_nic_info_list t) server_idx) of
        (Some c, Some s) \<Rightarrow>
          let (made, t) = fold (\<lambda>con (made, t).
                if nic_index (server_of t con) = server_idx then (Some con, connect iod con t)
                else (made, make_surplus con t)) (possible_connections (nics t c)) (None, t);
              t = fold (\<lambda>con t. if nic_index (server_of t con) = server_idx then make_surplus con t else t)
                    (session_con_list t) t
          in (0, made, t)
      | _ \<Rightarrow> (EINVAL, None, t))"

text \<open>The loop that brings the states of the interfaces in line with the connections.\<close>

definition fix_nic_state :: "nat \<Rightarrow> mc_table \<Rightarrow> mc_table" where
  "fix_nic_state c t =
     (case con_state (cons t c) of
        SMB2_MC_STATE_CONNECTED \<Rightarrow> set_nic_states c SMB2_MC_STATE_USED t
      | SMB2_MC_STATE_IN_TRIAL \<Rightarrow> set_nic_states c SMB2_MC_STATE_ON_TRIAL t
      | _ \<Rightarrow> t)"

definition fix_nic_states :: "mc_table \<Rightarrow> mc_table" where
  "fix_nic_states t = fold fix_nic_state (session_con_list t) t"

text \<open>What a failed trial does to a connection of the table.\<close>

definition trial_failed_con :: "u64 \<Rightarrow> u64 \<Rightarrow> nat \<Rightarrow> mc_table \<Rightarrow> mc_table" where
  "trial_failed_con client_nic_idx server_nic_idx c t =
     (if nic_index (client_of t c) AND SMB2_IF_INDEX_MASK = client_nic_idx AND SMB2_IF_INDEX_MASK then
        if nic_index (server_of t c) AND SMB2_IF_INDEX_MASK = server_nic_idx AND SMB2_IF_INDEX_MASK
        then set_con_state c SMB2_MC_STATE_FAILED_TO_CONNECT t
        else if con_state (cons t c) = SMB2_MC_STATE_SURPLUS then set_con_state c SMB2_MC_STATE_POTENTIAL t
        else t
      else if nic_index (server_of t c) = server_nic_idx \<and> con_state (cons t c) = SMB2_MC_STATE_SURPLUS
      then set_con_state c SMB2_MC_STATE_POTENTIAL t
      else t)"

definition trial_failed :: "nat \<Rightarrow> mc_table \<Rightarrow> mc_table" where
  "trial_failed c t =
     (let client_nic_idx = nic_index (client_of t c); server_nic_idx = nic_index (server_of t c);
          t = upd_con c (con_iod_update (\<lambda>_. None)) (set_nic_states c SMB2_MC_STATE_IDLE t)
      in fold (trial_failed_con client_nic_idx server_nic_idx) (session_con_list t) t)"

definition smb2_mc_report_connection_trial_results ::
  "(nat \<Rightarrow> bool) \<Rightarrow> bool \<Rightarrow> nat \<Rightarrow> mc_table \<Rightarrow> errno \<times> mc_table" where
  "smb2_mc_report_connection_trial_results mem passed c t =
     (let t = t\<lparr>active_on_trial_connections := active_on_trial_connections t - 1\<rparr>;
          (error, t) =
            (if passed then
               case smb2_mc_update_new_connection (nic_index (client_of t c)) (nic_index (server_of t c)) None t
               of (error, _, t) \<Rightarrow> (error, t)
             else (0, trial_failed c t));
          t = fix_nic_states t
      in if error = 0 then smb2_mc_update_con_list mem t else (error, t))"

definition smb2_mc_inform_connection_disconnected :: "(nat \<Rightarrow> bool) \<Rightarrow> nat \<Rightarrow> mc_table \<Rightarrow> errno \<times> mc_table" where
  "smb2_mc_inform_connection_disconnected mem c t =
     (let s = con_state (cons t c);
          t = (if s = SMB2_MC_STATE_CONNECTED \<or> s = SMB2_MC_STATE_IN_REMOVAL then
                 set_con_state c SMB2_MC_STATE_POTENTIAL (t\<lparr>successful_con_list := remove1 c (successful_con_list t)\<rparr>)
               else if s \<noteq> SMB2_MC_STATE_FAILED_TO_CONNECT \<and> s \<noteq> SMB2_MC_STATE_NO_POTENTIAL then
                 set_con_state c SMB2_MC_STATE_POTENTIAL t
               else t);
          t = upd_con c (con_iod_update (\<lambda>_. None)) (set_nic_states c SMB2_MC_STATE_IDLE t)
      in smb2_mc_update_con_list mem (fix_nic_states t))"

definition smb2_mc_inform_connection_active_state_change :: "bool \<Rightarrow> nat \<Rightarrow> mc_table \<Rightarrow> mc_table" where
  "smb2_mc_inform_connection_active_state_change active c t =
     upd_con c (active_state_update (\<lambda>_. if active then SMB2_MC_FUNC_ACTIVE else SMB2_MC_FUNC_INACTIVE)) t"

definition smb2_mc_update_main_channel ::
  "sockaddr \<Rightarrow> sockaddr \<Rightarrow> nat \<Rightarrow> mc_table \<Rightarrow> (errno \<times> nat option \<times> mc_table) option" where
  "smb2_mc_update_main_channel client_ip server_ip iod t =
     do {
       c \<leftarrow> smb2_mc_get_nic_by_ip (nics t) (client_nic_info_list t) client_ip;
       s \<leftarrow> smb2_mc_get_nic_by_ip (nics t) (server_nic_info_list t) server_ip;
       Some (case (c, s) of
               (Some c, Some s) \<Rightarrow>
                 smb2_mc_update_new_connection (nic_index (nics t c)) (nic_index (nics t s)) (Some iod) t
             | _ \<Rightarrow> (EINVAL, None, t))
     }"

text \<open>A channel that is made for a trial is tied to its connection.\<close>

definition attach_iod :: "nat \<Rightarrow> nat \<Rightarrow> mc_table \<Rightarrow> mc_table" where
  "attach_iod c iod t =
     (let t = upd_con c (con_iod_update (\<lambda>_. Some iod)) t
      in if active_state (cons t c) \<noteq> SMB2_MC_FUNC_ACTIVE
         then t\<lparr>iod_inactive := (iod_inactive t)(iod := True)\<rparr> else t)"

section \<open>Pauses\<close>

definition smb2_mc_pause_trials :: "mc_table \<Rightarrow> mc_table" where
  "smb2_mc_pause_trials t = t\<lparr>pause_trials := pause_trials t + 1\<rparr>"

definition smb2_mc_resume_trials :: "mc_table \<Rightarrow> mc_table" where
  "smb2_mc_resume_trials t = (if pause_trials t \<noteq> 0 then t\<lparr>pause_trials := pause_trials t - 1\<rparr> else t)"

definition smb2_mc_abort_trials :: "mc_table \<Rightarrow> mc_table" where
  "smb2_mc_abort_trials t =
     (if pause_trials t \<noteq> 0 then
        fold (\<lambda>c t. case con_iod (cons t c) of
                Some iod \<Rightarrow> if con_state (cons t c) = SMB2_MC_STATE_IN_TRIAL
                            then t\<lparr>iod_abort := (iod_abort t)(iod := True)\<rparr> else t
              | None \<Rightarrow> t) (session_con_list t) t
      else t)"

definition smb2_mc_check_for_active_trials :: "mc_table \<Rightarrow> bool" where
  "smb2_mc_check_for_active_trials t =
     list_ex (\<lambda>c. con_state (cons t c) = SMB2_MC_STATE_IN_TRIAL) (session_con_list t)"

section \<open>Changes of the interfaces\<close>

definition nic_of :: "bool \<Rightarrow> session_con_entry \<Rightarrow> nat" where
  "nic_of is_client con = (if is_client then con_client_nic con else con_server_nic con)"

definition nic_list :: "bool \<Rightarrow> mc_table \<Rightarrow> nat list" where
  "nic_list is_client t = (if is_client then client_nic_info_list t else server_nic_info_list t)"

definition set_nic_list :: "bool \<Rightarrow> nat list \<Rightarrow> mc_table \<Rightarrow> mc_table" where
  "set_nic_list is_client l t =
     (if is_client then t\<lparr>client_nic_info_list := l\<rparr> else t\<lparr>server_nic_info_list := l\<rparr>)"

definition add_nic_count :: "bool \<Rightarrow> u32 \<Rightarrow> mc_table \<Rightarrow> mc_table" where
  "add_nic_count is_client k t =
     (if is_client then t\<lparr>client_nic_count := client_nic_count t + k\<rparr>
      else t\<lparr>server_nic_count := server_nic_count t + k\<rparr>)"

definition reset_con :: "bool \<Rightarrow> nat \<Rightarrow> nat \<Rightarrow> mc_table \<Rightarrow> mc_table" where
  "reset_con is_client n c t =
     (if nic_of is_client (cons t c) = n \<and> nic_flags (nics t n) AND SMB2_MC_NIC_IN_IGNORELIST = 0 then
        if con_state (cons t c) = SMB2_MC_STATE_FAILED_TO_CONNECT \<or> con_state (cons t c) = SMB2_MC_STATE_NO_POTENTIAL
        then set_con_state c SMB2_MC_STATE_POTENTIAL t
        else upd_con c (con_speed_update (\<lambda>_. pair_speed t c)) t
      else t)"

definition smb2_mc_reset_con_status :: "bool \<Rightarrow> nat \<Rightarrow> mc_table \<Rightarrow> mc_table" where
  "smb2_mc_reset_con_status is_client n t = fold (reset_con is_client n) (session_con_list t) t"

definition smb2_mc_reset_nic_list :: "mc_table \<Rightarrow> mc_table" where
  "smb2_mc_reset_nic_list t = fold (smb2_mc_reset_con_status True) (client_nic_info_list t) t"

text \<open>
  The addresses of a known interface are brought in line with the ones just learnt: those that are gone are
  dropped, then the new ones are added at the end. The errors of the additions are ignored.
\<close>

primrec addr_in :: "sockaddr list \<Rightarrow> sockaddr \<Rightarrow> bool option" where
  "addr_in [] a = Some False"
| "addr_in (n # ns) a =
     do {
       same \<leftarrow> smb2_mc_sockaddr_cmp n a;
       rest \<leftarrow> addr_in ns a;
       Some (same \<or> rest)
     }"

primrec keep_addrs :: "sockaddr list \<Rightarrow> sockaddr list \<Rightarrow> sockaddr list option" where
  "keep_addrs new [] = Some []"
| "keep_addrs new (a # as) =
     do {
       found \<leftarrow> addr_in new a;
       rest \<leftarrow> keep_addrs new as;
       Some (if found then a # rest else rest)
     }"

primrec add_addrs :: "(nat \<Rightarrow> bool) \<Rightarrow> sockaddr list \<Rightarrow> nic \<times> nat \<times> bool \<Rightarrow> (nic \<times> nat \<times> bool) option" where
  "add_addrs mem [] s = Some s"
| "add_addrs mem (a # as) s =
     do {
       (_, n, changed) \<leftarrow> smb2_mc_update_info_with_ip (mem (fst (snd s))) (fst s) a;
       add_addrs mem as (n, fst (snd s) + 1, snd (snd s) \<or> changed)
     }"

definition smb2_mc_update_ip_list :: "(nat \<Rightarrow> bool) \<Rightarrow> nat \<Rightarrow> nic \<Rightarrow> nic \<Rightarrow> (nic \<times> nat \<times> bool) option" where
  "smb2_mc_update_ip_list mem k existing_nic new_nic =
     do {
       kept \<leftarrow> keep_addrs (addr_list new_nic) (addr_list existing_nic);
       add_addrs mem (addr_list new_nic)
         (existing_nic\<lparr>addr_list := kept\<rparr>, k, length kept \<noteq> length (addr_list existing_nic))
     }"

text \<open>The connections of an interface, and its removal when none of them is of use.\<close>

definition cons_of :: "bool \<Rightarrow> nat \<Rightarrow> mc_table \<Rightarrow> nat list" where
  "cons_of is_client n t = filter (\<lambda>c. nic_of is_client (cons t c) = n) (session_con_list t)"

definition drop_con :: "nat \<Rightarrow> mc_table \<Rightarrow> mc_table" where
  "drop_con c t =
     upd_nic (con_client_nic (cons t c)) (\<lambda>n. n\<lparr>possible_connections := remove1 c (possible_connections n)\<rparr>)
       (t\<lparr>session_con_list := remove1 c (session_con_list t)\<rparr>)"

definition smb2_mc_release_interface :: "bool \<Rightarrow> nat \<Rightarrow> mc_table \<Rightarrow> mc_table" where
  "smb2_mc_release_interface is_client n t =
     add_nic_count is_client (- 1) (set_nic_list is_client (remove1 n (nic_list is_client t)) t)"

definition nic_unused :: "bool \<Rightarrow> nat \<Rightarrow> mc_table \<Rightarrow> bool" where
  "nic_unused is_client n t \<longleftrightarrow>
     cons_of is_client n t \<noteq> [] \<and> nic_flags (nics t n) AND SMB2_MC_NIC_IN_IGNORELIST = 0 \<and>
     (\<forall>c \<in> set (cons_of is_client n t).
        con_state (cons t c) = SMB2_MC_STATE_FAILED_TO_CONNECT \<or> con_state (cons t c) = SMB2_MC_STATE_NO_POTENTIAL)"

definition smb2_mc_remove_nic_if_unused :: "bool \<Rightarrow> nat \<Rightarrow> mc_table \<Rightarrow> mc_table option" where
  "smb2_mc_remove_nic_if_unused is_client n t =
     (if nic_unused is_client n t then
        if addr_list (nics t n) = [] then None
        else Some (smb2_mc_release_interface is_client n (fold drop_con (cons_of is_client n t) t))
      else Some t)"

text \<open>
  One interface of the update, and whether it is new. A known one is updated and its copy released; a new one
  moves to the table. Either way it leaves the list of the update.
\<close>

definition nic_changed :: "nic \<Rightarrow> nic \<Rightarrow> bool" where
  "nic_changed a b \<longleftrightarrow> nic_link_speed a \<noteq> nic_link_speed b \<or> nic_type a \<noteq> nic_type b"

definition merge_nic :: "(nat \<Rightarrow> bool) \<Rightarrow> bool \<Rightarrow> nat \<Rightarrow> mc_table \<Rightarrow> (bool \<times> mc_table) option" where
  "merge_nic mem is_client u t =
     (case smb2_mc_get_nic_by_index (nics t) (nic_list is_client t) (nic_index (nics t u)) of
        Some n \<Rightarrow>
          do {
            (info, k, ip_addr_list_change) \<leftarrow> smb2_mc_update_ip_list mem (next_id t) (nics t n) (nics t u);
            let changed = (ip_addr_list_change \<or> nic_changed (nics t n) (nics t u));
                info = (if changed then info\<lparr>nic_link_speed := nic_link_speed (nics t u), nic_type := nic_type (nics t u)\<rparr>
                        else info);
                t = (upd_nic n (\<lambda>_. info) t)\<lparr>next_id := k\<rparr>
            in Some (False, if changed \<or> is_client then smb2_mc_reset_con_status is_client n t else t)
          }
      | None \<Rightarrow>
          Some (True, add_nic_count is_client 1 (set_nic_list is_client (insert_by_speed (nics t) u (nic_list is_client t)) t)))"

primrec merge_nics ::
  "(nat \<Rightarrow> bool) \<Rightarrow> bool \<Rightarrow> nat list \<Rightarrow> nat list \<times> bool \<times> mc_table \<Rightarrow> (nat list \<times> bool \<times> mc_table) option" where
  "merge_nics mem is_client [] s = Some s"
| "merge_nics mem is_client (u # us) s =
     do {
       (added, t) \<leftarrow> merge_nic mem is_client u (snd (snd s));
       merge_nics mem is_client us (remove1 u (fst s), fst (snd s) \<or> added, t)
     }"

text \<open>The interfaces of the table that the list of the update does not have are removed if unused.\<close>

primrec remove_excess :: "bool \<Rightarrow> nat list \<Rightarrow> nat list \<Rightarrow> mc_table \<Rightarrow> mc_table option" where
  "remove_excess is_client updated [] t = Some t"
| "remove_excess is_client updated (n # ns) t =
     do {
       t \<leftarrow> (if list_ex (\<lambda>u. nic_index (nics t u) = nic_index (nics t n)) updated then Some t
             else smb2_mc_remove_nic_if_unused is_client n t);
       remove_excess is_client updated ns t
     }"

definition smb2_mc_update_nic_list_from_notifier ::
  "(nat \<Rightarrow> bool) \<Rightarrow> nat list \<Rightarrow> bool \<Rightarrow> mc_table \<Rightarrow> (errno \<times> mc_table) option" where
  "smb2_mc_update_nic_list_from_notifier mem updated is_client t =
     do {
       (updated, need_update, t) \<leftarrow> merge_nics mem is_client updated (updated, False, t);
       let (error, t) = (if need_update then smb2_mc_update_con_list mem t else (0, t))
       in do {
         t \<leftarrow> remove_excess is_client updated (nic_list is_client t) t;
         Some (error, t)
       }
     }"

text \<open>
  The temporary table of the two events has its interfaces in the store of the session's table; only the
  list and the counter of its own side are used.
\<close>

definition fresh_nic_table :: "mc_table \<Rightarrow> nic_table" where
  "fresh_nic_table t = \<lparr>nt_nics = nics t, nt_list = [], nt_count = 0, nt_next = next_id t\<rparr>"

definition with_nics :: "nic_table \<Rightarrow> mc_table \<Rightarrow> mc_table" where
  "with_nics nt t = t\<lparr>nics := nt_nics nt, next_id := nt_next nt\<rparr>"

definition smb2_mc_notifier_event ::
  "(nat \<Rightarrow> bool) \<Rightarrow> errno + byte list \<Rightarrow> u32 \<Rightarrow> u32 \<Rightarrow> bool \<Rightarrow> mc_table \<Rightarrow> (errno \<times> mc_table) option" where
  "smb2_mc_notifier_event mem array count clnt_rss force t =
     do {
       (error, nt) \<leftarrow> smb2_mc_parse_client_interface_array mem (if clnt_rss \<noteq> 0 then clnt_rss else 4) [] force array count
                        (fresh_nic_table t);
       if error \<noteq> 0 then Some (error, with_nics nt t)
       else smb2_mc_update_nic_list_from_notifier mem (nt_list nt) True (with_nics nt t)
     }"

definition smb2_mc_query_info_response_event ::
  "(nat \<Rightarrow> bool) \<Rightarrow> byte list option \<Rightarrow> mc_table \<Rightarrow> (errno \<times> mc_table) option" where
  "smb2_mc_query_info_response_event mem server_info_buffer t =
     (case server_info_buffer of
        None \<Rightarrow> Some (EINVAL, t)
      | Some buf \<Rightarrow>
          do {
            (error, nt) \<leftarrow> parse_server_reply mem (srvr_rss_channels t) (fresh_nic_table t) buf;
            if error \<noteq> 0 then Some (error, with_nics nt t)
            else smb2_mc_update_nic_list_from_notifier mem (nt_list nt) False (with_nics nt t)
          })"

text \<open>The first array of the client is parsed into the table itself.\<close>

definition update_client_interfaces ::
  "(nat \<Rightarrow> bool) \<Rightarrow> errno + byte list \<Rightarrow> u32 \<Rightarrow> bool \<Rightarrow> mc_table \<Rightarrow> (errno \<times> mc_table) option" where
  "update_client_interfaces mem array count force t =
     do {
       (error, nt) \<leftarrow> smb2_mc_parse_client_interface_array mem (clnt_rss_channels t) (client_if_ignorelist t) force array count
          \<lparr>nt_nics = nics t, nt_list = client_nic_info_list t, nt_count = client_nic_count t, nt_next = next_id t\<rparr>;
       Some (error, (with_nics nt t)\<lparr>client_nic_info_list := nt_list nt, client_nic_count := nt_count nt\<rparr>)
     }"

end
