(* ===== verification/McInvariant.thy ===== *)
theory McInvariant
  imports Multichannel
begin

unbundle bit_operations_syntax

text \<open>
  The invariants of the connection table (\<open>Multichannel\<close>), proved over every sequence of its operations: the
  shape of the table (lists, pairs, links between interfaces and connections), and the discipline of the list
  of successful connections.
\<close>

section \<open>The shape of a table\<close>

text \<open>
  Most operations change only states, speeds and channels. What they leave alone is the shape: the lists and
  counters, which pair a connection is, and the index, the addresses and the connections of an interface.
\<close>

type_synonym shape =
  "nat list \<times> nat list \<times> u32 \<times> u32 \<times> nat list \<times> nat \<times> (nat \<Rightarrow> nat \<times> nat) \<times> (nat \<Rightarrow> u64 \<times> sockaddr list \<times> nat list)"

definition con_shape :: "session_con_entry \<Rightarrow> nat \<times> nat" where
  "con_shape c = (con_client_nic c, con_server_nic c)"

definition nic_shape :: "nic \<Rightarrow> u64 \<times> sockaddr list \<times> nat list" where
  "nic_shape n = (nic_index n, addr_list n, possible_connections n)"

definition shape :: "mc_table \<Rightarrow> shape" where
  "shape t = (client_nic_info_list t, server_nic_info_list t, client_nic_count t, server_nic_count t,
     session_con_list t, next_id t, (\<lambda>c. con_shape (cons t c)), (\<lambda>n. nic_shape (nics t n)))"

named_theorems shape "operations that keep the shape"

lemma shape_upd_con: "con_shape (f (cons t c)) = con_shape (cons t c) \<Longrightarrow> shape (upd_con c f t) = shape t"
  by (auto simp: shape_def)

lemma shape_upd_nic: "nic_shape (f (nics t n)) = nic_shape (nics t n) \<Longrightarrow> shape (upd_nic n f t) = shape t"
  by (auto simp: shape_def)

lemma shape_fields [shape]:
  "shape (t\<lparr>active_on_trial_connections := a\<rparr>) = shape t" "shape (t\<lparr>successful_con_list := l\<rparr>) = shape t"
  "shape (t\<lparr>iod_inactive := i\<rparr>) = shape t" "shape (t\<lparr>iod_abort := i\<rparr>) = shape t" "shape (t\<lparr>pause_trials := p\<rparr>) = shape t"
  by (simp_all add: shape_def)

lemma shape_upds [shape]:
  "shape (upd_con c (con_state_update f) t) = shape t" "shape (upd_con c (active_state_update g) t) = shape t"
  "shape (upd_con c (con_speed_update h) t) = shape t" "shape (upd_con c (con_iod_update k) t) = shape t"
  "shape (upd_nic n (nic_state_update s) t) = shape t"
  by (simp_all add: shape_upd_con shape_upd_nic con_shape_def nic_shape_def)

lemma shape_set_con_state [shape]: "shape (set_con_state c s t) = shape t"
  by (simp add: set_con_state_def shape)

lemma shape_set_nic_states [shape]: "shape (set_nic_states c s t) = shape t"
  by (simp add: set_nic_states_def shape)

lemma shape_fold: "(\<And>x t. shape (f x t) = shape t) \<Longrightarrow> shape (fold f xs t) = shape t"
  by (induction xs arbitrary: t) simp_all

lemma shape_recount: "recount t t' \<Longrightarrow> shape t' = shape t"
  by (simp add: shape_def recount_simps con_shape_def)

lemma shape_count [shape]: "shape (fst (smb2_mc_count_connection_stats t)) = shape t"
  by (rule shape_recount [OF count_connection_stats_recount])

lemma shape_activate [shape]: "shape (activate c iod t) = shape t"
  by (simp add: activate_def shape)

lemma shape_start_trial [shape]: "shape (start_trial c a t) = shape t"
  by (simp add: start_trial_def Let_def shape shape_upd_con con_shape_def)

lemma shape_trial_loop [shape]: "shape (snd (trial_loop n a t)) = shape t"
proof (induction n a t rule: trial_loop.induct)
  case (1 n a t)
  obtain t' r where c: "smb2_mc_count_connection_stats t = (t', r)" by fastforce
  have s: "shape t' = shape t" using shape_count [of t] c by simp
  show ?case
    using 1 c s by (subst trial_loop.simps) (auto simp: Let_def split_def shape split: option.split prod.split)
qed

lemma shape_ask [shape]: "shape (snd (smb2_mc_ask_for_new_connection_trial n t)) = shape t"
  by (simp add: smb2_mc_ask_for_new_connection_trial_def shape)

lemma shape_mark_activity: "mark_activity w m c t = Some t' \<Longrightarrow> shape t' = shape t"
  by (auto simp: mark_activity_def smb_iod_active_def smb_iod_inactive_def shape split: if_splits)

lemma shape_mark_scan: "mark_scan w m cs tm = Some tm' \<Longrightarrow> shape (fst tm') = shape (fst tm)"
  by (induction cs arbitrary: tm) (auto dest: shape_mark_activity split: bind_splits)

lemma shape_mark_redundant [shape]: "shape (mark_redundant f n cs t) = shape t"
  by (induction cs arbitrary: n t) (simp_all add: Let_def shape)

lemma shape_remove_scan [shape]: "shape (snd (remove_scan i cs a m t)) = shape t"
  by (induction cs arbitrary: a m t) (simp_all add: Let_def split_def shape)

lemma shape_return_excess:
  assumes "smb2_mc_return_excess_connections n t = Some (v, k, sp, t')"
  shows "shape t' = shape t"
  using assms
  by (auto simp: smb2_mc_return_excess_connections_def Let_def split_def shape split: bind_splits if_splits
      dest!: shape_mark_scan)

lemma shape_connect [shape]: "shape (connect iod c t) = shape t"
  by (simp add: connect_def Let_def shape shape_upd_con con_shape_def)

lemma shape_make_surplus [shape]: "shape (make_surplus c t) = shape t"
  by (simp add: make_surplus_def shape)

lemma shape_update_new_connection [shape]: "shape (snd (snd (smb2_mc_update_new_connection ci si iod t))) = shape t"
proof -
  have f: "shape (snd (fold (\<lambda>con (made, t). if nic_index (server_of t con) = si then (Some con, connect iod con t)
      else (made, make_surplus con t)) cs mt)) = shape (snd mt)" for cs mt
    by (induction cs arbitrary: mt) (auto simp: shape)
  show ?thesis
    by (auto simp: smb2_mc_update_new_connection_def Let_def split_def shape f [unfolded split_def] intro!: shape_fold trans [OF shape_fold]
        split: option.split)
qed

lemma shape_fix_nic_states [shape]: "shape (fix_nic_states t) = shape t"
  unfolding fix_nic_states_def by (rule shape_fold) (simp add: fix_nic_state_def shape split: con_state.split)

lemma shape_trial_failed [shape]: "shape (trial_failed c t) = shape t"
  unfolding trial_failed_def Let_def by (subst shape_fold) (simp_all add: trial_failed_con_def shape)

lemma shape_reset_con_status [shape]: "shape (smb2_mc_reset_con_status is_client n t) = shape t"
  unfolding smb2_mc_reset_con_status_def by (rule shape_fold) (simp add: reset_con_def shape)

lemma shape_reset_nic_list [shape]: "shape (smb2_mc_reset_nic_list t) = shape t"
  unfolding smb2_mc_reset_nic_list_def by (rule shape_fold) (simp add: shape)

lemma shape_attach_iod [shape]: "shape (attach_iod c iod t) = shape t"
  by (simp add: attach_iod_def Let_def shape)

lemma shape_pause [shape]:
  "shape (smb2_mc_pause_trials t) = shape t" "shape (smb2_mc_resume_trials t) = shape t"
  "shape (smb2_mc_abort_trials t) = shape t" "shape (smb2_mc_inform_connection_active_state_change a c t) = shape t"
  by (auto simp: smb2_mc_pause_trials_def smb2_mc_resume_trials_def smb2_mc_abort_trials_def
      smb2_mc_inform_connection_active_state_change_def shape intro!: shape_fold split: option.split)

section \<open>Well-formed tables\<close>

text \<open>
  The interfaces of the two sides are different objects, with different indices on each side and well formed
  addresses, and are counted; the connections are different objects and different pairs of a client and a
  server interface of the lists; and each client interface knows exactly its connections.
\<close>

definition mc_wf :: "mc_table \<Rightarrow> bool" where
  "mc_wf t \<longleftrightarrow>
     distinct (client_nic_info_list t @ server_nic_info_list t) \<and>
     (\<forall>n \<in> set (client_nic_info_list t) \<union> set (server_nic_info_list t). n < next_id t \<and> nic_ok (nics t n)) \<and>
     inj_on (\<lambda>n. nic_index (nics t n)) (set (client_nic_info_list t)) \<and>
     inj_on (\<lambda>n. nic_index (nics t n)) (set (server_nic_info_list t)) \<and>
     client_nic_count t = of_nat (length (client_nic_info_list t)) \<and>
     server_nic_count t = of_nat (length (server_nic_info_list t)) \<and>
     distinct (session_con_list t) \<and>
     (\<forall>c \<in> set (session_con_list t). c < next_id t \<and>
        con_client_nic (cons t c) \<in> set (client_nic_info_list t) \<and>
        con_server_nic (cons t c) \<in> set (server_nic_info_list t)) \<and>
     inj_on (\<lambda>c. con_shape (cons t c)) (set (session_con_list t)) \<and>
     (\<forall>n \<in> set (client_nic_info_list t). possible_connections (nics t n) = cons_of True n t)"

lemma mc_wfD:
  assumes "mc_wf t"
  shows "distinct (client_nic_info_list t)" "distinct (server_nic_info_list t)"
    "set (client_nic_info_list t) \<inter> set (server_nic_info_list t) = {}"
    "n \<in> set (client_nic_info_list t) \<or> n \<in> set (server_nic_info_list t) \<Longrightarrow> n < next_id t"
    "n \<in> set (client_nic_info_list t) \<or> n \<in> set (server_nic_info_list t) \<Longrightarrow> nic_ok (nics t n)"
    "inj_on (\<lambda>n. nic_index (nics t n)) (set (client_nic_info_list t))"
    "inj_on (\<lambda>n. nic_index (nics t n)) (set (server_nic_info_list t))"
    "client_nic_count t = of_nat (length (client_nic_info_list t))"
    "server_nic_count t = of_nat (length (server_nic_info_list t))"
    "distinct (session_con_list t)" "c \<in> set (session_con_list t) \<Longrightarrow> c < next_id t"
    "c \<in> set (session_con_list t) \<Longrightarrow> con_client_nic (cons t c) \<in> set (client_nic_info_list t)"
    "c \<in> set (session_con_list t) \<Longrightarrow> con_server_nic (cons t c) \<in> set (server_nic_info_list t)"
    "inj_on (\<lambda>c. con_shape (cons t c)) (set (session_con_list t))"
    "n \<in> set (client_nic_info_list t) \<Longrightarrow> possible_connections (nics t n) = cons_of True n t"
  using assms by (auto simp: mc_wf_def)

lemma shapeD:
  assumes "shape t' = shape t"
  shows "client_nic_info_list t' = client_nic_info_list t" "server_nic_info_list t' = server_nic_info_list t"
    "client_nic_count t' = client_nic_count t" "server_nic_count t' = server_nic_count t"
    "session_con_list t' = session_con_list t" "next_id t' = next_id t"
    "con_client_nic (cons t' c) = con_client_nic (cons t c)" "con_server_nic (cons t' c) = con_server_nic (cons t c)"
    "nic_index (nics t' n) = nic_index (nics t n)" "addr_list (nics t' n) = addr_list (nics t n)"
    "possible_connections (nics t' n) = possible_connections (nics t n)"
proof -
  have c: "con_shape (cons t' c) = con_shape (cons t c)" and n: "nic_shape (nics t' n) = nic_shape (nics t n)"
    using assms by (simp_all add: shape_def fun_eq_iff)
  show "client_nic_info_list t' = client_nic_info_list t" "server_nic_info_list t' = server_nic_info_list t"
    "client_nic_count t' = client_nic_count t" "server_nic_count t' = server_nic_count t"
    "session_con_list t' = session_con_list t" "next_id t' = next_id t"
    using assms by (simp_all add: shape_def)
  show "con_client_nic (cons t' c) = con_client_nic (cons t c)" "con_server_nic (cons t' c) = con_server_nic (cons t c)"
    using c by (simp_all add: con_shape_def)
  show "nic_index (nics t' n) = nic_index (nics t n)" "addr_list (nics t' n) = addr_list (nics t n)"
    "possible_connections (nics t' n) = possible_connections (nics t n)"
    using n by (simp_all add: nic_shape_def)
qed

lemma mc_wf_shape:
  assumes "shape t' = shape t"
  shows "mc_wf t' = mc_wf t"
  by (simp add: mc_wf_def shapeD [OF assms] nic_ok_def cons_of_def nic_of_def con_shape_def)

lemma mc_wf_same_shape: "mc_wf t \<Longrightarrow> shape t' = shape t \<Longrightarrow> mc_wf t'"
  by (rule iffD2 [OF mc_wf_shape])

section \<open>New pairs\<close>

lemma find_con_None:
  "find_con_by_nics t a b = None \<longleftrightarrow>
     (\<forall>c \<in> set (session_con_list t). \<not> (con_client_nic (cons t c) = a \<and> con_server_nic (cons t c) = b))"
  by (simp add: find_con_by_nics_def find_eq_None)

lemma find_con_Some:
  "find_con_by_nics t a b = Some c \<Longrightarrow>
     c \<in> set (session_con_list t) \<and> con_client_nic (cons t c) = a \<and> con_server_nic (cons t c) = b"
  by (auto simp: find_con_by_nics_def find_Some_iff)

lemma new_con_simps [simp]:
  "client_nic_info_list (new_con a b t) = client_nic_info_list t" "server_nic_info_list (new_con a b t) = server_nic_info_list t"
  "client_nic_count (new_con a b t) = client_nic_count t" "server_nic_count (new_con a b t) = server_nic_count t"
  "session_con_list (new_con a b t) = session_con_list t @ [next_id t]" "next_id (new_con a b t) = next_id t + 1"
  "successful_con_list (new_con a b t) = successful_con_list t"
  "nics (new_con a b t) = (nics t)(a := (nics t a)\<lparr>possible_connections := possible_connections (nics t a) @ [next_id t]\<rparr>)"
  "cons (new_con a b t) = (cons t)(next_id t := \<lparr>con_state = new_con_state (nics t a) (nics t b),
     active_state = SMB2_MC_FUNC_ACTIVE, con_speed = 0, con_iod = None, con_client_nic = a, con_server_nic = b\<rparr>)"
  by (simp_all add: new_con_def)

lemma new_con_wf:
  assumes wf: "mc_wf t" and a: "a \<in> set (client_nic_info_list t)" and b: "b \<in> set (server_nic_info_list t)"
    and no: "find_con_by_nics t a b = None"
  shows "mc_wf (new_con a b t)"
proof -
  let ?t = "new_con a b t"
  note w = mc_wfD [OF wf]
  have fresh: "next_id t \<notin> set (session_con_list t)" using w(11) by auto
  have old: "cons ?t c = cons t c" if "c \<in> set (session_con_list t)" for c using that fresh by auto
  have idx: "nic_index (nics ?t n) = nic_index (nics t n)" "nic_ok (nics ?t n) = nic_ok (nics t n)" for n
    by (simp_all add: nic_ok_def)
  have inj: "inj_on (\<lambda>c. con_shape (cons ?t c)) (insert (next_id t) (set (session_con_list t)))"
  proof -
    have "inj_on (\<lambda>c. con_shape (cons ?t c)) (set (session_con_list t))"
      using w(14) by (subst inj_on_cong [OF arg_cong [OF old]])
    moreover have "con_shape (cons ?t (next_id t)) \<notin> (\<lambda>c. con_shape (cons ?t c)) ` set (session_con_list t)"
      using no fresh by (auto simp: find_con_None con_shape_def split: if_splits)
    ultimately show ?thesis using fresh by simp
  qed
  have poss: "possible_connections (nics ?t n) = cons_of True n ?t" if "n \<in> set (client_nic_info_list t)" for n
  proof -
    have "filter (\<lambda>c. nic_of True (cons ?t c) = n) (session_con_list t) = cons_of True n t"
      unfolding cons_of_def by (rule filter_cong) (simp_all only: old)
    then show ?thesis using w(15) [OF that] by (simp add: cons_of_def nic_of_def)
  qed
  show ?thesis
    unfolding mc_wf_def
    using w a b fresh inj poss idx by (auto simp: less_SucI)
qed

lemma update_pair_wf:
  assumes "update_pair mem a b t = Some t'" "mc_wf t" "a \<in> set (client_nic_info_list t)" "b \<in> set (server_nic_info_list t)"
  shows "mc_wf t'"
  using assms new_con_wf [OF assms(2-4)] mc_wf_shape [OF shape_set_con_state, of _ _ t]
  by (auto simp: update_pair_def split: option.splits if_splits)

lemma update_pair_lists:
  assumes "update_pair mem a b t = Some t'"
  shows "client_nic_info_list t' = client_nic_info_list t" "server_nic_info_list t' = server_nic_info_list t"
    "successful_con_list t' = successful_con_list t"
  using assms by (auto simp: update_pair_def set_con_state_def split: option.splits if_splits)

lemma update_pairs_wf:
  assumes "mc_wf t" "set ps \<subseteq> set (client_nic_info_list t) \<times> set (server_nic_info_list t)"
  shows "mc_wf (snd (update_pairs mem ps t))"
  using assms
proof (induction ps arbitrary: t)
  case (Cons p ps)
  show ?case
  proof (cases "update_pair mem (fst p) (snd p) t")
    case None
    then show ?thesis using Cons.prems by simp
  next
    case (Some t1)
    have "mc_wf t1" by (rule update_pair_wf [OF Some Cons.prems(1)]) (use Cons.prems(2) in auto)
    then have "mc_wf (snd (update_pairs mem ps t1))"
      by (rule Cons.IH) (use Cons.prems(2) update_pair_lists [OF Some] in simp)
    then show ?thesis using Some by simp
  qed
qed simp

lemma update_con_list_wf: "mc_wf t \<Longrightarrow> mc_wf (snd (smb2_mc_update_con_list mem t))"
  unfolding smb2_mc_update_con_list_def by (rule update_pairs_wf) auto

section \<open>Changed interfaces\<close>

lemma addr_in_ok: "\<forall>n \<in> set ns. addr_ok n \<Longrightarrow> addr_ok a \<Longrightarrow> \<exists>r. addr_in ns a = Some r"
  by (induction ns) (auto simp: sockaddr_cmp_ip addr_ok_sa_ok)

lemma keep_addrs_ok:
  assumes "\<forall>n \<in> set new. addr_ok n" "\<forall>a \<in> set as. addr_ok a"
  shows "\<exists>kept. keep_addrs new as = Some kept \<and> set kept \<subseteq> set as"
  using assms(2)
proof (induction as)
  case (Cons a as)
  then obtain r where "addr_in new a = Some r" using addr_in_ok [OF assms(1), of a] by auto
  with Cons show ?case by auto
qed simp

lemma add_addrs_ok:
  assumes "\<forall>a \<in> set as. addr_ok a" "nic_ok (fst s)"
  shows "\<exists>n k ch. add_addrs mem as s = Some (n, k, ch) \<and> nic_ok n \<and> nic_index n = nic_index (fst s) \<and>
    possible_connections n = possible_connections (fst s) \<and> fst (snd s) \<le> k"
  using assms
proof (induction as arbitrary: s)
  case (Cons a as)
  have a: "addr_ok a" using Cons.prems by simp
  obtain e n ch where u: "smb2_mc_update_info_with_ip (mem (fst (snd s))) (fst s) a = Some (e, n, ch)" "nic_ok n"
    by (rule update_info_with_ip [OF Cons.prems(2) a])
  note f = update_info_frame [OF u(1)]
  show ?case
    using Cons.IH [of "(n, fst (snd s) + 1, snd (snd s) \<or> ch)"] Cons.prems u f by fastforce
next
  case Nil
  then show ?case by (cases s) simp
qed

lemma update_ip_list_ok:
  assumes "nic_ok old" "nic_ok new"
  shows "\<exists>n k' ch. smb2_mc_update_ip_list mem k old new = Some (n, k', ch) \<and> nic_ok n \<and>
    nic_index n = nic_index old \<and> possible_connections n = possible_connections old \<and> k \<le> k'"
proof -
  obtain kept where k: "keep_addrs (addr_list new) (addr_list old) = Some kept" "set kept \<subseteq> set (addr_list old)"
    using keep_addrs_ok [of "addr_list new" "addr_list old"] assms by (auto simp: nic_ok_def)
  let ?s = "(old\<lparr>addr_list := kept\<rparr>, k, length kept \<noteq> length (addr_list old))"
  have "nic_ok (fst ?s)" using k(2) assms(1) by (auto simp: nic_ok_def)
  then show ?thesis
    using add_addrs_ok [of "addr_list new" ?s mem] assms(2) k(1)
    by (simp add: smb2_mc_update_ip_list_def nic_ok_def)
qed

lemma upd_nic_wf:
  assumes "mc_wf t" "nic_index info = nic_index (nics t n)" "possible_connections info = possible_connections (nics t n)"
    "nic_ok info" "next_id t \<le> k"
  shows "mc_wf ((upd_nic n (\<lambda>_. info) t)\<lparr>next_id := k\<rparr>)"
proof -
  let ?t = "(upd_nic n (\<lambda>_. info) t)\<lparr>next_id := k\<rparr>"
  have i: "nic_index (nics ?t m) = nic_index (nics t m)" "possible_connections (nics ?t m) = possible_connections (nics t m)"
    "nic_ok (nics t m) \<Longrightarrow> nic_ok (nics ?t m)" for m
    using assms(2-4) by auto
  have c: "cons_of True m ?t = cons_of True m t" for m by (simp add: cons_of_def)
  have l: "client_nic_info_list ?t = client_nic_info_list t" "server_nic_info_list ?t = server_nic_info_list t"
    "client_nic_count ?t = client_nic_count t" "server_nic_count ?t = server_nic_count t"
    "session_con_list ?t = session_con_list t" "cons ?t = cons t" "next_id ?t = k"
    by simp_all
  show ?thesis
    using assms(1,5) i(3) unfolding mc_wf_def l i(1,2) c by (auto intro: less_le_trans)
qed

lemma add_client_wf:
  assumes "mc_wf t" "u \<notin> set (client_nic_info_list t) \<union> set (server_nic_info_list t)" "u < next_id t" "nic_ok (nics t u)"
    "possible_connections (nics t u) = []" "\<forall>n \<in> set (client_nic_info_list t). nic_index (nics t n) \<noteq> nic_index (nics t u)"
  shows "mc_wf (t\<lparr>client_nic_info_list := insert_by_speed (nics t) u (client_nic_info_list t),
                  client_nic_count := client_nic_count t + 1\<rparr>)"
proof -
  let ?l = "insert_by_speed (nics t) u (client_nic_info_list t)"
  let ?t = "t\<lparr>client_nic_info_list := ?l, client_nic_count := client_nic_count t + 1\<rparr>"
  note w = mc_wfD [OF assms(1)]
  have c: "cons_of True m ?t = cons_of True m t" for m by (simp add: cons_of_def)
  have "cons_of True u t = []"
    using w(12) assms(2) by (auto simp: cons_of_def nic_of_def filter_empty_conv)
  moreover have "inj_on (\<lambda>n. nic_index (nics t n)) (insert u (set (client_nic_info_list t)))"
    using w(6) assms(2,6) by (auto simp: inj_on_def)
  ultimately show ?thesis
    unfolding mc_wf_def c using w assms(2-5) by auto
qed

lemma add_server_wf:
  assumes "mc_wf t" "u \<notin> set (client_nic_info_list t) \<union> set (server_nic_info_list t)" "u < next_id t" "nic_ok (nics t u)"
    "\<forall>n \<in> set (server_nic_info_list t). nic_index (nics t n) \<noteq> nic_index (nics t u)"
  shows "mc_wf (t\<lparr>server_nic_info_list := insert_by_speed (nics t) u (server_nic_info_list t),
                  server_nic_count := server_nic_count t + 1\<rparr>)"
proof -
  let ?l = "insert_by_speed (nics t) u (server_nic_info_list t)"
  let ?t = "t\<lparr>server_nic_info_list := ?l, server_nic_count := server_nic_count t + 1\<rparr>"
  note w = mc_wfD [OF assms(1)]
  have c: "cons_of True m ?t = cons_of True m t" for m by (simp add: cons_of_def)
  have "inj_on (\<lambda>n. nic_index (nics t n)) (insert u (set (server_nic_info_list t)))"
    using w(7) assms(2,5) by (auto simp: inj_on_def)
  then show ?thesis
    unfolding mc_wf_def c using w assms(2-4) by auto
qed

text \<open>The interfaces of an update that are still to be merged.\<close>

definition upd_ok :: "nat list \<Rightarrow> mc_table \<Rightarrow> bool" where
  "upd_ok us t \<longleftrightarrow> distinct us \<and> (\<forall>u \<in> set us. u \<notin> set (client_nic_info_list t) \<union> set (server_nic_info_list t) \<and>
     u < next_id t \<and> nic_ok (nics t u) \<and> possible_connections (nics t u) = [])"

lemma merge_nic_wf:
  assumes "mc_wf t" "upd_ok (u # us) t"
  shows "\<exists>added t'. merge_nic mem is_client u t = Some (added, t') \<and> mc_wf t' \<and> upd_ok us t'"
proof -
  have u: "u \<notin> set (client_nic_info_list t) \<union> set (server_nic_info_list t)" "u < next_id t" "nic_ok (nics t u)"
    "possible_connections (nics t u) = []" and us: "upd_ok us t" "u \<notin> set us"
    using assms(2) by (auto simp: upd_ok_def)
  note w = mc_wfD [OF assms(1)]
  show ?thesis
  proof (cases "smb2_mc_get_nic_by_index (nics t) (nic_list is_client t) (nic_index (nics t u))")
    case None
    then have new: "\<forall>n \<in> set (nic_list is_client t). nic_index (nics t n) \<noteq> nic_index (nics t u)"
      by (simp add: get_nic_None)
    let ?t = "add_nic_count is_client 1 (set_nic_list is_client (insert_by_speed (nics t) u (nic_list is_client t)) t)"
    have "mc_wf ?t"
      using add_client_wf [OF assms(1) u] add_server_wf [OF assms(1) u(1-3)] new
      by (cases is_client) (simp_all add: add_nic_count_def set_nic_list_def nic_list_def)
    moreover have "upd_ok us ?t"
      using us by (cases is_client) (auto simp: upd_ok_def add_nic_count_def set_nic_list_def nic_list_def)
    moreover have "merge_nic mem is_client u t = Some (True, ?t)" using None by (simp add: merge_nic_def)
    ultimately show ?thesis by blast
  next
    case (Some n)
    then have n: "n \<in> set (client_nic_info_list t) \<union> set (server_nic_info_list t)"
      by (auto simp: smb2_mc_get_nic_by_index_def find_Some_iff nic_list_def split: if_splits dest: nth_mem)
    obtain info k ch where i: "smb2_mc_update_ip_list mem (next_id t) (nics t n) (nics t u) = Some (info, k, ch)"
      "nic_ok info" "nic_index info = nic_index (nics t n)" "possible_connections info = possible_connections (nics t n)"
      "next_id t \<le> k"
      using update_ip_list_ok [of "nics t n" "nics t u" mem "next_id t"] w(5) n u(3) by auto
    define changed where "changed = (ch \<or> nic_changed (nics t n) (nics t u))"
    define info' where "info' = (if changed then info\<lparr>nic_link_speed := nic_link_speed (nics t u), nic_type := nic_type (nics t u)\<rparr>
      else info)"
    let ?t = "(upd_nic n (\<lambda>_. info') t)\<lparr>next_id := k\<rparr>"
    have wf: "mc_wf ?t"
      by (rule upd_nic_wf [OF assms(1)]) (use i in \<open>simp_all add: info'_def nic_ok_def\<close>)
    have ok: "upd_ok us ?t"
      using us(1) n i(5) by (auto simp: upd_ok_def)
    let ?t' = "if changed \<or> is_client then smb2_mc_reset_con_status is_client n ?t else ?t"
    have sh: "shape ?t' = shape ?t" by (simp add: shape)
    have nics: "nics ?t' = nics ?t"
    proof -
      have "nics (fold (reset_con is_client n) cs t) = nics t" for cs t
        by (induction cs arbitrary: t) (simp_all add: reset_con_def set_con_state_def)
      then show ?thesis by (simp add: smb2_mc_reset_con_status_def)
    qed
    have "merge_nic mem is_client u t = Some (False, ?t')"
      using Some i(1) by (simp add: merge_nic_def changed_def info'_def Let_def)
    moreover have "mc_wf ?t'" by (rule mc_wf_same_shape [OF wf sh])
    moreover have "upd_ok us ?t'" using ok unfolding upd_ok_def shapeD [OF sh] nics .
    ultimately show ?thesis by blast
  qed
qed

lemma merge_nics_wf:
  assumes "mc_wf (snd (snd s))" "upd_ok us (snd (snd s))"
  shows "\<exists>us' b t'. merge_nics mem is_client us s = Some (us', b, t') \<and> mc_wf t' \<and> us' = foldl (\<lambda>l u. remove1 u l) (fst s) us"
  using assms
proof (induction us arbitrary: s)
  case (Cons u us)
  obtain added t' where m: "merge_nic mem is_client u (snd (snd s)) = Some (added, t')" "mc_wf t'" "upd_ok us t'"
    using merge_nic_wf [OF Cons.prems] by blast
  show ?case using Cons.IH [of "(remove1 u (fst s), fst (snd s) \<or> added, t')"] m by simp
next
  case Nil
  then show ?case by (cases s) simp
qed

section \<open>Interfaces that are removed\<close>

lemma drop_con_simps [simp]:
  "client_nic_info_list (drop_con c t) = client_nic_info_list t" "server_nic_info_list (drop_con c t) = server_nic_info_list t"
  "client_nic_count (drop_con c t) = client_nic_count t" "server_nic_count (drop_con c t) = server_nic_count t"
  "session_con_list (drop_con c t) = remove1 c (session_con_list t)" "cons (drop_con c t) = cons t"
  "next_id (drop_con c t) = next_id t" "successful_con_list (drop_con c t) = successful_con_list t"
  "nic_index (nics (drop_con c t) n) = nic_index (nics t n)" "addr_list (nics (drop_con c t) n) = addr_list (nics t n)"
  "nic_ok (nics (drop_con c t) n) = nic_ok (nics t n)"
  by (simp_all add: drop_con_def nic_ok_def)

lemma drop_con_wf:
  assumes "mc_wf t"
  shows "mc_wf (drop_con c t)"
proof -
  note w = mc_wfD [OF assms]
  have "possible_connections (nics (drop_con c t) n) = cons_of True n (drop_con c t)"
    if n: "n \<in> set (client_nic_info_list t)" for n
  proof (cases "con_client_nic (cons t c) = n")
    case True
    then show ?thesis
      using w(15) [OF n] by (simp add: drop_con_def cons_of_def filter_remove1)
  next
    case False
    then have "c \<notin> set (cons_of True n t)" by (simp add: cons_of_def nic_of_def)
    with False show ?thesis
      using w(15) [OF n] by (simp add: drop_con_def cons_of_def filter_remove1 remove1_idem)
  qed
  moreover have "inj_on (\<lambda>c. con_shape (cons t c)) (set (remove1 c (session_con_list t)))"
    by (rule inj_on_subset [OF w(14)]) (rule set_remove1_subset)
  ultimately show ?thesis
    unfolding mc_wf_def using w by (auto dest: in_set_remove1 [THEN iffD1, rotated] notin_set_remove1 set_remove1_subset [THEN subsetD])
qed

lemma drop_cons:
  assumes "mc_wf t"
  shows "mc_wf (fold drop_con ds t)" "set (session_con_list (fold drop_con ds t)) = set (session_con_list t) - set ds"
    "cons (fold drop_con ds t) = cons t" "client_nic_info_list (fold drop_con ds t) = client_nic_info_list t"
    "server_nic_info_list (fold drop_con ds t) = server_nic_info_list t"
    "successful_con_list (fold drop_con ds t) = successful_con_list t"
    "nic_index (nics (fold drop_con ds t) n) = nic_index (nics t n)"
    "addr_list (nics (fold drop_con ds t) n) = addr_list (nics t n)"
proof -
  have "mc_wf (fold drop_con ds t) \<and> set (session_con_list (fold drop_con ds t)) = set (session_con_list t) - set ds \<and>
    cons (fold drop_con ds t) = cons t \<and> client_nic_info_list (fold drop_con ds t) = client_nic_info_list t \<and>
    server_nic_info_list (fold drop_con ds t) = server_nic_info_list t \<and>
    successful_con_list (fold drop_con ds t) = successful_con_list t \<and>
    nic_index (nics (fold drop_con ds t) n) = nic_index (nics t n) \<and>
    addr_list (nics (fold drop_con ds t) n) = addr_list (nics t n)"
    using assms
  proof (induction ds arbitrary: t)
    case (Cons d ds)
    then have "set (remove1 d (session_con_list t)) = set (session_con_list t) - {d}"
      by (simp add: set_remove1_eq mc_wfD)
    with Cons.IH [OF drop_con_wf [OF Cons.prems]] show ?case by auto
  qed simp
  then show "mc_wf (fold drop_con ds t)" "set (session_con_list (fold drop_con ds t)) = set (session_con_list t) - set ds"
    "cons (fold drop_con ds t) = cons t" "client_nic_info_list (fold drop_con ds t) = client_nic_info_list t"
    "server_nic_info_list (fold drop_con ds t) = server_nic_info_list t"
    "successful_con_list (fold drop_con ds t) = successful_con_list t"
    "nic_index (nics (fold drop_con ds t) n) = nic_index (nics t n)"
    "addr_list (nics (fold drop_con ds t) n) = addr_list (nics t n)"
    by blast+
qed

lemma of_nat_pred: "0 < n \<Longrightarrow> of_nat (n - 1) = (of_nat n - 1 :: u32)"
  by (cases n) simp_all

lemma release_interface_wf:
  assumes "mc_wf t" "n \<in> set (nic_list is_client t)" "cons_of is_client n t = []"
  shows "mc_wf (smb2_mc_release_interface is_client n t)"
proof -
  note w = mc_wfD [OF assms(1)]
  have other: "\<forall>c \<in> set (session_con_list t). nic_of is_client (cons t c) \<noteq> n"
    using assms(3) by (simp add: cons_of_def filter_empty_conv)
  have len: "0 < length (nic_list is_client t)" using assms(2) by (cases "nic_list is_client t") auto
  show ?thesis
  proof (cases is_client)
    case True
    have c: "cons_of True m (smb2_mc_release_interface True n t) = cons_of True m t" for m
      by (simp add: cons_of_def smb2_mc_release_interface_def add_nic_count_def set_nic_list_def)
    have i: "inj_on (\<lambda>n. nic_index (nics t n)) (set (remove1 n (client_nic_info_list t)))"
      by (rule inj_on_subset [OF w(6)]) (rule set_remove1_subset)
    show ?thesis
      using w i other assms(2) len of_nat_pred [of "length (client_nic_info_list t)"] True unfolding True mc_wf_def c
      by (auto simp: smb2_mc_release_interface_def add_nic_count_def set_nic_list_def nic_list_def nic_of_def
          set_remove1_eq length_remove1 cons_of_def)
  next
    case False
    have c: "cons_of True m (smb2_mc_release_interface False n t) = cons_of True m t" for m
      by (simp add: cons_of_def smb2_mc_release_interface_def add_nic_count_def set_nic_list_def)
    have i: "inj_on (\<lambda>n. nic_index (nics t n)) (set (remove1 n (server_nic_info_list t)))"
      by (rule inj_on_subset [OF w(7)]) (rule set_remove1_subset)
    have f: "is_client = False" using False by simp
    show ?thesis
      using w i other assms(2) len of_nat_pred [of "length (server_nic_info_list t)"] False unfolding f mc_wf_def c
      by (auto simp: smb2_mc_release_interface_def add_nic_count_def set_nic_list_def nic_list_def nic_of_def
          set_remove1_eq length_remove1 cons_of_def)
  qed
qed

lemma remove_nic_wf:
  assumes "mc_wf t" "n \<in> set (nic_list is_client t)" "smb2_mc_remove_nic_if_unused is_client n t = Some t'"
  shows "mc_wf t'" "nic_list is_client t' = nic_list is_client t \<or> nic_list is_client t' = remove1 n (nic_list is_client t)"
proof -
  let ?t = "fold drop_con (cons_of is_client n t) t"
  note d = drop_cons [OF assms(1), of "cons_of is_client n t"]
  have "cons_of is_client n ?t = []"
    unfolding cons_of_def [of _ _ ?t] filter_empty_conv d(2,3) by (auto simp: cons_of_def)
  moreover have l: "nic_list is_client ?t = nic_list is_client t" by (simp only: nic_list_def d(4,5))
  ultimately have "mc_wf (smb2_mc_release_interface is_client n ?t)"
    using release_interface_wf [OF d(1)] assms(2) by simp
  moreover have "nic_list is_client (smb2_mc_release_interface is_client n ?t) = remove1 n (nic_list is_client t)"
    using l by (simp add: smb2_mc_release_interface_def add_nic_count_def set_nic_list_def nic_list_def split: if_splits)
  ultimately show "mc_wf t'" "nic_list is_client t' = nic_list is_client t \<or> nic_list is_client t' = remove1 n (nic_list is_client t)"
    using assms(1,3) by (auto simp: smb2_mc_remove_nic_if_unused_def split: if_splits)
qed

lemma nic_list_distinct: "mc_wf t \<Longrightarrow> distinct (nic_list is_client t)"
  by (simp add: nic_list_def mc_wfD)

lemma remove_excess_wf:
  assumes "mc_wf t" "set ns \<subseteq> set (nic_list is_client t)" "distinct ns" "remove_excess is_client us ns t = Some t'"
  shows "mc_wf t'"
  using assms
proof (induction ns arbitrary: t)
  case (Cons n ns)
  obtain t1 where t1: "(if list_ex (\<lambda>u. nic_index (nics t u) = nic_index (nics t n)) us then Some t
      else smb2_mc_remove_nic_if_unused is_client n t) = Some t1" "remove_excess is_client us ns t1 = Some t'"
    using Cons.prems(4) by (auto split: bind_splits)
  have n: "n \<in> set (nic_list is_client t)" using Cons.prems(2) by simp
  have "mc_wf t1" using t1(1) Cons.prems(1) remove_nic_wf(1) [OF Cons.prems(1) n] by (auto split: if_splits)
  moreover have "set ns \<subseteq> set (nic_list is_client t1)"
  proof -
    have "nic_list is_client t1 = nic_list is_client t \<or> nic_list is_client t1 = remove1 n (nic_list is_client t)"
      using t1(1) remove_nic_wf(2) [OF Cons.prems(1) n] by (auto split: if_splits)
    then show ?thesis using Cons.prems(2,3) nic_list_distinct [OF Cons.prems(1)] by (auto simp: set_remove1_eq)
  qed
  ultimately show ?case using Cons.IH [of t1] Cons.prems(3) t1(2) by simp
qed simp

lemma update_nic_list_wf:
  assumes "mc_wf t" "upd_ok us t" "smb2_mc_update_nic_list_from_notifier mem us is_client t = Some (e, t')"
  shows "mc_wf t'"
proof -
  obtain us' b t1 where m: "merge_nics mem is_client us (us, False, t) = Some (us', b, t1)" "mc_wf t1"
    using merge_nics_wf [of "(us, False, t)" us mem is_client] assms(1,2) by auto
  define t2 where "t2 = (if b then snd (smb2_mc_update_con_list mem t1) else t1)"
  have "remove_excess is_client us' (nic_list is_client t2) t2 = Some t'"
    using assms(3) m(1)
    by (cases b) (auto simp: smb2_mc_update_nic_list_from_notifier_def t2_def split_def Let_def split: bind_splits)
  moreover have "mc_wf t2" using m(2) update_con_list_wf [OF m(2)] by (simp add: t2_def)
  ultimately show ?thesis using remove_excess_wf [OF _ subset_refl nic_list_distinct] by blast
qed

section \<open>Events\<close>

lemma fresh_nic_table_ext: "nt_ext (nics t) [] (next_id t) (fresh_nic_table t)"
  by (rule nt_ext_start) (simp_all add: fresh_nic_table_def)

lemma fresh_nic_table_wf: "nt_wf (fresh_nic_table t)"
  by (simp add: nt_wf_def fresh_nic_table_def)

lemma with_nics_wf:
  assumes "mc_wf t" "nt_ext (nics t) [] (next_id t) nt"
  shows "mc_wf (with_nics nt t)"
proof -
  note w = mc_wfD [OF assms(1)]
  have old: "nt_nics nt n = nics t n" if "n < next_id t" for n using assms(2) that by (simp add: nt_ext_def)
  have k: "n < nt_next nt" if "n < next_id t" for n using assms(2) that by (simp add: nt_ext_def)
  have c: "cons_of True n (with_nics nt t) = cons_of True n t" for n by (simp add: cons_of_def with_nics_def)
  have i: "inj_on (\<lambda>n. nic_index (nt_nics nt n)) (set (client_nic_info_list t))"
    "inj_on (\<lambda>n. nic_index (nt_nics nt n)) (set (server_nic_info_list t))"
    using w(4,6,7) old by (auto simp: inj_on_def)
  show ?thesis
    unfolding mc_wf_def c using w old k i by (auto simp: with_nics_def)
qed

lemma with_nics_upd:
  assumes "mc_wf t" "nt_ext (nics t) [] (next_id t) nt" "nt_wf nt"
  shows "upd_ok (nt_list nt) (with_nics nt t)"
proof -
  have "next_id t \<le> n \<and> possible_connections (nt_nics nt n) = []" if "n \<in> set (nt_list nt)" for n
    using assms(2) that by (auto simp: nt_ext_def)
  then show ?thesis
    using assms(3) mc_wfD(4) [OF assms(1)] by (fastforce simp: upd_ok_def nt_wf_def with_nics_def)
qed

text \<open>
  Both events come down to an update of the lists of the table from a temporary one that is well formed.
\<close>

definition nics_event :: "(nat \<Rightarrow> bool) \<Rightarrow> bool \<Rightarrow> mc_table \<Rightarrow> errno \<Rightarrow> mc_table \<Rightarrow> bool" where
  "nics_event mem is_client t e t' \<longleftrightarrow>
     (\<exists>nt. mc_wf (with_nics nt t) \<and> (t' = with_nics nt t \<or> upd_ok (nt_list nt) (with_nics nt t) \<and>
        smb2_mc_update_nic_list_from_notifier mem (nt_list nt) is_client (with_nics nt t) = Some (e, t')))"

lemma nics_event_wf: "nics_event mem is_client t e t' \<Longrightarrow> mc_wf t'"
  using update_nic_list_wf unfolding nics_event_def by blast

lemma notifier_event_update:
  assumes "mc_wf t" "smb2_mc_notifier_event mem array count rss force t = Some (e, t')"
    and "\<forall>a. array = Inr a \<longrightarrow> client_addrs_ok a (unat count) 0"
  shows "nics_event mem True t e t'"
proof -
  obtain e1 nt where p: "smb2_mc_parse_client_interface_array mem (if rss \<noteq> 0 then rss else 4) [] force array count
      (fresh_nic_table t) = Some (e1, nt)"
    using assms(2) by (auto simp: smb2_mc_notifier_event_def split: bind_splits)
  have x: "nt_ext (nics t) [] (next_id t) nt"
    using p client_loop_ext [OF _ fresh_nic_table_ext] fresh_nic_table_ext
    by (auto simp: smb2_mc_parse_client_interface_array_def split: sum.splits)
  have w: "nt_wf nt" if "e1 = 0"
  proof (cases array)
    case (Inl a)
    then show ?thesis using p fresh_nic_table_wf [of t] by (auto simp: smb2_mc_parse_client_interface_array_def)
  next
    case (Inr a)
    then show ?thesis
      using p that client_loop_safe [OF fresh_nic_table_wf, of a "unat count" 0 mem "if rss \<noteq> 0 then rss else 4" "[]" force 0 t] assms(3)
      by (auto simp: smb2_mc_parse_client_interface_array_def)
  qed
  note wn = with_nics_wf [OF assms(1) x]
  have "e1 \<noteq> 0 \<and> t' = with_nics nt t \<or> e1 = 0 \<and> smb2_mc_update_nic_list_from_notifier mem (nt_list nt) True (with_nics nt t) = Some (e, t')"
    using assms(2) p by (auto simp: smb2_mc_notifier_event_def split: if_splits)
  then show ?thesis using wn with_nics_upd [OF assms(1) x w] unfolding nics_event_def by blast
qed

lemma query_info_response_event_update:
  assumes "mc_wf t" "smb2_mc_query_info_response_event mem (Some b) t = Some (e, t')"
  shows "nics_event mem False t e t'"
proof -
  have f: "nt_wf ((fresh_nic_table t)\<lparr>nt_next := nt_next (fresh_nic_table t) + 1\<rparr>)"
    by (rule nt_wf_next [OF fresh_nic_table_wf])
  obtain e1 nt where p: "parse_server_reply mem (srvr_rss_channels t) (fresh_nic_table t) b = Some (e1, nt)"
    and w: "nt_wf nt"
    using server_loop_safe [OF f zero_nic_info_addr(1), of mem "srvr_rss_channels t" b] f
    by (cases "mem (nt_next (fresh_nic_table t))") (auto simp: parse_server_reply_def)
  note x = parse_server_reply_ext [OF p fresh_nic_table_ext]
  have x: "nt_ext (nics t) [] (next_id t) nt" by (rule x) simp
  note wn = with_nics_wf [OF assms(1) x]
  have "t' = with_nics nt t \<or> smb2_mc_update_nic_list_from_notifier mem (nt_list nt) False (with_nics nt t) = Some (e, t')"
    using assms(2) p by (auto simp: smb2_mc_query_info_response_event_def split: if_splits)
  then show ?thesis using wn with_nics_upd [OF assms(1) x w] unfolding nics_event_def by blast
qed

lemma query_info_response_event_cases:
  assumes "mc_wf t" "smb2_mc_query_info_response_event mem buf t = Some (e, t')"
  shows "t' = t \<or> nics_event mem False t e t'"
  using assms query_info_response_event_update [OF assms(1)]
  by (cases buf) (auto simp: smb2_mc_query_info_response_event_def)

lemma update_client_interfaces_wf:
  assumes "mc_wf t" "client_nic_info_list t = []" "update_client_interfaces mem (Inr a) count force t = Some (0, t')"
    and "client_addrs_ok a (unat count) 0"
  shows "mc_wf t'"
proof -
  note w = mc_wfD [OF assms(1)]
  have count: "client_nic_count t = 0" using w(8) assms(2) by simp
  have cons: "session_con_list t = []" using w(12) assms(2) by (cases "session_con_list t") auto
  let ?nt = "\<lparr>nt_nics = nics t, nt_list = client_nic_info_list t, nt_count = client_nic_count t, nt_next = next_id t\<rparr>"
  have fresh: "?nt = fresh_nic_table t" using assms(2) count by (simp add: fresh_nic_table_def)
  obtain nt where p: "smb2_mc_parse_client_interface_array mem (clnt_rss_channels t) (client_if_ignorelist t) force (Inr a) count ?nt = Some (0, nt)"
    and t': "t' = (with_nics nt t)\<lparr>client_nic_info_list := nt_list nt, client_nic_count := nt_count nt\<rparr>"
    using assms(3) by (auto simp: update_client_interfaces_def split: bind_splits)
  have l: "client_loop mem (clnt_rss_channels t) (client_if_ignorelist t) force a (unat count) 0 0 (fresh_nic_table t) = Some (0, nt)"
    using p fresh by (simp add: smb2_mc_parse_client_interface_array_def)
  have x: "nt_ext (nics t) [] (next_id t) nt" using client_loop_ext [OF l fresh_nic_table_ext] by simp
  have nw: "nt_wf nt"
    using client_loop_safe [OF fresh_nic_table_wf assms(4), of mem "clnt_rss_channels t" "client_if_ignorelist t" force 0 t] l by auto
  have wn: "mc_wf (with_nics nt t)" by (rule with_nics_wf [OF assms(1) x])
  have new: "\<forall>n \<in> set (nt_list nt). next_id t \<le> n \<and> possible_connections (nt_nics nt n) = []" using x by (auto simp: nt_ext_def)
  then have "set (nt_list nt) \<inter> set (server_nic_info_list t) = {}" using w(4) by fastforce
  then show ?thesis
    using mc_wfD [OF wn] nw new unfolding t' mc_wf_def
    by (auto simp: with_nics_def nt_wf_def cons_of_def cons)
qed

section \<open>Sequences of operations\<close>

text \<open>
  A connection and its siblings, the pairs of the same two network interfaces for other channels; and what
  counts as connected.
\<close>

definition connected :: "mc_table \<Rightarrow> nat \<Rightarrow> bool" where
  "connected t c \<longleftrightarrow> con_state (cons t c) = SMB2_MC_STATE_CONNECTED \<or> con_state (cons t c) = SMB2_MC_STATE_IN_REMOVAL"

definition siblings :: "mc_table \<Rightarrow> nat \<Rightarrow> nat \<Rightarrow> bool" where
  "siblings t c d \<longleftrightarrow>
     nic_index (client_of t d) AND SMB2_IF_INDEX_MASK = nic_index (client_of t c) AND SMB2_IF_INDEX_MASK \<and>
     nic_index (server_of t d) AND SMB2_IF_INDEX_MASK = nic_index (server_of t c) AND SMB2_IF_INDEX_MASK"

text \<open>
  The steps of a table: the operations, each under what its caller guarantees. Channels report on connections
  of the table that are theirs; the arrays of the client have well formed addresses. A \<open>strict\<close> run is one in
  which no trial fails while a sibling is connected, and the main channel reports only connections that are not yet connected.
\<close>

inductive mc_step :: "bool \<Rightarrow> mc_table \<Rightarrow> mc_table \<Rightarrow> bool" for strict where
  set_client: "client_nic_info_list t = [] \<Longrightarrow> client_addrs_ok a (unat count) 0 \<Longrightarrow>
    update_client_interfaces mem (Inr a) count force t = Some (0, t') \<Longrightarrow> mc_step strict t t'"
| notifier: "\<forall>a. array = Inr a \<longrightarrow> client_addrs_ok a (unat count) 0 \<Longrightarrow>
    smb2_mc_notifier_event mem array count rss force t = Some (e, t') \<Longrightarrow> mc_step strict t t'"
| server_reply: "smb2_mc_query_info_response_event mem buf t = Some (e, t') \<Longrightarrow> mc_step strict t t'"
| main_channel: "smb2_mc_update_main_channel cip sip iod t = Some (e, made, t') \<Longrightarrow>
    (strict \<Longrightarrow> \<forall>c. made = Some c \<longrightarrow> \<not> connected t c) \<Longrightarrow> mc_step strict t t'"
| ask: "mc_step strict t (snd (smb2_mc_ask_for_new_connection_trial n t))"
| attach: "mc_step strict t (attach_iod c iod t)"
| passed: "c \<in> set (session_con_list t) \<Longrightarrow> \<not> connected t c \<Longrightarrow> con_iod (cons t c) \<noteq> None \<Longrightarrow>
    mc_step strict t (snd (smb2_mc_report_connection_trial_results mem True c t))"
| failed: "c \<in> set (session_con_list t) \<Longrightarrow>
    (strict \<Longrightarrow> \<forall>d \<in> set (session_con_list t). siblings t c d \<longrightarrow> \<not> connected t d) \<Longrightarrow>
    mc_step strict t (snd (smb2_mc_report_connection_trial_results mem False c t))"
| disconnected: "c \<in> set (session_con_list t) \<Longrightarrow> mc_step strict t (snd (smb2_mc_inform_connection_disconnected mem c t))"
| active_change: "mc_step strict t (smb2_mc_inform_connection_active_state_change a c t)"
| excess: "smb2_mc_return_excess_connections n t = Some (v, k, sp, t') \<Longrightarrow> mc_step strict t t'"
| pause: "mc_step strict t (smb2_mc_pause_trials t)"
| resume: "mc_step strict t (smb2_mc_resume_trials t)"
| abort: "mc_step strict t (smb2_mc_abort_trials t)"
| reset_nics: "mc_step strict t (smb2_mc_reset_nic_list t)"

inductive mc_reach :: "bool \<Rightarrow> mc_table \<Rightarrow> bool" for strict where
  start: "mc_reach strict (smb2_mc_init ok channels srvr_rss clnt_rss ignorelist wired t)"
| step: "mc_reach strict t \<Longrightarrow> mc_step strict t t' \<Longrightarrow> mc_reach strict t'"

lemma report_wf: "mc_wf t \<Longrightarrow> mc_wf (snd (smb2_mc_report_connection_trial_results mem passed c t))"
proof -
  assume wf: "mc_wf t"
  let ?t = "t\<lparr>active_on_trial_connections := active_on_trial_connections t - 1\<rparr>"
  have s: "shape (snd (snd (smb2_mc_update_new_connection ci si None ?t))) = shape t" "shape (trial_failed c ?t) = shape t" for ci si
    by (simp_all add: shape)
  obtain e t1 where t1: "(if passed then
        case smb2_mc_update_new_connection (nic_index (client_of ?t c)) (nic_index (server_of ?t c)) None ?t
        of (error, _, t) \<Rightarrow> (error, t) else (0, trial_failed c ?t)) = (e, t1)" "shape t1 = shape t"
    using s by (cases passed) (auto simp: split_def)
  have "mc_wf (fix_nic_states t1)"
    by (rule mc_wf_same_shape [OF wf trans [OF shape_fix_nic_states t1(2)]])
  then show ?thesis
    using t1(1) update_con_list_wf [of "fix_nic_states t1" mem]
    by (auto simp: smb2_mc_report_connection_trial_results_def Let_def)
qed

lemma disconnected_wf: "mc_wf t \<Longrightarrow> mc_wf (snd (smb2_mc_inform_connection_disconnected mem c t))"
  unfolding smb2_mc_inform_connection_disconnected_def Let_def
  by (rule update_con_list_wf, erule mc_wf_same_shape) (simp add: shape)

lemma main_channel_shape:
  "smb2_mc_update_main_channel cip sip iod t = Some (e, made, t') \<Longrightarrow> shape t' = shape t"
  using shape_update_new_connection [of _ _ "Some iod" t]
  by (auto simp: smb2_mc_update_main_channel_def split: bind_splits option.splits) (metis snd_conv)

lemma mc_step_wf: "mc_step strict t t' \<Longrightarrow> mc_wf t \<Longrightarrow> mc_wf t'"
proof (induction rule: mc_step.induct)
  case (set_client t a count mem force t')
  then show ?case using update_client_interfaces_wf by blast
next
  case (notifier array count mem rss force t e t')
  then show ?case using nics_event_wf [OF notifier_event_update] by blast
next
  case (server_reply mem buf t e t')
  then show ?case using query_info_response_event_cases nics_event_wf by blast
next
  case (main_channel cip sip iod t e made t')
  then show ?case using mc_wf_same_shape main_channel_shape by blast
next
  case (excess n t v k sp t')
  then show ?case using mc_wf_same_shape shape_return_excess by blast
qed (auto intro: report_wf disconnected_wf elim: mc_wf_same_shape simp: shape)

lemma mc_reach_wf: "mc_reach strict t \<Longrightarrow> mc_wf t"
proof (induction rule: mc_reach.induct)
  case (start ok channels srvr_rss clnt_rss ignorelist wired t)
  then show ?case by (simp add: mc_wf_def smb2_mc_init_def)
next
  case (step t t')
  then show ?case using mc_step_wf by blast
qed

section \<open>Candidates for a trial\<close>

text \<open>
  What the count says of the connection it proposes: it is in the table and potential, and neither of its
  interfaces is on trial.
\<close>

definition free_pair :: "mc_table \<Rightarrow> nat \<Rightarrow> bool" where
  "free_pair t c \<longleftrightarrow> nic_state (client_of t c) \<noteq> SMB2_MC_STATE_ON_TRIAL \<and> nic_state (server_of t c) \<noteq> SMB2_MC_STATE_ON_TRIAL"

definition proposable :: "mc_table \<Rightarrow> nat \<Rightarrow> bool" where
  "proposable t c \<longleftrightarrow> c \<in> set (session_con_list t) \<and> con_state (cons t c) = SMB2_MC_STATE_POTENTIAL \<and> free_pair t c"

definition proposals_ok :: "mc_table \<Rightarrow> conn_states_results \<Rightarrow> bool" where
  "proposals_ok t r \<longleftrightarrow>
     (\<forall>c. potential_con_with_max_speed r = Some c \<or> potential_wired_con_with_max_speed r = Some c \<longrightarrow> proposable t c)"

lemma free_pair_recount: "recount t t' \<Longrightarrow> free_pair t' c = free_pair t c"
  by (simp add: free_pair_def recount_simps)

lemma proposable_recount: "recount t t' \<Longrightarrow> proposable t c \<Longrightarrow> proposable t' c"
  using recount_simps(17) [of t t' c] by (auto simp: proposable_def free_pair_recount recount_simps)

lemma count_step_proposals:
  assumes "proposals_ok t r" "c \<in> set (session_con_list t)"
  shows "proposals_ok (fst (count_step c (t, r))) (snd (count_step c (t, r)))"
proof (cases "con_state (cons t c) = SMB2_MC_STATE_POTENTIAL \<and>
    nic_state (client_of t c) = SMB2_MC_STATE_IDLE \<and> nic_state (server_of t c) = SMB2_MC_STATE_IDLE")
  case True
  then have "proposable t c" using assms(2) by (simp add: proposable_def free_pair_def)
  then have p: "proposable (fst (count_step c (t, r))) c"
    using proposable_recount [OF count_step_recount [of "(t, r)" c]] by simp
  have "proposable t d \<Longrightarrow> proposable (fst (count_step c (t, r))) d" for d
    using proposable_recount [OF count_step_recount [of "(t, r)" c]] by simp
  with p assms(1) True show ?thesis
    by (auto simp: proposals_ok_def count_step_def count_potential_def Let_def split: if_splits)
next
  case False
  then show ?thesis
    using assms(1) by (auto simp: proposals_ok_def count_step_def count_active_def count_inactive_def Let_def)
qed

lemma count_scan_proposals:
  assumes "proposals_ok t r" "set cs \<subseteq> set (session_con_list t)"
  shows "proposals_ok (fst (fold count_step cs (t, r))) (snd (fold count_step cs (t, r)))"
  using assms
proof (induction cs arbitrary: t r)
  case (Cons c cs)
  obtain t1 r1 where t1: "count_step c (t, r) = (t1, r1)" by (cases "count_step c (t, r)")
  have "proposals_ok t1 r1" using count_step_proposals [OF Cons.prems(1), of c] Cons.prems(2) t1 by simp
  moreover have "session_con_list t1 = session_con_list t"
    using recount_simps(1) [OF count_step_recount [of "(t, r)" c]] t1 by simp
  ultimately show ?case using Cons.IH [of t1 r1] Cons.prems(2) t1 by simp
qed simp

lemma one_idle_free: "one_idle t c \<Longrightarrow> free_pair t c"
  by (auto simp: one_idle_def free_pair_def)

lemma faster_scan_proposals:
  assumes "proposals_ok t r" "set cs \<subseteq> set (session_con_list t)"
  shows "proposals_ok (fst (faster_scan cs (t, r))) (snd (faster_scan cs (t, r)))"
  using assms
proof (induction cs arbitrary: t)
  case (Cons c cs)
  let ?u = "upd_con c (con_speed_update (\<lambda>_. pair_speed t c)) t"
  have u: "proposals_ok ?u r"
    using Cons.prems(1) proposable_recount [OF recount_speed] by (auto simp: proposals_ok_def)
  have "proposable (set_con_state c SMB2_MC_STATE_POTENTIAL ?u) c" if "one_idle t c"
    using one_idle_free [OF that] Cons.prems(2) by (auto simp: proposable_def free_pair_def set_con_state_def)
  then show ?case
    using Cons.IH [of t] Cons.IH [of ?u] Cons.prems u by (auto simp: Let_def proposals_ok_def)
qed simp

lemma stats_proposals:
  assumes "smb2_mc_count_connection_stats t = (t', r)"
  shows "proposals_ok t' r"
proof -
  obtain t1 r1 where t1: "fold count_step (session_con_list t) (t, zero_results) = (t1, r1)"
    by (cases "fold count_step (session_con_list t) (t, zero_results)")
  have "proposals_ok t1 r1"
    using count_scan_proposals [of t zero_results "session_con_list t"] t1 by (simp add: proposals_ok_def zero_results_def)
  moreover have "session_con_list t1 = session_con_list t"
    using recount_simps(1) [OF count_scan_recount [of "(t, zero_results)" "session_con_list t"]] t1 by simp
  ultimately show ?thesis
    using assms faster_scan_proposals [of t1 r1 "session_con_list t"]
    by (auto simp: smb2_mc_count_connection_stats_def t1 Let_def split: if_splits)
qed

lemma con_to_add_proposable:
  assumes "smb2_mc_count_connection_stats t = (t', r)" "con_to_add t' r added = Some (c, a)"
  shows "proposable t' c" "a \<noteq> SMB2_MC_FUNC_INACTIVE_REDUNDANT"
  using assms(2) stats_proposals [OF assms(1)]
  by (auto simp: con_to_add_def potential_con_def proposals_ok_def split: option.splits if_splits)

section \<open>The vector of trials\<close>

lemma start_trial_simps [simp]:
  "session_con_list (start_trial c a t) = session_con_list t"
  "con_client_nic (cons (start_trial c a t) d) = con_client_nic (cons t d)"
  "con_server_nic (cons (start_trial c a t) d) = con_server_nic (cons t d)"
  "con_state (cons (start_trial c a t) d) = (if d = c then SMB2_MC_STATE_IN_TRIAL else con_state (cons t d))"
  "active_on_trial_connections (start_trial c a t) = active_on_trial_connections t + 1"
  "nic_state (nics (start_trial c a t) n) =
     (if n = con_client_nic (cons t c) \<or> n = con_server_nic (cons t c) then SMB2_MC_STATE_ON_TRIAL else nic_state (nics t n))"
  "con_iod (cons (start_trial c a t) d) = con_iod (cons t d)"
  "successful_con_list (start_trial c a t) = successful_con_list t"
  by (auto simp: start_trial_def Let_def set_nic_states_def)

lemma activate_simps [simp]:
  "session_con_list (activate c i t) = session_con_list t" "nics (activate c i t) = nics t"
  "con_client_nic (cons (activate c i t) d) = con_client_nic (cons t d)"
  "con_server_nic (cons (activate c i t) d) = con_server_nic (cons t d)"
  "con_state (cons (activate c i t) d) = con_state (cons t d)"
  "active_on_trial_connections (activate c i t) = active_on_trial_connections t"
  "con_iod (cons (activate c i t) d) = con_iod (cons t d)"
  "successful_con_list (activate c i t) = successful_con_list t"
  by (auto simp: activate_def)

text \<open>What a run of the loop does: each trial takes a potential connection whose interfaces were not on trial.\<close>

definition trials_ok :: "mc_table \<Rightarrow> nat list \<Rightarrow> mc_table \<Rightarrow> bool" where
  "trials_ok t v t' \<longleftrightarrow>
     set v \<subseteq> set (session_con_list t) \<and>
     distinct (map (\<lambda>c. con_client_nic (cons t c)) v) \<and> distinct (map (\<lambda>c. con_server_nic (cons t c)) v) \<and>
     (\<forall>c \<in> set v. (con_state (cons t c) = SMB2_MC_STATE_POTENTIAL \<or> con_state (cons t c) = SMB2_MC_STATE_SURPLUS) \<and>
        free_pair t c \<and> con_state (cons t' c) = SMB2_MC_STATE_IN_TRIAL \<and>
        nic_state (nics t' (con_client_nic (cons t c))) = SMB2_MC_STATE_ON_TRIAL \<and>
        nic_state (nics t' (con_server_nic (cons t c))) = SMB2_MC_STATE_ON_TRIAL) \<and>
     (\<forall>n. nic_state (nics t n) = SMB2_MC_STATE_ON_TRIAL \<longrightarrow> nic_state (nics t' n) = SMB2_MC_STATE_ON_TRIAL) \<and>
     (\<forall>c. c \<notin> set v \<longrightarrow> con_state (cons t' c) = con_state (cons t c) \<or>
        con_state (cons t c) = SMB2_MC_STATE_SURPLUS \<and> con_state (cons t' c) = SMB2_MC_STATE_POTENTIAL) \<and>
     active_on_trial_connections t' = active_on_trial_connections t + of_nat (length v)"

lemma trials_ok_recount:
  assumes "recount t t1" "trials_ok t1 v t'"
  shows "trials_ok t v t'"
proof -
  note r = recount_simps [OF assms(1)]
  have s: "con_state (cons t1 c) = con_state (cons t c) \<or>
     con_state (cons t c) = SMB2_MC_STATE_SURPLUS \<and> con_state (cons t1 c) = SMB2_MC_STATE_POTENTIAL" for c
    by (rule r(17))
  show ?thesis
    using assms(2) unfolding trials_ok_def r(1,3,12,15,16) free_pair_recount [OF assms(1)]
    by (metis s con_state.distinct)
qed

lemma trials_ok_nil: "trials_ok t [] t"
  by (simp add: trials_ok_def)

lemma trials_ok_activate: "trials_ok (activate c i t) v t' \<Longrightarrow> trials_ok t v t'"
  by (simp add: trials_ok_def free_pair_def)

lemma trials_ok_start:
  assumes p: "proposable t c" and r: "trials_ok (start_trial c a t) v t'"
  shows "trials_ok t (c # v) t'"
proof -
  let ?t = "start_trial c a t"
  have d: "con_client_nic (cons t d) \<noteq> con_client_nic (cons t c) \<and> con_server_nic (cons t d) \<noteq> con_server_nic (cons t c) \<and>
      free_pair t d \<and> d \<noteq> c" if "d \<in> set v" for d
    using r that by (auto simp: trials_ok_def free_pair_def split: if_splits)
  have c: "c \<notin> set v" using d by blast
  have st: "con_state (cons ?t d) = con_state (cons t d)" if "d \<in> set v" for d using d [OF that] by simp
  have new: "con_client_nic (cons t c) \<notin> (\<lambda>c. con_client_nic (cons t c)) ` set v"
    "con_server_nic (cons t c) \<notin> (\<lambda>c. con_server_nic (cons t c)) ` set v"
    using d by (metis (no_types, lifting) imageE)+
  have "set (c # v) \<subseteq> set (session_con_list t)" using p r by (simp add: trials_ok_def proposable_def)
  moreover have "distinct (map (\<lambda>c. con_client_nic (cons t c)) (c # v))" "distinct (map (\<lambda>c. con_server_nic (cons t c)) (c # v))"
    using r new by (simp_all add: trials_ok_def)
  moreover have "con_state (cons t' c) = SMB2_MC_STATE_IN_TRIAL" using r c by (auto simp: trials_ok_def)
  moreover have "nic_state (nics t n) = SMB2_MC_STATE_ON_TRIAL \<Longrightarrow> nic_state (nics t' n) = SMB2_MC_STATE_ON_TRIAL" for n
    using r by (auto simp: trials_ok_def)
  moreover have "nic_state (nics t' (con_client_nic (cons t c))) = SMB2_MC_STATE_ON_TRIAL"
    "nic_state (nics t' (con_server_nic (cons t c))) = SMB2_MC_STATE_ON_TRIAL"
    using r by (auto simp: trials_ok_def)
  moreover have "con_state (cons t' e) = con_state (cons t e) \<or>
      con_state (cons t e) = SMB2_MC_STATE_SURPLUS \<and> con_state (cons t' e) = SMB2_MC_STATE_POTENTIAL" if "e \<notin> set (c # v)" for e
    using r that by (auto simp: trials_ok_def)
  moreover have "\<forall>d \<in> set v. (con_state (cons t d) = SMB2_MC_STATE_POTENTIAL \<or> con_state (cons t d) = SMB2_MC_STATE_SURPLUS) \<and>
      con_state (cons t' d) = SMB2_MC_STATE_IN_TRIAL \<and> nic_state (nics t' (con_client_nic (cons t d))) = SMB2_MC_STATE_ON_TRIAL \<and>
      nic_state (nics t' (con_server_nic (cons t d))) = SMB2_MC_STATE_ON_TRIAL"
    using r st unfolding trials_ok_def by auto
  moreover have "active_on_trial_connections t' = active_on_trial_connections t + of_nat (length (c # v))"
    using r by (simp add: trials_ok_def)
  ultimately show ?thesis using d p unfolding trials_ok_def proposable_def by auto
qed

lemma trial_loop_ok: "trials_ok t (fst (trial_loop n a t)) (snd (trial_loop n a t)) \<and> length (fst (trial_loop n a t)) \<le> n"
proof (induction n a t rule: trial_loop.induct)
  case (1 n a t)
  obtain t1 r where c: "smb2_mc_count_connection_stats t = (t1, r)" by fastforce
  have rc: "recount t t1" using count_connection_stats_recount [of t] c by simp
  have nil: "trials_ok t [] t1" by (rule trials_ok_recount [OF rc trials_ok_nil])
  show ?case
  proof (cases "n = 0 \<or> wake_spare t1 r = None \<and> (enough_connections t1 r \<or> con_to_add t1 r a = None)")
    case True
    then show ?thesis using c nil trials_ok_nil [of t] by (subst (1 2 3) trial_loop.simps) (auto simp: Let_def)
  next
    case False
    then have n: "n \<noteq> 0" by simp
    show ?thesis
    proof (cases "wake_spare t1 r")
      case (Some ci)
      obtain d i where ci: "ci = (d, i)" by (cases ci)
      have l: "trial_loop n a t = trial_loop n a (activate d i t1)"
        using n c Some ci by (subst trial_loop.simps) simp
      have "trials_ok (activate d i t1) (fst (trial_loop n a (activate d i t1))) (snd (trial_loop n a (activate d i t1))) \<and>
          length (fst (trial_loop n a (activate d i t1))) \<le> n"
        using "1.IH"(2) [OF n c [symmetric] refl Some] ci by simp
      then show ?thesis unfolding l using trials_ok_recount [OF rc trials_ok_activate] by blast
    next
      case None
      then obtain d b where db: "con_to_add t1 r a = Some (d, b)" "\<not> enough_connections t1 r" using False n by auto
      let ?l = "trial_loop (n - 1) (a \<or> b = SMB2_MC_FUNC_INACTIVE) (start_trial d b t1)"
      have l: "trial_loop n a t = (d # fst ?l, snd ?l)"
        using n c None db by (subst trial_loop.simps) (simp add: split_def Let_def)
      have "trials_ok (start_trial d b t1) (fst ?l) (snd ?l) \<and> length (fst ?l) \<le> n - 1"
        using "1.IH"(1) [OF n c [symmetric] refl None db(2) db(1)] by simp
      then show ?thesis
        unfolding l using trials_ok_recount [OF rc trials_ok_start [OF con_to_add_proposable(1) [OF c db(1)]]] n by auto
    qed
  qed
qed

section \<open>All pairs\<close>

lemma update_pair_keeps:
  assumes "update_pair mem a b t = Some t'" "mc_wf t" "con \<in> set (session_con_list t)"
  shows "con \<in> set (session_con_list t')"
    "cons t' con = cons t con \<or>
     con_state (cons t con) = SMB2_MC_STATE_SURPLUS \<and> cons t' con = (cons t con)\<lparr>con_state := SMB2_MC_STATE_POTENTIAL\<rparr>"
  using assms mc_wfD(11) [OF assms(2,3)]
  by (auto simp: update_pair_def set_con_state_def split: option.splits if_splits)

lemma update_pair_makes:
  assumes "update_pair mem a b t = Some t'"
  shows "\<exists>con \<in> set (session_con_list t'). con_shape (cons t' con) = (a, b)"
  using assms
  by (auto simp: update_pair_def set_con_state_def con_shape_def split: option.splits if_splits dest!: find_con_Some)

lemma update_pairs_complete:
  assumes "mc_wf t" "set ps \<subseteq> set (client_nic_info_list t) \<times> set (server_nic_info_list t)" "\<forall>k. mem k"
  shows "\<exists>t'. update_pairs mem ps t = (0, t') \<and>
    client_nic_info_list t' = client_nic_info_list t \<and> server_nic_info_list t' = server_nic_info_list t \<and>
    (\<forall>p \<in> set ps. \<exists>con \<in> set (session_con_list t'). con_shape (cons t' con) = p) \<and>
    (\<forall>con \<in> set (session_con_list t). con \<in> set (session_con_list t') \<and> (cons t' con = cons t con \<or>
       con_state (cons t con) = SMB2_MC_STATE_SURPLUS \<and> cons t' con = (cons t con)\<lparr>con_state := SMB2_MC_STATE_POTENTIAL\<rparr>))"
  using assms(1,2)
proof (induction ps arbitrary: t)
  case (Cons p ps)
  obtain t1 where u: "update_pair mem (fst p) (snd p) t = Some t1"
    using assms(3) by (fastforce simp: update_pair_def split: option.splits)
  have w1: "mc_wf t1" by (rule update_pair_wf [OF u Cons.prems(1)]) (use Cons.prems(2) in auto)
  note l = update_pair_lists [OF u]
  note k = update_pair_keeps [OF u Cons.prems(1)]
  obtain con where con: "con \<in> set (session_con_list t1)" "con_shape (cons t1 con) = p"
    using update_pair_makes [OF u] by auto
  have "set ps \<subseteq> set (client_nic_info_list t1) \<times> set (server_nic_info_list t1)" using Cons.prems(2) l by simp
  then obtain t2 where t2: "update_pairs mem ps t1 = (0, t2)" "client_nic_info_list t2 = client_nic_info_list t1"
      "server_nic_info_list t2 = server_nic_info_list t1"
      "\<forall>p \<in> set ps. \<exists>con \<in> set (session_con_list t2). con_shape (cons t2 con) = p"
      "\<forall>con \<in> set (session_con_list t1). con \<in> set (session_con_list t2) \<and> (cons t2 con = cons t1 con \<or>
         con_state (cons t1 con) = SMB2_MC_STATE_SURPLUS \<and> cons t2 con = (cons t1 con)\<lparr>con_state := SMB2_MC_STATE_POTENTIAL\<rparr>)"
    using Cons.IH [OF w1] by blast
  have "con_shape (cons t2 con) = p" using t2(5) con by (auto simp: con_shape_def)
  then have "\<forall>q \<in> set (p # ps). \<exists>con \<in> set (session_con_list t2). con_shape (cons t2 con) = q"
    using t2(4,5) con(1) by auto
  moreover have "c \<in> set (session_con_list t2) \<and> (cons t2 c = cons t c \<or>
       con_state (cons t c) = SMB2_MC_STATE_SURPLUS \<and> cons t2 c = (cons t c)\<lparr>con_state := SMB2_MC_STATE_POTENTIAL\<rparr>)"
    if "c \<in> set (session_con_list t)" for c
    using t2(5) k [OF that] by auto
  ultimately show ?case using u t2(1-3) l by simp
qed simp

lemma update_con_list_complete:
  assumes "mc_wf t" "\<forall>k. mem k" "smb2_mc_update_con_list mem t = (e, t')"
  shows "e = 0 \<and> length (session_con_list t') = length (client_nic_info_list t) * length (server_nic_info_list t)"
    "\<forall>a \<in> set (client_nic_info_list t). \<forall>b \<in> set (server_nic_info_list t).
       \<exists>!con. con \<in> set (session_con_list t') \<and> con_client_nic (cons t' con) = a \<and> con_server_nic (cons t' con) = b"
    "\<forall>con \<in> set (session_con_list t). con \<in> set (session_con_list t') \<and> (cons t' con = cons t con \<or>
       con_state (cons t con) = SMB2_MC_STATE_SURPLUS \<and> cons t' con = (cons t con)\<lparr>con_state := SMB2_MC_STATE_POTENTIAL\<rparr>)"
proof -
  let ?ps = "set (client_nic_info_list t) \<times> set (server_nic_info_list t)"
  have "set (List.product (client_nic_info_list t) (server_nic_info_list t)) \<subseteq> ?ps" by simp
  from update_pairs_complete [OF assms(1) this assms(2)] assms(3)
  have e: "e = 0" and l: "client_nic_info_list t' = client_nic_info_list t" "server_nic_info_list t' = server_nic_info_list t"
    and all: "\<forall>p \<in> ?ps. \<exists>con \<in> set (session_con_list t'). con_shape (cons t' con) = p"
    and k: "\<forall>con \<in> set (session_con_list t). con \<in> set (session_con_list t') \<and> (cons t' con = cons t con \<or>
       con_state (cons t con) = SMB2_MC_STATE_SURPLUS \<and> cons t' con = (cons t con)\<lparr>con_state := SMB2_MC_STATE_POTENTIAL\<rparr>)"
    by (auto simp: smb2_mc_update_con_list_def)
  have "mc_wf t'" using update_con_list_wf [OF assms(1), of mem] assms(3) by simp
  note w = mc_wfD [OF this]
  have img: "(\<lambda>c. con_shape (cons t' c)) ` set (session_con_list t') = ?ps"
    using all w(12,13) l by (force simp: con_shape_def image_iff)
  have "length (session_con_list t') = card ((\<lambda>c. con_shape (cons t' c)) ` set (session_con_list t'))"
    by (simp add: card_image [OF w(14)] distinct_card [OF w(10)])
  also have "\<dots> = length (client_nic_info_list t) * length (server_nic_info_list t)"
    using w(1,2) l by (simp add: img card_cartesian_product distinct_card)
  finally show "e = 0 \<and> length (session_con_list t') = length (client_nic_info_list t) * length (server_nic_info_list t)"
    using e by simp
  show "\<forall>a \<in> set (client_nic_info_list t). \<forall>b \<in> set (server_nic_info_list t).
       \<exists>!con. con \<in> set (session_con_list t') \<and> con_client_nic (cons t' con) = a \<and> con_server_nic (cons t' con) = b"
  proof (intro ballI ex_ex1I)
    fix a b assume "a \<in> set (client_nic_info_list t)" "b \<in> set (server_nic_info_list t)"
    then obtain con where "con \<in> set (session_con_list t')" "con_shape (cons t' con) = (a, b)" using all by blast
    then show "\<exists>con. con \<in> set (session_con_list t') \<and> con_client_nic (cons t' con) = a \<and> con_server_nic (cons t' con) = b"
      by (auto simp: con_shape_def)
  next
    fix a b con d
    assume "con \<in> set (session_con_list t') \<and> con_client_nic (cons t' con) = a \<and> con_server_nic (cons t' con) = b"
      "d \<in> set (session_con_list t') \<and> con_client_nic (cons t' d) = a \<and> con_server_nic (cons t' d) = b"
    then show "con = d" using w(14) by (auto simp: inj_on_def con_shape_def)
  qed
  show "\<forall>con \<in> set (session_con_list t). con \<in> set (session_con_list t') \<and> (cons t' con = cons t con \<or>
       con_state (cons t con) = SMB2_MC_STATE_SURPLUS \<and> cons t' con = (cons t con)\<lparr>con_state := SMB2_MC_STATE_POTENTIAL\<rparr>)"
    by (rule k)
qed

section \<open>The list of successful connections\<close>

text \<open>
  The list has exactly the connections that are connected, each once, and each has its channel. \<open>calm\<close> holds
  of the changes that leave this alone.
\<close>

definition con_set :: "mc_table \<Rightarrow> nat set" where
  "con_set t = {c \<in> set (session_con_list t). connected t c}"

definition success_ok :: "mc_table \<Rightarrow> bool" where
  "success_ok t \<longleftrightarrow> distinct (successful_con_list t) \<and> set (successful_con_list t) = con_set t \<and>
     (\<forall>c \<in> con_set t. con_iod (cons t c) \<noteq> None)"

definition calm :: "mc_table \<Rightarrow> mc_table \<Rightarrow> bool" where
  "calm t t' \<longleftrightarrow> successful_con_list t' = successful_con_list t \<and> con_set t' = con_set t \<and>
     (\<forall>c \<in> con_set t. con_iod (cons t c) \<noteq> None \<longrightarrow> con_iod (cons t' c) \<noteq> None)"

lemma calm_refl [simp]: "calm t t"
  by (simp add: calm_def)

lemma calm_trans: "calm t t' \<Longrightarrow> calm t' t'' \<Longrightarrow> calm t t''"
  by (simp add: calm_def)

lemma calm_success: "success_ok t \<Longrightarrow> calm t t' \<Longrightarrow> success_ok t'"
  by (auto simp: success_ok_def calm_def)

lemma calm_fold: "(\<And>x t. calm t (f x t)) \<Longrightarrow> calm t (fold f xs t)"
proof (induction xs arbitrary: t)
  case (Cons x xs)
  then show ?case using calm_trans [OF Cons.prems [of t x]] by simp
qed simp

text \<open>A change of connections and interfaces that neither makes nor breaks a connection.\<close>

lemma calmI:
  assumes "session_con_list t' = session_con_list t" "successful_con_list t' = successful_con_list t"
    and "\<And>c. c \<in> set (session_con_list t) \<Longrightarrow> connected t' c = connected t c"
    and "\<And>c. c \<in> set (session_con_list t) \<Longrightarrow> connected t c \<Longrightarrow> con_iod (cons t c) \<noteq> None \<Longrightarrow> con_iod (cons t' c) \<noteq> None"
  shows "calm t t'"
  using assms by (auto simp: calm_def con_set_def)

lemma calm_recount: "recount t t' \<Longrightarrow> calm t t'"
  by (rule calmI) (simp_all add: recount_simps recount_state_iff connected_def)

lemma calm_set_con_state:
  "\<not> connected t c \<Longrightarrow> s \<noteq> SMB2_MC_STATE_CONNECTED \<Longrightarrow> s \<noteq> SMB2_MC_STATE_IN_REMOVAL \<Longrightarrow> calm t (set_con_state c s t)"
  by (rule calmI) (auto simp: connected_def set_con_state_def)

lemma calm_upds:
  "calm t (upd_con c (con_speed_update f) t)" "calm t (upd_con c (active_state_update g) t)" "calm t (upd_nic n h t)"
  "calm t (upd_con c (con_iod_update (\<lambda>_. Some i)) t)"
  by (rule calmI; auto simp: connected_def)+

lemma calm_fields:
  "calm t (t\<lparr>iod_inactive := a\<rparr>)" "calm t (t\<lparr>iod_abort := b\<rparr>)" "calm t (t\<lparr>pause_trials := p\<rparr>)"
  "calm t (t\<lparr>active_on_trial_connections := n\<rparr>)"
  by (rule calmI; simp add: connected_def)+

lemma calm_set_nic_states: "calm t (set_nic_states c s t)"
  unfolding set_nic_states_def by (rule calm_trans [OF calm_upds(3) calm_upds(3)])

lemma calm_activate: "calm t (activate c i t)"
  by (rule calmI) (simp_all add: connected_def)

lemma calm_start_trial: "proposable t c \<Longrightarrow> calm t (start_trial c a t)"
  by (rule calmI) (auto simp: connected_def proposable_def)

lemma calm_attach_iod: "calm t (attach_iod c i t)"
  by (rule calmI) (auto simp: connected_def attach_iod_def Let_def)

lemma calm_make_surplus: "calm t (make_surplus c t)"
  by (auto simp: make_surplus_def connected_def intro: calm_set_con_state)

lemma calm_fix_nic_states: "calm t (fix_nic_states t)"
  unfolding fix_nic_states_def
  by (rule calm_fold) (auto simp: fix_nic_state_def calm_set_nic_states split: con_state.split)

lemma calm_reset_con_status: "calm t (smb2_mc_reset_con_status is_client n t)"
  unfolding smb2_mc_reset_con_status_def
  by (rule calm_fold) (auto simp: reset_con_def calm_upds connected_def intro: calm_set_con_state)

lemma calm_reset_nic_list: "calm t (smb2_mc_reset_nic_list t)"
  unfolding smb2_mc_reset_nic_list_def by (rule calm_fold) (rule calm_reset_con_status)

lemma calm_abort: "calm t (smb2_mc_abort_trials t)"
  by (auto simp: smb2_mc_abort_trials_def calm_fields intro!: calm_fold split: option.split)

lemma calm_trial_loop: "calm t (snd (trial_loop n a t))"
proof (induction n a t rule: trial_loop.induct)
  case (1 n a t)
  obtain t1 r where c: "smb2_mc_count_connection_stats t = (t1, r)" by fastforce
  have t1: "calm t t1" using calm_recount [OF count_connection_stats_recount [of t]] c by simp
  show ?case
  proof (cases "wake_spare t1 r")
    case (Some ci)
    obtain d i where ci: "ci = (d, i)" by (cases ci)
    have "n \<noteq> 0 \<Longrightarrow> calm (activate d i t1) (snd (trial_loop n a (activate d i t1)))"
      using "1.IH"(2) [OF _ c [symmetric] refl Some] ci by simp
    then show ?thesis
      using c Some ci calm_trans [OF t1 calm_trans [OF calm_activate]]
      by (subst trial_loop.simps) (simp, blast)
  next
    case None
    have "calm t (snd (trial_loop (n - 1) (a \<or> b = SMB2_MC_FUNC_INACTIVE) (start_trial d b t1)))"
      if "n \<noteq> 0" "con_to_add t1 r a = Some (d, b)" "\<not> enough_connections t1 r" for d b
      using "1.IH"(1) [OF that(1) c [symmetric] refl None that(3,2)]
        calm_trans [OF t1 calm_trans [OF calm_start_trial [OF con_to_add_proposable(1) [OF c that(2)]]]] by simp
    then show ?thesis
      using c None t1 by (subst trial_loop.simps) (auto simp: Let_def split_def split: option.split)
  qed
qed

lemma calm_ask: "calm t (snd (smb2_mc_ask_for_new_connection_trial n t))"
  by (simp add: smb2_mc_ask_for_new_connection_trial_def calm_trial_loop)

lemma calm_new_con:
  assumes "mc_wf t"
  shows "calm t (new_con a b t)"
proof -
  have "next_id t \<notin> set (session_con_list t)" using mc_wfD(11) [OF assms] by auto
  then show ?thesis by (auto simp: calm_def con_set_def connected_def new_con_state_def)
qed

lemma calm_update_pair:
  assumes "update_pair mem a b t = Some t'" "mc_wf t"
  shows "calm t t'"
  using assms calm_new_con [OF assms(2)]
  by (auto simp: update_pair_def connected_def intro: calm_set_con_state split: option.splits if_splits)

lemma calm_update_pairs:
  assumes "mc_wf t" "set ps \<subseteq> set (client_nic_info_list t) \<times> set (server_nic_info_list t)"
  shows "calm t (snd (update_pairs mem ps t))"
  using assms
proof (induction ps arbitrary: t)
  case (Cons p ps)
  show ?case
  proof (cases "update_pair mem (fst p) (snd p) t")
    case (Some t1)
    have "mc_wf t1" by (rule update_pair_wf [OF Some Cons.prems(1)]) (use Cons.prems(2) in auto)
    then have "calm t1 (snd (update_pairs mem ps t1))"
      by (rule Cons.IH) (use Cons.prems(2) update_pair_lists [OF Some] in simp)
    then show ?thesis using calm_trans [OF calm_update_pair [OF Some Cons.prems(1)]] Some by simp
  qed simp
qed simp

lemma calm_update_con_list: "mc_wf t \<Longrightarrow> calm t (snd (smb2_mc_update_con_list mem t))"
  unfolding smb2_mc_update_con_list_def by (rule calm_update_pairs) auto

lemma merge_nic_calm:
  assumes "merge_nic mem is_client u t = Some (added, t')"
  shows "calm t t'"
proof -
  have a: "calm t (add_nic_count is_client k (set_nic_list is_client l t))" for k l
    by (rule calmI) (simp_all add: add_nic_count_def set_nic_list_def connected_def)
  have b: "calm t ((upd_nic n f t)\<lparr>next_id := k\<rparr>)" for n f k
    by (rule calmI) (simp_all add: connected_def)
  show ?thesis
    using assms a b calm_trans [OF b calm_reset_con_status]
    by (auto simp: merge_nic_def Let_def split: option.splits bind_splits if_splits)
qed

lemma merge_nics_calm: "merge_nics mem is_client us s = Some s' \<Longrightarrow> calm (snd (snd s)) (snd (snd s'))"
proof (induction us arbitrary: s)
  case (Cons u us)
  then obtain added t where m: "merge_nic mem is_client u (snd (snd s)) = Some (added, t)"
    "merge_nics mem is_client us (remove1 u (fst s), fst (snd s) \<or> added, t) = Some s'"
    by (auto split: bind_splits)
  show ?case using calm_trans [OF merge_nic_calm [OF m(1)]] Cons.IH [OF m(2)] by simp
qed simp

lemma remove_nic_calm:
  assumes "mc_wf t" "smb2_mc_remove_nic_if_unused is_client n t = Some t'"
  shows "calm t t'"
proof (cases "nic_unused is_client n t")
  case True
  let ?t = "fold drop_con (cons_of is_client n t) t"
  note d = drop_cons [OF assms(1), of "cons_of is_client n t"]
  have "c \<notin> set (cons_of is_client n t)" if "connected t c" for c
    using True that by (auto simp: nic_unused_def connected_def)
  then have "con_set ?t = con_set t" by (auto simp: con_set_def connected_def d(2,3))
  moreover have "con_set t' = con_set ?t" "successful_con_list t' = successful_con_list ?t" "cons t' = cons ?t"
    using assms(2) True
    by (auto simp: smb2_mc_remove_nic_if_unused_def smb2_mc_release_interface_def add_nic_count_def set_nic_list_def
        con_set_def connected_def split: if_splits)
  ultimately show ?thesis using d(3,6) by (simp add: calm_def)
next
  case False
  then show ?thesis using assms(2) by (simp add: smb2_mc_remove_nic_if_unused_def)
qed

lemma remove_excess_calm:
  assumes "mc_wf t" "set ns \<subseteq> set (nic_list is_client t)" "distinct ns" "remove_excess is_client us ns t = Some t'"
  shows "calm t t'"
  using assms
proof (induction ns arbitrary: t)
  case (Cons n ns)
  obtain t1 where t1: "(if list_ex (\<lambda>u. nic_index (nics t u) = nic_index (nics t n)) us then Some t
      else smb2_mc_remove_nic_if_unused is_client n t) = Some t1" "remove_excess is_client us ns t1 = Some t'"
    using Cons.prems(4) by (auto split: bind_splits)
  have n: "n \<in> set (nic_list is_client t)" using Cons.prems(2) by simp
  have "mc_wf t1" "calm t t1"
    using t1(1) Cons.prems(1) remove_nic_wf(1) [OF Cons.prems(1) n] remove_nic_calm [OF Cons.prems(1)] by (auto split: if_splits)
  moreover have "set ns \<subseteq> set (nic_list is_client t1)"
  proof -
    have "nic_list is_client t1 = nic_list is_client t \<or> nic_list is_client t1 = remove1 n (nic_list is_client t)"
      using t1(1) remove_nic_wf(2) [OF Cons.prems(1) n] by (auto split: if_splits)
    then show ?thesis using Cons.prems(2,3) nic_list_distinct [OF Cons.prems(1)] by (auto simp: set_remove1_eq)
  qed
  ultimately show ?case using Cons.IH [of t1] Cons.prems(3) t1(2) calm_trans by simp
qed simp

lemma update_nic_list_calm:
  assumes "mc_wf t" "upd_ok us t" "smb2_mc_update_nic_list_from_notifier mem us is_client t = Some (e, t')"
  shows "calm t t'"
proof -
  obtain us' b t1 where m: "merge_nics mem is_client us (us, False, t) = Some (us', b, t1)" "mc_wf t1"
    using merge_nics_wf [of "(us, False, t)" us mem is_client] assms(1,2) by auto
  define t2 where "t2 = (if b then snd (smb2_mc_update_con_list mem t1) else t1)"
  have r: "remove_excess is_client us' (nic_list is_client t2) t2 = Some t'"
    using assms(3) m(1)
    by (cases b) (auto simp: smb2_mc_update_nic_list_from_notifier_def t2_def split_def Let_def split: bind_splits)
  have w: "mc_wf t2" "calm t1 t2"
    using m(2) update_con_list_wf [OF m(2)] calm_update_con_list [OF m(2)] by (simp_all add: t2_def)
  have "calm t t1" using merge_nics_calm [OF m(1)] by simp
  moreover have "calm t2 t'" by (rule remove_excess_calm [OF w(1) subset_refl nic_list_distinct [OF w(1)] r])
  ultimately show ?thesis using w(2) calm_trans by blast
qed

lemma with_nics_calm: "calm t (with_nics nt t)"
  by (rule calmI) (simp_all add: with_nics_def connected_def)

lemma nics_event_calm: "nics_event mem is_client t e t' \<Longrightarrow> calm t t'"
  using update_nic_list_calm calm_trans [OF with_nics_calm] with_nics_calm unfolding nics_event_def by blast

text \<open>A new connection joins the list.\<close>

lemma connect_simps:
  "session_con_list (connect iod c t) = session_con_list t"
  "successful_con_list (connect iod c t) = successful_con_list t @ [c]"
  "con_state (cons (connect iod c t) d) = (if d = c then SMB2_MC_STATE_CONNECTED else con_state (cons t d))"
  "con_iod (cons (connect iod c t) d) = (if d = c \<and> iod \<noteq> None then iod else con_iod (cons t d))"
  by (auto simp: connect_def Let_def set_nic_states_def)

lemma connect_success:
  assumes "success_ok t" "c \<in> set (session_con_list t)" "\<not> connected t c" "iod \<noteq> None \<or> con_iod (cons t c) \<noteq> None"
  shows "success_ok (connect iod c t)"
proof -
  have "con_set (connect iod c t) = insert c (con_set t)"
    using assms(2) by (auto simp: con_set_def connected_def connect_simps)
  moreover have "c \<notin> con_set t" using assms(3) by (simp add: con_set_def)
  ultimately show ?thesis using assms(1,4) by (auto simp: success_ok_def connect_simps)
qed

lemma surplus_scan:
  assumes "\<forall>con \<in> set cs. nic_index (server_of t con) \<noteq> si"
  shows "\<exists>t'. fold (\<lambda>con (made, t). if nic_index (server_of t con) = si then (Some con, connect iod con t)
      else (made, make_surplus con t)) cs (m, t) = (m, t') \<and> calm t t' \<and> shape t' = shape t"
  using assms
proof (induction cs arbitrary: t)
  case (Cons c cs)
  have "\<forall>con \<in> set cs. nic_index (server_of (make_surplus c t) con) \<noteq> si"
    unfolding shapeD [OF shape_make_surplus] using Cons.prems by simp
  from Cons.IH [OF this] obtain t' where t': "fold (\<lambda>con (made, t). if nic_index (server_of t con) = si then (Some con, connect iod con t)
      else (made, make_surplus con t)) cs (m, make_surplus c t) = (m, t')" "calm (make_surplus c t) t'" "shape t' = shape (make_surplus c t)"
    by blast
  then show ?case
    using Cons.prems calm_trans [OF calm_make_surplus t'(2)] trans [OF t'(3) shape_make_surplus] by simp
qed simp

lemma cons_of_client_server:
  assumes "mc_wf t" "c \<in> set (cons_of True n t)" "d \<in> set (cons_of True n t)"
    "nic_index (server_of t c) = nic_index (server_of t d)"
  shows "c = d"
proof -
  note w = mc_wfD [OF assms(1)]
  have l: "c \<in> set (session_con_list t)" "d \<in> set (session_con_list t)" "con_client_nic (cons t c) = con_client_nic (cons t d)"
    using assms(2,3) by (auto simp: cons_of_def nic_of_def)
  have "con_server_nic (cons t c) = con_server_nic (cons t d)"
    using inj_onD [OF w(7)] w(13) [OF l(1)] w(13) [OF l(2)] assms(4) by blast
  then show ?thesis using inj_onD [OF w(14), of c d] l by (simp add: con_shape_def)
qed

lemma surplus_scan_iod:
  "con \<notin> set cs \<Longrightarrow> con_iod (cons (snd (fold (\<lambda>con (made, t). if nic_index (server_of t con) = si then (Some con, connect iod con t)
      else (made, make_surplus con t)) cs mt)) con) = con_iod (cons (snd mt) con)"
  by (induction cs arbitrary: mt) (auto simp: make_surplus_def set_con_state_def connect_simps)

lemma connect_scan:
  assumes "mc_wf t" "con \<in> set (cons_of True n t)" "nic_index (server_of t con) = si"
  shows "\<exists>t1 t'. fold (\<lambda>con (made, t). if nic_index (server_of t con) = si then (Some con, connect iod con t)
      else (made, make_surplus con t)) (cons_of True n t) (m, t) = (Some con, t') \<and>
      calm t t1 \<and> calm (connect iod con t1) t' \<and> con_iod (cons t1 con) = con_iod (cons t con) \<and>
      session_con_list t1 = session_con_list t"
proof -
  let ?f = "\<lambda>con (made, t). if nic_index (server_of t con) = si then (Some con, connect iod con t)
      else (made :: nat option, make_surplus con t)"
  obtain xs ys where s: "cons_of True n t = xs @ con # ys" using assms(2) by (meson split_list)
  have "distinct (cons_of True n t)" using mc_wfD(10) [OF assms(1)] by (simp add: cons_of_def)
  then have con: "con \<notin> set xs" "con \<notin> set ys" by (simp_all add: s)
  have other: "\<forall>c \<in> set (xs @ ys). nic_index (server_of t c) \<noteq> si"
  proof (intro ballI notI)
    fix c assume c: "c \<in> set (xs @ ys)" "nic_index (server_of t c) = si"
    then have "c \<in> set (cons_of True n t)" by (auto simp: s)
    then have "c = con" using cons_of_client_server [OF assms(1) _ assms(2)] c(2) assms(3) by simp
    then show False using con c(1) by simp
  qed
  then obtain t1 where t1: "fold ?f xs (m, t) = (m, t1)" "calm t t1" "shape t1 = shape t"
    using surplus_scan [of xs t si iod m] by auto
  have iod: "con_iod (cons t1 con) = con_iod (cons t con)"
    using surplus_scan_iod [OF con(1), of si iod "(m, t)"] t1(1) by simp
  let ?t = "connect iod con t1"
  have sh: "shape ?t = shape t" by (rule trans [OF shape_connect t1(3)])
  have "\<forall>c \<in> set ys. nic_index (server_of ?t c) \<noteq> si" unfolding shapeD [OF sh] using other by simp
  then obtain t2 where t2: "fold ?f ys (Some con, ?t) = (Some con, t2)" "calm ?t t2"
    using surplus_scan [of ys ?t si iod "Some con"] by auto
  have "nic_index (server_of t1 con) = si" unfolding shapeD [OF t1(3)] by (rule assms(3))
  then have "fold ?f (cons_of True n t) (m, t) = (Some con, t2)" using t1(1) t2(1) s by simp
  then show ?thesis using t1(2) t2(2) iod shapeD(5) [OF t1(3)] by blast
qed

lemma update_new_connection_success:
  assumes "mc_wf t" "success_ok t" "smb2_mc_update_new_connection ci si iod t = (e, made, t')"
    and new: "\<And>c. made = Some c \<Longrightarrow> \<not> connected t c \<and> (iod \<noteq> None \<or> con_iod (cons t c) \<noteq> None)"
  shows "success_ok t'"
proof (cases "smb2_mc_get_nic_by_index (nics t) (client_nic_info_list t) ci = None \<or>
    smb2_mc_get_nic_by_index (nics t) (server_nic_info_list t) si = None")
  case True
  then show ?thesis using assms(2,3) by (auto simp: smb2_mc_update_new_connection_def split: option.splits)
next
  case False
  then obtain n s where n: "smb2_mc_get_nic_by_index (nics t) (client_nic_info_list t) ci = Some n"
    "smb2_mc_get_nic_by_index (nics t) (server_nic_info_list t) si = Some s" by auto
  then have "n \<in> set (client_nic_info_list t)"
    by (auto simp: smb2_mc_get_nic_by_index_def find_Some_iff)
  then have poss: "possible_connections (nics t n) = cons_of True n t" by (rule mc_wfD(15) [OF assms(1)])
  let ?f = "\<lambda>con (made, t). if nic_index (server_of t con) = si then (Some con, connect iod con t)
      else (made, make_surplus con t)"
  obtain m t1 where f: "fold ?f (cons_of True n t) (None, t) = (m, t1)" by fastforce
  have r: "m = made" "t' = fold (\<lambda>con t. if nic_index (server_of t con) = si then make_surplus con t else t) (session_con_list t1) t1"
    using assms(3) n f by (simp_all add: smb2_mc_update_new_connection_def poss split_def)
  have "success_ok t1"
  proof (cases "\<exists>con \<in> set (cons_of True n t). nic_index (server_of t con) = si")
    case True
    then obtain con where con: "con \<in> set (cons_of True n t)" "nic_index (server_of t con) = si" by blast
    obtain t0 where t0: "m = Some con" "calm t t0" "calm (connect iod con t0) t1" "con_iod (cons t0 con) = con_iod (cons t con)"
      "session_con_list t0 = session_con_list t"
      using connect_scan [OF assms(1) con, of iod None] f by auto
    have c: "con \<in> set (session_con_list t0)" using con(1) t0(5) by (simp add: cons_of_def)
    have "\<not> connected t0 con" using t0(1,2,5) c new [of con] r(1) by (auto simp: calm_def con_set_def)
    then have "success_ok (connect iod con t0)"
      using connect_success [OF calm_success [OF assms(2) t0(2)] c] new [of con] t0(1,4) r(1) by simp
    then show ?thesis using t0(3) calm_success by blast
  next
    case False
    then show ?thesis using surplus_scan [of "cons_of True n t" t si iod None] f calm_success [OF assms(2)] by auto
  qed
  moreover have "calm t1 t'" unfolding r(2) by (rule calm_fold) (simp add: calm_make_surplus)
  ultimately show ?thesis by (rule calm_success)
qed

lemma get_nic_by_index_self:
  assumes "inj_on (\<lambda>n. nic_index (st n)) (set l)" "n \<in> set l"
  shows "smb2_mc_get_nic_by_index st l (nic_index (st n)) = Some n"
proof (cases "smb2_mc_get_nic_by_index st l (nic_index (st n))")
  case None
  then show ?thesis using assms(2) by (auto simp: get_nic_None)
next
  case (Some m)
  then have "m \<in> set l" "nic_index (st m) = nic_index (st n)"
    by (auto simp: smb2_mc_get_nic_by_index_def find_Some_iff)
  then show ?thesis using Some inj_onD [OF assms(1)] assms(2) by blast
qed

lemma update_new_connection_made:
  assumes "mc_wf t" "c \<in> set (session_con_list t)"
  shows "\<exists>t'. smb2_mc_update_new_connection (nic_index (client_of t c)) (nic_index (server_of t c)) iod t = (0, Some c, t')"
proof -
  note w = mc_wfD [OF assms(1)]
  let ?n = "con_client_nic (cons t c)"
  have n: "?n \<in> set (client_nic_info_list t)" by (rule w(12) [OF assms(2)])
  have c: "c \<in> set (cons_of True ?n t)" using assms(2) by (simp add: cons_of_def nic_of_def)
  obtain t1 t' where f: "fold (\<lambda>con (made, t'). if nic_index (server_of t' con) = nic_index (server_of t c) then (Some con, connect iod con t')
      else (made, make_surplus con t')) (cons_of True ?n t) (None, t) = (Some c, t')"
    using connect_scan [OF assms(1) c refl, of iod None] by blast
  show ?thesis
    using get_nic_by_index_self [OF w(6) n] get_nic_by_index_self [OF w(7) w(13) [OF assms(2)]] f w(15) [OF n]
    by (simp add: smb2_mc_update_new_connection_def split_def)
qed

lemma success_report_passed:
  assumes "mc_wf t" "success_ok t" "c \<in> set (session_con_list t)" "\<not> connected t c" "con_iod (cons t c) \<noteq> None"
  shows "success_ok (snd (smb2_mc_report_connection_trial_results mem True c t))"
proof -
  let ?t = "t\<lparr>active_on_trial_connections := active_on_trial_connections t - 1\<rparr>"
  have wf: "mc_wf ?t" by (rule mc_wf_same_shape [OF assms(1)]) (simp add: shape)
  have ok: "success_ok ?t" by (rule calm_success [OF assms(2) calm_fields(4)])
  obtain t1 where t1: "smb2_mc_update_new_connection (nic_index (client_of ?t c)) (nic_index (server_of ?t c)) None ?t = (0, Some c, t1)"
    using update_new_connection_made [OF wf] assms(3) by fastforce
  have "success_ok t1"
    by (rule update_new_connection_success [OF wf ok t1]) (use assms(4,5) in \<open>simp add: connected_def\<close>)
  then have "success_ok (fix_nic_states t1)" by (rule calm_success [OF _ calm_fix_nic_states])
  moreover have "mc_wf (fix_nic_states t1)"
  proof (rule mc_wf_same_shape [OF wf])
    show "shape (fix_nic_states t1) = shape ?t"
      using shape_update_new_connection [of _ _ None ?t] t1 by (metis shape_fix_nic_states snd_conv)
  qed
  moreover have "snd (smb2_mc_report_connection_trial_results mem True c t) = snd (smb2_mc_update_con_list mem (fix_nic_states t1))"
    using t1 by (simp add: smb2_mc_report_connection_trial_results_def Let_def)
  ultimately show ?thesis using calm_success [OF _ calm_update_con_list] by simp
qed

text \<open>A trial that fails takes nothing from the list as long as no sibling is connected.\<close>

lemma trial_failed_con_calm:
  assumes "nic_index (client_of t d) AND SMB2_IF_INDEX_MASK = ci AND SMB2_IF_INDEX_MASK \<Longrightarrow>
      nic_index (server_of t d) AND SMB2_IF_INDEX_MASK = si AND SMB2_IF_INDEX_MASK \<Longrightarrow> \<not> connected t d"
  shows "calm t (trial_failed_con ci si d t)"
  using assms by (auto simp: trial_failed_con_def connected_def intro!: calm_set_con_state)

lemma trial_failed_scan_calm:
  assumes "set cs \<subseteq> set (session_con_list t)"
    "\<forall>d \<in> set (session_con_list t). nic_index (client_of t d) AND SMB2_IF_INDEX_MASK = ci AND SMB2_IF_INDEX_MASK \<and>
      nic_index (server_of t d) AND SMB2_IF_INDEX_MASK = si AND SMB2_IF_INDEX_MASK \<longrightarrow> \<not> connected t d"
  shows "calm t (fold (trial_failed_con ci si) cs t)"
  using assms
proof (induction cs arbitrary: t)
  case (Cons c cs)
  let ?t = "trial_failed_con ci si c t"
  have c: "calm t ?t" by (rule trial_failed_con_calm) (use Cons.prems in auto)
  have sh: "shape ?t = shape t" by (simp add: trial_failed_con_def shape)
  have con: "connected ?t d = connected t d" if "d \<in> set (session_con_list t)" for d
    using c that unfolding calm_def con_set_def shapeD [OF sh] by blast
  have "calm ?t (fold (trial_failed_con ci si) cs ?t)"
  proof (rule Cons.IH)
    show "set cs \<subseteq> set (session_con_list ?t)" unfolding shapeD [OF sh] using Cons.prems(1) by simp
    show "\<forall>d \<in> set (session_con_list ?t). nic_index (client_of ?t d) AND SMB2_IF_INDEX_MASK = ci AND SMB2_IF_INDEX_MASK \<and>
      nic_index (server_of ?t d) AND SMB2_IF_INDEX_MASK = si AND SMB2_IF_INDEX_MASK \<longrightarrow> \<not> connected ?t d"
      unfolding shapeD [OF sh] using Cons.prems(2) con by simp
  qed
  then show ?case using calm_trans [OF c] by simp
qed simp

lemma drop_iod_calm: "\<not> connected t c \<Longrightarrow> calm t (upd_con c (con_iod_update (\<lambda>_. None)) t)"
  by (rule calmI) (auto simp: connected_def)

lemma trial_failed_calm:
  assumes "c \<in> set (session_con_list t)" "\<forall>d \<in> set (session_con_list t). siblings t c d \<longrightarrow> \<not> connected t d"
  shows "calm t (trial_failed c t)"
proof -
  let ?t = "upd_con c (con_iod_update (\<lambda>_. None)) (set_nic_states c SMB2_MC_STATE_IDLE t)"
  have "\<not> connected t c" using assms by (simp add: siblings_def)
  then have "\<not> connected (set_nic_states c SMB2_MC_STATE_IDLE t) c" by (simp add: connected_def set_nic_states_def)
  then have c: "calm t ?t" by (rule calm_trans [OF calm_set_nic_states drop_iod_calm])
  have sh: "shape ?t = shape t" by (simp add: shape)
  have con: "connected ?t d = connected t d" for d by (simp add: connected_def set_nic_states_def)
  have "calm ?t (fold (trial_failed_con (nic_index (client_of t c)) (nic_index (server_of t c))) (session_con_list ?t) ?t)"
    by (rule trial_failed_scan_calm [OF subset_refl])
      (unfold shapeD [OF sh] con, use assms(2) in \<open>simp add: siblings_def\<close>)
  then show ?thesis using calm_trans [OF c] by (simp add: trial_failed_def)
qed

lemma success_report_failed:
  assumes "mc_wf t" "success_ok t" "c \<in> set (session_con_list t)"
    "\<forall>d \<in> set (session_con_list t). siblings t c d \<longrightarrow> \<not> connected t d"
  shows "success_ok (snd (smb2_mc_report_connection_trial_results mem False c t))"
proof -
  let ?t = "t\<lparr>active_on_trial_connections := active_on_trial_connections t - 1\<rparr>"
  have "calm ?t (trial_failed c ?t)"
    by (rule trial_failed_calm) (use assms(3,4) in \<open>simp_all add: siblings_def connected_def\<close>)
  then have "calm t (fix_nic_states (trial_failed c ?t))"
    using calm_trans [OF calm_fields(4) calm_trans [OF _ calm_fix_nic_states]] by blast
  moreover have "mc_wf (fix_nic_states (trial_failed c ?t))"
    by (rule mc_wf_same_shape [OF assms(1)]) (simp add: shape)
  ultimately have "calm t (snd (smb2_mc_update_con_list mem (fix_nic_states (trial_failed c ?t))))"
    using calm_trans calm_update_con_list by blast
  then show ?thesis
    using calm_success [OF assms(2)] by (simp add: smb2_mc_report_connection_trial_results_def Let_def)
qed

text \<open>A connection that is lost leaves the list.\<close>

lemma success_disconnect:
  assumes "success_ok t" "connected t c"
  shows "success_ok (upd_con c (con_iod_update (\<lambda>_. None)) (set_nic_states c s (set_con_state c SMB2_MC_STATE_POTENTIAL
    (t\<lparr>successful_con_list := remove1 c (successful_con_list t)\<rparr>))))"
    (is "success_ok ?t")
proof -
  have l: "session_con_list ?t = session_con_list t" "successful_con_list ?t = remove1 c (successful_con_list t)"
    and s: "con_state (cons ?t d) = (if d = c then SMB2_MC_STATE_POTENTIAL else con_state (cons t d))"
    and i: "con_iod (cons ?t d) = (if d = c then None else con_iod (cons t d))" for d
    by (auto simp: set_nic_states_def set_con_state_def)
  have "con_set ?t = con_set t - {c}" unfolding con_set_def connected_def l s by auto
  then show ?thesis using assms(1) unfolding success_ok_def l i by (simp add: set_remove1_eq)
qed

lemma success_disconnected:
  assumes "mc_wf t" "success_ok t"
  shows "success_ok (snd (smb2_mc_inform_connection_disconnected mem c t))"
proof -
  define t1 where "t1 = (if connected t c then
      set_con_state c SMB2_MC_STATE_POTENTIAL (t\<lparr>successful_con_list := remove1 c (successful_con_list t)\<rparr>)
    else if con_state (cons t c) \<noteq> SMB2_MC_STATE_FAILED_TO_CONNECT \<and> con_state (cons t c) \<noteq> SMB2_MC_STATE_NO_POTENTIAL
    then set_con_state c SMB2_MC_STATE_POTENTIAL t else t)"
  let ?t = "upd_con c (con_iod_update (\<lambda>_. None)) (set_nic_states c SMB2_MC_STATE_IDLE t1)"
  have r: "snd (smb2_mc_inform_connection_disconnected mem c t) = snd (smb2_mc_update_con_list mem (fix_nic_states ?t))"
    by (simp add: smb2_mc_inform_connection_disconnected_def t1_def connected_def Let_def)
  have "shape t1 = shape t" by (simp add: t1_def shape)
  then have "mc_wf (fix_nic_states ?t)" using mc_wf_same_shape [OF assms(1)] by (simp add: shape)
  moreover have "success_ok ?t"
  proof (cases "connected t c")
    case True
    then show ?thesis using success_disconnect [OF assms(2)] by (simp add: t1_def)
  next
    case False
    then have c: "calm t t1" by (simp add: t1_def calm_set_con_state)
    have "\<not> connected (set_nic_states c SMB2_MC_STATE_IDLE t1) c"
      using False by (auto simp: t1_def connected_def set_nic_states_def set_con_state_def)
    then show ?thesis
      using calm_success [OF assms(2) calm_trans [OF c calm_trans [OF calm_set_nic_states drop_iod_calm]]] by blast
  qed
  ultimately show ?thesis
    unfolding r using calm_success [OF _ calm_trans [OF calm_fix_nic_states calm_update_con_list]] by blast
qed

text \<open>The search for connections to remove does not meet a connection without channel.\<close>

lemma mark_activity_calm:
  assumes "con_iod (cons t c) \<noteq> None"
  shows "\<exists>t'. mark_activity w m c t = Some t' \<and> calm t t' \<and>
    (\<forall>d. con_iod (cons t' d) = con_iod (cons t d) \<and> con_state (cons t' d) = con_state (cons t d))"
proof -
  have a: "calm t ((upd_con c (active_state_update f) t)\<lparr>iod_inactive := g\<rparr>)" for f g
    by (rule calm_trans [OF calm_upds(2) calm_fields(1)])
  show ?thesis using assms a by (auto simp: mark_activity_def smb_iod_active_def smb_iod_inactive_def)
qed

lemma mark_scan_calm:
  assumes "\<forall>c \<in> set cs. con_iod (cons (fst tm) c) \<noteq> None"
  shows "\<exists>tm'. mark_scan w m cs tm = Some tm' \<and> calm (fst tm) (fst tm') \<and>
    (\<forall>d. con_state (cons (fst tm') d) = con_state (cons (fst tm) d))"
  using assms
proof (induction cs arbitrary: tm)
  case (Cons c cs)
  obtain t' where t': "mark_activity w m c (fst tm) = Some t'" "calm (fst tm) t'"
      "\<forall>d. con_iod (cons t' d) = con_iod (cons (fst tm) d) \<and> con_state (cons t' d) = con_state (cons (fst tm) d)"
    using mark_activity_calm [of "fst tm" c w m] Cons.prems by auto
  have "\<forall>d \<in> set cs. con_iod (cons (fst (t', note_activity t' c (snd tm))) d) \<noteq> None" using Cons.prems t'(3) by simp
  from Cons.IH [OF this] show ?case using t'(1,3) calm_trans [OF t'(2)] by auto
qed simp

lemma mark_redundant_state: "con_state (cons (mark_redundant f n cs t) d) = con_state (cons t d)"
  by (induction cs arbitrary: n t) (simp_all add: Let_def)

lemma mark_redundant_calm: "calm t (mark_redundant f n cs t)"
proof (induction cs arbitrary: n t)
  case (Cons c cs)
  then show ?case using calm_upds(2) calm_trans [OF calm_upds(2) Cons.IH] by (simp add: Let_def)
qed simp

lemma remove_scan_calm:
  assumes "\<forall>c \<in> set cs. connected t c" "distinct cs"
  shows "calm t (snd (remove_scan i cs a m t)) \<and> distinct (fst (remove_scan i cs a m t)) \<and>
    set (fst (remove_scan i cs a m t)) \<subseteq> set cs \<and>
    (\<forall>c \<in> set (fst (remove_scan i cs a m t)). con_state (cons t c) = SMB2_MC_STATE_CONNECTED \<and>
       con_state (cons (snd (remove_scan i cs a m t)) c) = SMB2_MC_STATE_IN_REMOVAL) \<and>
    (\<forall>c. c \<notin> set cs \<longrightarrow> cons (snd (remove_scan i cs a m t)) c = cons t c) \<and>
    (0 < m \<longrightarrow> int (length (fst (remove_scan i cs a m t))) \<le> m)"
  using assms
proof (induction cs arbitrary: a m t)
  case (Cons c cs)
  let ?t = "set_con_state c SMB2_MC_STATE_IN_REMOVAL t"
  have calm: "calm t ?t"
    by (rule calmI) (use Cons.prems(1) in \<open>auto simp: set_con_state_def connected_def\<close>)
  have con: "\<forall>d \<in> set cs. connected ?t d" using Cons.prems by (auto simp: set_con_state_def connected_def)
  have skip: "\<forall>d \<in> set cs. connected t d" and d: "distinct cs" "c \<notin> set cs" using Cons.prems by simp_all
  let ?over = "i + a > max_channels t \<and> active_state (cons t c) = SMB2_MC_FUNC_ACTIVE"
  show ?case
  proof (cases "con_state (cons t c) = SMB2_MC_STATE_IN_REMOVAL \<or> \<not> ?over \<and> active_state (cons t c) \<noteq> SMB2_MC_FUNC_INACTIVE_REDUNDANT")
    case True
    then have "remove_scan i (c # cs) a m t = remove_scan i cs a m t" by (auto simp: Let_def)
    then show ?thesis using Cons.IH [OF skip d(1), of a m] by auto
  next
    case False
    define a' where "a' = (if ?over then a - 1 else a)"
    note ih = Cons.IH [OF con d(1), of a' "m - 1"]
    have "remove_scan i (c # cs) a m t = (if m - 1 = 0 then ([c], ?t) else
        (c # fst (remove_scan i cs a' (m - 1) ?t), snd (remove_scan i cs a' (m - 1) ?t)))"
      using False unfolding a'_def by (auto simp: Let_def split_def)
    moreover have "con_state (cons ?t c) = SMB2_MC_STATE_IN_REMOVAL" "\<forall>e. e \<noteq> c \<longrightarrow> cons ?t e = cons t e"
      by (simp_all add: set_con_state_def)
    moreover have "con_state (cons t c) = SMB2_MC_STATE_CONNECTED"
      using False Cons.prems(1) by (auto simp: connected_def)
    moreover have "con_state (cons ?t e) = SMB2_MC_STATE_CONNECTED \<Longrightarrow> con_state (cons t e) = SMB2_MC_STATE_CONNECTED" for e
      by (simp add: set_con_state_def split: if_splits)
    ultimately show ?thesis using ih d(2) calm calm_trans [OF calm] by auto
  qed
qed simp

lemma return_excess_success:
  assumes "success_ok t"
  shows "\<exists>v k sp t'. smb2_mc_return_excess_connections n t = Some (v, k, sp, t') \<and> calm t t' \<and> distinct v \<and>
    set v \<subseteq> set (successful_con_list t) \<and> (0 < n \<longrightarrow> int (length v) \<le> n) \<and>
    (\<forall>c \<in> set v. con_state (cons t c) = SMB2_MC_STATE_CONNECTED \<and> con_state (cons t' c) = SMB2_MC_STATE_IN_REMOVAL)"
proof -
  define sp where "sp = (if fst (max_speeds t) \<noteq> 0 then fst (max_speeds t) else snd (max_speeds t))"
  let ?m = "\<lparr>num_of_actives = 0, num_of_inactives = 0, xm_inactive_speed = 0, xm_fastest_inactive = None,
               xm_inactive_wired_speed = 0, xm_fastest_wired_inactive = None\<rparr>"
  have "\<forall>c \<in> set (successful_con_list t). con_iod (cons (fst (t, ?m)) c) \<noteq> None" using assms by (auto simp: success_ok_def)
  then obtain t1 m where t1: "mark_scan (fst (max_speeds t)) sp (successful_con_list t) (t, ?m) = Some (t1, m)"
    "calm t t1" "\<forall>d. con_state (cons t1 d) = con_state (cons t d)"
    using mark_scan_calm [of "successful_con_list t" "(t, ?m)" "fst (max_speeds t)" sp] by auto
  define fastest where "fastest = (if xm_fastest_wired_inactive m \<noteq> None then xm_fastest_wired_inactive m else xm_fastest_inactive m)"
  define t2 where "t2 = (if num_of_inactives m > 1 then mark_redundant fastest (num_of_inactives m) (successful_con_list t1) t1 else t1)"
  have t2: "calm t1 t2" "\<forall>d. con_state (cons t2 d) = con_state (cons t1 d)"
    by (simp_all add: t2_def mark_redundant_calm mark_redundant_state)
  obtain t3 r where t3: "smb2_mc_count_connection_stats t2 = (t3, r)" by fastforce
  have rc: "recount t2 t3" using count_connection_stats_recount [of t2] t3 by simp
  have c3: "calm t t3" by (rule calm_trans [OF t1(2) calm_trans [OF t2(1) calm_recount [OF rc]]])
  then have ok: "success_ok t3" by (rule calm_success [OF assms])
  let ?r = "remove_scan (inactive_cnt r) (successful_con_list t3) (active_cnt r) n t3"
  have l: "successful_con_list t3 = successful_con_list t" using c3 by (simp add: calm_def)
  have "\<forall>c \<in> set (successful_con_list t3). connected t3 c" "distinct (successful_con_list t3)"
    using ok by (auto simp: success_ok_def con_set_def)
  note rs = remove_scan_calm [OF this, of "inactive_cnt r" "active_cnt r" n]
  have "con_state (cons t c) = SMB2_MC_STATE_CONNECTED" if "con_state (cons t3 c) = SMB2_MC_STATE_CONNECTED" for c
    using recount_state_iff [OF rc, of SMB2_MC_STATE_CONNECTED c] that t1(3) t2(2) by simp
  moreover have "smb2_mc_return_excess_connections n t = Some (fst ?r, num_of_actives m, sp, snd ?r)"
    unfolding smb2_mc_return_excess_connections_def split_def Let_def
    by (simp only: sp_def [symmetric] t1(1) bind.bind_lunit fst_conv snd_conv fastest_def [symmetric] t2_def [symmetric] t3)
  ultimately show ?thesis using rs calm_trans [OF c3] l by auto
qed

lemma main_channel_success:
  assumes "mc_wf t" "success_ok t" "smb2_mc_update_main_channel cip sip iod t = Some (e, made, t')"
    "\<forall>c. made = Some c \<longrightarrow> \<not> connected t c"
  shows "success_ok t'"
proof -
  have "t' = t \<or> (\<exists>ci si. smb2_mc_update_new_connection ci si (Some iod) t = (e, made, t'))"
    using assms(3) by (auto simp: smb2_mc_update_main_channel_def split: bind_splits option.splits)
  then show ?thesis using assms(2,4) update_new_connection_success [OF assms(1,2)] by blast
qed

lemma update_client_interfaces_calm:
  "update_client_interfaces mem a count force t = Some (e, t') \<Longrightarrow> calm t t'"
  by (rule calmI) (auto simp: update_client_interfaces_def with_nics_def connected_def split: bind_splits)

lemma mc_step_success: "mc_step True t t' \<Longrightarrow> mc_wf t \<Longrightarrow> success_ok t \<Longrightarrow> success_ok t'"
proof (induction rule: mc_step.induct)
  case (set_client t a count mem force t')
  then show ?case using calm_success update_client_interfaces_calm by blast
next
  case (notifier array count mem rss force t e t')
  then show ?case using calm_success nics_event_calm [OF notifier_event_update] by blast
next
  case (server_reply mem buf t e t')
  then show ?case using calm_success nics_event_calm query_info_response_event_cases by blast
next
  case (main_channel cip sip iod t e made t')
  then show ?case using main_channel_success by blast
next
  case (excess n t v k sp t')
  then show ?case using return_excess_success [of t n] calm_success by fastforce
next
  case (passed c t mem)
  then show ?case using success_report_passed by blast
next
  case (failed c t mem)
  then show ?case using success_report_failed by blast
next
  case (disconnected c t mem)
  then show ?case using success_disconnected by blast
qed (simp_all add: calm_success calm_ask calm_attach_iod calm_upds calm_fields calm_abort calm_reset_nic_list
    smb2_mc_inform_connection_active_state_change_def smb2_mc_pause_trials_def smb2_mc_resume_trials_def
    calm_success [OF _ calm_upds(2)] calm_success [OF _ calm_fields(3)] calm_success [OF _ calm_ask]
    calm_success [OF _ calm_attach_iod] calm_success [OF _ calm_abort] calm_success [OF _ calm_reset_nic_list])

lemma mc_reach_success: "mc_reach True t \<Longrightarrow> success_ok t"
proof (induction rule: mc_reach.induct)
  case (start ok channels srvr_rss clnt_rss ignorelist wired t)
  then show ?case by (simp add: success_ok_def con_set_def smb2_mc_init_def)
next
  case (step t t')
  then show ?case using mc_step_success mc_reach_wf by blast
qed

end
