(* ===== verification/McProps.thy ===== *)
theory McProps
  imports McInvariant
begin

unbundle bit_operations_syntax

text \<open>
  What the connection table of multichannel promises to the rest of the client, and where it does not keep the
  promise its comments make, with tables on which each theorem can be seen at work.
\<close>

section \<open>Concrete tables\<close>

definition ex_nic :: "u64 \<Rightarrow> u64 \<Rightarrow> nic_state \<Rightarrow> nat list \<Rightarrow> nic" where
  "ex_nic i speed st cs = zero_nic\<lparr>nic_index := i, nic_link_speed := speed, nic_ip_types := 1, nic_state := st,
     addr_list := [[16, 2, 0, 0, 10, 0, 0, 1, 0, 0, 0, 0, 0, 0, 0, 0]], possible_connections := cs\<rparr>"

definition ex_con :: "con_state \<Rightarrow> con_active_state \<Rightarrow> u64 \<Rightarrow> nat option \<Rightarrow> nat \<Rightarrow> nat \<Rightarrow> session_con_entry" where
  "ex_con st a speed iod c s =
     \<lparr>con_state = st, active_state = a, con_speed = speed, con_iod = iod, con_client_nic = c, con_server_nic = s\<rparr>"

text \<open>A table with the given interfaces, the first \<open>k\<close> of them the client's, and the given connections.\<close>

definition ex_table :: "u32 \<Rightarrow> nic list \<Rightarrow> session_con_entry list \<Rightarrow> nat \<Rightarrow> nat list \<Rightarrow> mc_table" where
  "ex_table channels ns cs k succ =
     \<lparr>nics = (\<lambda>n. if n < length ns then ns ! n else zero_nic),
      cons = (\<lambda>c. if length ns \<le> c \<and> c < length ns + length cs then cs ! (c - length ns)
                  else ex_con SMB2_MC_STATE_NO_POTENTIAL SMB2_MC_FUNC_ACTIVE 0 None 0 0),
      next_id = length ns + length cs, iod_inactive = (\<lambda>_. False), iod_abort = (\<lambda>_. False), pause_trials = 0,
      client_nic_count = of_nat k, client_nic_info_list = [0..<k], server_nic_count = of_nat (length ns - k),
      server_nic_info_list = [k..<length ns], max_channels = channels, srvr_rss_channels = 4, clnt_rss_channels = 4,
      client_if_ignorelist = [], prefer_wired = False, session_con_list = [length ns..<length ns + length cs],
      active_on_trial_connections = 0, successful_con_list = succ\<rparr>"

lemmas ex_defs = ex_table_def ex_nic_def ex_con_def

lemmas ex_wf_defs = mc_wf_def upt_rec inj_on_def nic_ok_def cons_of_def nic_of_def con_shape_def addr_ok_def sa_need_def

lemmas ex_success_defs = success_ok_def con_set_def connected_def upt_rec

definition pair_con :: "nat \<Rightarrow> nat \<Rightarrow> session_con_entry" where
  "pair_con = ex_con SMB2_MC_STATE_SURPLUS SMB2_MC_FUNC_ACTIVE 0 None"

definition blank_table :: mc_table where
  "blank_table = ex_table 0 [] [] 0 []"

section \<open>The shape of the table\<close>


definition first_table :: mc_table where
  "first_table = smb2_mc_init True 9 2 2 [] False blank_table"

definition client_table :: mc_table where
  "client_table = snd (the (update_client_interfaces (\<lambda>_. True) (Inr wit_array) 1 False first_table))"

lemma client_table_update: "update_client_interfaces (\<lambda>_. True) (Inr wit_array) 1 False first_table = Some (0, client_table)"
proof -
  have "map_option fst (update_client_interfaces (\<lambda>_. True) (Inr wit_array) 1 False first_table) = Some 0" by code_simp
  then show ?thesis by (auto simp: client_table_def)
qed

lemma client_table_reach: "mc_reach strict client_table"
proof (rule mc_reach.step)
  show "mc_reach strict first_table" unfolding first_table_def by (rule mc_reach.start)
  have "client_nic_info_list first_table = []" by (simp add: first_table_def smb2_mc_init_def)
  moreover have "client_addrs_ok wit_array (unat (1 :: u32)) 0" using wit_array_ok by simp
  ultimately show "mc_step strict first_table client_table" using client_table_update by (rule mc_step.set_client)
qed


text \<open>C19: The update of the pairs makes all of them. In a well formed table, and when memory suffices, there is
  afterwards exactly one connection for every client and server interface, so that their number is the product
  of the two; the connections that were there are still there and unchanged, except that surplus ones
  may have become potential.\<close>

theorem pair_table_complete:
  assumes "mc_wf t" "\<forall>k. mem k"
  shows "\<exists>t'. smb2_mc_update_con_list mem t = (0, t') \<and>
    length (session_con_list t') = length (client_nic_info_list t) * length (server_nic_info_list t) \<and>
    (\<forall>a \<in> set (client_nic_info_list t). \<forall>b \<in> set (server_nic_info_list t).
       \<exists>!c. c \<in> set (session_con_list t') \<and> con_client_nic (cons t' c) = a \<and> con_server_nic (cons t' c) = b) \<and>
    (\<forall>c \<in> set (session_con_list t). c \<in> set (session_con_list t') \<and> (cons t' c = cons t c \<or>
       con_state (cons t c) = SMB2_MC_STATE_SURPLUS \<and> cons t' c = (cons t c)\<lparr>con_state := SMB2_MC_STATE_POTENTIAL\<rparr>))"
proof -
  obtain e t' where u: "smb2_mc_update_con_list mem t = (e, t')" by fastforce
  note c = update_con_list_complete [OF assms u]
  show ?thesis using u c by (intro exI [of _ t']) simp
qed

definition two_table :: mc_table where
  "two_table = ex_table 9 [ex_nic 1 100 SMB2_MC_STATE_IDLE [3], ex_nic 1 100 SMB2_MC_STATE_IDLE [], ex_nic 2 10 SMB2_MC_STATE_IDLE []]
     [pair_con 0 1] 1 []"

lemma two_table_wf: "mc_wf two_table"
  by (simp add: ex_wf_defs two_table_def pair_con_def ex_defs)

theorem pair_table_complete_witness:
  "\<exists>t'. smb2_mc_update_con_list (\<lambda>_. True) two_table = (0, t') \<and> length (session_con_list t') = 2"
proof -
  have "length (client_nic_info_list two_table) * length (server_nic_info_list two_table) = 2"
    by (simp add: two_table_def ex_defs)
  with pair_table_complete [OF two_table_wf, of "\<lambda>_. True"] show ?thesis by auto
qed

section \<open>Trials\<close>

text \<open>C18: The trials that a table asks for can run side by side. At most as many connections as there is room for
  are returned, all of them pairs of the table that were potential or surplus; no two of them have an
  interface in common, and none has an interface that was on trial before. Each is in trial
  afterwards and both its interfaces are on trial, the counter of trials has grown by their number, the others
  are as they were but for surplus ones that became potential, and while trials are paused there are none.\<close>

theorem trial_vector_sound:
  assumes "smb2_mc_ask_for_new_connection_trial n t = (v, t')"
  shows "length v \<le> unat n \<and> trials_ok t v t' \<and> (pause_trials t \<noteq> 0 \<longrightarrow> v = [] \<and> t' = t)"
  using assms trial_loop_ok [of t "unat n" False] trials_ok_nil [of t]
  by (auto simp: smb2_mc_ask_for_new_connection_trial_def split: if_splits)

definition idle_table :: mc_table where
  "idle_table = ex_table 9
     [ex_nic 1 100 SMB2_MC_STATE_IDLE [4, 5], ex_nic 2 10 SMB2_MC_STATE_IDLE [6, 7],
      ex_nic 1 100 SMB2_MC_STATE_IDLE [], ex_nic 2 10 SMB2_MC_STATE_IDLE []]
     (map (\<lambda>(a, b). ex_con SMB2_MC_STATE_POTENTIAL SMB2_MC_FUNC_ACTIVE 0 None a b) [(0, 2), (0, 3), (1, 2), (1, 3)]) 2 []"

theorem trial_vector_sound_witness:
  "fst (smb2_mc_ask_for_new_connection_trial 8 idle_table) = [4, 7] \<and>
     trials_ok idle_table [4, 7] (snd (smb2_mc_ask_for_new_connection_trial 8 idle_table))"
proof -
  have v: "fst (smb2_mc_ask_for_new_connection_trial 8 idle_table) = [4, 7]" by code_simp
  then have "smb2_mc_ask_for_new_connection_trial 8 idle_table = ([4, 7], snd (smb2_mc_ask_for_new_connection_trial 8 idle_table))"
    by (simp add: prod_eq_iff)
  from trial_vector_sound [OF this] v show ?thesis by simp
qed

section \<open>Excess connections\<close>



definition sibling_table :: mc_table where
  "sibling_table = ex_table 9
     [ex_nic 2 100 SMB2_MC_STATE_USED [6, 7, 8], ex_nic 0x100000001 10 SMB2_MC_STATE_ON_TRIAL [9, 10, 11],
      ex_nic 1 10 SMB2_MC_STATE_USED [12, 13, 14], ex_nic 2 100 SMB2_MC_STATE_USED [],
      ex_nic 1 10 SMB2_MC_STATE_USED [], ex_nic 0x100000001 10 SMB2_MC_STATE_ON_TRIAL []]
     [ex_con SMB2_MC_STATE_CONNECTED SMB2_MC_FUNC_ACTIVE 100 (Some 8) 0 3, pair_con 0 4, pair_con 0 5,
      pair_con 1 3, pair_con 1 4, ex_con SMB2_MC_STATE_IN_TRIAL SMB2_MC_FUNC_ACTIVE 10 (Some 9) 1 5,
      pair_con 2 3, ex_con SMB2_MC_STATE_CONNECTED SMB2_MC_FUNC_ACTIVE 10 (Some 7) 2 4, pair_con 2 5] 3 [13, 6]"


definition spare_table :: mc_table where
  "spare_table = ex_table 17
     [ex_nic 1 100 SMB2_MC_STATE_USED [6, 7, 8], ex_nic 2 10 SMB2_MC_STATE_USED [9, 10, 11],
      ex_nic 3 5 SMB2_MC_STATE_USED [12, 13, 14], ex_nic 1 100 SMB2_MC_STATE_USED [],
      ex_nic 2 10 SMB2_MC_STATE_USED [], ex_nic 3 5 SMB2_MC_STATE_USED []]
     [ex_con SMB2_MC_STATE_CONNECTED SMB2_MC_FUNC_ACTIVE 100 (Some 0) 0 3, pair_con 0 4, pair_con 0 5,
      pair_con 1 3, ex_con SMB2_MC_STATE_CONNECTED SMB2_MC_FUNC_INACTIVE 10 (Some 1) 1 4, pair_con 1 5,
      pair_con 2 3, pair_con 2 4, ex_con SMB2_MC_STATE_CONNECTED SMB2_MC_FUNC_INACTIVE 5 (Some 2) 2 5] 3 [6, 10, 14]"

text \<open>The spare connection that is kept is not the fastest one. Three connections are up, one of speed 100 that
  is active and two spare ones of speeds 10 and 5; none shares an interface with another. One spare
  connection is to be kept; the search removes the faster (10) and keeps the slower. It skips those that share an
  interface with an active connection but does not ask whether that connection is connected, and a
  pair that was never tried counts as active.\<close>

lemma faster_spare_removed:
  "mc_wf spare_table \<and> success_ok spare_table \<and>
   con_speed (cons spare_table 14) < con_speed (cons spare_table 10) \<and>
   map_option fst (smb2_mc_return_excess_connections 4 spare_table) = Some [10]"
proof -
  have "mc_wf spare_table" by (simp add: ex_wf_defs spare_table_def pair_con_def ex_defs)
  moreover have "success_ok spare_table" by (auto simp: ex_success_defs spare_table_def pair_con_def ex_defs)
  moreover have "con_speed (cons spare_table 14) < con_speed (cons spare_table 10)" by code_simp
  moreover have "map_option fst (smb2_mc_return_excess_connections 4 spare_table) = Some [10]" by code_simp
  ultimately show ?thesis by blast
qed

definition limit_table :: mc_table where
  "limit_table = ex_table 1
     [ex_nic 1 100 SMB2_MC_STATE_USED [4, 5], ex_nic 2 10 SMB2_MC_STATE_USED [6, 7],
      ex_nic 1 100 SMB2_MC_STATE_USED [], ex_nic 2 10 SMB2_MC_STATE_USED []]
     [ex_con SMB2_MC_STATE_CONNECTED SMB2_MC_FUNC_ACTIVE 100 (Some 0) 0 2, pair_con 0 3,
      pair_con 1 2, ex_con SMB2_MC_STATE_CONNECTED SMB2_MC_FUNC_ACTIVE 10 (Some 1) 1 3] 2 [7, 4]"

text \<open>With a limit of one channel the faster of two connections is given up. A connection of speed 10 was there
  first and one of speed 100 has just been made; both are active. The search makes the slow one inactive, finds
  two connections where one is allowed, and removes one that is active: the fast one. The slow
  one is woken next time, and the fast pair is tried again.\<close>

lemma limit_removes_faster:
  "mc_wf limit_table \<and> success_ok limit_table \<and>
   (let t = snd (snd (snd (the (smb2_mc_return_excess_connections 4 limit_table))));
        t' = snd (smb2_mc_inform_connection_disconnected (\<lambda>_. True) 4 t)
    in map_option fst (smb2_mc_return_excess_connections 4 limit_table) = Some [4] \<and>
       con_speed (cons limit_table 7) < con_speed (cons limit_table 4) \<and>
       fst (smb2_mc_ask_for_new_connection_trial 4 t') = [4])"
proof -
  have "mc_wf limit_table" by (simp add: ex_wf_defs limit_table_def pair_con_def ex_defs)
  moreover have "success_ok limit_table" by (auto simp: ex_success_defs limit_table_def pair_con_def ex_defs)
  moreover have "let t = snd (snd (snd (the (smb2_mc_return_excess_connections 4 limit_table))));
        t' = snd (smb2_mc_inform_connection_disconnected (\<lambda>_. True) 4 t)
    in map_option fst (smb2_mc_return_excess_connections 4 limit_table) = Some [4] \<and>
       con_speed (cons limit_table 7) < con_speed (cons limit_table 4) \<and>
       fst (smb2_mc_ask_for_new_connection_trial 4 t') = [4]"
    by code_simp
  ultimately show ?thesis by blast
qed

end
