(* ===== verification/Md4.thy ===== *)
theory Md4
  imports Prelude
begin

unbundle bit_operations_syntax

text \<open>
  The MD4 message digest (\<^verbatim>\<open>src/kernel/netsmb/md4c.c\<close>, \<^verbatim>\<open>md4.h\<close>), from which the client computes the hash
  of a password. The routines take a message in pieces, keep an incomplete block in a buffer and count
  bits in two words; the transformation is written out step by step. The theorems show that all of this is
  the digest of RFC 1320, stated here as a function of the whole message.
\<close>

section \<open>The context\<close>

type_synonym md4_state = "u32 \<times> u32 \<times> u32 \<times> u32"

record MD4_CTX =
  md4_state :: md4_state
  md4_count :: "u32 \<times> u32"
  md4_buffer :: "byte list"

definition Encode :: "u32 list \<Rightarrow> byte list" where
  "Encode input = concat (map (\<lambda>w. [ucast (w AND 0xff), ucast (drop_bit 8 w AND 0xff),
     ucast (drop_bit 16 w AND 0xff), ucast (drop_bit 24 w AND 0xff)]) input)"

text \<open>The words of \<open>n\<close> groups of four bytes.\<close>

definition Decode :: "byte list \<Rightarrow> nat \<Rightarrow> u32 list" where
  "Decode input n = map (\<lambda>i. ucast (input ! (4 * i)) OR push_bit 8 (ucast (input ! (4 * i + 1))) OR
     push_bit 16 (ucast (input ! (4 * i + 2))) OR push_bit 24 (ucast (input ! (4 * i + 3)))) [0..<n]"

definition F :: "u32 \<Rightarrow> u32 \<Rightarrow> u32 \<Rightarrow> u32" where "F x y z = (x AND y) OR (NOT x AND z)"
definition G :: "u32 \<Rightarrow> u32 \<Rightarrow> u32 \<Rightarrow> u32" where "G x y z = (x AND y) OR (x AND z) OR (y AND z)"
definition H :: "u32 \<Rightarrow> u32 \<Rightarrow> u32 \<Rightarrow> u32" where "H x y z = (x XOR y) XOR z"

definition ROTATE_LEFT :: "u32 \<Rightarrow> nat \<Rightarrow> u32" where
  "ROTATE_LEFT x n = push_bit n x OR drop_bit (32 - n) x"

definition FF :: "u32 \<Rightarrow> u32 \<Rightarrow> u32 \<Rightarrow> u32 \<Rightarrow> u32 \<Rightarrow> nat \<Rightarrow> u32" where
  "FF a b c d x s = ROTATE_LEFT (a + (F b c d + x)) s"
definition GG :: "u32 \<Rightarrow> u32 \<Rightarrow> u32 \<Rightarrow> u32 \<Rightarrow> u32 \<Rightarrow> nat \<Rightarrow> u32" where
  "GG a b c d x s = ROTATE_LEFT (a + (G b c d + x + 0x5a827999)) s"
definition HH :: "u32 \<Rightarrow> u32 \<Rightarrow> u32 \<Rightarrow> u32 \<Rightarrow> u32 \<Rightarrow> nat \<Rightarrow> u32" where
  "HH a b c d x s = ROTATE_LEFT (a + (H b c d + x + 0x6ed9eba1)) s"

definition MD4Transform :: "md4_state \<Rightarrow> byte list \<Rightarrow> md4_state" where
  "MD4Transform st block =
    (let (s0, s1, s2, s3) = st; a = s0; b = s1; c = s2; d = s3; x = Decode block 16;
         a = FF a b c d (x ! 0) 3; d = FF d a b c (x ! 1) 7; c = FF c d a b (x ! 2) 11; b = FF b c d a (x ! 3) 19;
         a = FF a b c d (x ! 4) 3; d = FF d a b c (x ! 5) 7; c = FF c d a b (x ! 6) 11; b = FF b c d a (x ! 7) 19;
         a = FF a b c d (x ! 8) 3; d = FF d a b c (x ! 9) 7; c = FF c d a b (x ! 10) 11; b = FF b c d a (x ! 11) 19;
         a = FF a b c d (x ! 12) 3; d = FF d a b c (x ! 13) 7; c = FF c d a b (x ! 14) 11; b = FF b c d a (x ! 15) 19;
         a = GG a b c d (x ! 0) 3; d = GG d a b c (x ! 4) 5; c = GG c d a b (x ! 8) 9; b = GG b c d a (x ! 12) 13;
         a = GG a b c d (x ! 1) 3; d = GG d a b c (x ! 5) 5; c = GG c d a b (x ! 9) 9; b = GG b c d a (x ! 13) 13;
         a = GG a b c d (x ! 2) 3; d = GG d a b c (x ! 6) 5; c = GG c d a b (x ! 10) 9; b = GG b c d a (x ! 14) 13;
         a = GG a b c d (x ! 3) 3; d = GG d a b c (x ! 7) 5; c = GG c d a b (x ! 11) 9; b = GG b c d a (x ! 15) 13;
         a = HH a b c d (x ! 0) 3; d = HH d a b c (x ! 8) 9; c = HH c d a b (x ! 4) 11; b = HH b c d a (x ! 12) 15;
         a = HH a b c d (x ! 2) 3; d = HH d a b c (x ! 10) 9; c = HH c d a b (x ! 6) 11; b = HH b c d a (x ! 14) 15;
         a = HH a b c d (x ! 1) 3; d = HH d a b c (x ! 9) 9; c = HH c d a b (x ! 5) 11; b = HH b c d a (x ! 13) 15;
         a = HH a b c d (x ! 3) 3; d = HH d a b c (x ! 11) 9; c = HH c d a b (x ! 7) 11; b = HH b c d a (x ! 15) 15
     in (s0 + a, s1 + b, s2 + c, s3 + d))"

definition MD4Init :: "MD4_CTX \<Rightarrow> MD4_CTX" where
  "MD4Init context = context\<lparr>md4_count := (0, 0), md4_state := (0x67452301, 0xefcdab89, 0x98badcfe, 0x10325476)\<rparr>"

text \<open>
  The blocks that are taken from the input directly. The counter has 32 bits; with an input of nearly 4 GB
  it would wrap and the loop would run on, which is \<open>None\<close> like any read outside of the input.
\<close>

partial_function (option) update_loop :: "byte list \<Rightarrow> u32 \<Rightarrow> md4_state \<Rightarrow> (u32 \<times> md4_state) option" where
  "update_loop input i st =
     (if i + 63 < of_nat (length input) then
        do {
          block \<leftarrow> mem_read input (unat i) 64;
          update_loop input (i + 64) (MD4Transform st block)
        }
      else Some (i, st))"

definition MD4Update :: "MD4_CTX \<Rightarrow> byte list \<Rightarrow> MD4_CTX option" where
  "MD4Update context input =
     (let inputLen = of_nat (length input) :: u32;
          (count0, count1) = md4_count context;
          index = drop_bit 3 count0 AND 0x3F;
          count0 = count0 + push_bit 3 inputLen;
          count1 = (if count0 < push_bit 3 inputLen then count1 + 1 else count1) + drop_bit 29 inputLen;
          partLen = 64 - index;
          context = context\<lparr>md4_count := (count0, count1)\<rparr>
      in do {
        (i, index, context) \<leftarrow>
          (if inputLen \<ge> partLen then
             do {
               part \<leftarrow> mem_read input 0 (unat partLen);
               let buffer = mem_write (unat index) part (md4_buffer context) in
               do {
                 (i, st) \<leftarrow> update_loop input partLen (MD4Transform (md4_state context) buffer);
                 Some (i, 0, context\<lparr>md4_buffer := buffer, md4_state := st\<rparr>)
               }
             }
           else Some (0, index, context));
        rest \<leftarrow> mem_read input (unat i) (unat (inputLen - i));
        Some (context\<lparr>md4_buffer := mem_write (unat index) rest (md4_buffer context)\<rparr>)
      })"

definition PADDING :: "byte list" where
  "PADDING = 0x80 # replicate 63 0"

definition MD4Pad :: "MD4_CTX \<Rightarrow> MD4_CTX option" where
  "MD4Pad context =
     (let (count0, count1) = md4_count context;
          bits = Encode [count0, count1];
          index = drop_bit 3 count0 AND 0x3f;
          padLen = (if index < 56 then 56 - index else 120 - index)
      in do {
        context \<leftarrow> MD4Update context (take (unat padLen) PADDING);
        MD4Update context bits
      })"

definition MD4Final :: "MD4_CTX \<Rightarrow> (byte list \<times> MD4_CTX) option" where
  "MD4Final context =
     do {
       context \<leftarrow> MD4Pad context;
       let (a, b, c, d) = md4_state context in
       Some (Encode [a, b, c, d], \<lparr>md4_state = (0, 0, 0, 0), md4_count = (0, 0), md4_buffer = replicate 64 0\<rparr>)
     }"

section \<open>The digest of RFC 1320\<close>

text \<open>
  A step changes one of the four registers and passes them on; a round is sixteen steps over the words of a
  block in an order of its own, with the shifts of the round in turn.
\<close>

definition rfc_step :: "(u32 \<Rightarrow> u32 \<Rightarrow> u32 \<Rightarrow> u32) \<Rightarrow> u32 \<Rightarrow> nat \<Rightarrow> u32 \<Rightarrow> md4_state \<Rightarrow> md4_state" where
  "rfc_step f k s x st = (case st of (a, b, c, d) \<Rightarrow> (d, word_rotl s (a + f b c d + x + k), b, c))"

definition rfc_round ::
  "(u32 \<Rightarrow> u32 \<Rightarrow> u32 \<Rightarrow> u32) \<Rightarrow> u32 \<Rightarrow> nat list \<Rightarrow> nat list \<Rightarrow> u32 list \<Rightarrow> md4_state \<Rightarrow> md4_state" where
  "rfc_round f k order shifts x st =
     fold (\<lambda>(i, s). rfc_step f k s (x ! i)) (zip order (concat (replicate 4 shifts))) st"

definition rfc_words :: "byte list \<Rightarrow> u32 list" where
  "rfc_words block = map (\<lambda>i. of_nat (le_dec (take 4 (drop (4 * i) block)))) [0..<16]"

definition rfc_block :: "md4_state \<Rightarrow> byte list \<Rightarrow> md4_state" where
  "rfc_block st block =
     (let x = rfc_words block;
          r = rfc_round (\<lambda>x y z. (x AND y) OR (NOT x AND z)) 0 [0..<16] [3, 7, 11, 19] x st;
          r = rfc_round (\<lambda>x y z. (x AND y) OR (x AND z) OR (y AND z)) 0x5a827999
                [0, 4, 8, 12, 1, 5, 9, 13, 2, 6, 10, 14, 3, 7, 11, 15] [3, 5, 9, 13] x r;
          r = rfc_round (\<lambda>x y z. (x XOR y) XOR z) 0x6ed9eba1
                [0, 8, 4, 12, 2, 10, 6, 14, 1, 9, 5, 13, 3, 11, 7, 15] [3, 9, 11, 15] x r
      in case (st, r) of ((s0, s1, s2, s3), (a, b, c, d)) \<Rightarrow> (s0 + a, s1 + b, s2 + c, s3 + d))"

fun rfc_blocks :: "byte list \<Rightarrow> md4_state \<Rightarrow> md4_state" where
  "rfc_blocks m st = (if length m < 64 then st else rfc_blocks (drop 64 m) (rfc_block st (take 64 m)))"

declare rfc_blocks.simps [simp del]

definition rfc_pad :: "nat \<Rightarrow> byte list" where
  "rfc_pad n = 0x80 # replicate ((119 - n mod 64) mod 64) 0 @ le64 (of_nat (8 * n))"

abbreviation rfc_init :: md4_state where
  "rfc_init \<equiv> (0x67452301, 0xefcdab89, 0x98badcfe, 0x10325476)"

definition rfc_md4 :: "byte list \<Rightarrow> byte list" where
  "rfc_md4 m = (case rfc_blocks (m @ rfc_pad (length m)) rfc_init of (a, b, c, d) \<Rightarrow> le32 a @ le32 b @ le32 c @ le32 d)"

section \<open>Words and bytes\<close>

lemma byte_of_word: "ucast (drop_bit k (w :: u32) AND 0xff) = (of_nat (unat w div 2 ^ k mod 256) :: byte)"
proof -
  have "drop_bit k w AND 0xff = take_bit 8 (drop_bit k w)"
    by (simp add: take_bit_eq_mask mask_eq_exp_minus_1)
  moreover have "unat (take_bit 8 (drop_bit k w)) = unat w div 2 ^ k mod 256"
    unfolding unsigned_take_bit_eq [where 'a = nat] unat_drop_bit_eq by (simp add: drop_bit_eq_div take_bit_eq_mod)
  ultimately have "unat (drop_bit k w AND 0xff) = unat w div 2 ^ k mod 256" by simp
  then show ?thesis by (metis of_nat_unat)
qed

lemma le_enc_4: "le_enc 4 k = [of_nat (k mod 256), of_nat (k div 256 mod 256), of_nat (k div 65536 mod 256), of_nat (k div 16777216 mod 256)]"
proof -
  have "(4 :: nat) = Suc (Suc (Suc (Suc 0)))" by simp
  then show ?thesis by (simp only: le_enc.simps) (simp add: div_mult2_eq [symmetric])
qed

lemma word_bytes: "[ucast (w AND 0xff), ucast (drop_bit 8 w AND 0xff), ucast (drop_bit 16 w AND 0xff), ucast (drop_bit 24 w AND 0xff)] = le32 w"
  using byte_of_word [of 0 w] byte_of_word [of 8 w] byte_of_word [of 16 w] byte_of_word [of 24 w]
  by (simp add: le32_def le_enc_4)

lemma Encode_le32: "Encode ws = concat (map le32 ws)"
  by (simp only: Encode_def word_bytes)

lemma of_nat_byte_cons: "of_nat (unat (b :: byte) + 256 * k) = (ucast b OR push_bit 8 (of_nat k) :: u32)"
proof -
  have "(ucast b :: u32) + push_bit 8 (of_nat k) = ucast b OR push_bit 8 (of_nat k)"
    by (rule disjunctive_add) (auto simp: bit_simps dest: bit_imp_le_length)
  then show ?thesis by (simp add: push_bit_eq_mult mult.commute)
qed

lemma le_dec_word:
  "of_nat (le_dec [b0, b1, b2, b3]) = (ucast b0 OR push_bit 8 (ucast b1) OR push_bit 16 (ucast b2) OR push_bit 24 (ucast b3) :: u32)"
proof -
  have "of_nat (le_dec [b0, b1, b2, b3]) =
      (ucast b0 OR push_bit 8 (ucast b1 OR push_bit 8 (ucast b2 OR push_bit 8 (ucast b3))) :: u32)"
    using of_nat_byte_cons [of b3 0] by (simp only: le_dec.simps of_nat_byte_cons) simp
  then show ?thesis by (simp add: push_bit_or ac_simps)
qed

lemma take_4_drop:
  assumes "i + 4 \<le> length xs"
  shows "take 4 (drop i xs) = [xs ! i, xs ! (i + 1), xs ! (i + 2), xs ! (i + 3)]"
  using assms by (intro nth_equalityI) (auto simp: nth_Cons' less_Suc_eq_le intro: arg_cong [of _ _ "nth xs"])

lemma Decode_words: "length block = 64 \<Longrightarrow> Decode block 16 = rfc_words block"
  unfolding Decode_def rfc_words_def
  by (intro map_cong refl) (simp add: take_4_drop le_dec_word del: le_dec.simps)

section \<open>The transformation\<close>

lemma ROTATE_LEFT_rotl:
  assumes "0 < n" "n < 32"
  shows "ROTATE_LEFT x n = word_rotl n x"
proof (rule bit_word_eqI)
  fix m assume m: "m < LENGTH(32)"
  then have m': "m < 32" by simp
  show "bit (ROTATE_LEFT x n) m = bit (word_rotl n x) m"
  proof (cases "n \<le> m")
    case True
    have "(m + (32 - n)) mod 32 = m - n" using True m' assms by (simp add: mod_if)
    then show ?thesis
      using True m' assms by (auto simp: ROTATE_LEFT_def bit_word_rotl_iff bit_simps dest: bit_imp_le_length)
  next
    case False
    then have "(m + (32 - n)) mod 32 = m + (32 - n)" using m' assms by simp
    then show ?thesis
      using False m' assms by (simp add: ROTATE_LEFT_def bit_word_rotl_iff bit_or_iff bit_push_bit_iff bit_drop_bit_eq add.commute [of "32 - n"])
  qed
qed

text \<open>A step of the program as a step of the specification; the registers it leaves alone keep their names.\<close>

lemma let_FF:
  assumes "0 < s" "s < 32" "\<And>a'. body a' = h (fold (\<lambda>g. g) gs (d, a', b, c))"
  shows "(let a' = FF a b c d x s in body a') =
    h (fold (\<lambda>g. g) (rfc_step (\<lambda>x y z. (x AND y) OR (NOT x AND z)) 0 s x # gs) (a, b, c, d))"
  using assms(3) by (simp add: rfc_step_def FF_def F_def ROTATE_LEFT_rotl [OF assms(1,2)] Let_def ac_simps)

lemma let_GG:
  assumes "0 < s" "s < 32" "\<And>a'. body a' = h (fold (\<lambda>g. g) gs (d, a', b, c))"
  shows "(let a' = GG a b c d x s in body a') =
    h (fold (\<lambda>g. g) (rfc_step (\<lambda>x y z. (x AND y) OR (x AND z) OR (y AND z)) 0x5a827999 s x # gs) (a, b, c, d))"
  using assms(3) by (simp add: rfc_step_def GG_def G_def ROTATE_LEFT_rotl [OF assms(1,2)] Let_def ac_simps)

lemma let_HH:
  assumes "0 < s" "s < 32" "\<And>a'. body a' = h (fold (\<lambda>g. g) gs (d, a', b, c))"
  shows "(let a' = HH a b c d x s in body a') =
    h (fold (\<lambda>g. g) (rfc_step (\<lambda>x y z. (x XOR y) XOR z) 0x6ed9eba1 s x # gs) (a, b, c, d))"
  using assms(3) by (simp add: rfc_step_def HH_def H_def ROTATE_LEFT_rotl [OF assms(1,2)] Let_def ac_simps)

text \<open>The three rounds as one list of steps.\<close>

definition rfc_steps :: "u32 list \<Rightarrow> (md4_state \<Rightarrow> md4_state) list" where
  "rfc_steps x =
     map (\<lambda>(i, s). rfc_step (\<lambda>x y z. (x AND y) OR (NOT x AND z)) 0 s (x ! i))
       (zip [0..<16] (concat (replicate 4 [3, 7, 11, 19]))) @
     map (\<lambda>(i, s). rfc_step (\<lambda>x y z. (x AND y) OR (x AND z) OR (y AND z)) 0x5a827999 s (x ! i))
       (zip [0, 4, 8, 12, 1, 5, 9, 13, 2, 6, 10, 14, 3, 7, 11, 15] (concat (replicate 4 [3, 5, 9, 13]))) @
     map (\<lambda>(i, s). rfc_step (\<lambda>x y z. (x XOR y) XOR z) 0x6ed9eba1 s (x ! i))
       (zip [0, 8, 4, 12, 2, 10, 6, 14, 1, 9, 5, 13, 3, 11, 7, 15] (concat (replicate 4 [3, 9, 11, 15])))"

lemma rfc_block_steps:
  "rfc_block (s0, s1, s2, s3) block =
     (case fold (\<lambda>g. g) (rfc_steps (rfc_words block)) (s0, s1, s2, s3) of
        (a, b, c, d) \<Rightarrow> (s0 + a, s1 + b, s2 + c, s3 + d))"
  by (simp only: rfc_block_def rfc_round_def rfc_steps_def Let_def fold_append fold_map comp_def split_def fst_conv snd_conv)

lemma MD4Transform_steps:
  "MD4Transform (s0, s1, s2, s3) block =
     (case fold (\<lambda>g. g) (rfc_steps (Decode block 16)) (s0, s1, s2, s3) of
        (a, b, c, d) \<Rightarrow> (s0 + a, s1 + b, s2 + c, s3 + d))"
proof -
  define x where "x = Decode block 16"
  define h where "h = (\<lambda>(a, b, c, d). (s0 + a, s1 + b, s2 + c, s3 + d))"
  have up: "[0..<16] = [0, 1, 2, 3, 4, 5, 6, 7, 8, 9, 10, 11, 12, 13, 14, 15 :: nat]" by (simp add: upt_rec)
  have r4: "concat (replicate 4 [p, q, r, s :: nat]) = [p, q, r, s, p, q, r, s, p, q, r, s, p, q, r, s]" for p q r s
    by (simp add: numeral_eq_Suc)
  have h_end: "(s0 + a, s1 + b, s2 + c, s3 + d) = h (fold (\<lambda>g. g) [] (a, b, c, d))" for a b c d
    by (simp add: h_def)
  show ?thesis
    unfolding MD4Transform_def x_def [symmetric] h_def [symmetric] Let_def [of "(s0, s1, s2, s3)"] prod.case
    unfolding Let_def [of s0] Let_def [of s1] Let_def [of s2] Let_def [of s3] Let_def [of x]
    unfolding rfc_steps_def up r4 zip_Cons_Cons zip_Nil list.map prod.case append_Cons append_Nil
    by ((rule let_FF [where h = h] let_GG [where h = h] let_HH [where h = h], simp, simp)+, rule h_end)
qed

lemma MD4Transform_rfc: "length block = 64 \<Longrightarrow> MD4Transform st block = rfc_block st block"
  by (cases st) (simp only: MD4Transform_steps rfc_block_steps Decode_words)

section \<open>Messages in pieces\<close>

lemma rfc_blocks_short: "length m < 64 \<Longrightarrow> rfc_blocks m st = st"
  by (simp add: rfc_blocks.simps)

lemma rfc_blocks_app:
  assumes "length a mod 64 = 0"
  shows "rfc_blocks (a @ b) st = rfc_blocks b (rfc_blocks a st)"
  using assms
proof (induction a st rule: rfc_blocks.induct)
  case (1 a st)
  show ?case
  proof (cases "length a < 64")
    case True
    then have "a = []" using 1 by simp
    then show ?thesis by (simp add: rfc_blocks_short)
  next
    case False
    then have "length (drop 64 a) mod 64 = 0" using 1 by (simp add: mod_if)
    with False show ?thesis
      using 1 by (subst (1 3) rfc_blocks.simps) simp
  qed
qed

text \<open>What a context says of the message so far.\<close>

definition md4_of :: "MD4_CTX \<Rightarrow> byte list \<Rightarrow> bool" where
  "md4_of context m \<longleftrightarrow> length (md4_buffer context) = 64 \<and> md4_state context = rfc_blocks m rfc_init \<and>
     take (length m mod 64) (md4_buffer context) = drop (64 * (length m div 64)) m \<and>
     md4_count context = (of_nat (8 * length m), of_nat (8 * length m div 2 ^ 32))"

lemma rfc_blocks_whole: "rfc_blocks m st = rfc_blocks (take (64 * (length m div 64)) m) st"
proof -
  let ?a = "take (64 * (length m div 64)) m" and ?b = "drop (64 * (length m div 64)) m"
  have "length ?a = 64 * (length m div 64)" by simp
  then have "rfc_blocks (?a @ ?b) st = rfc_blocks ?b (rfc_blocks ?a st)" by (intro rfc_blocks_app) simp
  moreover have "length ?b < 64" by (simp add: minus_mult_div_eq_mod)
  ultimately show ?thesis by (simp add: rfc_blocks_short)
qed

lemma update_loop_blocks:
  assumes "unat i \<le> length input" "length input + 63 < 2 ^ 32"
  shows "update_loop input i st =
    Some (of_nat (unat i + 64 * ((length input - unat i) div 64)), rfc_blocks (drop (unat i) input) st)"
  using assms
proof (induction "length input - unat i" arbitrary: i st rule: less_induct)
  case less
  have u: "unat (i + 63) = unat i + 63" using less.prems by (simp add: unat_word_ariths)
  have c: "i + 63 < of_nat (length input) \<longleftrightarrow> unat i + 63 < length input"
    using less.prems u by (simp add: word_less_nat_alt unat_of_nat)
  show ?case
  proof (cases "unat i + 63 < length input")
    case True
    have u64: "unat (i + 64) = unat i + 64" using less.prems True by (simp add: unat_word_ariths)
    let ?b = "take 64 (drop (unat i) input)"
    have "update_loop input i st = update_loop input (i + 64) (MD4Transform st ?b)"
      using True c by (subst update_loop.simps) (simp add: mem_read_def)
    also have "\<dots> = Some (of_nat (unat (i + 64) + 64 * ((length input - unat (i + 64)) div 64)),
        rfc_blocks (drop (unat (i + 64)) input) (MD4Transform st ?b))"
      by (rule less.hyps) (use True less.prems u64 in simp_all)
    also have "unat (i + 64) + 64 * ((length input - unat (i + 64)) div 64) = unat i + 64 * ((length input - unat i) div 64)"
      using True by (simp add: u64 div_if [of "length input - unat i"])
    also have "rfc_blocks (drop (unat (i + 64)) input) (MD4Transform st ?b) = rfc_blocks (drop (unat i) input) st"
      using True by (subst (2) rfc_blocks.simps) (auto simp: u64 MD4Transform_rfc add.commute)
    finally show ?thesis .
  next
    case False
    then show ?thesis using c by (subst update_loop.simps) (simp add: rfc_blocks_short)
  qed
qed

text \<open>The counter: two words, with the carry found by comparison.\<close>

lemma word_of_unat: "unat (w :: u32) = n \<Longrightarrow> w = of_nat n"
  by (drule sym) simp

lemma carry_iff:
  fixes x y m :: nat
  assumes "x < m" "y < m"
  shows "(x + y) mod m < y \<longleftrightarrow> m \<le> x + y" "(x + y) div m = (if m \<le> x + y then 1 else 0)"
proof -
  have "(x + y) mod m = x + y - m \<and> (x + y) div m = 1" if "m \<le> x + y"
    using that assms le_mod_geq [OF that] le_div_geq [of m "x + y"] by simp
  then show "(x + y) mod m < y \<longleftrightarrow> m \<le> x + y" "(x + y) div m = (if m \<le> x + y then 1 else 0)"
    using assms by (cases "m \<le> x + y"; simp)+
qed

lemma count_add:
  fixes a n :: nat
  assumes "n < 2 ^ 32"
  defines "c0 \<equiv> of_nat (8 * a) + push_bit 3 (of_nat n) :: u32"
  shows "c0 = of_nat (8 * (a + n))"
    "(if c0 < push_bit 3 (of_nat n) then of_nat (8 * a div 2 ^ 32) + 1 else of_nat (8 * a div 2 ^ 32)) + drop_bit 29 (of_nat n :: u32) =
       (of_nat (8 * (a + n) div 2 ^ 32) :: u32)"
proof -
  let ?M = "2 ^ 32 :: nat"
  have p: "push_bit 3 (of_nat n :: u32) = of_nat (8 * n)" by (simp add: push_bit_eq_mult)
  show c0: "c0 = of_nat (8 * (a + n))" by (simp add: c0_def p algebra_simps del: of_nat_mult flip: of_nat_add)
  have carry: "c0 < push_bit 3 (of_nat n) \<longleftrightarrow> ?M \<le> (8 * a) mod ?M + (8 * n) mod ?M"
  proof -
    have u: "unat c0 = (8 * a mod ?M + 8 * n mod ?M) mod ?M" "unat (push_bit 3 (of_nat n :: u32)) = 8 * n mod ?M"
      unfolding c0 p by (simp_all add: unat_of_nat mod_add_eq distrib_left del: of_nat_mult of_nat_add)
    show ?thesis unfolding word_less_nat_alt u by (rule carry_iff) simp_all
  qed
  have d: "drop_bit 29 (of_nat n :: u32) = of_nat (8 * n div ?M)"
  proof -
    have "unat (drop_bit 29 (of_nat n :: u32)) = n div 2 ^ 29"
      using assms(1) by (subst unat_drop_bit_eq) (simp add: drop_bit_eq_div unat_of_nat)
    moreover have "n div 2 ^ 29 = 8 * n div ?M" by simp
    ultimately show ?thesis using word_of_unat by metis
  qed
  have "8 * (a + n) div ?M = 8 * a div ?M + 8 * n div ?M + (if ?M \<le> (8 * a) mod ?M + (8 * n) mod ?M then 1 else 0)"
  proof -
    have "8 * (a + n) div ?M = 8 * a div ?M + 8 * n div ?M + (8 * a mod ?M + 8 * n mod ?M) div ?M"
      unfolding distrib_left by (rule div_add1_eq)
    moreover have "(8 * a mod ?M + 8 * n mod ?M) div ?M = (if ?M \<le> (8 * a) mod ?M + (8 * n) mod ?M then 1 else 0)"
      by (rule carry_iff) simp_all
    ultimately show ?thesis by simp
  qed
  then show "(if c0 < push_bit 3 (of_nat n) then of_nat (8 * a div 2 ^ 32) + 1 else of_nat (8 * a div 2 ^ 32)) + drop_bit 29 (of_nat n :: u32) =
       (of_nat (8 * (a + n) div 2 ^ 32) :: u32)"
    unfolding carry d by (simp del: of_nat_mult)
qed

lemma count_index: "drop_bit 3 (of_nat (8 * n) :: u32) AND 0x3F = of_nat (n mod 64)"
proof -
  have "drop_bit 3 (of_nat (8 * n) :: u32) AND 0x3F = take_bit 6 (drop_bit 3 (of_nat (8 * n)))"
    by (simp add: take_bit_eq_mask mask_eq_exp_minus_1)
  moreover have "unat (take_bit 6 (drop_bit 3 (of_nat (8 * n) :: u32))) = n mod 64"
  proof -
    have "unat (take_bit 6 (drop_bit 3 (of_nat (8 * n) :: u32))) = (8 * n mod 2 ^ 32) div 8 mod 64"
      unfolding unsigned_take_bit_eq [where 'a = nat] unat_drop_bit_eq
      by (simp add: drop_bit_eq_div take_bit_eq_mod unat_of_nat del: of_nat_mult)
    also have "(8 * n mod 2 ^ 32) div 8 mod 64 = n mod 64"
    proof -
      have "8 * n mod 2 ^ 32 = 8 * (n mod 2 ^ 29)" using mult_mod_right [of 8 n "2 ^ 29"] by simp
      then show ?thesis by (simp add: mod_mod_cancel)
    qed
    finally show ?thesis .
  qed
  ultimately show ?thesis using word_of_unat by metis
qed

lemma MD4Update_fills:
  assumes of: "md4_of context m" and n: "length input + 63 < 2 ^ 32" and fill: "64 - length m mod 64 \<le> length input"
  shows "\<exists>context'. MD4Update context input = Some context' \<and> md4_of context' (m @ input)"
proof -
  define x q where "x = length m mod 64" and "q = length m div 64"
  define r where "r = length input - (64 - x)"
  have x: "x < 64" "length m = 64 * q + x" by (simp_all add: x_def q_def)
  have rj: "length input = 64 - x + r" using fill by (simp add: r_def x_def)
  have len: "length (m @ input) = 64 * (q + 1 + r div 64) + r mod 64"
  proof -
    have "length (m @ input) = 64 * q + 64 + r" using rj x by simp
    also have "r = 64 * (r div 64) + r mod 64" by simp
    finally show ?thesis by simp
  qed
  have dm: "length (m @ input) div 64 = q + 1 + r div 64" "length (m @ input) mod 64 = r mod 64"
    unfolding len by (simp, simp only: mod_mult_self4 mod_mod_trivial)
  have buf: "length (md4_buffer context) = 64" "take x (md4_buffer context) = drop (64 * q) m"
    and st: "md4_state context = rfc_blocks m rfc_init"
    and cnt: "md4_count context = (of_nat (8 * length m), of_nat (8 * length m div 2 ^ 32))"
    using of by (simp_all add: md4_of_def x_def q_def)
  let ?n = "of_nat (length input) :: u32"
  define c0 c1 d0 d1 where "c0 = (of_nat (8 * length m) :: u32)" and "c1 = (of_nat (8 * length m div 2 ^ 32) :: u32)"
    and "d0 = (of_nat (8 * length (m @ input)) :: u32)" and "d1 = (of_nat (8 * length (m @ input) div 2 ^ 32) :: u32)"
  have "length input < 2 ^ 32" using n by simp
  from count_add [OF this, of "length m"]
  have add: "c0 + push_bit 3 ?n = d0" "(if d0 < push_bit 3 ?n then c1 + 1 else c1) + drop_bit 29 ?n = d1"
    by (simp_all only: c0_def c1_def d0_def d1_def length_append)
  have idx: "drop_bit 3 c0 AND 0x3F = of_nat x" by (simp only: c0_def count_index x_def)
  have part: "unat (64 - of_nat x :: u32) = 64 - x" using x(1) by (simp add: unat_sub word_le_nat_alt unat_of_nat)
  have ux: "unat (of_nat x :: u32) = x" "unat ?n = length input" using x(1) n by (simp_all add: unat_of_nat)
  have fill': "64 - x \<le> length input" using fill by (simp only: x_def)
  then have ge: "64 - of_nat x \<le> ?n" by (simp add: word_le_nat_alt part ux)
  define b where "b = mem_write x (take (64 - x) input) (md4_buffer context)"
  have b: "b = drop (64 * q) m @ take (64 - x) input" "length b = 64"
    using buf fill x by (simp_all add: b_def mem_write_def x_def [symmetric])
  define j where "j = 64 - x + 64 * (r div 64)"
  define st' where "st' = rfc_blocks (drop (64 - x) input) (rfc_block (md4_state context) b)"
  have j: "j + r mod 64 = length input" using rj by (simp add: j_def)
  have loop: "update_loop input (64 - of_nat x) (MD4Transform (md4_state context) b) = Some (of_nat j, st')"
    using update_loop_blocks [of "64 - of_nat x" input] n fill rj
    by (simp add: part x_def [symmetric] j_def st'_def MD4Transform_rfc b(2))
  have uj: "unat (of_nat j :: u32) = j" "unat (?n - of_nat j) = r mod 64"
  proof -
    show u: "unat (of_nat j :: u32) = j" using j n by (simp add: unat_of_nat)
    show "unat (?n - of_nat j) = r mod 64" using j u ux(2) by (simp add: unat_sub word_le_nat_alt)
  qed
  let ?c = "context\<lparr>md4_count := (of_nat (8 * length (m @ input)), of_nat (8 * length (m @ input) div 2 ^ 32)),
    md4_buffer := mem_write 0 (drop j input) b, md4_state := st'\<rparr>"
  have "MD4Update context input = Some ?c"
    using ge loop j fill' unfolding d0_def [symmetric] d1_def [symmetric] MD4Update_def cnt [folded c0_def c1_def]
    by (simp add: Let_def idx add part ux uj mem_read_def b_def [symmetric])
  moreover have "md4_of ?c (m @ input)"
  proof -
    have "rfc_blocks (m @ input) rfc_init = rfc_blocks (take (64 * q) m @ b @ drop (64 - x) input) rfc_init"
      by (metis append.assoc append_take_drop_id b(1))
    also have "\<dots> = rfc_blocks (drop (64 - x) input) (rfc_blocks b (rfc_blocks (take (64 * q) m) rfc_init))"
      using x(2) by (simp add: rfc_blocks_app b(2))
    also have "rfc_blocks (take (64 * q) m) rfc_init = md4_state context"
      using rfc_blocks_whole [of m rfc_init] st by (simp add: q_def)
    also have "rfc_blocks b (md4_state context) = rfc_block (md4_state context) b"
      by (subst rfc_blocks.simps) (simp add: b(2) rfc_blocks_short)
    finally have "st' = rfc_blocks (m @ input) rfc_init" by (simp add: st'_def)
    moreover have "drop (64 * (q + 1 + r div 64)) (m @ input) = drop j input"
      using x by (simp add: j_def algebra_simps)
    moreover have "length (drop j input) = r mod 64" using j by simp
    ultimately show ?thesis
      unfolding md4_of_def dm using b(2) by (simp add: mem_write_def)
  qed
  ultimately show ?thesis by blast
qed

lemma MD4Update_keeps:
  assumes of: "md4_of context m" and n: "length input < 64 - length m mod 64"
  shows "\<exists>context'. MD4Update context input = Some context' \<and> md4_of context' (m @ input)"
proof -
  define x q where "x = length m mod 64" and "q = length m div 64"
  have x: "x < 64" "length m = 64 * q + x" by (simp_all add: x_def q_def)
  have len: "length (m @ input) = 64 * q + (x + length input)" "x + length input < 64"
    using x n by (simp_all add: x_def [symmetric])
  have dm: "length (m @ input) div 64 = q" "length (m @ input) mod 64 = x + length input"
    unfolding len(1) using len(2) by simp_all
  have buf: "length (md4_buffer context) = 64" "take x (md4_buffer context) = drop (64 * q) m"
    and st: "md4_state context = rfc_blocks m rfc_init"
    and cnt: "md4_count context = (of_nat (8 * length m), of_nat (8 * length m div 2 ^ 32))"
    using of by (simp_all add: md4_of_def x_def q_def)
  let ?n = "of_nat (length input) :: u32"
  define c0 c1 d0 d1 where "c0 = (of_nat (8 * length m) :: u32)" and "c1 = (of_nat (8 * length m div 2 ^ 32) :: u32)"
    and "d0 = (of_nat (8 * length (m @ input)) :: u32)" and "d1 = (of_nat (8 * length (m @ input) div 2 ^ 32) :: u32)"
  have "length input < 2 ^ 32" using n by simp
  from count_add [OF this, of "length m"]
  have add: "c0 + push_bit 3 ?n = d0" "(if d0 < push_bit 3 ?n then c1 + 1 else c1) + drop_bit 29 ?n = d1"
    by (simp_all only: c0_def c1_def d0_def d1_def length_append)
  have idx: "drop_bit 3 c0 AND 0x3F = of_nat x" by (simp only: c0_def count_index x_def)
  have part: "unat (64 - of_nat x :: u32) = 64 - x" using x(1) by (simp add: unat_sub word_le_nat_alt unat_of_nat)
  have ux: "unat (of_nat x :: u32) = x" "unat ?n = length input" using len(2) by (simp_all add: unat_of_nat)
  have lt: "\<not> 64 - of_nat x \<le> ?n" using len(2) by (simp add: word_le_nat_alt part ux)
  let ?c = "context\<lparr>md4_count := (of_nat (8 * length (m @ input)), of_nat (8 * length (m @ input) div 2 ^ 32)),
    md4_buffer := mem_write x input (md4_buffer context)\<rparr>"
  have "MD4Update context input = Some ?c"
    using lt len(2) unfolding d0_def [symmetric] d1_def [symmetric] MD4Update_def cnt [folded c0_def c1_def]
    by (simp add: Let_def idx add ux mem_read_def)
  moreover have "md4_of ?c (m @ input)"
  proof -
    have "rfc_blocks (m @ input) rfc_init = rfc_blocks m rfc_init"
      using rfc_blocks_whole [of "m @ input" rfc_init] rfc_blocks_whole [of m rfc_init] x(2) unfolding dm q_def by simp
    moreover have "take (x + length input) (mem_write x input (md4_buffer context)) = drop (64 * q) (m @ input)"
      using buf len(2) x(2) by (simp add: mem_write_def)
    ultimately show ?thesis unfolding md4_of_def dm using buf(1) st len(2) by simp
  qed
  ultimately show ?thesis by blast
qed

lemma MD4Update_of:
  assumes "md4_of context m" "length input + 63 < 2 ^ 32"
  shows "\<exists>context'. MD4Update context input = Some context' \<and> md4_of context' (m @ input)"
proof (cases "64 - length m mod 64 \<le> length input")
  case True
  then show ?thesis using MD4Update_fills [OF assms] by blast
next
  case False
  then show ?thesis using MD4Update_keeps [OF assms(1)] by simp
qed

lemma MD4Init_of: "length (md4_buffer context) = 64 \<Longrightarrow> md4_of (MD4Init context) []"
  by (simp add: md4_of_def MD4Init_def rfc_blocks_short)

lemma bits_le64:
  fixes n :: nat
  shows "Encode [of_nat n, of_nat (n div 2 ^ 32)] = le64 (of_nat n)"
proof -
  have split: "le_enc (a + b) k = le_enc a k @ le_enc b (k div 256 ^ a)" for a b k
    by (induction a arbitrary: k) (simp_all add: div_mult2_eq)
  have "le64 (of_nat n) = le_enc (4 + 4) (n mod 2 ^ 64)" by (simp add: le64_def unat_of_nat)
  also have "\<dots> = le_enc 4 (n mod 2 ^ 64) @ le_enc 4 (n mod 2 ^ 64 div 256 ^ 4)" by (rule split)
  also have "le_enc 4 (n mod 2 ^ 64) = le_enc 4 (n mod 2 ^ 32)"
  proof -
    have e: "le_enc 4 (k mod 256 ^ 4) = le_enc 4 k" for k
      using le_enc_dec [of "le_enc 4 k"] by (simp add: le_dec_enc)
    have "n mod 2 ^ 64 mod 256 ^ 4 = n mod 256 ^ 4" by (simp add: mod_mod_cancel)
    then show ?thesis using e [of "n mod 2 ^ 64"] e [of n] by simp
  qed
  also have "n mod 2 ^ 64 div 256 ^ 4 = n div 2 ^ 32 mod 2 ^ 32"
    using mod_mult2_eq [of n "2 ^ 32" "2 ^ 32"] by simp
  finally show ?thesis by (simp add: Encode_le32 le32_def unat_of_nat)
qed

lemma pad_length:
  assumes "y < 64"
  shows "unat (if of_nat y < (56 :: u32) then 56 - of_nat y else 120 - of_nat y :: u32) = 1 + (119 - y) mod 64"
proof -
  have y: "unat (of_nat y :: u32) = y" using assms by (simp add: unat_of_nat)
  show ?thesis
  proof (cases "y < 56")
    case True
    then have "119 - y = 64 + (55 - y)" by simp
    then have "(119 - y) mod 64 = 55 - y" using True by (simp only: mod_add_self1) simp
    then show ?thesis using True y by (simp add: word_less_nat_alt unat_sub word_le_nat_alt)
  next
    case False
    then show ?thesis using assms y by (simp add: word_less_nat_alt unat_sub word_le_nat_alt)
  qed
qed

lemma MD4Final_digest:
  assumes "md4_of context m"
  shows "\<exists>context'. MD4Final context = Some (rfc_md4 m, context')"
proof -
  let ?n = "length m"
  have cnt: "md4_count context = (of_nat (8 * ?n), of_nat (8 * ?n div 2 ^ 32))" using assms by (simp add: md4_of_def)
  define p where "p = 1 + (119 - ?n mod 64) mod 64"
  have idx: "drop_bit 3 (of_nat (8 * ?n) :: u32) AND 0x3f = of_nat (?n mod 64)" by (rule count_index)
  have pad: "unat (if of_nat (?n mod 64) < (56 :: u32) then 56 - of_nat (?n mod 64) else 120 - of_nat (?n mod 64) :: u32) = p"
    unfolding p_def by (rule pad_length) simp
  have p: "p \<le> 64" by (simp add: p_def Suc_le_eq)
  then have take: "take p PADDING = 0x80 # replicate (p - 1) 0" by (cases p) (simp_all add: PADDING_def p_def min_def)
  obtain c1 where c1: "MD4Update context (take p PADDING) = Some c1" "md4_of c1 (m @ take p PADDING)"
    using MD4Update_of [OF assms, of "take p PADDING"] p by (auto simp: PADDING_def)
  obtain c2 where c2: "MD4Update c1 (le64 (of_nat (8 * ?n))) = Some c2" "md4_of c2 ((m @ take p PADDING) @ le64 (of_nat (8 * ?n)))"
    using MD4Update_of [OF c1(2), of "le64 (of_nat (8 * ?n))"] by auto
  have "MD4Pad context = Some c2"
    using c1(1) c2(1) unfolding MD4Pad_def cnt prod.case Let_def idx pad bits_le64 by simp
  moreover have "(m @ take p PADDING) @ le64 (of_nat (8 * ?n)) = m @ rfc_pad ?n"
    unfolding take rfc_pad_def by (simp add: p_def)
  then have "md4_state c2 = rfc_blocks (m @ rfc_pad ?n) rfc_init" using c2(2) by (simp only: md4_of_def)
  ultimately show ?thesis
    by (cases "rfc_blocks (m @ rfc_pad ?n) rfc_init") (simp add: MD4Final_def rfc_md4_def Encode_le32)
qed

lemma updates_of:
  assumes "md4_of ctx m" "\<forall>c \<in> set cs. length c + 63 < 2 ^ 32"
  shows "\<exists>ctx'. foldl (\<lambda>r c. Option.bind r (\<lambda>x. MD4Update x c)) (Some ctx) cs = Some ctx' \<and> md4_of ctx' (m @ concat cs)"
  using assms
proof (induction cs arbitrary: ctx m)
  case (Cons c cs)
  obtain c1 where "MD4Update ctx c = Some c1" "md4_of c1 (m @ c)" using MD4Update_of [OF Cons.prems(1), of c] Cons.prems(2) by auto
  then show ?case using Cons.IH [of c1 "m @ c"] Cons.prems(2) by simp
qed simp

text \<open>C25: The digest of the client is MD4. However a message is cut into pieces for the update routine, the
  result is the digest that RFC 1320 gives for the whole message: the buffering of incomplete blocks, the
  counter in two words, the padding and the forty-eight steps written out are equivalent to the definition of
  the standard, in which the message is padded and taken block by block in three rounds of sixteen steps.\<close>

theorem MD4_rfc1320:
  assumes "length (md4_buffer context) = 64" "\<forall>c \<in> set pieces. length c + 63 < 2 ^ 32"
  shows "\<exists>context'. Option.bind (foldl (\<lambda>r c. Option.bind r (\<lambda>x. MD4Update x c)) (Some (MD4Init context)) pieces) MD4Final =
    Some (rfc_md4 (concat pieces), context')"
  using updates_of [OF MD4Init_of [OF assms(1)] assms(2)] MD4Final_digest by fastforce

definition wit_md4 :: MD4_CTX where
  "wit_md4 = \<lparr>md4_state = (0, 0, 0, 0), md4_count = (0, 0), md4_buffer = replicate 64 0\<rparr>"

theorem MD4_rfc1320_witness:
  "\<exists>context'. Option.bind (foldl (\<lambda>r c. Option.bind r (\<lambda>x. MD4Update x c)) (Some (MD4Init wit_md4)) [[97], [98, 99]]) MD4Final =
    Some (rfc_md4 [97, 98, 99], context')"
  using MD4_rfc1320 [of wit_md4 "[[97], [98, 99]]"] by (simp add: wit_md4_def)

end
