(* ===== verification/Mbuf.thy ===== *)
theory Mbuf
  imports Prelude
begin

text \<open>
  Message buffers. The record \<open>mbuf\<close> is the storage an mbuf gives access to, and a chain of mbufs
  linked through \<^verbatim>\<open>m_next\<close> is a list of them. The operations are those of the user
  space implementation lib/smb/mbuf.c; the kernel's own KPI has the same accessors, so the chains of
  kernel/sys5/kern/subr\_mchain.c (theory \<open>Mchain\<close>) are built on the same record.

  \<open>m_data\<close> is the whole storage from \<^verbatim>\<open>mbuf_data(m)\<close> to the end of the buffer, so
  \<^verbatim>\<open>m_maxlen\<close> is its length; the first \<open>m_len\<close> bytes of it are the data. Freshly
  allocated storage holds whatever the allocator returns: \<open>malloc\<close>, the result of the C library's
  allocator by requested size, is a parameter, \<open>None\<close> where it fails.
\<close>

section \<open>Data\<close>

record mbuf =
  m_flags :: u32
  m_data :: "byte list"
  m_len :: nat
  m_pkthdr_len :: nat

type_synonym malloc = "nat \<Rightarrow> byte list option"

definition M_EXT :: u32 where "M_EXT = 1"
definition M_PKTHDR :: u32 where "M_PKTHDR = 2"
definition M_EOR :: u32 where "M_EOR = 4"

definition MBUF_TYPE_DATA :: nat where "MBUF_TYPE_DATA = 1"
definition MBUF_WAITOK :: nat where "MBUF_WAITOK = 0"

text \<open>The size of \<^verbatim>\<open>struct smb_mbuf\<close> on a 64 bit platform, and the page size.\<close>

definition sizeof_smb_mbuf :: nat where "sizeof_smb_mbuf = 64"

text \<open>What the C library promises of \<^verbatim>\<open>malloc\<close>: the storage has the requested size.\<close>

definition malloc_wf :: "malloc \<Rightarrow> bool" where
  "malloc_wf malloc \<longleftrightarrow> (\<forall>n bs. malloc n = Some bs \<longrightarrow> length bs = n)"

section \<open>Accessors\<close>

abbreviation mbuf_len :: "mbuf \<Rightarrow> nat" where "mbuf_len m \<equiv> m_len m"

definition mbuf_maxlen :: "mbuf \<Rightarrow> nat" where
  "mbuf_maxlen m = length (m_data m)"

definition mbuf_setlen :: "mbuf \<Rightarrow> nat \<Rightarrow> mbuf" where
  "mbuf_setlen m len = m\<lparr>m_len := len\<rparr>"

definition mbuf_pkthdr_setlen :: "mbuf \<Rightarrow> nat \<Rightarrow> mbuf" where
  "mbuf_pkthdr_setlen m len = m\<lparr>m_pkthdr_len := len\<rparr>"

definition mbuf_trailingspace :: "mbuf \<Rightarrow> nat" where
  "mbuf_trailingspace m = length (m_data m) - m_len m"

text \<open>The data bytes of one mbuf, and of a chain.\<close>

definition mbuf_bytes :: "mbuf \<Rightarrow> byte list" where
  "mbuf_bytes m = take (m_len m) (m_data m)"

definition chain_bytes :: "mbuf list \<Rightarrow> byte list" where
  "chain_bytes ms = concat (map mbuf_bytes ms)"

definition mbuf_wf :: "mbuf \<Rightarrow> bool" where
  "mbuf_wf m \<longleftrightarrow> m_len m \<le> length (m_data m)"

section \<open>Allocation\<close>

definition smb_mbuf_get :: "malloc \<Rightarrow> nat \<Rightarrow> nat \<Rightarrow> nat \<Rightarrow> errno + mbuf" where
  "smb_mbuf_get malloc how type maxlen =
     (if type \<noteq> MBUF_TYPE_DATA \<or> how \<noteq> MBUF_WAITOK then Inl EINVAL
      else case malloc sizeof_smb_mbuf of
        None \<Rightarrow> Inl ENOMEM
      | Some _ \<Rightarrow>
          if maxlen \<noteq> 0 then
            (case malloc maxlen of
               None \<Rightarrow> Inl ENOMEM
             | Some store \<Rightarrow>
                 Inr \<lparr>m_flags = 0, m_data = store, m_len = 0, m_pkthdr_len = 0\<rparr>)
          else Inr \<lparr>m_flags = 0, m_data = [], m_len = 0, m_pkthdr_len = 0\<rparr>)"

definition mbuf_gethdr :: "malloc \<Rightarrow> nat \<Rightarrow> nat \<Rightarrow> nat \<Rightarrow> errno + mbuf" where
  "mbuf_gethdr malloc pagesize how type =
     (case smb_mbuf_get malloc how type pagesize of
        Inl e \<Rightarrow> Inl e
      | Inr m \<Rightarrow> Inr (m\<lparr>m_flags := m_flags m OR (M_PKTHDR OR M_EOR)\<rparr>))"

definition mbuf_get :: "malloc \<Rightarrow> nat \<Rightarrow> nat \<Rightarrow> nat \<Rightarrow> errno + mbuf" where
  "mbuf_get malloc pagesize how type = smb_mbuf_get malloc how type pagesize"

text \<open>The callers pass a pointer to NULL, so there is no old mbuf to release.\<close>

definition mbuf_getcluster :: "malloc \<Rightarrow> nat \<Rightarrow> nat \<Rightarrow> nat \<Rightarrow> errno + mbuf" where
  "mbuf_getcluster malloc how type sz =
     (case smb_mbuf_get malloc how type sz of
        Inl e \<Rightarrow> Inl e
      | Inr m \<Rightarrow> Inr (m\<lparr>m_flags := m_flags m OR (M_PKTHDR OR M_EOR)\<rparr>))"

text \<open>
  \<open>old\<close> is the mbuf passed in, \<open>None\<close> for a NULL one, and \<open>extbuf\<close> the external buffer, \<open>None\<close>
  for NULL; \<open>extsize\<close> is its size. The length of the data is left as it is in \<open>old\<close>.
\<close>

definition mbuf_attachcluster ::
  "malloc \<Rightarrow> nat \<Rightarrow> nat \<Rightarrow> mbuf option \<Rightarrow> byte list option \<Rightarrow> errno + mbuf" where
  "mbuf_attachcluster malloc how type old extbuf =
     (case extbuf of
        None \<Rightarrow> Inl EINVAL
      | Some ext \<Rightarrow>
          if length ext = 0 then Inl EINVAL
          else
            (case (case old of None \<Rightarrow> smb_mbuf_get malloc how type 0
                             | Some m \<Rightarrow> Inr (m\<lparr>m_data := []\<rparr>)) of
               Inl e \<Rightarrow> Inl e
             | Inr m \<Rightarrow> Inr (m\<lparr>m_flags := M_EXT OR M_PKTHDR OR M_EOR, m_data := ext\<rparr>)))"

text \<open>
  Linking \<open>next\<close> (a chain, empty for NULL) behind the mbuf at position \<open>i\<close>: the end-of-record mark
  moves to the first mbuf of the new tail, and what was linked behind \<open>i\<close> before is no longer part of
  the chain.
\<close>

definition mbuf_setnext :: "mbuf list \<Rightarrow> nat \<Rightarrow> mbuf list \<Rightarrow> errno + mbuf list" where
  "mbuf_setnext ms i next =
     (case next of
        [] \<Rightarrow> Inl EINVAL
      | n # ns \<Rightarrow>
          let m = ms ! i in
          if m_flags m AND M_EOR \<noteq> 0 then
            Inr (take i ms @ m\<lparr>m_flags := m_flags m AND NOT M_EOR\<rparr>
                   # n\<lparr>m_flags := m_flags n OR M_EOR\<rparr> # ns)
          else Inr (take i ms @ m # n # ns))"

section \<open>Copying data out of a chain\<close>

text \<open>The two loops of \<^verbatim>\<open>mbuf_copydata\<close>: skipping to the offset, then copying.\<close>

fun mbuf_copydata_skip :: "mbuf list \<Rightarrow> nat \<Rightarrow> (mbuf list \<times> nat) option" where
  "mbuf_copydata_skip ms offset =
     (if offset > 0 then
        (case ms of
           [] \<Rightarrow> None
         | m # rest \<Rightarrow>
             if offset < m_len m then Some (ms, offset)
             else mbuf_copydata_skip rest (offset - m_len m))
      else Some (ms, offset))"

fun mbuf_copydata_copy :: "mbuf list \<Rightarrow> nat \<Rightarrow> nat \<Rightarrow> byte list \<Rightarrow> byte list option" where
  "mbuf_copydata_copy ms offset len out =
     (if len > 0 then
        (case ms of
           [] \<Rightarrow> None
         | m # rest \<Rightarrow>
             let count = (if m_len m - offset > len then len else m_len m - offset)
             in mbuf_copydata_copy rest 0 (len - count)
                  (out @ take count (drop offset (m_data m))))
      else Some out)"

definition mbuf_copydata :: "mbuf list \<Rightarrow> nat \<Rightarrow> nat \<Rightarrow> errno + byte list" where
  "mbuf_copydata ms offset len =
     (case mbuf_copydata_skip ms offset of
        None \<Rightarrow> Inl EINVAL
      | Some (ms', offset') \<Rightarrow>
          (case mbuf_copydata_copy ms' offset' len [] of
             None \<Rightarrow> Inl EINVAL
           | Some out \<Rightarrow> Inr out))"

declare mbuf_copydata_skip.simps [simp del] mbuf_copydata_copy.simps [simp del]

section \<open>Lemmas on buffers and chains\<close>

lemma chain_bytes_Nil [simp]: "chain_bytes [] = []"
  by (simp add: chain_bytes_def)

lemma chain_bytes_Cons [simp]: "chain_bytes (m # ms) = mbuf_bytes m @ chain_bytes ms"
  by (simp add: chain_bytes_def)

lemma chain_bytes_append [simp]: "chain_bytes (ms @ ns) = chain_bytes ms @ chain_bytes ns"
  by (simp add: chain_bytes_def)

lemma length_mbuf_bytes [simp]: "mbuf_wf m \<Longrightarrow> length (mbuf_bytes m) = m_len m"
  by (simp add: mbuf_wf_def mbuf_bytes_def)

lemma mbuf_bytes_flags [simp]:
  "mbuf_bytes (m\<lparr>m_flags := f\<rparr>) = mbuf_bytes m" "mbuf_bytes (m\<lparr>m_pkthdr_len := n\<rparr>) = mbuf_bytes m"
  by (simp_all add: mbuf_bytes_def)

lemma mbuf_wf_flags [simp]:
  "mbuf_wf (m\<lparr>m_flags := f\<rparr>) = mbuf_wf m" "mbuf_wf (m\<lparr>m_pkthdr_len := n\<rparr>) = mbuf_wf m"
  by (simp_all add: mbuf_wf_def)

lemma mbuf_bytes_empty [simp]: "m_len m = 0 \<Longrightarrow> mbuf_bytes m = []"
  by (simp add: mbuf_bytes_def)

lemma chain_bytes_empty: "\<forall>m \<in> set ms. m_len m = 0 \<Longrightarrow> chain_bytes ms = []"
  by (auto simp: chain_bytes_def)

lemma length_chain_bytes:
  "\<forall>m \<in> set ms. mbuf_wf m \<Longrightarrow> length (chain_bytes ms) = sum_list (map m_len ms)"
  by (induction ms) auto

lemma chain_bytes_split:
  "i < length ms \<Longrightarrow>
     chain_bytes ms = chain_bytes (take i ms) @ mbuf_bytes (ms ! i) @ chain_bytes (drop (Suc i) ms)"
  unfolding chain_bytes_def by (rule concat_map_split)

lemma chain_bytes_update:
  "i < length ms \<Longrightarrow>
     chain_bytes (ms[i := m]) =
       chain_bytes (take i ms) @ mbuf_bytes m @ chain_bytes (drop (Suc i) ms)"
  unfolding chain_bytes_def by (rule concat_map_update)

lemma smb_mbuf_get_fresh:
  assumes "malloc_wf malloc" and "smb_mbuf_get malloc how type n = Inr m"
  shows "m_len m = 0 \<and> mbuf_wf m \<and> mbuf_trailingspace m = n"
  using assms
  by (auto simp: smb_mbuf_get_def malloc_wf_def mbuf_wf_def mbuf_trailingspace_def
      split: if_splits option.splits)

lemma mbuf_getcluster_fresh:
  assumes "malloc_wf malloc" and "mbuf_getcluster malloc how type n = Inr m"
  shows "m_len m = 0 \<and> mbuf_wf m \<and> mbuf_trailingspace m = n"
  using assms smb_mbuf_get_fresh [OF assms(1), of how type n]
  by (auto simp: mbuf_getcluster_def mbuf_trailingspace_def split: sum.splits)

lemma mbuf_setnext_bytes:
  assumes "i < length ms" and "mbuf_setnext ms i next = Inr ms'"
  shows "chain_bytes ms' = chain_bytes (take (Suc i) ms) @ chain_bytes next"
  using assms
  by (auto simp: mbuf_setnext_def Let_def take_Suc_conv_app_nth split: list.splits if_splits)

subsection \<open>What \<^verbatim>\<open>mbuf_copydata\<close> returns\<close>

lemma mbuf_copydata_skip_spec:
  assumes "\<forall>m \<in> set ms. mbuf_wf m"
  shows "case mbuf_copydata_skip ms offset of
           None \<Rightarrow> length (chain_bytes ms) < offset
         | Some (ms', o') \<Rightarrow>
             offset \<le> length (chain_bytes ms) \<and> (\<forall>m \<in> set ms'. mbuf_wf m) \<and>
             drop offset (chain_bytes ms) = drop o' (chain_bytes ms') \<and>
             (o' = 0 \<or> (\<exists>m rest. ms' = m # rest \<and> o' < m_len m))"
  using assms
proof (induction ms offset rule: mbuf_copydata_skip.induct)
  case (1 ms offset)
  show ?case
  proof (cases "offset > 0 \<and> ms \<noteq> []")
    case False
    then show ?thesis using 1
      by (subst mbuf_copydata_skip.simps) (auto split: list.splits)
  next
    case True
    then obtain m rest where ms: "ms = m # rest" by (cases ms) auto
    show ?thesis
    proof (cases "offset < m_len m")
      case True
      with 1 ms show ?thesis
        by (subst mbuf_copydata_skip.simps) auto
    next
      case False
      have "case mbuf_copydata_skip rest (offset - m_len m) of
              None \<Rightarrow> length (chain_bytes rest) < offset - m_len m
            | Some (ms', o') \<Rightarrow>
                offset - m_len m \<le> length (chain_bytes rest) \<and> (\<forall>m \<in> set ms'. mbuf_wf m) \<and>
                drop (offset - m_len m) (chain_bytes rest) = drop o' (chain_bytes ms') \<and>
                (o' = 0 \<or> (\<exists>m rest. ms' = m # rest \<and> o' < m_len m))"
        using 1 True False ms by auto
      then show ?thesis using True False ms 1(2)
        by (subst mbuf_copydata_skip.simps) (auto split: option.splits)
    qed
  qed
qed

lemma mbuf_copydata_copy_spec:
  assumes "\<forall>m \<in> set ms. mbuf_wf m"
    and "offset = 0 \<or> (\<exists>m rest. ms = m # rest \<and> offset < m_len m)"
  shows "mbuf_copydata_copy ms offset len out =
           (if offset + len \<le> length (chain_bytes ms)
            then Some (out @ take len (drop offset (chain_bytes ms))) else None)"
  using assms
proof (induction ms offset len out rule: mbuf_copydata_copy.induct)
  case (1 ms offset len out)
  show ?case
  proof (cases "len > 0 \<and> ms \<noteq> []")
    case False
    with 1 show ?thesis
      by (subst mbuf_copydata_copy.simps) (auto split: list.splits)
  next
    case True
    then obtain m rest where ms: "ms = m # rest" by (cases ms) auto
    let ?count = "if m_len m - offset > len then len else m_len m - offset"
    have off: "offset \<le> m_len m" using 1(3) ms by auto
    have wf: "m_len m \<le> length (m_data m)" using 1(2) ms by (simp add: mbuf_wf_def)
    have IH: "mbuf_copydata_copy rest 0 (len - ?count)
                (out @ take ?count (drop offset (m_data m))) =
              (if len - ?count \<le> length (chain_bytes rest)
               then Some ((out @ take ?count (drop offset (m_data m)))
                      @ take (len - ?count) (chain_bytes rest)) else None)"
      using 1(1) [of m rest ?count] 1(2) True ms by (simp add: Let_def)
    have bytes: "mbuf_bytes m = take (m_len m) (m_data m)" by (simp add: mbuf_bytes_def)
    have tk: "take len (drop offset (mbuf_bytes m)) = take ?count (drop offset (m_data m))"
      by (simp add: bytes drop_take min_def)
    have lb: "length (mbuf_bytes m) = m_len m" using wf by (simp add: bytes)
    show ?thesis
      using True ms IH tk lb off
      by (subst mbuf_copydata_copy.simps) (auto simp: Let_def)
  qed
qed

lemma mbuf_copydata_eq:
  assumes "\<forall>m \<in> set ms. mbuf_wf m"
  shows "mbuf_copydata ms offset len =
           (if offset + len \<le> length (chain_bytes ms)
            then Inr (take len (drop offset (chain_bytes ms))) else Inl EINVAL)"
proof (cases "mbuf_copydata_skip ms offset")
  case None
  with mbuf_copydata_skip_spec [OF assms, of offset] show ?thesis
    by (simp add: mbuf_copydata_def)
next
  case (Some r)
  then obtain ms' o' where r: "mbuf_copydata_skip ms offset = Some (ms', o')" by (cases r) auto
  with mbuf_copydata_skip_spec [OF assms, of offset]
  have s: "offset \<le> length (chain_bytes ms)" "\<forall>m \<in> set ms'. mbuf_wf m"
    "drop offset (chain_bytes ms) = drop o' (chain_bytes ms')"
    "o' = 0 \<or> (\<exists>m rest. ms' = m # rest \<and> o' < m_len m)"
    by auto
  have "o' \<le> length (chain_bytes ms')"
    using s(2,4) by (auto intro: trans_le_add1 less_imp_le)
  moreover have "length (chain_bytes ms) - offset = length (chain_bytes ms') - o'"
    using arg_cong [OF s(3), of length] by simp
  ultimately have "(offset + len \<le> length (chain_bytes ms)) = (o' + len \<le> length (chain_bytes ms'))"
    using s(1) by arith
  then show ?thesis
    using mbuf_copydata_copy_spec [OF s(2,4), of len "[]"] r s(3)
    by (simp add: mbuf_copydata_def)
qed

end
