(* ===== verification/Mchain.thy ===== *)
theory Mchain
  imports Mbuf
begin

text \<open>
  The message chains of kernel/sys5/kern/subr\_mchain.c: \<open>mbchain\<close> builds a message by appending to
  a chain of mbufs, \<open>mdchain\<close> takes one apart. The pointers \<^verbatim>\<open>mb_cur\<close> and
  \<^verbatim>\<open>md_cur\<close> into a chain are positions in the list, \<^verbatim>\<open>md_pos\<close> is an offset
  into the current mbuf; a NULL \<^verbatim>\<open>mb_top\<close> is the empty list and a NULL
  \<^verbatim>\<open>md_cur\<close> a position past the end. The packets linked behind a received one
  (\<^verbatim>\<open>mbuf_nextpkt\<close>) are the list \<open>md_nextpkt\<close>. The end-of-record mark that
  linking moves in user space is not tracked, nothing reads it.

  Allocation is an argument: \<open>getm n\<close> is what \<^verbatim>\<open>smb_mbuf_getm\<close> links behind the last
  mbuf of a chain for a request of \<open>n\<close> bytes. Its result \<open>Some (Some ms)\<close> is the new mbufs,
  \<open>Some None\<close> a failed allocation, \<open>None\<close> a call that does not return. The kernel's version and the
  user space version of it are defined below and are instances of the interface \<open>mbuf_allocator\<close>,
  under which the properties of the chain operations are proved.
\<close>

section \<open>Data\<close>

record mbchain =
  mb_top :: "mbuf list"
  mb_cur :: nat
  mb_mleft :: nat
  mb_count :: nat
  mb_len :: nat

record mdchain =
  md_top :: "mbuf list"
  md_cur :: nat
  md_pos :: nat
  md_len :: nat
  md_nextpkt :: "mbuf list list"

datatype mb_type = MB_MSYSTEM | MB_MINLINE | MB_MZERO | MB_MCUSTOM

type_synonym getm = "nat \<Rightarrow> mbuf list option option"

text \<open>
  The kernel's mbuf KPI: the storage of a new mbuf and of a new cluster, \<open>None\<close> where the allocation
  fails, and the size above which a cluster is used. The argument is the number of bytes still wanted,
  which differs between the calls of one loop, so that each of them can fail on its own.
\<close>

record kpi =
  kpi_get :: "nat \<Rightarrow> byte list option"
  kpi_mclget :: "nat \<Rightarrow> byte list option"
  kpi_minclsize :: nat

definition kpi_wf :: "kpi \<Rightarrow> bool" where
  "kpi_wf kpi \<longleftrightarrow> (\<forall>n. kpi_get kpi n \<noteq> Some [] \<and> kpi_mclget kpi n \<noteq> Some [])"

section \<open>Helpers on chains\<close>

definition mbuf_get_chain_len :: "mbuf list \<Rightarrow> nat" where
  "mbuf_get_chain_len ms = sum_list (map m_len ms)"

text \<open>The packet header's length is set when the first mbuf has a header.\<close>

definition m_fixhdr :: "mbuf list \<Rightarrow> nat \<times> mbuf list" where
  "m_fixhdr ms =
     (let len = sum_list (map m_len ms)
      in (len, case ms of
                 [] \<Rightarrow> []
               | m # rest \<Rightarrow>
                   (if m_flags m AND M_PKTHDR \<noteq> 0 then mbuf_pkthdr_setlen m len else m) # rest))"

definition mbuf_cat_internal :: "mbuf list \<Rightarrow> mbuf list \<Rightarrow> mbuf list" where
  "mbuf_cat_internal m m0 = m @ m0"

section \<open>Allocation\<close>

definition fresh_mbuf :: "byte list \<Rightarrow> mbuf" where
  "fresh_mbuf store = \<lparr>m_flags = 0, m_data = store, m_len = 0, m_pkthdr_len = 0\<rparr>"

text \<open>One mbuf for a request of \<open>len\<close> bytes, with a cluster when the request is large.\<close>

definition getm_one :: "kpi \<Rightarrow> nat \<Rightarrow> mbuf option" where
  "getm_one kpi len =
     (case kpi_get kpi len of
        None \<Rightarrow> None
      | Some store \<Rightarrow>
          if len > kpi_minclsize kpi then map_option fresh_mbuf (kpi_mclget kpi len)
          else Some (fresh_mbuf store))"

text \<open>The kernel's loop: mbufs are added until their space covers the request.\<close>

partial_function (option) getm_loop :: "kpi \<Rightarrow> nat \<Rightarrow> mbuf list \<Rightarrow> mbuf list option option" where
  "getm_loop kpi len acc =
     (if len > 0 then
        (case getm_one kpi len of
           None \<Rightarrow> Some None
         | Some mp \<Rightarrow>
             let mbuf_space = mbuf_trailingspace mp
             in getm_loop kpi (if mbuf_space > len then 0 else len - mbuf_space) (acc @ [mp]))
      else Some (Some acc))"

definition smb_mbuf_getm :: "kpi \<Rightarrow> getm" where
  "smb_mbuf_getm kpi len =
     (case getm_one kpi len of
        None \<Rightarrow> Some None
      | Some mp \<Rightarrow>
          let mbuf_space = mbuf_trailingspace mp
          in getm_loop kpi (if mbuf_space > len then 0 else len - mbuf_space) [mp])"

text \<open>The user space version allocates one mbuf of the requested size.\<close>

definition smb_mbuf_getm_user :: "malloc \<Rightarrow> getm" where
  "smb_mbuf_getm_user malloc len =
     Some (case mbuf_getcluster malloc MBUF_WAITOK MBUF_TYPE_DATA len of
             Inl _ \<Rightarrow> None
           | Inr nm \<Rightarrow> Some [nm])"

section \<open>Putting data into a chain\<close>

definition mb_initm :: "mbuf list \<Rightarrow> mbchain" where
  "mb_initm m =
     \<lparr>mb_top = m, mb_cur = 0, mb_mleft = mbuf_trailingspace (hd m), mb_count = 0, mb_len = 0\<rparr>"

text \<open>\<open>hdr\<close> is the mbuf with a packet header that \<^verbatim>\<open>mbuf_gethdr\<close> returns.\<close>

definition mb_init :: "mbuf option \<Rightarrow> errno + mbchain" where
  "mb_init hdr = (case hdr of None \<Rightarrow> Inl ENOBUFS | Some m \<Rightarrow> Inr (mb_initm [m]))"

definition mb_done :: "mbchain \<Rightarrow> mbchain" where
  "mb_done mbp = mbp\<lparr>mb_top := []\<rparr>"

definition mb_detach :: "mbchain \<Rightarrow> mbuf list \<times> mbchain" where
  "mb_detach mbp =
     (if mb_top mbp = [] then ([], mbp)
      else (mb_top mbp, \<lparr>mb_top = [], mb_cur = 0, mb_mleft = 0, mb_count = 0, mb_len = 0\<rparr>))"

definition mb_fixhdr :: "mbchain \<Rightarrow> nat \<times> mbchain" where
  "mb_fixhdr mbp = (let (len, ms) = m_fixhdr (mb_top mbp) in (len, mbp\<lparr>mb_top := ms\<rparr>))"

text \<open>
  Reserving room for an object: the result is its place, an mbuf of the chain and an offset into it,
  and the new chain. \<open>nm\<close> is the mbuf the allocator gives when a new one is needed. The reserved bytes
  keep what the storage held.
\<close>

definition mb_reserve ::
  "mbuf option \<Rightarrow> mbchain \<Rightarrow> nat \<Rightarrow> (nat \<times> nat) option \<times> mbchain" where
  "mb_reserve nm mbp sz =
     (let place = (\<lambda>mbp.
            let m = mb_top mbp ! mb_cur mbp
            in (Some (mb_cur mbp, m_len m),
                mbp\<lparr>mb_mleft := mb_mleft mbp - sz, mb_count := mb_count mbp + sz,
                    mb_len := mb_len mbp + sz,
                    mb_top := (mb_top mbp)[mb_cur mbp := mbuf_setlen m (m_len m + sz)]\<rparr>))
      in if mb_mleft mbp < sz then
           (case nm of
              None \<Rightarrow> (None, mbp)
            | Some n \<Rightarrow>
                if sz > mbuf_maxlen n then (None, mbp)
                else
                  let n' = mbuf_setlen n 0
                  in place (mbp\<lparr>mb_top := take (Suc (mb_cur mbp)) (mb_top mbp) @ [n'],
                                mb_cur := Suc (mb_cur mbp),
                                mb_mleft := mbuf_trailingspace n'\<rparr>))
         else place mbp)"

text \<open>Writing through the pointer \<^verbatim>\<open>mb_reserve\<close> returned.\<close>

definition mb_store :: "mbchain \<Rightarrow> nat \<times> nat \<Rightarrow> byte list \<Rightarrow> mbchain" where
  "mb_store mbp p bs =
     (let (i, off) = p; m = mb_top mbp ! i
      in mbp\<lparr>mb_top := (mb_top mbp)
               [i := m\<lparr>m_data := take off (m_data m) @ bs @ drop (off + length bs) (m_data m)\<rparr>]\<rparr>)"

text \<open>
  One copy of the loop of \<^verbatim>\<open>mb_put_mem\<close>: \<open>cplen\<close> bytes behind the data of an mbuf. A
  type that is none of the three the switch handles copies nothing.
\<close>

definition mbuf_put :: "mb_type \<Rightarrow> mbuf \<Rightarrow> byte list \<Rightarrow> nat \<Rightarrow> mbuf" where
  "mbuf_put type m source cplen =
     (let chunk = (case type of
                     MB_MINLINE \<Rightarrow> take cplen source
                   | MB_MSYSTEM \<Rightarrow> take cplen source
                   | MB_MZERO \<Rightarrow> replicate cplen 0
                   | MB_MCUSTOM \<Rightarrow> take cplen (drop (m_len m) (m_data m)))
      in m\<lparr>m_data := take (m_len m) (m_data m) @ chunk @ drop (m_len m + cplen) (m_data m),
           m_len := m_len m + cplen\<rparr>)"

partial_function (option) mb_put_loop ::
  "getm \<Rightarrow> mb_type \<Rightarrow> mbuf list \<Rightarrow> nat \<Rightarrow> nat \<Rightarrow> byte list \<Rightarrow> nat \<Rightarrow> nat \<Rightarrow>
     (errno \<times> mbuf list \<times> nat \<times> nat \<times> nat) option" where
  "mb_put_loop getm type ms m mleft source sz copied =
     (if sz > 0 then
        if mleft = 0 then
          (if Suc m < length ms then
             mb_put_loop getm type ms (Suc m) (mbuf_trailingspace (ms ! Suc m)) source sz copied
           else
             Option.bind (getm sz) (\<lambda>r. case r of
                 None \<Rightarrow> Some (ENOBUFS, ms, m, mleft, copied)
               | Some new \<Rightarrow>
                   mb_put_loop getm type (ms @ new) (Suc m)
                     (mbuf_trailingspace ((ms @ new) ! Suc m)) source sz copied))
        else
          let cplen = (if mleft > sz then sz else mleft)
          in mb_put_loop getm type (ms[m := mbuf_put type (ms ! m) source cplen]) m
               (mleft - cplen) (drop cplen source) (sz - cplen) (copied + cplen)
      else Some (0, ms, m, mleft, copied))"

text \<open>
  On failure the counts and the mbufs already filled stay changed, while \<^verbatim>\<open>mb_cur\<close> and
  \<^verbatim>\<open>mb_mleft\<close> keep their values from before the call.
\<close>

definition mb_put_mem ::
  "getm \<Rightarrow> mbchain \<Rightarrow> byte list \<Rightarrow> nat \<Rightarrow> mb_type \<Rightarrow> (errno \<times> mbchain) option" where
  "mb_put_mem getm mbp source sz type =
     Option.bind (mb_put_loop getm type (mb_top mbp) (mb_cur mbp) (mb_mleft mbp) source sz 0)
       (\<lambda>(e, ms, m, mleft, copied).
          let mbp' = mbp\<lparr>mb_top := ms, mb_count := mb_count mbp + copied,
                         mb_len := mb_len mbp + copied\<rparr>
          in Some (if e \<noteq> 0 then (e, mbp')
                   else (0, mbp'\<lparr>mb_cur := m, mb_mleft := mleft\<rparr>)))"

definition mb_put_uint8 :: "getm \<Rightarrow> mbchain \<Rightarrow> byte \<Rightarrow> (errno \<times> mbchain) option" where
  "mb_put_uint8 getm mbp x = mb_put_mem getm mbp [x] 1 MB_MSYSTEM"

definition mb_put_uint16be :: "getm \<Rightarrow> mbchain \<Rightarrow> u16 \<Rightarrow> (errno \<times> mbchain) option" where
  "mb_put_uint16be getm mbp x = mb_put_mem getm mbp (be16 x) 2 MB_MSYSTEM"

definition mb_put_uint16le :: "getm \<Rightarrow> mbchain \<Rightarrow> u16 \<Rightarrow> (errno \<times> mbchain) option" where
  "mb_put_uint16le getm mbp x = mb_put_mem getm mbp (le16 x) 2 MB_MSYSTEM"

definition mb_put_uint32be :: "getm \<Rightarrow> mbchain \<Rightarrow> u32 \<Rightarrow> (errno \<times> mbchain) option" where
  "mb_put_uint32be getm mbp x = mb_put_mem getm mbp (be32 x) 4 MB_MSYSTEM"

definition mb_put_uint32le :: "getm \<Rightarrow> mbchain \<Rightarrow> u32 \<Rightarrow> (errno \<times> mbchain) option" where
  "mb_put_uint32le getm mbp x = mb_put_mem getm mbp (le32 x) 4 MB_MSYSTEM"

definition mb_put_uint64be :: "getm \<Rightarrow> mbchain \<Rightarrow> u64 \<Rightarrow> (errno \<times> mbchain) option" where
  "mb_put_uint64be getm mbp x = mb_put_mem getm mbp (be64 x) 8 MB_MSYSTEM"

definition mb_put_uint64le :: "getm \<Rightarrow> mbchain \<Rightarrow> u64 \<Rightarrow> (errno \<times> mbchain) option" where
  "mb_put_uint64le getm mbp x = mb_put_mem getm mbp (le64 x) 8 MB_MSYSTEM"

text \<open>\<open>base\<close> is the address of the current mbuf's data: the padding depends on it.\<close>

definition mb_put_padbyte :: "getm \<Rightarrow> nat \<Rightarrow> mbchain \<Rightarrow> (errno \<times> mbchain) option" where
  "mb_put_padbyte getm base mbp =
     (if odd (base + m_len (mb_top mbp ! mb_cur mbp)) then mb_put_mem getm mbp [0] 1 MB_MSYSTEM
      else Some (0, mbp))"

definition mb_put_mbuf :: "mbchain \<Rightarrow> mbuf list \<Rightarrow> mbchain" where
  "mb_put_mbuf mbp m =
     (let ms = take (Suc (mb_cur mbp)) (mb_top mbp) @ m; n = sum_list (map m_len m)
      in mbp\<lparr>mb_top := ms, mb_count := mb_count mbp + n, mb_len := mb_len mbp + n,
             mb_mleft := mbuf_trailingspace (last ms), mb_cur := length ms - 1\<rparr>)"

section \<open>The user space additions\<close>

text \<open>Collapsing a chain into one mbuf of its whole length.\<close>

definition mb_pullup :: "malloc \<Rightarrow> mbchain \<Rightarrow> errno \<times> mbchain" where
  "mb_pullup malloc mbp =
     (if length (mb_top mbp) \<le> 1 then (0, mbp)
      else
        let (sz, mbp1) = mb_fixhdr mbp
        in case mbuf_getcluster malloc MBUF_WAITOK MBUF_TYPE_DATA sz of
             Inl e \<Rightarrow> (e, mbp1)
           | Inr nm \<Rightarrow>
               (case mbuf_copydata (mb_top mbp1) 0 sz of
                  Inl e \<Rightarrow> (e, mbp1)
                | Inr out \<Rightarrow>
                    let nm' = mbuf_setlen (mbuf_pkthdr_setlen (nm\<lparr>m_data := out\<rparr>) sz) sz
                    in (0, mbp1\<lparr>mb_top := [nm'], mb_cur := 0\<rparr>)))"

text \<open>
  A contiguous buffer of \<open>sz\<close> bytes behind the data; \<open>None\<close> where the allocation fails. The loop
  body runs at most once, since the new mbuf has at least the room asked for.
\<close>

definition mb_getbuffer :: "malloc \<Rightarrow> mbchain \<Rightarrow> nat \<Rightarrow> ((nat \<times> nat) \<times> mbchain) option" where
  "mb_getbuffer malloc mbp sz =
     (let place = (\<lambda>mbp. Some ((mb_cur mbp, m_len (mb_top mbp ! mb_cur mbp)), mbp))
      in if mb_mleft mbp < sz then
           (case mbuf_getcluster malloc MBUF_WAITOK MBUF_TYPE_DATA (mb_mleft mbp + sz) of
              Inl e \<Rightarrow> None
            | Inr nm \<Rightarrow>
                let n' = mbuf_setlen nm 0
                in place (mbp\<lparr>mb_top := take (Suc (mb_cur mbp)) (mb_top mbp) @ [n'],
                              mb_cur := Suc (mb_cur mbp),
                              mb_mleft := mb_mleft mbp + mbuf_trailingspace n'\<rparr>))
         else place mbp)"

definition mb_consume :: "mbchain \<Rightarrow> nat \<Rightarrow> mbchain" where
  "mb_consume mbp sz =
     (let m = mb_top mbp ! mb_cur mbp
      in mbp\<lparr>mb_mleft := mb_mleft mbp - sz, mb_count := mb_count mbp + sz,
             mb_len := mb_len mbp + sz,
             mb_top := (mb_top mbp)[mb_cur mbp := mbuf_setlen m (m_len m + sz)]\<rparr>)"

section \<open>Taking data out of a chain\<close>

definition md_initm :: "mbuf list \<Rightarrow> mbuf list list \<Rightarrow> mdchain" where
  "md_initm m nextpkt =
     \<lparr>md_top = m, md_cur = 0, md_pos = 0, md_len = 0, md_nextpkt = nextpkt\<rparr>"

definition md_init :: "mbuf option \<Rightarrow> errno + mdchain" where
  "md_init hdr = (case hdr of None \<Rightarrow> Inl ENOBUFS | Some m \<Rightarrow> Inr (md_initm [m] []))"

definition md_init_rcvsize :: "malloc \<Rightarrow> nat \<Rightarrow> nat \<Rightarrow> errno + mdchain" where
  "md_init_rcvsize malloc pagesize sz =
     (case (if sz \<le> pagesize then mbuf_gethdr malloc pagesize MBUF_WAITOK MBUF_TYPE_DATA
            else mbuf_getcluster malloc MBUF_WAITOK MBUF_TYPE_DATA sz) of
        Inl _ \<Rightarrow> Inl ENOBUFS
      | Inr m \<Rightarrow> Inr (md_initm [m] []))"

text \<open>The shadow shares the mbufs and the position, its own \<^verbatim>\<open>md_len\<close> is not touched.\<close>

definition md_shadow_copy :: "mdchain \<Rightarrow> mdchain \<Rightarrow> mdchain" where
  "md_shadow_copy mdp shadow =
     shadow\<lparr>md_top := md_top mdp, md_nextpkt := md_nextpkt mdp, md_cur := md_cur mdp,
            md_pos := md_pos mdp\<rparr>"

definition md_done :: "mdchain \<Rightarrow> mdchain" where
  "md_done mdp = mdp\<lparr>md_top := [], md_nextpkt := []\<rparr>"

definition md_append_record :: "mdchain \<Rightarrow> mbuf list \<Rightarrow> mdchain" where
  "md_append_record mdp rec =
     (if md_top mdp = [] then md_initm rec []
      else mdp\<lparr>md_nextpkt := md_nextpkt mdp @ [rec]\<rparr>)"

definition md_next_record :: "mdchain \<Rightarrow> errno \<times> mdchain" where
  "md_next_record mdp =
     (if md_top mdp = [] then (ENOENT, mdp)
      else case md_nextpkt mdp of
             [] \<Rightarrow> (ENOENT, md_done mdp)
           | m # rest \<Rightarrow> (0, md_initm m rest))"

text \<open>
  The loop of \<^verbatim>\<open>md_get_mem\<close>: \<open>out\<close> collects the bytes passed over, which the copying
  types write to a target that is not NULL.
\<close>

function md_get_loop ::
  "mbuf list \<Rightarrow> nat \<Rightarrow> nat \<Rightarrow> nat \<Rightarrow> byte list \<Rightarrow> errno \<times> byte list \<times> nat \<times> nat" where
  "md_get_loop ms cur pos sz out =
     (if sz > 0 then
        if cur \<ge> length ms then (EBADRPC, out, cur, pos)
        else
          let count = m_len (ms ! cur) - pos
          in if count = 0 then
               md_get_loop ms (Suc cur) (if Suc cur < length ms then 0 else pos) sz out
             else
               let c = (if count > sz then sz else count)
               in md_get_loop ms cur (pos + c) (sz - c)
                    (out @ take c (drop pos (m_data (ms ! cur))))
      else (0, out, cur, pos))"
  by pat_completeness auto
termination
  by (relation "measure (\<lambda>(ms, cur, pos, sz, out). (length ms - cur) + sz)") auto

declare md_get_loop.simps [simp del]

definition md_get_mem :: "mdchain \<Rightarrow> nat \<Rightarrow> (errno + byte list) \<times> mdchain" where
  "md_get_mem mdp sz =
     (case md_get_loop (md_top mdp) (md_cur mdp) (md_pos mdp) sz [] of
        (e, out, cur, pos) \<Rightarrow>
          let mdp' = mdp\<lparr>md_cur := cur, md_pos := pos\<rparr>
          in if e \<noteq> 0 then (Inl e, mdp') else (Inr out, mdp'\<lparr>md_len := md_len mdp + sz\<rparr>))"

definition md_get_uint8 :: "mdchain \<Rightarrow> (errno + byte) \<times> mdchain" where
  "md_get_uint8 mdp = apfst (map_sum id hd) (md_get_mem mdp 1)"

definition md_get_uint16le :: "mdchain \<Rightarrow> (errno + u16) \<times> mdchain" where
  "md_get_uint16le mdp = apfst (map_sum id (\<lambda>bs. of_nat (le_dec bs))) (md_get_mem mdp 2)"

definition md_get_uint16be :: "mdchain \<Rightarrow> (errno + u16) \<times> mdchain" where
  "md_get_uint16be mdp = apfst (map_sum id (\<lambda>bs. of_nat (be_dec bs))) (md_get_mem mdp 2)"

definition md_get_uint32le :: "mdchain \<Rightarrow> (errno + u32) \<times> mdchain" where
  "md_get_uint32le mdp = apfst (map_sum id (\<lambda>bs. of_nat (le_dec bs))) (md_get_mem mdp 4)"

definition md_get_uint32be :: "mdchain \<Rightarrow> (errno + u32) \<times> mdchain" where
  "md_get_uint32be mdp = apfst (map_sum id (\<lambda>bs. of_nat (be_dec bs))) (md_get_mem mdp 4)"

definition md_get_uint64le :: "mdchain \<Rightarrow> (errno + u64) \<times> mdchain" where
  "md_get_uint64le mdp = apfst (map_sum id (\<lambda>bs. of_nat (le_dec bs))) (md_get_mem mdp 8)"

definition md_get_uint64be :: "mdchain \<Rightarrow> (errno + u64) \<times> mdchain" where
  "md_get_uint64be mdp = apfst (map_sum id (\<lambda>bs. of_nat (be_dec bs))) (md_get_mem mdp 8)"

definition md_get_size :: "mdchain \<Rightarrow> nat" where
  "md_get_size mdp =
     (case drop (md_cur mdp) (md_top mdp) of
        [] \<Rightarrow> 0
      | m # rest \<Rightarrow> (m_len m - md_pos mdp) + sum_list (map m_len rest))"

text \<open>
  The length of a UTF-16 string up to its terminator. \<open>scan\<close> walks the whole units of one mbuf and
  returns the number of bytes before a zero unit, with a mark whether it found one.
\<close>

fun utf16_scan :: "byte list \<Rightarrow> nat \<times> bool" where
  "utf16_scan (a # b # rest) =
     (if a = 0 \<and> b = 0 then (0, True)
      else let (n, found) = utf16_scan rest in (n + 2, found))"
| "utf16_scan _ = (0, False)"

primrec utf16_strlen_loop :: "mbuf list \<Rightarrow> nat \<Rightarrow> nat \<Rightarrow> nat" where
  "utf16_strlen_loop [] s sz = sz"
| "utf16_strlen_loop (m # rest) s sz =
     (let count = m_len m - s;
          max_count = count - count mod 2;
          (n, found) = utf16_scan (take max_count (drop s (m_data m)))
      in if found then sz + n
         else case rest of
           [] \<Rightarrow> sz + n
         | m' # _ \<Rightarrow>
             if odd count then
               (if m_data m ! (s + max_count) = 0 \<and> m_data m' ! 0 = 0 then sz + n
                else utf16_strlen_loop rest 1 (sz + n))
             else utf16_strlen_loop rest 0 (sz + n))"

definition md_get_utf16_strlen :: "mdchain \<Rightarrow> nat" where
  "md_get_utf16_strlen mdp = utf16_strlen_loop (drop (md_cur mdp) (md_top mdp)) (md_pos mdp) 0"

text \<open>
  Copying from one chain to another, for the copying types and a target that is not NULL. Each piece
  found in one mbuf of the source is one put.
\<close>

function md_put_loop ::
  "getm \<Rightarrow> mbuf list \<Rightarrow> nat \<Rightarrow> nat \<Rightarrow> mbchain \<Rightarrow> nat \<Rightarrow> (errno \<times> nat \<times> nat \<times> mbchain) option" where
  "md_put_loop getm ms cur pos mbp sz =
     (if sz > 0 then
        if cur \<ge> length ms then Some (EBADRPC, cur, pos, mbp)
        else
          let count = m_len (ms ! cur) - pos
          in if count = 0 then
               md_put_loop getm ms (Suc cur) (if Suc cur < length ms then 0 else pos) mbp sz
             else
               let c = (if count > sz then sz else count)
               in case mb_put_mem getm mbp (take c (drop pos (m_data (ms ! cur)))) c MB_MSYSTEM of
                    None \<Rightarrow> None
                  | Some (ret, mbp') \<Rightarrow>
                      if ret \<noteq> 0 then Some (ret, cur, pos + c, mbp')
                      else md_put_loop getm ms cur (pos + c) mbp' (sz - c)
      else Some (0, cur, pos, mbp))"
  by pat_completeness auto
termination
  by (relation "measure (\<lambda>(getm, ms, cur, pos, mbp, sz). (length ms - cur) + sz)") auto

declare md_put_loop.simps [simp del]

definition md_get_mem_put_mem ::
  "getm \<Rightarrow> mdchain \<Rightarrow> mbchain \<Rightarrow> nat \<Rightarrow> (errno \<times> mdchain \<times> mbchain) option" where
  "md_get_mem_put_mem getm mdp mbp sz =
     (case md_put_loop getm (md_top mdp) (md_cur mdp) (md_pos mdp) mbp sz of
        None \<Rightarrow> None
      | Some (e, cur, pos, mbp') \<Rightarrow>
          let mdp' = mdp\<lparr>md_cur := cur, md_pos := pos\<rparr>
          in Some (e, if e \<noteq> 0 then mdp' else mdp'\<lparr>md_len := md_len mdp + sz\<rparr>, mbp'))"

section \<open>The invariant of a chain under construction\<close>

text \<open>
  \<open>put_inv ms m mleft\<close>: the current mbuf is in the chain, \<open>mleft\<close> is the room it has, and the mbufs
  behind it are still empty. \<open>mb_bytes\<close> is the message built so far.
\<close>

definition put_inv :: "mbuf list \<Rightarrow> nat \<Rightarrow> nat \<Rightarrow> bool" where
  "put_inv ms m mleft \<longleftrightarrow>
     m < length ms \<and> mleft = mbuf_trailingspace (ms ! m) \<and> (\<forall>b \<in> set ms. mbuf_wf b) \<and>
     (\<forall>b \<in> set (drop (Suc m) ms). m_len b = 0)"

definition mb_inv :: "mbchain \<Rightarrow> bool" where
  "mb_inv mbp \<longleftrightarrow> put_inv (mb_top mbp) (mb_cur mbp) (mb_mleft mbp)"

definition mb_bytes :: "mbchain \<Rightarrow> byte list" where
  "mb_bytes mbp = chain_bytes (mb_top mbp)"

text \<open>The bytes a put writes: the source, or zeros.\<close>

definition put_data :: "mb_type \<Rightarrow> byte list \<Rightarrow> nat \<Rightarrow> byte list" where
  "put_data type source sz = (if type = MB_MZERO then replicate sz 0 else take sz source)"

lemma put_inv_bytes:
  "put_inv ms m mleft \<Longrightarrow> chain_bytes ms = chain_bytes (take m ms) @ mbuf_bytes (ms ! m)"
  by (auto simp: put_inv_def chain_bytes_split [of m ms] chain_bytes_empty)

lemma mbuf_put_simps [chain]:
  assumes "mbuf_wf m" "c \<le> mbuf_trailingspace m" "type \<noteq> MB_MCUSTOM"
    and "type = MB_MZERO \<or> c \<le> length source"
  shows "mbuf_wf (mbuf_put type m source c)"
    and "mbuf_bytes (mbuf_put type m source c) = mbuf_bytes m @ put_data type source c"
    and "mbuf_trailingspace (mbuf_put type m source c) = mbuf_trailingspace m - c"
proof -
  define data where "data = put_data type source c"
  have eq: "mbuf_put type m source c =
      m\<lparr>m_data := take (m_len m) (m_data m) @ data @ drop (m_len m + c) (m_data m),
        m_len := m_len m + c\<rparr>"
    using assms(3) by (cases type) (simp_all add: mbuf_put_def data_def put_data_def)
  have len: "length data = c" using assms(3,4) by (auto simp: data_def put_data_def)
  show "mbuf_wf (mbuf_put type m source c)"
    "mbuf_bytes (mbuf_put type m source c) = mbuf_bytes m @ put_data type source c"
    "mbuf_trailingspace (mbuf_put type m source c) = mbuf_trailingspace m - c"
    using assms(1,2) len
    by (simp_all add: eq mbuf_wf_def mbuf_bytes_def mbuf_trailingspace_def data_def [symmetric])
qed

lemma put_data_split:
  assumes "c \<le> sz" "type = MB_MZERO \<or> sz \<le> length source"
  shows "put_data type source c @ put_data type (drop c source) (sz - c) = put_data type source sz"
  using assms
  by (auto simp: put_data_def replicate_add [symmetric] take_add [symmetric])

lemma put_inv_copy:
  assumes inv: "put_inv ms m mleft" and c: "c \<le> mleft" and ty: "type \<noteq> MB_MCUSTOM"
    and src: "type = MB_MZERO \<or> c \<le> length source"
  shows "put_inv (ms[m := mbuf_put type (ms ! m) source c]) m (mleft - c)"
    and "chain_bytes (ms[m := mbuf_put type (ms ! m) source c]) =
           chain_bytes ms @ put_data type source c"
proof -
  have m: "m < length ms" "mbuf_wf (ms ! m)" "c \<le> mbuf_trailingspace (ms ! m)"
    using inv c by (auto simp: put_inv_def)
  note put = mbuf_put_simps [OF m(2,3) ty src]
  show "put_inv (ms[m := mbuf_put type (ms ! m) source c]) m (mleft - c)"
    using inv m(1) put by (auto simp: put_inv_def dest: in_set_dropD
        dest!: subsetD [OF set_update_subset_insert])
  show "chain_bytes (ms[m := mbuf_put type (ms ! m) source c]) =
      chain_bytes ms @ put_data type source c"
    using inv m(1) put(2)
    by (simp add: chain_bytes_update put_inv_bytes [OF inv] chain_bytes_empty put_inv_def)
qed

lemma put_inv_advance:
  assumes "put_inv ms m 0" and "Suc m < length ms"
  shows "put_inv ms (Suc m) (mbuf_trailingspace (ms ! Suc m))"
  using assms by (auto simp: put_inv_def drop_eq_Cons_nth [of "Suc m"])

lemma put_inv_grow:
  assumes "put_inv ms m 0" and "\<not> Suc m < length ms" and "new \<noteq> []"
    and "\<forall>b \<in> set new. m_len b = 0"
  shows "put_inv (ms @ new) (Suc m) (mbuf_trailingspace ((ms @ new) ! Suc m))"
    and "chain_bytes (ms @ new) = chain_bytes ms"
proof -
  have m: "Suc m = length ms" using assms(1,2) by (simp add: put_inv_def)
  have wf: "\<forall>b \<in> set new. mbuf_wf b" using assms(4) by (simp add: mbuf_wf_def)
  show "put_inv (ms @ new) (Suc m) (mbuf_trailingspace ((ms @ new) ! Suc m))"
    using assms m wf by (auto simp: put_inv_def nth_append dest: in_set_dropD)
  show "chain_bytes (ms @ new) = chain_bytes ms"
    using assms(4) by (simp add: chain_bytes_empty)
qed

text \<open>The mbufs before the current one are not touched, and the current one only gains bytes.\<close>

definition put_frame :: "mbuf list \<Rightarrow> nat \<Rightarrow> mbuf list \<Rightarrow> bool" where
  "put_frame ms m ms' \<longleftrightarrow>
     m < length ms' \<and> take m ms' = take m ms \<and> m_len (ms ! m) \<le> m_len (ms' ! m)"

lemma put_frame_copy:
  "put_frame (ms[m := b]) m ms' \<Longrightarrow> m < length ms \<Longrightarrow> m_len (ms ! m) \<le> m_len b \<Longrightarrow> put_frame ms m ms'"
  by (simp add: put_frame_def)

lemma put_frame_advance:
  assumes "put_frame (ms @ new) (Suc m) ms'" and "m < length ms"
  shows "put_frame ms m ms'"
proof -
  have "take (Suc m) ms' = take (Suc m) ms" "Suc m < length ms'"
    using assms by (auto simp: put_frame_def)
  then have "take m ms' = take m ms" "ms' ! m = ms ! m"
    using assms(2) by (auto simp: take_Suc_conv_app_nth)
  then show ?thesis using \<open>Suc m < length ms'\<close> by (simp add: put_frame_def)
qed

text \<open>
  What the loop of a put guarantees of its result; \<open>fl\<close> says that an allocation can fail.
\<close>

definition getm_fails :: "getm \<Rightarrow> bool" where
  "getm_fails getm \<longleftrightarrow> (\<exists>n. getm n = Some None)"

definition put_post ::
  "bool \<Rightarrow> mb_type \<Rightarrow> mbuf list \<Rightarrow> nat \<Rightarrow> byte list \<Rightarrow> nat \<Rightarrow> nat \<Rightarrow>
     (errno \<times> mbuf list \<times> nat \<times> nat \<times> nat) option \<Rightarrow> bool" where
  "put_post fl type ms m source sz copied r \<longleftrightarrow>
     (\<exists>e ms' m' mleft' k.
        r = Some (e, ms', m', mleft', copied + k) \<and> k \<le> sz \<and> (\<forall>b \<in> set ms'. mbuf_wf b) \<and>
        m \<le> m' \<and> put_frame ms m ms' \<and>
        chain_bytes ms' = chain_bytes ms @ put_data type source k \<and>
        (if e = 0 then k = sz \<and> put_inv ms' m' mleft' else e = ENOBUFS \<and> k < sz \<and> fl))"

lemma put_post_copy:
  assumes "put_post fl type (ms[m := b]) m (drop c source) (sz - c) (copied + c) r"
    and "chain_bytes (ms[m := b]) = chain_bytes ms @ put_data type source c"
    and "m < length ms" "m_len (ms ! m) \<le> m_len b"
    and "c \<le> sz" and "type = MB_MZERO \<or> sz \<le> length source"
  shows "put_post fl type ms m source sz copied r"
proof -
  from assms(1) obtain e ms2 m' mleft' k where r:
    "r = Some (e, ms2, m', mleft', copied + c + k)" "k \<le> sz - c" "\<forall>b \<in> set ms2. mbuf_wf b"
    "m \<le> m'" "put_frame (ms[m := b]) m ms2"
    "chain_bytes ms2 = chain_bytes (ms[m := b]) @ put_data type (drop c source) k"
    "if e = 0 then k = sz - c \<and> put_inv ms2 m' mleft' else e = ENOBUFS \<and> k < sz - c \<and> fl"
    unfolding put_post_def by blast
  have "c + k \<le> sz" using assms(5) r(2) by simp
  then have "put_data type source c @ put_data type (drop c source) k = put_data type source (c + k)"
    using put_data_split [of c "c + k" type source] assms(6) by auto
  then show ?thesis
    using r assms(2,5) put_frame_copy [OF r(5) assms(3,4)] unfolding put_post_def
    by (intro exI [of _ e] exI [of _ ms2] exI [of _ m'] exI [of _ mleft'] exI [of _ "c + k"])
      (auto simp: add.assoc split: if_splits)
qed

lemma put_post_advance:
  assumes "put_post fl type (ms @ new) (Suc m) source sz copied r" and "m < length ms"
    and "chain_bytes (ms @ new) = chain_bytes ms"
  shows "put_post fl type ms m source sz copied r"
proof -
  from assms(1) obtain e ms2 m' mleft' k where r:
    "r = Some (e, ms2, m', mleft', copied + k)" "k \<le> sz" "\<forall>b \<in> set ms2. mbuf_wf b"
    "Suc m \<le> m'" "put_frame (ms @ new) (Suc m) ms2"
    "chain_bytes ms2 = chain_bytes (ms @ new) @ put_data type source k"
    "if e = 0 then k = sz \<and> put_inv ms2 m' mleft' else e = ENOBUFS \<and> k < sz \<and> fl"
    unfolding put_post_def by blast
  then show ?thesis
    using assms(3) put_frame_advance [OF r(5) assms(2)] unfolding put_post_def
    by (intro exI [of _ e] exI [of _ ms2] exI [of _ m'] exI [of _ mleft'] exI [of _ k]) auto
qed

section \<open>The allocator interface\<close>

text \<open>
  What putting data relies on: for a request that is not empty the allocator returns, and on success
  it gives at least one mbuf, all of them empty and with room. \<open>wf\<close> is the provider's own condition.
\<close>

locale mbuf_allocator =
  fixes getm :: getm and wf :: bool
  assumes getm_fresh: "wf \<Longrightarrow> 0 < n \<Longrightarrow>
    \<exists>r. getm n = Some r \<and>
      (\<forall>ms. r = Some ms \<longrightarrow> ms \<noteq> [] \<and> (\<forall>m \<in> set ms. m_len m = 0 \<and> 0 < mbuf_trailingspace m))"
begin

lemma put_loop_room:
  assumes inv: "put_inv ms m mleft" and "0 < mleft" "0 < sz" "type \<noteq> MB_MCUSTOM"
    and src: "type = MB_MZERO \<or> sz \<le> length source"
    and IH: "\<And>sz' ms m mleft source copied. sz' < sz \<Longrightarrow> put_inv ms m mleft \<Longrightarrow>
      type = MB_MZERO \<or> sz' \<le> length source \<Longrightarrow>
      put_post (getm_fails getm) type ms m source sz' copied (mb_put_loop getm type ms m mleft source sz' copied)"
  shows "put_post (getm_fails getm) type ms m source sz copied (mb_put_loop getm type ms m mleft source sz copied)"
proof -
  define c where "c = (if mleft > sz then sz else mleft)"
  have c: "0 < c" "c \<le> mleft" "c \<le> sz" using assms(2,3) by (auto simp: c_def)
  have src': "type = MB_MZERO \<or> c \<le> length source" "type = MB_MZERO \<or> sz - c \<le> length (drop c source)"
    using src c by auto
  note step = put_inv_copy [OF inv c(2) assms(4) src'(1)]
  have "put_post (getm_fails getm) type (ms[m := mbuf_put type (ms ! m) source c]) m (drop c source) (sz - c) (copied + c)
      (mb_put_loop getm type (ms[m := mbuf_put type (ms ! m) source c]) m (mleft - c) (drop c source)
        (sz - c) (copied + c))"
    using IH [OF _ step(1) src'(2)] c assms(3) by simp
  moreover have "m < length ms" "m_len (ms ! m) \<le> m_len (mbuf_put type (ms ! m) source c)"
    using inv by (simp_all add: put_inv_def mbuf_put_def Let_def)
  ultimately have "put_post (getm_fails getm) type ms m source sz copied
      (mb_put_loop getm type (ms[m := mbuf_put type (ms ! m) source c]) m (mleft - c) (drop c source)
        (sz - c) (copied + c))"
    using put_post_copy step(2) c(3) src by blast
  then show ?thesis
    using assms(2,3) by (subst mb_put_loop.simps) (simp add: Let_def c_def)
qed

lemma put_loop_post:
  assumes "wf" "put_inv ms m mleft" "type \<noteq> MB_MCUSTOM" "type = MB_MZERO \<or> sz \<le> length source"
  shows "put_post (getm_fails getm) type ms m source sz copied (mb_put_loop getm type ms m mleft source sz copied)"
  using assms(2,4)
proof (induction sz arbitrary: ms m mleft source copied rule: less_induct)
  case (less sz)
  show ?case
  proof (cases "sz = 0")
    case True
    then show ?thesis using less.prems
      by (subst mb_put_loop.simps) (auto simp: put_post_def put_data_def put_inv_def put_frame_def)
  next
    case False
    have room: "put_post (getm_fails getm) type ms m source sz copied (mb_put_loop getm type ms m mleft source sz copied)"
      if "put_inv ms m mleft" "0 < mleft" for ms m mleft
      using put_loop_room [OF that _ assms(3) less.prems(2)] less.IH False by blast
    show ?thesis using less.prems(1)
    proof (induction "length ms - m" arbitrary: ms m mleft)
      case 0
      then show ?case by (simp add: put_inv_def)
    next
      case (Suc d)
      show ?case
      proof (cases "mleft = 0")
        case False
        then show ?thesis using room Suc.prems by simp
      next
        case True
        note inv = Suc.prems [unfolded True]
        show ?thesis
        proof (cases "Suc m < length ms")
          case more: True
          note adv = put_inv_advance [OF inv more]
          have "put_post (getm_fails getm) type (ms @ []) (Suc m) source sz copied (mb_put_loop getm type ms (Suc m)
              (mbuf_trailingspace (ms ! Suc m)) source sz copied)"
            using Suc.hyps(1) [OF _ adv] Suc.hyps(2) by simp
          from put_post_advance [OF this] more show ?thesis using True \<open>sz \<noteq> 0\<close>
            by (subst mb_put_loop.simps) simp
        next
          case last: False
          from getm_fresh [OF assms(1), of sz] \<open>sz \<noteq> 0\<close> obtain r where r: "getm sz = Some r"
            "\<And>new. r = Some new \<Longrightarrow>
              new \<noteq> [] \<and> (\<forall>b \<in> set new. m_len b = 0 \<and> 0 < mbuf_trailingspace b)"
            by auto
          show ?thesis
          proof (cases r)
            case None
            then show ?thesis using r(1) True last inv \<open>sz \<noteq> 0\<close>
              by (subst mb_put_loop.simps) (auto simp: put_post_def put_data_def put_inv_def put_frame_def getm_fails_def)
          next
            case (Some new)
            note new = r(2) [OF Some]
            have em: "\<forall>b \<in> set new. m_len b = 0" using new by blast
            note gr = put_inv_grow [OF inv last _ em]
            have "Suc m = length ms" using inv last by (simp add: put_inv_def)
            then have "0 < mbuf_trailingspace ((ms @ new) ! Suc m)"
              using new by (simp add: nth_append)
            from room [OF gr(1) this] new
            have "put_post (getm_fails getm) type (ms @ new) (Suc m) source sz copied (mb_put_loop getm type (ms @ new)
                (Suc m) (mbuf_trailingspace ((ms @ new) ! Suc m)) source sz copied)" by simp
            from put_post_advance [OF this _ gr(2)] new \<open>Suc m = length ms\<close> show ?thesis
              using r(1) Some True last \<open>sz \<noteq> 0\<close>
              by (subst mb_put_loop.simps) simp
          qed
        qed
      qed
    qed
  qed
qed

lemma put_mem_spec:
  assumes "wf" "mb_inv mbp" "type \<noteq> MB_MCUSTOM" "type = MB_MZERO \<or> sz \<le> length source"
  shows "\<exists>e mbp' k. mb_put_mem getm mbp source sz type = Some (e, mbp') \<and>
           mb_bytes mbp' = mb_bytes mbp @ put_data type source k \<and>
           mb_count mbp' = mb_count mbp + k \<and> mb_len mbp' = mb_len mbp + k \<and>
           mb_cur mbp \<le> mb_cur mbp' \<and> put_frame (mb_top mbp) (mb_cur mbp) (mb_top mbp') \<and>
           (if e = 0 then k = sz \<and> mb_inv mbp' else e = ENOBUFS \<and> k < sz \<and> getm_fails getm)"
  using put_loop_post [OF assms(1) assms(2) [unfolded mb_inv_def] assms(3,4), of 0]
  by (auto simp: put_post_def mb_put_mem_def Let_def mb_inv_def mb_bytes_def split: if_splits)

end

section \<open>The kernel's and the user space allocator\<close>

lemma getm_one_fresh:
  "kpi_wf kpi \<Longrightarrow> getm_one kpi n = Some m \<Longrightarrow> m_len m = 0 \<and> 0 < mbuf_trailingspace m"
  by (auto simp: getm_one_def kpi_wf_def fresh_mbuf_def mbuf_trailingspace_def
      split: option.splits if_splits)

definition kpi_fails :: "kpi \<Rightarrow> bool" where
  "kpi_fails kpi \<longleftrightarrow> (\<exists>n. kpi_get kpi n = None \<or> kpi_mclget kpi n = None)"

lemma getm_one_fails: "getm_one kpi n = None \<Longrightarrow> kpi_fails kpi"
  by (auto simp: getm_one_def kpi_fails_def split: option.splits if_splits)

lemma getm_loop_spec:
  assumes "kpi_wf kpi" and "\<forall>m \<in> set acc. m_len m = 0 \<and> 0 < mbuf_trailingspace m"
  shows "\<exists>r. getm_loop kpi len acc = Some r \<and> (r = None \<longrightarrow> kpi_fails kpi) \<and>
           (\<forall>ms. r = Some ms \<longrightarrow>
              (\<exists>new. ms = acc @ new \<and> len \<le> sum_list (map mbuf_trailingspace new)) \<and>
              (\<forall>m \<in> set ms. m_len m = 0 \<and> 0 < mbuf_trailingspace m))"
  using assms(2)
proof (induction len arbitrary: acc rule: less_induct)
  case (less len)
  show ?case
  proof (cases "len > 0 \<and> getm_one kpi len \<noteq> None")
    case False
    then show ?thesis using less.prems by (subst getm_loop.simps) (auto dest: getm_one_fails)
  next
    case True
    then obtain m where m: "getm_one kpi len = Some m" by auto
    note fresh = getm_one_fresh [OF assms(1) m]
    define len' where "len' = (if mbuf_trailingspace m > len then 0 else len - mbuf_trailingspace m)"
    have "len' < len" using True fresh by (auto simp: len'_def)
    then have "\<exists>r. getm_loop kpi len' (acc @ [m]) = Some r \<and> (r = None \<longrightarrow> kpi_fails kpi) \<and>
           (\<forall>ms. r = Some ms \<longrightarrow>
              (\<exists>new. ms = (acc @ [m]) @ new \<and> len' \<le> sum_list (map mbuf_trailingspace new)) \<and>
              (\<forall>m \<in> set ms. m_len m = 0 \<and> 0 < mbuf_trailingspace m))"
      using less.prems fresh by (intro less.IH) auto
    then obtain r where r: "getm_loop kpi len' (acc @ [m]) = Some r" and fl: "r = None \<longrightarrow> kpi_fails kpi"
      and r2:
      "\<And>ms. r = Some ms \<Longrightarrow>
         (\<exists>new. ms = (acc @ [m]) @ new \<and> len' \<le> sum_list (map mbuf_trailingspace new)) \<and>
         (\<forall>m \<in> set ms. m_len m = 0 \<and> 0 < mbuf_trailingspace m)"
      by blast
    have "getm_loop kpi len acc = Some r"
      using True m r(1) by (subst getm_loop.simps) (simp add: len'_def Let_def)
    moreover have "\<exists>new. ms = acc @ new \<and> len \<le> sum_list (map mbuf_trailingspace new)"
      if "r = Some ms" for ms
    proof -
      from r2 [OF that] obtain new where "ms = (acc @ [m]) @ new"
        "len' \<le> sum_list (map mbuf_trailingspace new)" by blast
      then show ?thesis
        by (intro exI [of _ "m # new"]) (auto simp: len'_def split: if_splits)
    qed
    ultimately show ?thesis using r2 fl by blast
  qed
qed

lemma smb_mbuf_getm_spec:
  assumes "kpi_wf kpi"
  shows "\<exists>r. smb_mbuf_getm kpi len = Some r \<and> (r = None \<longrightarrow> kpi_fails kpi) \<and>
           (\<forall>ms. r = Some ms \<longrightarrow> ms \<noteq> [] \<and> len \<le> sum_list (map mbuf_trailingspace ms) \<and>
              (\<forall>m \<in> set ms. m_len m = 0 \<and> 0 < mbuf_trailingspace m))"
proof (cases "getm_one kpi len")
  case None
  then show ?thesis by (simp add: smb_mbuf_getm_def getm_one_fails)
next
  case (Some m)
  note fresh = getm_one_fresh [OF assms Some]
  define len' where "len' = (if mbuf_trailingspace m > len then 0 else len - mbuf_trailingspace m)"
  obtain r where r: "getm_loop kpi len' [m] = Some r" and fl: "r = None \<longrightarrow> kpi_fails kpi" and r2:
    "\<And>ms. r = Some ms \<Longrightarrow>
       (\<exists>new. ms = [m] @ new \<and> len' \<le> sum_list (map mbuf_trailingspace new)) \<and>
       (\<forall>m \<in> set ms. m_len m = 0 \<and> 0 < mbuf_trailingspace m)"
    using getm_loop_spec [OF assms, of "[m]" len'] fresh by auto
  have "smb_mbuf_getm kpi len = Some r"
    using Some r(1) by (simp add: smb_mbuf_getm_def len'_def Let_def)
  moreover have "ms \<noteq> [] \<and> len \<le> sum_list (map mbuf_trailingspace ms)" if "r = Some ms" for ms
    using r2 [OF that] by (auto simp: len'_def split: if_splits)
  ultimately show ?thesis using r2 fl by blast
qed

lemma smb_mbuf_getm_fails: "kpi_wf kpi \<Longrightarrow> getm_fails (smb_mbuf_getm kpi) \<Longrightarrow> kpi_fails kpi"
proof -
  assume wf: "kpi_wf kpi" and "getm_fails (smb_mbuf_getm kpi)"
  then obtain n where "smb_mbuf_getm kpi n = Some None" by (auto simp: getm_fails_def)
  with smb_mbuf_getm_spec [OF wf, of n] show "kpi_fails kpi" by simp
qed

interpretation kernel_mbufs: mbuf_allocator "smb_mbuf_getm kpi" "kpi_wf kpi" for kpi
proof
  fix n :: nat
  assume "kpi_wf kpi"
  from smb_mbuf_getm_spec [OF this, of n]
  show "\<exists>r. smb_mbuf_getm kpi n = Some r \<and>
      (\<forall>ms. r = Some ms \<longrightarrow> ms \<noteq> [] \<and> (\<forall>m \<in> set ms. m_len m = 0 \<and> 0 < mbuf_trailingspace m))"
    by blast
qed

interpretation user_mbufs: mbuf_allocator "smb_mbuf_getm_user malloc" "malloc_wf malloc" for malloc
proof
  fix n :: nat
  assume "malloc_wf malloc" "0 < n"
  then show "\<exists>r. smb_mbuf_getm_user malloc n = Some r \<and>
      (\<forall>ms. r = Some ms \<longrightarrow> ms \<noteq> [] \<and> (\<forall>m \<in> set ms. m_len m = 0 \<and> 0 < mbuf_trailingspace m))"
    using mbuf_getcluster_fresh [of malloc MBUF_WAITOK MBUF_TYPE_DATA n]
    by (auto simp: smb_mbuf_getm_user_def split: sum.splits)
qed

section \<open>Reading a chain\<close>

text \<open>The bytes not yet read, and the states in which the position is inside the current mbuf.\<close>

definition rest_bytes :: "mbuf list \<Rightarrow> nat \<Rightarrow> nat \<Rightarrow> byte list" where
  "rest_bytes ms cur pos =
     (if cur < length ms then drop pos (mbuf_bytes (ms ! cur)) @ chain_bytes (drop (Suc cur) ms)
      else [])"

definition md_rest :: "mdchain \<Rightarrow> byte list" where
  "md_rest mdp = rest_bytes (md_top mdp) (md_cur mdp) (md_pos mdp)"

definition pos_inv :: "mbuf list \<Rightarrow> nat \<Rightarrow> nat \<Rightarrow> bool" where
  "pos_inv ms cur pos \<longleftrightarrow>
     (\<forall>m \<in> set ms. mbuf_wf m) \<and> (cur < length ms \<longrightarrow> pos \<le> m_len (ms ! cur))"

definition md_inv :: "mdchain \<Rightarrow> bool" where
  "md_inv mdp \<longleftrightarrow> pos_inv (md_top mdp) (md_cur mdp) (md_pos mdp)"

lemma rest_bytes_next:
  assumes "pos_inv ms cur pos" and "cur < length ms" and "m_len (ms ! cur) - pos = 0"
  shows "rest_bytes ms (Suc cur) (if Suc cur < length ms then 0 else pos) = rest_bytes ms cur pos"
    and "pos_inv ms (Suc cur) (if Suc cur < length ms then 0 else pos)"
proof -
  have "drop pos (mbuf_bytes (ms ! cur)) = []"
    using assms by (simp add: pos_inv_def)
  then show "rest_bytes ms (Suc cur) (if Suc cur < length ms then 0 else pos) = rest_bytes ms cur pos"
    using assms(2) by (auto simp: rest_bytes_def drop_eq_Cons_nth [of "Suc cur"])
  show "pos_inv ms (Suc cur) (if Suc cur < length ms then 0 else pos)"
    using assms(1) by (simp add: pos_inv_def)
qed

lemma rest_bytes_take:
  assumes "pos_inv ms cur pos" and "cur < length ms" and "c \<le> m_len (ms ! cur) - pos"
  shows "take c (drop pos (m_data (ms ! cur))) = take c (rest_bytes ms cur pos)"
    and "rest_bytes ms cur (pos + c) = drop c (rest_bytes ms cur pos)"
    and "pos_inv ms cur (pos + c)"
    and "c \<le> length (rest_bytes ms cur pos)"
proof -
  have wf: "m_len (ms ! cur) \<le> length (m_data (ms ! cur))" "pos \<le> m_len (ms ! cur)"
    using assms by (auto simp: pos_inv_def mbuf_wf_def)
  then show "take c (drop pos (m_data (ms ! cur))) = take c (rest_bytes ms cur pos)"
    "rest_bytes ms cur (pos + c) = drop c (rest_bytes ms cur pos)"
    "pos_inv ms cur (pos + c)" "c \<le> length (rest_bytes ms cur pos)"
    using assms
    by (simp_all add: rest_bytes_def mbuf_bytes_def drop_take add.commute pos_inv_def)
qed

definition get_post ::
  "mbuf list \<Rightarrow> byte list \<Rightarrow> nat \<Rightarrow> byte list \<Rightarrow> errno \<times> byte list \<times> nat \<times> nat \<Rightarrow> bool" where
  "get_post ms rest sz out r \<longleftrightarrow>
     (case r of (e, out', cur', pos') \<Rightarrow>
        pos_inv ms cur' pos' \<and> rest_bytes ms cur' pos' = drop sz rest \<and>
        (if sz \<le> length rest then e = 0 \<and> out' = out @ take sz rest else e = EBADRPC))"

lemma get_post_take:
  assumes "get_post ms (drop c rest) (sz - c) (out @ take c rest) r" and "c \<le> sz" "c \<le> length rest"
  shows "get_post ms rest sz out r"
proof -
  have "take c rest @ take (sz - c) (drop c rest) = take sz rest"
    using assms(2) by (simp add: take_add [symmetric])
  then show ?thesis
    using assms by (auto simp: get_post_def split: if_splits prod.splits)
qed

lemma md_get_loop_spec:
  "pos_inv ms cur pos \<Longrightarrow>
     get_post ms (rest_bytes ms cur pos) sz out (md_get_loop ms cur pos sz out)"
proof (induction ms cur pos sz out rule: md_get_loop.induct)
  case (1 ms cur pos sz out)
  show ?case
  proof (cases "sz > 0 \<and> cur < length ms")
    case False
    then show ?thesis using 1(3)
      by (subst md_get_loop.simps) (auto simp: rest_bytes_def get_post_def)
  next
    case True
    define count where "count = m_len (ms ! cur) - pos"
    show ?thesis
    proof (cases "count = 0")
      case z: True
      note nx = rest_bytes_next [OF 1(3) _ z [unfolded count_def]]
      have "get_post ms (rest_bytes ms cur pos) sz out
          (md_get_loop ms (Suc cur) (if Suc cur < length ms then 0 else pos) sz out)"
        using 1(1) [OF _ _ _ _ nx(2)] nx(1) True z by (simp add: count_def)
      then show ?thesis using True z
        by (subst md_get_loop.simps) (simp add: Let_def count_def)
    next
      case nz: False
      define c where "c = (if count > sz then sz else count)"
      have c: "c \<le> m_len (ms ! cur) - pos" "c \<le> sz" by (auto simp: c_def count_def)
      note tk = rest_bytes_take [OF 1(3) conjunct2 [OF True] c(1)]
      have "get_post ms (rest_bytes ms cur (pos + c)) (sz - c)
          (out @ take c (drop pos (m_data (ms ! cur))))
          (md_get_loop ms cur (pos + c) (sz - c) (out @ take c (drop pos (m_data (ms ! cur)))))"
        using 1(2) [of count c] True nz tk(3) unfolding count_def c_def by simp
      then have "get_post ms (rest_bytes ms cur pos) sz out
          (md_get_loop ms cur (pos + c) (sz - c) (out @ take c (drop pos (m_data (ms ! cur)))))"
        unfolding tk(1,2) using c(2) tk(4) by (rule get_post_take)
      then show ?thesis using True nz
        by (subst md_get_loop.simps) (simp add: Let_def count_def [symmetric] c_def [symmetric])
    qed
  qed
qed

lemma md_get_mem_spec:
  assumes "md_inv mdp"
  shows "fst (md_get_mem mdp sz) =
           (if sz \<le> length (md_rest mdp) then Inr (take sz (md_rest mdp)) else Inl EBADRPC)"
    and "md_inv (snd (md_get_mem mdp sz))"
    and "md_rest (snd (md_get_mem mdp sz)) = drop sz (md_rest mdp)"
    and "md_len (snd (md_get_mem mdp sz)) =
           (if sz \<le> length (md_rest mdp) then md_len mdp + sz else md_len mdp)"
proof -
  obtain e out' cur' pos' where
    l: "md_get_loop (md_top mdp) (md_cur mdp) (md_pos mdp) sz [] = (e, out', cur', pos')"
    by (metis prod_cases4)
  with md_get_loop_spec [OF assms [unfolded md_inv_def], of sz "[]"]
  have "get_post (md_top mdp) (md_rest mdp) sz [] (e, out', cur', pos')"
    by (simp add: md_rest_def)
  with l show "fst (md_get_mem mdp sz) =
      (if sz \<le> length (md_rest mdp) then Inr (take sz (md_rest mdp)) else Inl EBADRPC)"
    "md_inv (snd (md_get_mem mdp sz))" "md_rest (snd (md_get_mem mdp sz)) = drop sz (md_rest mdp)"
    "md_len (snd (md_get_mem mdp sz)) =
       (if sz \<le> length (md_rest mdp) then md_len mdp + sz else md_len mdp)"
    by (auto simp: get_post_def md_get_mem_def Let_def md_inv_def md_rest_def split: if_splits)
qed

lemma md_get_mem_frame [simp]:
  "md_top (snd (md_get_mem mdp sz)) = md_top mdp"
  "md_nextpkt (snd (md_get_mem mdp sz)) = md_nextpkt mdp"
  by (simp_all add: md_get_mem_def Let_def split: prod.splits)

section \<open>Reserved places\<close>

text \<open>
  \<open>mb_place mbp p off n\<close>: the pointer \<open>p\<close> is the place of \<open>n\<close> bytes of the message, from offset
  \<open>off\<close> of it on, in an mbuf that is not behind the current one.
\<close>

definition mb_place :: "mbchain \<Rightarrow> nat \<times> nat \<Rightarrow> nat \<Rightarrow> nat \<Rightarrow> bool" where
  "mb_place mbp p off n \<longleftrightarrow>
     fst p \<le> mb_cur mbp \<and> snd p + n \<le> m_len (mb_top mbp ! fst p) \<and>
     off = length (chain_bytes (take (fst p) (mb_top mbp))) + snd p"

lemma mbuf_bytes_store:
  assumes "mbuf_wf m" "off + length bs \<le> m_len m"
  shows "mbuf_bytes (m\<lparr>m_data := take off (m_data m) @ bs @ drop (off + length bs) (m_data m)\<rparr>) =
           take off (mbuf_bytes m) @ bs @ drop (off + length bs) (mbuf_bytes m)"
    and "mbuf_wf (m\<lparr>m_data := take off (m_data m) @ bs @ drop (off + length bs) (m_data m)\<rparr>)"
proof -
  have "min off (length (m_data m)) = off" "min (m_len m) off = off"
    using assms by (auto simp: mbuf_wf_def)
  then show "mbuf_bytes (m\<lparr>m_data := take off (m_data m) @ bs @ drop (off + length bs) (m_data m)\<rparr>) =
      take off (mbuf_bytes m) @ bs @ drop (off + length bs) (mbuf_bytes m)"
    "mbuf_wf (m\<lparr>m_data := take off (m_data m) @ bs @ drop (off + length bs) (m_data m)\<rparr>)"
    using assms by (simp_all add: mbuf_bytes_def mbuf_wf_def drop_take min.commute)
qed

lemma mb_store_bytes:
  assumes inv: "mb_inv mbp" and pl: "mb_place mbp p off (length bs)"
  shows "mb_bytes (mb_store mbp p bs) =
           take off (mb_bytes mbp) @ bs @ drop (off + length bs) (mb_bytes mbp)"
proof -
  define i where "i = fst p"
  define o' where "o' = snd p"
  define m where "m = mb_top mbp ! i"
  define m' where "m' = m\<lparr>m_data := take o' (m_data m) @ bs @ drop (o' + length bs) (m_data m)\<rparr>"
  have i: "i < length (mb_top mbp)" using inv pl by (simp add: mb_inv_def put_inv_def mb_place_def i_def)
  have m: "mbuf_wf m" "o' + length bs \<le> m_len m"
    using inv pl i by (auto simp: mb_inv_def put_inv_def mb_place_def m_def i_def o'_def)
  have off: "off = length (chain_bytes (take i (mb_top mbp))) + o'"
    using pl by (simp add: mb_place_def i_def o'_def)
  have "mb_bytes (mb_store mbp p bs) = chain_bytes ((mb_top mbp)[i := m'])"
    by (simp add: mb_bytes_def mb_store_def i_def o'_def m_def m'_def Let_def split: prod.splits)
  also have "\<dots> = chain_bytes (take i (mb_top mbp)) @
      (take o' (mbuf_bytes m) @ bs @ drop (o' + length bs) (mbuf_bytes m)) @
      chain_bytes (drop (Suc i) (mb_top mbp))"
    using chain_bytes_update [OF i] mbuf_bytes_store [OF m] by (simp add: m'_def)
  also have "\<dots> = take off (mb_bytes mbp) @ bs @ drop (off + length bs) (mb_bytes mbp)"
    using m(2) length_mbuf_bytes [OF m(1)]
    by (simp add: mb_bytes_def chain_bytes_split [OF i] off m_def [symmetric])
  finally show ?thesis .
qed

lemma mb_store_inv:
  assumes inv: "mb_inv mbp" and pl: "mb_place mbp p off (length bs)"
  shows "mb_inv (mb_store mbp p bs)"
proof -
  define i where "i = fst p"
  define m where "m = mb_top mbp ! i"
  define m' where "m' = m\<lparr>m_data := take (snd p) (m_data m) @ bs @ drop (snd p + length bs) (m_data m)\<rparr>"
  have i: "i < length (mb_top mbp)" "i \<le> mb_cur mbp"
    using inv pl by (simp_all add: mb_inv_def put_inv_def mb_place_def i_def)
  have m: "mbuf_wf m" "snd p + length bs \<le> m_len m"
    using inv pl i by (auto simp: mb_inv_def put_inv_def mb_place_def m_def i_def)
  have m': "mbuf_wf m'" "m_len m' = m_len m" "mbuf_trailingspace m' = mbuf_trailingspace m"
    using mbuf_bytes_store [OF m] m by (auto simp: m'_def mbuf_trailingspace_def mbuf_wf_def)
  have eq: "mb_store mbp p bs = mbp\<lparr>mb_top := (mb_top mbp)[i := m']\<rparr>"
    by (simp add: mb_store_def i_def m_def m'_def Let_def split: prod.splits)
  have "mb_mleft mbp = mbuf_trailingspace ((mb_top mbp)[i := m'] ! mb_cur mbp)"
    using inv i m'(3) by (auto simp: mb_inv_def put_inv_def nth_list_update m_def)
  moreover have "\<forall>b \<in> set ((mb_top mbp)[i := m']). mbuf_wf b"
    using inv m'(1) by (auto simp: mb_inv_def put_inv_def dest!: subsetD [OF set_update_subset_insert])
  moreover have "drop (Suc (mb_cur mbp)) ((mb_top mbp)[i := m']) = drop (Suc (mb_cur mbp)) (mb_top mbp)"
    using i(2) by simp
  ultimately show ?thesis using inv by (simp add: eq mb_inv_def put_inv_def)
qed

lemma mb_store_simps [simp]:
  "mb_len (mb_store mbp p bs) = mb_len mbp" "mb_count (mb_store mbp p bs) = mb_count mbp"
  "mb_cur (mb_store mbp p bs) = mb_cur mbp"
  by (simp_all add: mb_store_def Let_def split: prod.splits)

text \<open>A store does not move any place.\<close>

lemma mb_store_place:
  assumes inv: "mb_inv mbp" and pl: "mb_place mbp p off (length bs)" and q: "mb_place mbp q off' n"
  shows "mb_place (mb_store mbp p bs) q off' n"
proof -
  define i where "i = fst p"
  define m where "m = mb_top mbp ! i"
  define m' where "m' = m\<lparr>m_data := take (snd p) (m_data m) @ bs @ drop (snd p + length bs) (m_data m)\<rparr>"
  have i: "i < length (mb_top mbp)"
    using inv pl by (simp add: mb_inv_def put_inv_def mb_place_def i_def)
  have m: "mbuf_wf m" "snd p + length bs \<le> m_len m"
    using inv pl i by (auto simp: mb_inv_def put_inv_def mb_place_def m_def i_def)
  have lb: "length (mbuf_bytes m') = length (mbuf_bytes m)" "m_len m' = m_len m"
    using mbuf_bytes_store [OF m] m by (auto simp: m'_def)
  have eq: "mb_store mbp p bs = mbp\<lparr>mb_top := (mb_top mbp)[i := m']\<rparr>"
    by (simp add: mb_store_def i_def m_def m'_def Let_def split: prod.splits)
  have "length (chain_bytes (take k ((mb_top mbp)[i := m']))) = length (chain_bytes (take k (mb_top mbp)))"
    for k
  proof (cases "i < k")
    case True
    then show ?thesis using i lb(1) chain_bytes_update [of i "take k (mb_top mbp)" m']
        chain_bytes_split [of i "take k (mb_top mbp)"]
      by (simp add: take_update_swap m_def)
  next
    case False
    then show ?thesis by (simp add: take_update_cancel)
  qed
  then show ?thesis
    using q i lb(2) by (auto simp: mb_place_def eq nth_list_update m_def)
qed

lemma mb_reserve_spec:
  assumes inv: "mb_inv mbp" and nm: "\<And>n. nm = Some n \<Longrightarrow> m_len n = 0"
    and r: "mb_reserve nm mbp sz = (Some p, mbp')"
  shows "mb_inv mbp'" and "\<exists>junk. length junk = sz \<and> mb_bytes mbp' = mb_bytes mbp @ junk"
    and "mb_place mbp' p (length (mb_bytes mbp)) sz"
    and "mb_len mbp' = mb_len mbp + sz"
proof -
  define place where "place = (\<lambda>mbp.
      let m = mb_top mbp ! mb_cur mbp
      in (Some (mb_cur mbp, m_len m),
          mbp\<lparr>mb_mleft := mb_mleft mbp - sz, mb_count := mb_count mbp + sz,
              mb_len := mb_len mbp + sz,
              mb_top := (mb_top mbp)[mb_cur mbp := mbuf_setlen m (m_len m + sz)]\<rparr> :: mbchain))"
  have ex: "\<exists>b. place b = (Some p, mbp') \<and> mb_inv b \<and> sz \<le> mb_mleft b \<and> mb_bytes b = mb_bytes mbp \<and>
      mb_len b = mb_len mbp"
  proof (cases "mb_mleft mbp < sz")
    case False
    then show ?thesis using r inv
      by (intro exI [of _ mbp]) (simp add: mb_reserve_def place_def Let_def)
  next
    case True
    with r obtain n where n: "nm = Some n" "\<not> sz > mbuf_maxlen n"
      by (auto simp: mb_reserve_def Let_def split: option.splits if_splits)
    define n' where "n' = mbuf_setlen n 0"
    define b where "b = mbp\<lparr>mb_top := take (Suc (mb_cur mbp)) (mb_top mbp) @ [n'],
                            mb_cur := Suc (mb_cur mbp), mb_mleft := mbuf_trailingspace n'\<rparr>"
    have cur: "mb_cur mbp < length (mb_top mbp)" using inv by (simp add: mb_inv_def put_inv_def)
    have "place b = (Some p, mbp')"
      using r True n by (simp add: mb_reserve_def place_def b_def n'_def Let_def)
    moreover have "mb_inv b"
      using inv cur by (auto simp: mb_inv_def put_inv_def b_def n'_def mbuf_setlen_def mbuf_wf_def
          nth_append dest: in_set_takeD)
    moreover have "sz \<le> mb_mleft b" using n(2)
      by (simp add: b_def n'_def mbuf_setlen_def mbuf_trailingspace_def mbuf_maxlen_def)
    moreover have "mb_bytes b = mb_bytes mbp"
      using put_inv_bytes [OF inv [unfolded mb_inv_def]] cur
      by (simp add: mb_bytes_def b_def n'_def mbuf_setlen_def take_Suc_conv_app_nth)
    ultimately show ?thesis by (intro exI [of _ b]) (simp add: b_def)
  qed
  then obtain b where b: "place b = (Some p, mbp')" "mb_inv b" "sz \<le> mb_mleft b"
    "mb_bytes b = mb_bytes mbp" "mb_len b = mb_len mbp" by blast
  define m where "m = mb_top b ! mb_cur b"
  have cur: "mb_cur b < length (mb_top b)" and m: "mbuf_wf m" "sz \<le> mbuf_trailingspace m"
    using b(2,3) by (auto simp: mb_inv_def put_inv_def m_def)
  have p: "p = (mb_cur b, m_len m)" and mbp': "mbp' =
      b\<lparr>mb_mleft := mb_mleft b - sz, mb_count := mb_count b + sz, mb_len := mb_len b + sz,
        mb_top := (mb_top b)[mb_cur b := mbuf_setlen m (m_len m + sz)]\<rparr>"
    using b(1) by (simp_all add: place_def m_def Let_def)
  have new: "mbuf_bytes (mbuf_setlen m (m_len m + sz)) =
      mbuf_bytes m @ take sz (drop (m_len m) (m_data m))"
    "mbuf_wf (mbuf_setlen m (m_len m + sz))"
    "mbuf_trailingspace (mbuf_setlen m (m_len m + sz)) = mbuf_trailingspace m - sz"
    using m by (simp_all add: mbuf_bytes_def mbuf_setlen_def mbuf_wf_def mbuf_trailingspace_def take_add)
  show "mb_inv mbp'"
    using b(2) cur new by (auto simp: mb_inv_def put_inv_def mbp' m_def
        dest!: subsetD [OF set_update_subset_insert])
  have bts: "mb_bytes b = chain_bytes (take (mb_cur b) (mb_top b)) @ mbuf_bytes m"
    using put_inv_bytes [OF b(2) [unfolded mb_inv_def]] by (simp add: mb_bytes_def m_def)
  have "mb_bytes mbp' = mb_bytes mbp @ take sz (drop (m_len m) (m_data m))"
    using chain_bytes_update [OF cur] b(2,4) new(1) bts
    by (simp add: mb_bytes_def mbp' mb_inv_def put_inv_def chain_bytes_empty)
  then show "\<exists>junk. length junk = sz \<and> mb_bytes mbp' = mb_bytes mbp @ junk"
    using m by (intro exI [of _ "take sz (drop (m_len m) (m_data m))"])
      (simp add: mbuf_trailingspace_def)
  show "mb_place mbp' p (length (mb_bytes mbp)) sz"
    using cur bts b(4) m(1) by (simp add: mb_place_def mbp' p mbuf_setlen_def)
  show "mb_len mbp' = mb_len mbp + sz" using b(5) by (simp add: mbp')
qed

lemma put_frame_place:
  assumes "put_frame (mb_top mbp) (mb_cur mbp) (mb_top mbp')" "mb_cur mbp \<le> mb_cur mbp'"
    and "mb_cur mbp < length (mb_top mbp)" and "mb_place mbp p off n"
  shows "mb_place mbp' p off n"
proof -
  have le: "fst p \<le> mb_cur mbp" using assms(4) by (simp add: mb_place_def)
  have eq: "take (mb_cur mbp) (mb_top mbp') = take (mb_cur mbp) (mb_top mbp)"
    using assms(1) by (simp add: put_frame_def)
  have tk: "take (fst p) (mb_top mbp') = take (fst p) (mb_top mbp)"
    using arg_cong [OF eq, of "take (fst p)"] le by (simp add: min_absorb1)
  have "m_len (mb_top mbp ! fst p) \<le> m_len (mb_top mbp' ! fst p)"
  proof (cases "fst p = mb_cur mbp")
    case True
    then show ?thesis using assms(1) by (simp add: put_frame_def)
  next
    case False
    then have "fst p < mb_cur mbp" using le by simp
    then have "mb_top mbp' ! fst p = mb_top mbp ! fst p"
      using arg_cong [OF eq, of "\<lambda>xs. xs ! fst p"] by simp
    then show ?thesis by simp
  qed
  then show ?thesis using assms(2,4) tk by (simp add: mb_place_def)
qed

section \<open>Messages as sequences of typed fields\<close>

text \<open>
  A client builds a message by a sequence of puts and takes it apart by the same sequence of gets.
  A \<open>field\<close> is one of them; for a get only its kind and, for \<open>Mem\<close>, its length are used.
\<close>

datatype field =
    U8 byte | U16le u16 | U16be u16 | U32le u32 | U32be u32 | U64le u64 | U64be u64 | Mem "byte list"

fun field_bytes :: "field \<Rightarrow> byte list" where
  "field_bytes (U8 x) = [x]"
| "field_bytes (U16le x) = le16 x"
| "field_bytes (U16be x) = be16 x"
| "field_bytes (U32le x) = le32 x"
| "field_bytes (U32be x) = be32 x"
| "field_bytes (U64le x) = le64 x"
| "field_bytes (U64be x) = be64 x"
| "field_bytes (Mem bs) = bs"

fun put_field :: "getm \<Rightarrow> mbchain \<Rightarrow> field \<Rightarrow> (errno \<times> mbchain) option" where
  "put_field getm mbp (U8 x) = mb_put_uint8 getm mbp x"
| "put_field getm mbp (U16le x) = mb_put_uint16le getm mbp x"
| "put_field getm mbp (U16be x) = mb_put_uint16be getm mbp x"
| "put_field getm mbp (U32le x) = mb_put_uint32le getm mbp x"
| "put_field getm mbp (U32be x) = mb_put_uint32be getm mbp x"
| "put_field getm mbp (U64le x) = mb_put_uint64le getm mbp x"
| "put_field getm mbp (U64be x) = mb_put_uint64be getm mbp x"
| "put_field getm mbp (Mem bs) = mb_put_mem getm mbp bs (length bs) MB_MSYSTEM"

fun get_field :: "field \<Rightarrow> mdchain \<Rightarrow> (errno + field) \<times> mdchain" where
  "get_field (U8 _) mdp = apfst (map_sum id U8) (md_get_uint8 mdp)"
| "get_field (U16le _) mdp = apfst (map_sum id U16le) (md_get_uint16le mdp)"
| "get_field (U16be _) mdp = apfst (map_sum id U16be) (md_get_uint16be mdp)"
| "get_field (U32le _) mdp = apfst (map_sum id U32le) (md_get_uint32le mdp)"
| "get_field (U32be _) mdp = apfst (map_sum id U32be) (md_get_uint32be mdp)"
| "get_field (U64le _) mdp = apfst (map_sum id U64le) (md_get_uint64le mdp)"
| "get_field (U64be _) mdp = apfst (map_sum id U64be) (md_get_uint64be mdp)"
| "get_field (Mem bs) mdp = apfst (map_sum id Mem) (md_get_mem mdp (length bs))"

primrec put_fields :: "getm \<Rightarrow> mbchain \<Rightarrow> field list \<Rightarrow> (errno \<times> mbchain) option" where
  "put_fields getm mbp [] = Some (0, mbp)"
| "put_fields getm mbp (f # fs) =
     (case put_field getm mbp f of
        None \<Rightarrow> None
      | Some (e, mbp') \<Rightarrow> if e \<noteq> 0 then Some (e, mbp') else put_fields getm mbp' fs)"

primrec get_fields :: "field list \<Rightarrow> mdchain \<Rightarrow> (errno + field list) \<times> mdchain" where
  "get_fields [] mdp = (Inr [], mdp)"
| "get_fields (f # fs) mdp =
     (case get_field f mdp of
        (Inl e, mdp') \<Rightarrow> (Inl e, mdp')
      | (Inr x, mdp') \<Rightarrow> apfst (map_sum id (\<lambda>xs. x # xs)) (get_fields fs mdp'))"

lemma put_field_mem:
  "put_field getm mbp f =
     mb_put_mem getm mbp (field_bytes f) (length (field_bytes f)) MB_MSYSTEM"
  by (cases f) (simp_all add: mb_put_uint8_def mb_put_uint16le_def mb_put_uint16be_def
      mb_put_uint32le_def mb_put_uint32be_def mb_put_uint64le_def mb_put_uint64be_def)

lemma get_field_mem:
  "get_field f mdp = (map_sum id (\<lambda>bs. case f of
        U8 _ \<Rightarrow> U8 (hd bs) | U16le _ \<Rightarrow> U16le (of_nat (le_dec bs)) | U16be _ \<Rightarrow> U16be (of_nat (be_dec bs))
      | U32le _ \<Rightarrow> U32le (of_nat (le_dec bs)) | U32be _ \<Rightarrow> U32be (of_nat (be_dec bs))
      | U64le _ \<Rightarrow> U64le (of_nat (le_dec bs)) | U64be _ \<Rightarrow> U64be (of_nat (be_dec bs))
      | Mem _ \<Rightarrow> Mem bs) (fst (md_get_mem mdp (length (field_bytes f)))),
    snd (md_get_mem mdp (length (field_bytes f))))"
  by (cases f; cases "md_get_mem mdp (length (field_bytes f))"; cases "fst (md_get_mem mdp (length (field_bytes f)))")
    (simp_all add: md_get_uint8_def md_get_uint16le_def md_get_uint16be_def
      md_get_uint32le_def md_get_uint32be_def md_get_uint64le_def md_get_uint64be_def)

lemma get_field_ok:
  assumes "md_inv mdp" and "md_rest mdp = field_bytes f @ bs"
  shows "get_field f mdp = (Inr f, snd (md_get_mem mdp (length (field_bytes f))))"
  using md_get_mem_spec(1) [OF assms(1), of "length (field_bytes f)"] assms(2)
  by (cases f) (simp_all add: get_field_mem word_decode)

lemma get_fields_ok:
  "md_inv mdp \<Longrightarrow> md_rest mdp = concat (map field_bytes fs) @ bs \<Longrightarrow>
     \<exists>mdp'. get_fields fs mdp = (Inr fs, mdp') \<and> md_inv mdp' \<and> md_rest mdp' = bs"
proof (induction fs arbitrary: mdp)
  case Nil
  then show ?case by simp
next
  case (Cons f fs)
  define mdp1 where "mdp1 = snd (md_get_mem mdp (length (field_bytes f)))"
  have f: "get_field f mdp = (Inr f, mdp1)"
    using get_field_ok [OF Cons.prems(1), of f "concat (map field_bytes fs) @ bs"] Cons.prems(2)
    by (simp add: mdp1_def)
  have "md_inv mdp1" "md_rest mdp1 = concat (map field_bytes fs) @ bs"
    using md_get_mem_spec [OF Cons.prems(1), of "length (field_bytes f)"] Cons.prems(2)
    by (simp_all add: mdp1_def)
  from Cons.IH [OF this] show ?case by (auto simp: f)
qed

definition xfer_post ::
  "bool \<Rightarrow> mbuf list \<Rightarrow> byte list \<Rightarrow> mbchain \<Rightarrow> nat \<Rightarrow> (errno \<times> nat \<times> nat \<times> mbchain) option \<Rightarrow> bool" where
  "xfer_post fl ms rest mbp sz r \<longleftrightarrow>
     (case r of
        None \<Rightarrow> False
      | Some (e, cur', pos', mbp') \<Rightarrow>
          if e = 0 then
            sz \<le> length rest \<and> mb_inv mbp' \<and> pos_inv ms cur' pos' \<and>
            mb_bytes mbp' = mb_bytes mbp @ take sz rest \<and> rest_bytes ms cur' pos' = drop sz rest
          else e = ENOBUFS \<and> fl \<or> e = EBADRPC \<and> length rest < sz)"

lemma xfer_post_take:
  assumes "xfer_post fl ms (drop c rest) mbp1 (sz - c) r"
    and "mb_bytes mbp1 = mb_bytes mbp @ take c rest" "c \<le> sz" "c \<le> length rest"
  shows "xfer_post fl ms rest mbp sz r"
proof -
  have "take c rest @ take (sz - c) (drop c rest) = take sz rest"
    using assms(3) by (simp add: take_add [symmetric])
  then show ?thesis
    using assms by (auto simp: xfer_post_def split: option.splits if_splits)
qed

context mbuf_allocator
begin

lemma put_fields_spec:
  assumes "wf" "mb_inv mbp"
  shows "\<exists>e mbp'. put_fields getm mbp fs = Some (e, mbp') \<and>
           (e = 0 \<longrightarrow> mb_inv mbp' \<and> mb_bytes mbp' = mb_bytes mbp @ concat (map field_bytes fs)) \<and>
           (e \<noteq> 0 \<longrightarrow> e = ENOBUFS \<and> getm_fails getm)"
  using assms(2)
proof (induction fs arbitrary: mbp)
  case Nil
  then show ?case by simp
next
  case (Cons f fs)
  from put_mem_spec [OF assms(1) Cons.prems, of MB_MSYSTEM "length (field_bytes f)" "field_bytes f"]
  obtain e mbp1 k where p: "put_field getm mbp f = Some (e, mbp1)"
    "mb_bytes mbp1 = mb_bytes mbp @ put_data MB_MSYSTEM (field_bytes f) k"
    "if e = 0 then k = length (field_bytes f) \<and> mb_inv mbp1 else e = ENOBUFS \<and> k < length (field_bytes f) \<and> getm_fails getm"
    by (auto simp: put_field_mem)
  show ?case
  proof (cases "e = 0")
    case True
    with p have "mb_inv mbp1" "mb_bytes mbp1 = mb_bytes mbp @ field_bytes f"
      by (simp_all add: put_data_def)
    with Cons.IH [OF this(1)] p(1) True show ?thesis by auto
  next
    case False
    with p show ?thesis by simp
  qed
qed

text \<open>A message put together field by field is read back field by field.\<close>

lemma fields_roundtrip:
  assumes "wf" "mb_inv mbp" and "put_fields getm mbp fs = Some (0, mbp')"
    and "md_get_mem (md_initm (mb_top mbp') pkts) (length (mb_bytes mbp)) = (r, mdp)"
  shows "r = Inr (mb_bytes mbp) \<and> (\<exists>mdp'. get_fields fs mdp = (Inr fs, mdp') \<and> md_rest mdp' = [])"
proof -
  from put_fields_spec [OF assms(1,2), of fs] assms(3)
  have p: "mb_inv mbp'" "mb_bytes mbp' = mb_bytes mbp @ concat (map field_bytes fs)" by auto
  define md0 where "md0 = md_initm (mb_top mbp') pkts"
  have ne: "mb_top mbp' \<noteq> []" using p(1) by (auto simp: mb_inv_def put_inv_def)
  have md0: "md_inv md0" "md_rest md0 = mb_bytes mbp'"
    using p(1) ne
    by (auto simp: md0_def md_initm_def md_inv_def pos_inv_def mb_inv_def put_inv_def md_rest_def
        rest_bytes_def mb_bytes_def neq_Nil_conv)
  have "r = Inr (mb_bytes mbp)" "md_inv mdp" "md_rest mdp = concat (map field_bytes fs) @ []"
    using md_get_mem_spec [OF md0(1), of "length (mb_bytes mbp)"] assms(4) md0(2) p(2)
    by (simp_all add: md0_def)
  with get_fields_ok [of mdp fs "[]"] show ?thesis by auto
qed

text \<open>Copying from one chain to another.\<close>

lemma md_put_loop_spec:
  assumes "wf" "pos_inv ms cur pos" "mb_inv mbp"
  shows "xfer_post (getm_fails getm) ms (rest_bytes ms cur pos) mbp sz (md_put_loop getm ms cur pos mbp sz)"
  using assms(2,3)
proof (induction "(length ms - cur) + sz" arbitrary: cur pos mbp sz rule: less_induct)
  case less
  show ?case
  proof (cases "sz > 0 \<and> cur < length ms")
    case False
    then show ?thesis using less.prems
      by (subst md_put_loop.simps) (auto simp: xfer_post_def rest_bytes_def)
  next
    case True
    define count where "count = m_len (ms ! cur) - pos"
    show ?thesis
    proof (cases "count = 0")
      case z: True
      note nx = rest_bytes_next [OF less.prems(1) conjunct2 [OF True] z [unfolded count_def]]
      have "xfer_post (getm_fails getm) ms (rest_bytes ms cur pos) mbp sz
          (md_put_loop getm ms (Suc cur) (if Suc cur < length ms then 0 else pos) mbp sz)"
        unfolding nx(1) [symmetric] using True by (intro less.hyps nx(2) less.prems(2)) auto
      then show ?thesis using True z
        by (subst md_put_loop.simps) (simp add: Let_def count_def)
    next
      case nz: False
      define c where "c = (if count > sz then sz else count)"
      have c: "c \<le> m_len (ms ! cur) - pos" "c \<le> sz" "0 < c"
        using nz True by (auto simp: c_def count_def)
      note tk = rest_bytes_take [OF less.prems(1) conjunct2 [OF True] c(1)]
      define piece where "piece = take c (drop pos (m_data (ms ! cur)))"
      have len: "length piece = c" using tk(1,4) by (simp add: piece_def)
      from put_mem_spec [OF assms(1) less.prems(2), of MB_MSYSTEM c piece] len
      obtain e mbp1 k where p: "mb_put_mem getm mbp piece c MB_MSYSTEM = Some (e, mbp1)"
        "mb_bytes mbp1 = mb_bytes mbp @ put_data MB_MSYSTEM piece k"
        "if e = 0 then k = c \<and> mb_inv mbp1 else e = ENOBUFS \<and> k < c \<and> getm_fails getm"
        by auto
      have unf: "md_put_loop getm ms cur pos mbp sz =
          (if e \<noteq> 0 then Some (e, cur, pos + c, mbp1)
           else md_put_loop getm ms cur (pos + c) mbp1 (sz - c))"
        using True nz p(1)
        by (subst md_put_loop.simps)
          (simp add: Let_def count_def [symmetric] c_def [symmetric] piece_def)
      show ?thesis
      proof (cases "e = 0")
        case False
        then show ?thesis using p(3) by (simp add: unf xfer_post_def)
      next
        case ok: True
        with p(2,3) len have b: "mb_inv mbp1" "mb_bytes mbp1 = mb_bytes mbp @ take c (rest_bytes ms cur pos)"
          using tk(1) by (simp_all add: put_data_def piece_def)
        have "xfer_post (getm_fails getm) ms (drop c (rest_bytes ms cur pos)) mbp1 (sz - c)
            (md_put_loop getm ms cur (pos + c) mbp1 (sz - c))"
          using less.hyps [OF _ tk(3) b(1), of "sz - c"] c True unfolding tk(2) by simp
        from xfer_post_take [OF this b(2) c(2) tk(4)] ok show ?thesis by (simp add: unf)
      qed
    qed
  qed
qed

end

section \<open>Strings, records and the user space additions\<close>

text \<open>A scan over bytes that split at a whole unit.\<close>

lemma utf16_scan_append:
  "even (length xs) \<Longrightarrow>
     utf16_scan (xs @ ys) =
       (if snd (utf16_scan xs) then utf16_scan xs
        else (length xs + fst (utf16_scan ys), snd (utf16_scan ys)))"
  by (induction xs rule: utf16_scan.induct) (auto simp: split_def Let_def)

lemma utf16_scan_take_even:
  "utf16_scan (take (length xs - length xs mod 2) xs) = utf16_scan xs"
proof (induction xs rule: utf16_scan.induct)
  case (1 a b rest)
  have "Suc (Suc (length rest)) - length rest mod 2 = Suc (Suc (length rest - length rest mod 2))"
    by (metis Suc_diff_le mod_less_eq_dividend le_SucI)
  with 1 show ?case by (simp add: split_def)
qed auto

lemma utf16_scan_bound: "\<not> snd (utf16_scan xs) \<Longrightarrow> even (length xs) \<Longrightarrow> fst (utf16_scan xs) = length xs"
  by (induction xs rule: utf16_scan.induct) (auto simp: split_def Let_def split: if_splits)

text \<open>
  When every mbuf but the last has an even number of bytes left to scan, the routine returns the
  length of the string up to its terminator.
\<close>

primrec even_splits :: "mbuf list \<Rightarrow> nat \<Rightarrow> bool" where
  "even_splits [] s = True"
| "even_splits (m # rest) s = (rest = [] \<or> even (m_len m - s) \<and> even_splits rest 0)"

lemma utf16_strlen_loop_even:
  assumes "\<forall>m \<in> set ms. mbuf_wf m" "even_splits ms s"
  shows "utf16_strlen_loop ms s sz =
           sz + fst (utf16_scan (drop s (chain_bytes (take 1 ms)) @ chain_bytes (drop 1 ms)))"
  using assms
proof (induction ms arbitrary: s sz)
  case Nil
  then show ?case by simp
next
  case (Cons m rest)
  define count where "count = m_len m - s"
  define bs where "bs = drop s (mbuf_bytes m)"
  have bs: "bs = take count (drop s (m_data m))"
    by (simp add: bs_def count_def mbuf_bytes_def drop_take)
  have lb1: "length bs = count"
    using Cons.prems(1) by (auto simp: bs count_def mbuf_wf_def)
  have "take (count - count mod 2) (drop s (m_data m)) = take (length bs - length bs mod 2) bs"
    unfolding lb1 by (simp add: bs min_def)
  note lb = lb1 this
  have scan: "utf16_scan (take (count - count mod 2) (drop s (m_data m))) = utf16_scan bs"
    unfolding lb(2) by (rule utf16_scan_take_even)
  show ?case
  proof (cases "snd (utf16_scan bs) \<or> rest = []")
    case True
    then show ?thesis
    proof
      assume f: "snd (utf16_scan bs)"
      show ?thesis
      proof (cases "rest = []")
        case True
        then show ?thesis using scan f
          by (simp add: Let_def split_def count_def [symmetric] bs_def)
      next
        case False
        then have "even (length bs)" using Cons.prems(2) lb(1) by (simp add: count_def)
        then show ?thesis using scan f utf16_scan_append [of bs "chain_bytes rest"]
          by (simp add: Let_def split_def count_def [symmetric] bs_def [symmetric])
      qed
    next
      assume "rest = []"
      then show ?thesis using scan
        by (simp add: Let_def split_def count_def [symmetric] bs_def)
    qed
  next
    case False
    then obtain m' rest' where rest: "rest = m' # rest'" by (cases rest) auto
    have ev: "even count" "even (length bs)" "even_splits rest 0"
      using Cons.prems(2) lb(1) rest by (auto simp: count_def)
    have n: "fst (utf16_scan bs) = count" using False ev lb(1) utf16_scan_bound by simp
    have "utf16_strlen_loop (m # rest) s sz = utf16_strlen_loop rest 0 (sz + count)"
      using scan False ev(1) n rest by (simp add: Let_def split_def count_def [symmetric])
    also have "\<dots> = sz + count + fst (utf16_scan (chain_bytes rest))"
      using Cons.IH [of 0 "sz + count"] Cons.prems(1) ev(3) rest by simp
    finally show ?thesis
      using utf16_scan_append [OF ev(2), of "chain_bytes rest"] False lb(1)
      by (simp add: bs_def [symmetric])
  qed
qed

text \<open>The packets waiting in an \<open>mdchain\<close>, in the order of their arrival.\<close>

definition md_packets :: "mdchain \<Rightarrow> mbuf list list" where
  "md_packets mdp = (if md_top mdp = [] then [] else md_top mdp # md_nextpkt mdp)"

lemma m_fixhdr_bytes [simp]: "chain_bytes (snd (m_fixhdr ms)) = chain_bytes ms"
  by (simp add: m_fixhdr_def Let_def mbuf_pkthdr_setlen_def split: list.splits)

lemma m_fixhdr_wf:
  "\<forall>m \<in> set ms. mbuf_wf m \<Longrightarrow> \<forall>m \<in> set (snd (m_fixhdr ms)). mbuf_wf m"
  by (auto simp: m_fixhdr_def Let_def mbuf_pkthdr_setlen_def split: list.splits)

lemma md_get_size_rest:
  assumes "md_inv mdp"
  shows "md_get_size mdp = length (md_rest mdp)"
proof (cases "md_cur mdp < length (md_top mdp)")
  case True
  have wf: "\<forall>m \<in> set (drop (Suc (md_cur mdp)) (md_top mdp)). mbuf_wf m" "mbuf_wf (md_top mdp ! md_cur mdp)"
    using assms True by (auto simp: md_inv_def pos_inv_def dest: in_set_dropD)
  show ?thesis
    using True length_chain_bytes [OF wf(1)] length_mbuf_bytes [OF wf(2)]
    by (simp add: md_get_size_def md_rest_def rest_bytes_def Cons_nth_drop_Suc [symmetric])
qed (simp add: md_get_size_def md_rest_def rest_bytes_def)

lemma md_initm_inv:
  assumes "\<forall>m \<in> set ms. mbuf_wf m"
  shows "md_inv (md_initm ms pkts)" "md_rest (md_initm ms pkts) = chain_bytes ms"
  using assms
  by (cases ms; auto simp: md_initm_def md_inv_def pos_inv_def md_rest_def rest_bytes_def)+

section \<open>Properties\<close>

text \<open>Concrete instances for the witnesses: storage of three bytes per mbuf, and chains over it.\<close>

definition wit_kpi :: kpi where
  "wit_kpi = \<lparr>kpi_get = (\<lambda>_. Some [7, 7, 7]), kpi_mclget = (\<lambda>_. Some [7, 7, 7]), kpi_minclsize = 2\<rparr>"

definition wit_mbp :: mbchain where
  "wit_mbp = mb_initm [\<lparr>m_flags = 2, m_data = [1, 2, 9, 9], m_len = 2, m_pkthdr_len = 0\<rparr>]"

definition wit_mdp :: mdchain where
  "wit_mdp = md_initm [\<lparr>m_flags = 2, m_data = [65, 0, 66], m_len = 3, m_pkthdr_len = 0\<rparr>,
                       \<lparr>m_flags = 0, m_data = [0, 0, 0, 5], m_len = 3, m_pkthdr_len = 0\<rparr>] []"

lemma wit_kpi_wf: "kpi_wf wit_kpi" "\<not> kpi_fails wit_kpi"
  by (simp_all add: wit_kpi_def kpi_wf_def kpi_fails_def)

lemma wit_mbp_inv: "mb_inv wit_mbp" "mb_bytes wit_mbp = [1, 2]" "mb_mleft wit_mbp = 2"
  by (simp_all add: wit_mbp_def mb_initm_def mb_inv_def put_inv_def mb_bytes_def mbuf_bytes_def
      mbuf_wf_def mbuf_trailingspace_def)

lemma wit_mdp_inv: "md_inv wit_mdp" "md_rest wit_mdp = [65, 0, 66, 0, 0, 0]"
  by (simp_all add: wit_mdp_def md_initm_def md_inv_def pos_inv_def md_rest_def rest_bytes_def
      mbuf_bytes_def mbuf_wf_def)

text \<open>In the kernel a put always returns. Unless an allocation fails it succeeds; then the message
  is extended by exactly the source bytes (or zeros), both counters grow by their number and the
  chain's invariant is kept. A failed put reports ENOBUFS and has appended a proper prefix.\<close>

lemma mb_put_mem_appends:
  assumes "kpi_wf kpi" "mb_inv mbp" "type \<noteq> MB_MCUSTOM" "type = MB_MZERO \<or> sz \<le> length source"
  shows "\<exists>e mbp' k. mb_put_mem (smb_mbuf_getm kpi) mbp source sz type = Some (e, mbp') \<and>
           mb_bytes mbp' = mb_bytes mbp @ put_data type source k \<and>
           mb_count mbp' = mb_count mbp + k \<and> mb_len mbp' = mb_len mbp + k \<and>
           (if e = 0 then k = sz \<and> mb_inv mbp' else e = ENOBUFS \<and> k < sz \<and> kpi_fails kpi)"
proof -
  from kernel_mbufs.put_mem_spec [OF assms] obtain e mbp' k where
    "mb_put_mem (smb_mbuf_getm kpi) mbp source sz type = Some (e, mbp')"
    "mb_bytes mbp' = mb_bytes mbp @ put_data type source k"
    "mb_count mbp' = mb_count mbp + k" "mb_len mbp' = mb_len mbp + k"
    "if e = 0 then k = sz \<and> mb_inv mbp'
     else e = ENOBUFS \<and> k < sz \<and> getm_fails (smb_mbuf_getm kpi)"
    by blast
  then show ?thesis using smb_mbuf_getm_fails [OF assms(1)]
    by (intro exI [of _ e] exI [of _ mbp'] exI [of _ k]) (auto split: if_splits)
qed

text \<open>Reading \<open>sz\<close> bytes from a received chain returns exactly the next \<open>sz\<close> bytes, across the
  borders of the mbufs, advances past them and counts them; when fewer are left it fails with EBADRPC,
  and then nothing is left to read and the count is unchanged. The position stays inside the chain.\<close>

lemma md_get_mem_reads:
  assumes "md_inv mdp"
  shows "fst (md_get_mem mdp sz) =
           (if sz \<le> length (md_rest mdp) then Inr (take sz (md_rest mdp)) else Inl EBADRPC) \<and>
         md_rest (snd (md_get_mem mdp sz)) = drop sz (md_rest mdp) \<and>
         md_inv (snd (md_get_mem mdp sz)) \<and>
         md_len (snd (md_get_mem mdp sz)) =
           (if sz \<le> length (md_rest mdp) then md_len mdp + sz else md_len mdp)"
  using md_get_mem_spec [OF assms, of sz] by blast

text \<open>C24: A message put together by any sequence of typed puts (8 to 64 bit integers in either byte
  order, and byte strings) behind what a chain already holds is read back, field by field and value by
  value, by the same sequence of typed gets, and nothing is left over.\<close>

theorem fields_put_get:
  assumes "kpi_wf kpi" "mb_inv mbp" and "put_fields (smb_mbuf_getm kpi) mbp fs = Some (0, mbp')"
    and "md_get_mem (md_initm (mb_top mbp') pkts) (length (mb_bytes mbp)) = (r, mdp)"
  shows "r = Inr (mb_bytes mbp) \<and> (\<exists>mdp'. get_fields fs mdp = (Inr fs, mdp') \<and> md_rest mdp' = [])"
  using assms by (rule kernel_mbufs.fields_roundtrip)

theorem fields_put_get_witness:
  "\<exists>mbp' r mdp mdp'.
     put_fields (smb_mbuf_getm wit_kpi) wit_mbp [U16le 0x1234, U32be 5, Mem [1, 2, 3]] = Some (0, mbp') \<and>
     md_get_mem (md_initm (mb_top mbp') []) 2 = (r, mdp) \<and> r = Inr [1, 2] \<and>
     get_fields [U16le 0x1234, U32be 5, Mem [1, 2, 3]] mdp =
       (Inr [U16le 0x1234, U32be 5, Mem [1, 2, 3]], mdp')"
proof -
  let ?fs = "[U16le 0x1234, U32be 5, Mem [1, 2, 3]]"
  have "\<not> getm_fails (smb_mbuf_getm wit_kpi)"
    using smb_mbuf_getm_fails [OF wit_kpi_wf(1)] wit_kpi_wf(2) by blast
  with kernel_mbufs.put_fields_spec [OF wit_kpi_wf(1) wit_mbp_inv(1), of ?fs] obtain mbp' where
    p: "put_fields (smb_mbuf_getm wit_kpi) wit_mbp ?fs = Some (0, mbp')" by blast
  obtain r mdp where g: "md_get_mem (md_initm (mb_top mbp') []) (length (mb_bytes wit_mbp)) = (r, mdp)"
    by fastforce
  from fields_put_get [OF wit_kpi_wf(1) wit_mbp_inv(1) p g] p g show ?thesis
    by (auto simp: wit_mbp_inv(2) numeral_2_eq_2)
qed

text \<open>Copying \<open>sz\<close> bytes from a received chain to a chain under construction, in the kernel, always
  returns; when it succeeds the target is extended by exactly the next \<open>sz\<close> bytes of the source and
  the source is advanced past them. It fails only when an allocation fails (ENOBUFS) or the source is
  too short (EBADRPC).\<close>

lemma md_get_mem_put_mem_copies:
  assumes "kpi_wf kpi" "md_inv mdp" "mb_inv mbp"
  shows "\<exists>e mdp' mbp'. md_get_mem_put_mem (smb_mbuf_getm kpi) mdp mbp sz = Some (e, mdp', mbp') \<and>
           (if e = 0
            then sz \<le> length (md_rest mdp) \<and> mb_inv mbp' \<and> md_inv mdp' \<and>
                 mb_bytes mbp' = mb_bytes mbp @ take sz (md_rest mdp) \<and>
                 md_rest mdp' = drop sz (md_rest mdp) \<and> md_len mdp' = md_len mdp + sz
            else e = ENOBUFS \<and> kpi_fails kpi \<or> e = EBADRPC \<and> length (md_rest mdp) < sz)"
  using kernel_mbufs.md_put_loop_spec [OF assms(1) assms(2) [unfolded md_inv_def] assms(3), of sz]
    smb_mbuf_getm_fails [OF assms(1)]
  by (auto simp: md_get_mem_put_mem_def xfer_post_def md_rest_def md_inv_def Let_def
      split: option.splits if_splits)

text \<open>The kernel's allocation loop returns, and the mbufs it gives have together at least the room
  that was asked for; it gives none only when an allocation failed.\<close>

theorem smb_mbuf_getm_covers:
  assumes "kpi_wf kpi"
  shows "\<exists>r. smb_mbuf_getm kpi len = Some r \<and>
           (case r of None \<Rightarrow> kpi_fails kpi
            | Some ms \<Rightarrow> ms \<noteq> [] \<and> len \<le> sum_list (map mbuf_trailingspace ms) \<and>
                chain_bytes ms = [])"
  using smb_mbuf_getm_spec [OF assms, of len]
  by (auto simp: chain_bytes_empty split: option.splits)

text \<open>A place reserved in a message stays valid: the bytes stored through it appear exactly at the
  end of the message as it was before the reservation, and the invariant and the place are kept.\<close>

theorem mb_reserve_store:
  assumes "mb_inv mbp" and "nm = None \<or> m_len (the nm) = 0"
    and "mb_reserve nm mbp (length bs) = (Some p, mbp')"
  shows "mb_bytes (mb_store mbp' p bs) = mb_bytes mbp @ bs \<and> mb_inv (mb_store mbp' p bs) \<and>
         mb_place (mb_store mbp' p bs) p (length (mb_bytes mbp)) (length bs) \<and>
         mb_len (mb_store mbp' p bs) = mb_len mbp + length bs"
proof -
  have nm: "\<And>n. nm = Some n \<Longrightarrow> m_len n = 0" using assms(2) by auto
  note r = mb_reserve_spec [OF assms(1) nm assms(3)]
  from r(2) obtain junk where "length junk = length bs" "mb_bytes mbp' = mb_bytes mbp @ junk" by blast
  then have "mb_bytes (mb_store mbp' p bs) = mb_bytes mbp @ bs"
    using mb_store_bytes [OF r(1,3)] by simp
  then show ?thesis using mb_store_inv [OF r(1,3)] mb_store_place [OF r(1,3,3)] r(4) by simp
qed

text \<open>Collapsing a chain in user space keeps the message byte for byte, and leaves one mbuf that
  holds all of it; it fails only when the allocation does, and then the message is still unchanged.\<close>

theorem mb_pullup_keeps_message:
  assumes "malloc_wf malloc" "\<forall>m \<in> set (mb_top mbp). mbuf_wf m" "mb_pullup malloc mbp = (e, mbp')"
  shows "mb_bytes mbp' = mb_bytes mbp \<and>
         (e = 0 \<longrightarrow> length (mb_top mbp') \<le> 1) \<and>
         (e \<noteq> 0 \<longrightarrow> e = ENOMEM)"
proof (cases "length (mb_top mbp) \<le> 1")
  case True
  then show ?thesis using assms(3) by (auto simp: mb_pullup_def)
next
  case False
  define ms where "ms = snd (m_fixhdr (mb_top mbp))"
  define sz where "sz = fst (m_fixhdr (mb_top mbp))"
  have ms: "chain_bytes ms = mb_bytes mbp" "\<forall>m \<in> set ms. mbuf_wf m"
    using m_fixhdr_wf [OF assms(2)] by (simp_all add: ms_def mb_bytes_def)
  have sz: "sz = length (chain_bytes ms)"
    using length_chain_bytes [OF assms(2)] unfolding ms(1)
    by (simp add: mb_bytes_def sz_def m_fixhdr_def Let_def)
  have cp: "mbuf_copydata ms 0 sz = Inr (mb_bytes mbp)"
    using mbuf_copydata_eq [OF ms(2), of 0 sz] sz ms(1) by simp
  have fh: "mb_fixhdr mbp = (sz, mbp\<lparr>mb_top := ms\<rparr>)"
    by (simp add: mb_fixhdr_def sz_def ms_def split: prod.splits)
  show ?thesis
    using False assms(3) cp ms(1) sz unfolding mb_pullup_def fh
    by (auto simp: Let_def mb_bytes_def mbuf_bytes_def mbuf_setlen_def mbuf_pkthdr_setlen_def
        mbuf_getcluster_def smb_mbuf_get_def MBUF_TYPE_DATA_def MBUF_WAITOK_def
        split: sum.splits option.splits if_splits)
qed

text \<open>When the user space buffer routine has to add an mbuf while the current one has room left, it
  records more room than the new mbuf has, by exactly the room that was left: a later put of that much
  data is written past the end of the mbuf's storage.\<close>

lemma mb_getbuffer_overstates_room:
  assumes "malloc_wf malloc" "mb_inv mbp" "mb_mleft mbp < sz" "mb_getbuffer malloc mbp sz = Some (p, mbp')"
  shows "mb_mleft mbp' = mbuf_trailingspace (mb_top mbp' ! mb_cur mbp') + mb_mleft mbp \<and>
         (0 < mb_mleft mbp \<longrightarrow> \<not> mb_inv mbp')"
proof -
  from assms(3,4) obtain nm where nm:
    "mbuf_getcluster malloc MBUF_WAITOK MBUF_TYPE_DATA (mb_mleft mbp + sz) = Inr nm"
    "mbp' = mbp\<lparr>mb_top := take (Suc (mb_cur mbp)) (mb_top mbp) @ [mbuf_setlen nm 0],
                mb_cur := Suc (mb_cur mbp),
                mb_mleft := mb_mleft mbp + mbuf_trailingspace (mbuf_setlen nm 0)\<rparr>"
    by (auto simp: mb_getbuffer_def Let_def split: sum.splits)
  have "mb_cur mbp < length (mb_top mbp)" using assms(2) by (simp add: mb_inv_def put_inv_def)
  then have "mb_top mbp' ! mb_cur mbp' = mbuf_setlen nm 0" by (simp add: nm(2) nth_append)
  then show ?thesis by (simp add: nm(2) mb_inv_def put_inv_def)
qed

text \<open>A put that fails after it has filled the current mbuf leaves the record of the room in that mbuf
  as it was before the call, although the mbuf has none left: a chain is not usable after a failed
  put.\<close>

lemma mb_put_mem_failure_stale:
  assumes "mb_inv mbp" "Suc (mb_cur mbp) = length (mb_top mbp)" "0 < mb_mleft mbp" "mb_mleft mbp < sz"
    and "sz \<le> length source" "getm (sz - mb_mleft mbp) = Some None"
  shows "\<exists>mbp'. mb_put_mem getm mbp source sz MB_MSYSTEM = Some (ENOBUFS, mbp') \<and>
           mb_mleft mbp' = mb_mleft mbp \<and> mbuf_trailingspace (mb_top mbp' ! mb_cur mbp') = 0 \<and>
           \<not> mb_inv mbp'"
proof -
  let ?c = "mb_mleft mbp" and ?ms = "mb_top mbp" and ?m = "mb_cur mbp"
  let ?ms' = "?ms[?m := mbuf_put MB_MSYSTEM (?ms ! ?m) source ?c]"
  have m: "?m < length ?ms" "mbuf_wf (?ms ! ?m)" "?c = mbuf_trailingspace (?ms ! ?m)"
    using assms(1) by (auto simp: mb_inv_def put_inv_def)
  have "mb_put_loop getm MB_MSYSTEM ?ms ?m ?c source sz 0 =
      mb_put_loop getm MB_MSYSTEM ?ms' ?m 0 (drop ?c source) (sz - ?c) ?c"
    using assms(3,4) by (subst mb_put_loop.simps) (simp add: Let_def)
  also have "\<dots> = Some (ENOBUFS, ?ms', ?m, 0, ?c)"
    using assms(2,4,6) by (subst mb_put_loop.simps) simp
  finally have "mb_put_mem getm mbp source sz MB_MSYSTEM =
      Some (ENOBUFS, mbp\<lparr>mb_top := ?ms', mb_count := mb_count mbp + ?c, mb_len := mb_len mbp + ?c\<rparr>)"
    by (simp add: mb_put_mem_def Let_def)
  moreover have "mbuf_trailingspace (mbuf_put MB_MSYSTEM (?ms ! ?m) source ?c) = 0"
    using mbuf_put_simps(3) [OF m(2), of ?c MB_MSYSTEM source] m(3) assms(4,5) by simp
  ultimately show ?thesis using m(1) assms(3)
    by (simp add: mb_inv_def put_inv_def)
qed

text \<open>When every mbuf but the last has an even number of bytes to scan, the length of a UTF-16 string
  is the number of bytes before its zero unit, or before the end when there is none, wherever the mbufs
  split.\<close>

lemma md_get_utf16_strlen_even:
  assumes "md_inv mdp" "md_cur mdp < length (md_top mdp)"
    and "even_splits (drop (md_cur mdp) (md_top mdp)) (md_pos mdp)"
  shows "md_get_utf16_strlen mdp = fst (utf16_scan (md_rest mdp))"
proof -
  have "\<forall>m \<in> set (drop (md_cur mdp) (md_top mdp)). mbuf_wf m"
    using assms(1) by (auto simp: md_inv_def pos_inv_def dest: in_set_dropD)
  from utf16_strlen_loop_even [OF this assms(3), of 0] assms(2) show ?thesis
    by (simp add: md_get_utf16_strlen_def md_rest_def rest_bytes_def
        drop_eq_Cons_nth [of "md_cur mdp"])
qed

text \<open>When an mbuf has an odd number of bytes the unit that crosses into the next one is not counted:
  for the string AB, its second unit split between two mbufs, the routine returns 2 where the string
  is 4 bytes long.\<close>

lemma md_get_utf16_strlen_odd_split:
  "md_inv wit_mdp \<and> md_get_utf16_strlen wit_mdp = 2 \<and> fst (utf16_scan (md_rest wit_mdp)) = 4"
proof -
  have "md_get_utf16_strlen wit_mdp = 2"
    by (simp add: wit_mdp_def md_initm_def md_get_utf16_strlen_def Let_def)
  then show ?thesis using wit_mdp_inv by (simp add: Let_def)
qed

text \<open>The packets of a receive chain form a first-in first-out queue: appending adds a packet at the
  end, the next-record operation drops the current one, makes the following one current with the
  position at its start, and reports ENOENT exactly when there is no following one.\<close>

theorem md_records_fifo:
  assumes "pkt \<noteq> []" "\<forall>p \<in> set (md_nextpkt mdp). p \<noteq> []"
  shows "md_packets (md_append_record mdp pkt) = md_packets mdp @ [pkt] \<and>
         md_packets (snd (md_next_record mdp)) = tl (md_packets mdp) \<and>
         (fst (md_next_record mdp) = (if length (md_packets mdp) \<le> 1 then ENOENT else 0)) \<and>
         (fst (md_next_record mdp) = 0 \<longrightarrow>
            md_rest (snd (md_next_record mdp)) = chain_bytes (md_packets mdp ! 1) \<and>
            md_len (snd (md_next_record mdp)) = 0)"
  using assms
  by (auto simp: md_packets_def md_append_record_def md_next_record_def md_initm_def md_done_def
      md_rest_def rest_bytes_def neq_Nil_conv split: list.splits)

end
