(* ===== verification/ErrMap.thy ===== *)
theory ErrMap
  imports Prelude
begin

text \<open>
  Error translation (kernel/netsmb/smb\_subr.c): the DOS, server and hardware class codes of SMB 1 to
  NT status values, and NT status values to errno. The status values are those of
  lib/smbclient/ntstatus.inc and the class codes those of lib/smbclient/ntstatus.h; the tables keep the
  order of the source. An errno is modelled as the number itself, \<open>0\<close> for success; the negative
  values of kernel/netsmb/smb\_dev.h keep their sign.
\<close>

section \<open>NT status values\<close>

abbreviation (input) STATUS_SUCCESS :: u32 where "STATUS_SUCCESS \<equiv> 0x00000000"
abbreviation (input) STATUS_NOTIFY_ENUM_DIR :: u32 where "STATUS_NOTIFY_ENUM_DIR \<equiv> 0x0000010C"
abbreviation (input) STATUS_NOTIFY_CLEANUP :: u32 where "STATUS_NOTIFY_CLEANUP \<equiv> 0x0000010B"
abbreviation (input) STATUS_BUFFER_OVERFLOW :: u32 where "STATUS_BUFFER_OVERFLOW \<equiv> 0x80000005"
abbreviation (input) STATUS_NO_MORE_FILES :: u32 where "STATUS_NO_MORE_FILES \<equiv> 0x80000006"
abbreviation (input) STATUS_STOPPED_ON_SYMLINK :: u32 where "STATUS_STOPPED_ON_SYMLINK \<equiv> 0x8000002D"
abbreviation (input) STATUS_UNSUCCESSFUL :: u32 where "STATUS_UNSUCCESSFUL \<equiv> 0xC0000001"
abbreviation (input) STATUS_NETWORK_SESSION_EXPIRED :: u32 where "STATUS_NETWORK_SESSION_EXPIRED \<equiv> 0xC000035C"
abbreviation (input) STATUS_PENDING :: u32 where "STATUS_PENDING \<equiv> 0x00000103"
abbreviation (input) STATUS_LOGON_TYPE_NOT_GRANTED :: u32 where "STATUS_LOGON_TYPE_NOT_GRANTED \<equiv> 0xC000015B"
abbreviation (input) STATUS_NO_LOGON_SERVERS :: u32 where "STATUS_NO_LOGON_SERVERS \<equiv> 0xC000005E"
abbreviation (input) STATUS_ACCESS_DENIED :: u32 where "STATUS_ACCESS_DENIED \<equiv> 0xC0000022"
abbreviation (input) STATUS_ACCESS_VIOLATION :: u32 where "STATUS_ACCESS_VIOLATION \<equiv> 0xC0000005"
abbreviation (input) STATUS_PRIVILEGE_NOT_HELD :: u32 where "STATUS_PRIVILEGE_NOT_HELD \<equiv> 0xC0000061"
abbreviation (input) STATUS_ACCOUNT_DISABLED :: u32 where "STATUS_ACCOUNT_DISABLED \<equiv> 0xC0000072"
abbreviation (input) STATUS_ACCOUNT_RESTRICTION :: u32 where "STATUS_ACCOUNT_RESTRICTION \<equiv> 0xC000006E"
abbreviation (input) STATUS_LOGIN_TIME_RESTRICTION :: u32 where "STATUS_LOGIN_TIME_RESTRICTION \<equiv> 0xC0000247"
abbreviation (input) STATUS_ACCOUNT_LOCKED_OUT :: u32 where "STATUS_ACCOUNT_LOCKED_OUT \<equiv> 0xC0000234"
abbreviation (input) STATUS_INVALID_ACCOUNT_NAME :: u32 where "STATUS_INVALID_ACCOUNT_NAME \<equiv> 0xC0000062"
abbreviation (input) STATUS_PWD_TOO_SHORT :: u32 where "STATUS_PWD_TOO_SHORT \<equiv> 0xC000025A"
abbreviation (input) STATUS_PWD_TOO_RECENT :: u32 where "STATUS_PWD_TOO_RECENT \<equiv> 0xC000025B"
abbreviation (input) STATUS_PWD_HISTORY_CONFLICT :: u32 where "STATUS_PWD_HISTORY_CONFLICT \<equiv> 0xC000025C"
abbreviation (input) STATUS_ACCOUNT_EXPIRED :: u32 where "STATUS_ACCOUNT_EXPIRED \<equiv> 0xC0000193"
abbreviation (input) STATUS_PASSWORD_EXPIRED :: u32 where "STATUS_PASSWORD_EXPIRED \<equiv> 0xC0000071"
abbreviation (input) STATUS_PASSWORD_RESTRICTION :: u32 where "STATUS_PASSWORD_RESTRICTION \<equiv> 0xC000006C"
abbreviation (input) STATUS_PASSWORD_MUST_CHANGE :: u32 where "STATUS_PASSWORD_MUST_CHANGE \<equiv> 0xC0000224"
abbreviation (input) STATUS_INVALID_LOGON_HOURS :: u32 where "STATUS_INVALID_LOGON_HOURS \<equiv> 0xC000006F"
abbreviation (input) STATUS_ADDRESS_ALREADY_EXISTS :: u32 where "STATUS_ADDRESS_ALREADY_EXISTS \<equiv> 0xC000020A"
abbreviation (input) STATUS_BAD_NETWORK_NAME :: u32 where "STATUS_BAD_NETWORK_NAME \<equiv> 0xC00000CC"
abbreviation (input) STATUS_NETWORK_NAME_DELETED :: u32 where "STATUS_NETWORK_NAME_DELETED \<equiv> 0xC00000C9"
abbreviation (input) STATUS_DUPLICATE_NAME :: u32 where "STATUS_DUPLICATE_NAME \<equiv> 0xC00000BD"
abbreviation (input) STATUS_BAD_NETWORK_PATH :: u32 where "STATUS_BAD_NETWORK_PATH \<equiv> 0xC00000BE"
abbreviation (input) STATUS_BUFFER_TOO_SMALL :: u32 where "STATUS_BUFFER_TOO_SMALL \<equiv> 0xC0000023"
abbreviation (input) STATUS_INVALID_BUFFER_SIZE :: u32 where "STATUS_INVALID_BUFFER_SIZE \<equiv> 0xC0000206"
abbreviation (input) STATUS_CONFLICTING_ADDRESSES :: u32 where "STATUS_CONFLICTING_ADDRESSES \<equiv> 0xC0000018"
abbreviation (input) STATUS_CONNECTION_ABORTED :: u32 where "STATUS_CONNECTION_ABORTED \<equiv> 0xC0000241"
abbreviation (input) STATUS_CONNECTION_DISCONNECTED :: u32 where "STATUS_CONNECTION_DISCONNECTED \<equiv> 0xC000020C"
abbreviation (input) STATUS_CONNECTION_REFUSED :: u32 where "STATUS_CONNECTION_REFUSED \<equiv> 0xC0000236"
abbreviation (input) STATUS_CONNECTION_RESET :: u32 where "STATUS_CONNECTION_RESET \<equiv> 0xC000020D"
abbreviation (input) STATUS_DEVICE_DOES_NOT_EXIST :: u32 where "STATUS_DEVICE_DOES_NOT_EXIST \<equiv> 0xC00000C0"
abbreviation (input) STATUS_DEVICE_PROTOCOL_ERROR :: u32 where "STATUS_DEVICE_PROTOCOL_ERROR \<equiv> 0xC0000186"
abbreviation (input) STATUS_DIRECTORY_NOT_EMPTY :: u32 where "STATUS_DIRECTORY_NOT_EMPTY \<equiv> 0xC0000101"
abbreviation (input) STATUS_DISK_FULL :: u32 where "STATUS_DISK_FULL \<equiv> 0xC000007F"
abbreviation (input) STATUS_DLL_NOT_FOUND :: u32 where "STATUS_DLL_NOT_FOUND \<equiv> 0xC0000135"
abbreviation (input) STATUS_END_OF_FILE :: u32 where "STATUS_END_OF_FILE \<equiv> 0xC0000011"
abbreviation (input) STATUS_FILE_IS_A_DIRECTORY :: u32 where "STATUS_FILE_IS_A_DIRECTORY \<equiv> 0xC00000BA"
abbreviation (input) STATUS_FILE_LOCK_CONFLICT :: u32 where "STATUS_FILE_LOCK_CONFLICT \<equiv> 0xC0000054"
abbreviation (input) STATUS_LOCK_NOT_GRANTED :: u32 where "STATUS_LOCK_NOT_GRANTED \<equiv> 0xC0000055"
abbreviation (input) STATUS_FLOAT_INEXACT_RESULT :: u32 where "STATUS_FLOAT_INEXACT_RESULT \<equiv> 0xC000008F"
abbreviation (input) STATUS_FLOAT_OVERFLOW :: u32 where "STATUS_FLOAT_OVERFLOW \<equiv> 0xC0000091"
abbreviation (input) STATUS_FLOAT_UNDERFLOW :: u32 where "STATUS_FLOAT_UNDERFLOW \<equiv> 0xC0000093"
abbreviation (input) STATUS_HOST_UNREACHABLE :: u32 where "STATUS_HOST_UNREACHABLE \<equiv> 0xC000023D"
abbreviation (input) STATUS_ILL_FORMED_PASSWORD :: u32 where "STATUS_ILL_FORMED_PASSWORD \<equiv> 0xC000006B"
abbreviation (input) STATUS_INTEGER_OVERFLOW :: u32 where "STATUS_INTEGER_OVERFLOW \<equiv> 0xC0000095"
abbreviation (input) STATUS_FILE_CLOSED :: u32 where "STATUS_FILE_CLOSED \<equiv> 0xC0000128"
abbreviation (input) STATUS_INVALID_HANDLE :: u32 where "STATUS_INVALID_HANDLE \<equiv> 0xC0000008"
abbreviation (input) STATUS_INVALID_PARAMETER :: u32 where "STATUS_INVALID_PARAMETER \<equiv> 0xC000000D"
abbreviation (input) STATUS_INVALID_PIPE_STATE :: u32 where "STATUS_INVALID_PIPE_STATE \<equiv> 0xC00000AD"
abbreviation (input) STATUS_INVALID_WORKSTATION :: u32 where "STATUS_INVALID_WORKSTATION \<equiv> 0xC0000070"
abbreviation (input) STATUS_IN_PAGE_ERROR :: u32 where "STATUS_IN_PAGE_ERROR \<equiv> 0xC0000006"
abbreviation (input) STATUS_IO_TIMEOUT :: u32 where "STATUS_IO_TIMEOUT \<equiv> 0xC00000B5"
abbreviation (input) STATUS_IP_ADDRESS_CONFLICT1 :: u32 where "STATUS_IP_ADDRESS_CONFLICT1 \<equiv> 0xC0000254"
abbreviation (input) STATUS_IP_ADDRESS_CONFLICT2 :: u32 where "STATUS_IP_ADDRESS_CONFLICT2 \<equiv> 0xC0000255"
abbreviation (input) STATUS_LICENSE_QUOTA_EXCEEDED :: u32 where "STATUS_LICENSE_QUOTA_EXCEEDED \<equiv> 0xC0000259"
abbreviation (input) STATUS_LOGON_FAILURE :: u32 where "STATUS_LOGON_FAILURE \<equiv> 0xC000006D"
abbreviation (input) STATUS_MEDIA_WRITE_PROTECTED :: u32 where "STATUS_MEDIA_WRITE_PROTECTED \<equiv> 0xC00000A2"
abbreviation (input) STATUS_MEMORY_NOT_ALLOCATED :: u32 where "STATUS_MEMORY_NOT_ALLOCATED \<equiv> 0xC00000A0"
abbreviation (input) STATUS_NAME_TOO_LONG :: u32 where "STATUS_NAME_TOO_LONG \<equiv> 0xC0000106"
abbreviation (input) STATUS_NETWORK_ACCESS_DENIED :: u32 where "STATUS_NETWORK_ACCESS_DENIED \<equiv> 0xC00000CA"
abbreviation (input) STATUS_NETWORK_BUSY :: u32 where "STATUS_NETWORK_BUSY \<equiv> 0xC00000BF"
abbreviation (input) STATUS_NETWORK_UNREACHABLE :: u32 where "STATUS_NETWORK_UNREACHABLE \<equiv> 0xC000023C"
abbreviation (input) STATUS_NET_WRITE_FAULT :: u32 where "STATUS_NET_WRITE_FAULT \<equiv> 0xC00000D2"
abbreviation (input) STATUS_NONEXISTENT_SECTOR :: u32 where "STATUS_NONEXISTENT_SECTOR \<equiv> 0xC0000015"
abbreviation (input) STATUS_NOT_A_DIRECTORY :: u32 where "STATUS_NOT_A_DIRECTORY \<equiv> 0xC0000103"
abbreviation (input) STATUS_NOT_FOUND :: u32 where "STATUS_NOT_FOUND \<equiv> 0xC0000225"
abbreviation (input) STATUS_NOT_IMPLEMENTED :: u32 where "STATUS_NOT_IMPLEMENTED \<equiv> 0xC0000002"
abbreviation (input) STATUS_NOT_MAPPED_VIEW :: u32 where "STATUS_NOT_MAPPED_VIEW \<equiv> 0xC0000019"
abbreviation (input) STATUS_NOT_SUPPORTED :: u32 where "STATUS_NOT_SUPPORTED \<equiv> 0xC00000BB"
abbreviation (input) STATUS_NO_MEDIA :: u32 where "STATUS_NO_MEDIA \<equiv> 0xC0000178"
abbreviation (input) STATUS_IO_DEVICE_ERROR :: u32 where "STATUS_IO_DEVICE_ERROR \<equiv> 0xC0000185"
abbreviation (input) STATUS_NO_MEDIA_IN_DEVICE :: u32 where "STATUS_NO_MEDIA_IN_DEVICE \<equiv> 0xC0000013"
abbreviation (input) STATUS_NO_MEMORY :: u32 where "STATUS_NO_MEMORY \<equiv> 0xC0000017"
abbreviation (input) STATUS_NO_SUCH_DEVICE :: u32 where "STATUS_NO_SUCH_DEVICE \<equiv> 0xC000000E"
abbreviation (input) STATUS_NO_SUCH_FILE :: u32 where "STATUS_NO_SUCH_FILE \<equiv> 0xC000000F"
abbreviation (input) STATUS_OBJECT_NAME_COLLISION :: u32 where "STATUS_OBJECT_NAME_COLLISION \<equiv> 0xC0000035"
abbreviation (input) STATUS_OBJECT_NAME_NOT_FOUND :: u32 where "STATUS_OBJECT_NAME_NOT_FOUND \<equiv> 0xC0000034"
abbreviation (input) STATUS_OBJECT_PATH_INVALID :: u32 where "STATUS_OBJECT_PATH_INVALID \<equiv> 0xC0000039"
abbreviation (input) STATUS_OBJECT_PATH_NOT_FOUND :: u32 where "STATUS_OBJECT_PATH_NOT_FOUND \<equiv> 0xC000003A"
abbreviation (input) STATUS_PAGEFILE_QUOTA :: u32 where "STATUS_PAGEFILE_QUOTA \<equiv> 0xC0000007"
abbreviation (input) STATUS_PATH_NOT_COVERED :: u32 where "STATUS_PATH_NOT_COVERED \<equiv> 0xC0000257"
abbreviation (input) STATUS_NOT_A_REPARSE_POINT :: u32 where "STATUS_NOT_A_REPARSE_POINT \<equiv> 0xC0000275"
abbreviation (input) STATUS_IO_REPARSE_TAG_MISMATCH :: u32 where "STATUS_IO_REPARSE_TAG_MISMATCH \<equiv> 0xC0000277"
abbreviation (input) STATUS_IO_REPARSE_DATA_INVALID :: u32 where "STATUS_IO_REPARSE_DATA_INVALID \<equiv> 0xC0000278"
abbreviation (input) STATUS_IO_REPARSE_TAG_NOT_HANDLED :: u32 where "STATUS_IO_REPARSE_TAG_NOT_HANDLED \<equiv> 0xC0000279"
abbreviation (input) STATUS_REPARSE_POINT_NOT_RESOLVED :: u32 where "STATUS_REPARSE_POINT_NOT_RESOLVED \<equiv> 0xC0000280"
abbreviation (input) STATUS_PIPE_BROKEN :: u32 where "STATUS_PIPE_BROKEN \<equiv> 0xC000014B"
abbreviation (input) STATUS_PIPE_BUSY :: u32 where "STATUS_PIPE_BUSY \<equiv> 0xC00000AE"
abbreviation (input) STATUS_PIPE_CONNECTED :: u32 where "STATUS_PIPE_CONNECTED \<equiv> 0xC00000B2"
abbreviation (input) STATUS_PIPE_DISCONNECTED :: u32 where "STATUS_PIPE_DISCONNECTED \<equiv> 0xC00000B0"
abbreviation (input) STATUS_SMB_BAD_TID :: u32 where "STATUS_SMB_BAD_TID \<equiv> 0xC0002005"
abbreviation (input) STATUS_INSUFFICIENT_RESOURCES :: u32 where "STATUS_INSUFFICIENT_RESOURCES \<equiv> 0xC000009A"
abbreviation (input) STATUS_INSUFF_SERVER_RESOURCES :: u32 where "STATUS_INSUFF_SERVER_RESOURCES \<equiv> 0xC0000205"
abbreviation (input) STATUS_PIPE_NOT_AVAILABLE :: u32 where "STATUS_PIPE_NOT_AVAILABLE \<equiv> 0xC00000AC"
abbreviation (input) STATUS_PORT_CONNECTION_REFUSED :: u32 where "STATUS_PORT_CONNECTION_REFUSED \<equiv> 0xC0000041"
abbreviation (input) STATUS_PORT_MESSAGE_TOO_LONG :: u32 where "STATUS_PORT_MESSAGE_TOO_LONG \<equiv> 0xC000002F"
abbreviation (input) STATUS_PORT_UNREACHABLE :: u32 where "STATUS_PORT_UNREACHABLE \<equiv> 0xC000023F"
abbreviation (input) STATUS_PROTOCOL_UNREACHABLE :: u32 where "STATUS_PROTOCOL_UNREACHABLE \<equiv> 0xC000023E"
abbreviation (input) STATUS_QUOTA_EXCEEDED :: u32 where "STATUS_QUOTA_EXCEEDED \<equiv> 0xC0000044"
abbreviation (input) STATUS_REGISTRY_QUOTA_LIMIT :: u32 where "STATUS_REGISTRY_QUOTA_LIMIT \<equiv> 0xC0000256"
abbreviation (input) STATUS_REMOTE_DISCONNECT :: u32 where "STATUS_REMOTE_DISCONNECT \<equiv> 0xC000013C"
abbreviation (input) STATUS_REMOTE_NOT_LISTENING :: u32 where "STATUS_REMOTE_NOT_LISTENING \<equiv> 0xC00000BC"
abbreviation (input) STATUS_REQUEST_NOT_ACCEPTED :: u32 where "STATUS_REQUEST_NOT_ACCEPTED \<equiv> 0xC00000D0"
abbreviation (input) STATUS_RETRY :: u32 where "STATUS_RETRY \<equiv> 0xC000022D"
abbreviation (input) STATUS_SHARING_VIOLATION :: u32 where "STATUS_SHARING_VIOLATION \<equiv> 0xC0000043"
abbreviation (input) STATUS_TIMER_NOT_CANCELED :: u32 where "STATUS_TIMER_NOT_CANCELED \<equiv> 0xC000000C"
abbreviation (input) STATUS_TOO_MANY_LINKS :: u32 where "STATUS_TOO_MANY_LINKS \<equiv> 0xC0000265"
abbreviation (input) STATUS_TOO_MANY_OPENED_FILES :: u32 where "STATUS_TOO_MANY_OPENED_FILES \<equiv> 0xC000011F"
abbreviation (input) STATUS_UNABLE_TO_FREE_VM :: u32 where "STATUS_UNABLE_TO_FREE_VM \<equiv> 0xC000001A"
abbreviation (input) STATUS_WRONG_PASSWORD :: u32 where "STATUS_WRONG_PASSWORD \<equiv> 0xC000006A"
abbreviation (input) STATUS_DELETE_PENDING :: u32 where "STATUS_DELETE_PENDING \<equiv> 0xC0000056"
abbreviation (input) STATUS_OBJECT_NAME_INVALID :: u32 where "STATUS_OBJECT_NAME_INVALID \<equiv> 0xC0000033"
abbreviation (input) STATUS_CANNOT_DELETE :: u32 where "STATUS_CANNOT_DELETE \<equiv> 0xC0000121"
abbreviation (input) STATUS_RANGE_NOT_LOCKED :: u32 where "STATUS_RANGE_NOT_LOCKED \<equiv> 0xC000007E"
abbreviation (input) STATUS_INVALID_LEVEL :: u32 where "STATUS_INVALID_LEVEL \<equiv> 0xC0000148"
abbreviation (input) STATUS_MORE_PROCESSING_REQUIRED :: u32 where "STATUS_MORE_PROCESSING_REQUIRED \<equiv> 0xC0000016"
abbreviation (input) STATUS_CANCELLED :: u32 where "STATUS_CANCELLED \<equiv> 0xC0000120"
abbreviation (input) STATUS_INVALID_INFO_CLASS :: u32 where "STATUS_INVALID_INFO_CLASS \<equiv> 0xC0000003"
abbreviation (input) STATUS_INFO_LENGTH_MISMATCH :: u32 where "STATUS_INFO_LENGTH_MISMATCH \<equiv> 0xC0000004"
abbreviation (input) STATUS_INVALID_DEVICE_REQUEST :: u32 where "STATUS_INVALID_DEVICE_REQUEST \<equiv> 0xC0000010"
abbreviation (input) STATUS_WRONG_VOLUME :: u32 where "STATUS_WRONG_VOLUME \<equiv> 0xC0000012"
abbreviation (input) STATUS_UNRECOGNIZED_MEDIA :: u32 where "STATUS_UNRECOGNIZED_MEDIA \<equiv> 0xC0000014"
abbreviation (input) STATUS_INVALID_SYSTEM_SERVICE :: u32 where "STATUS_INVALID_SYSTEM_SERVICE \<equiv> 0xC000001C"
abbreviation (input) STATUS_INVALID_LOCK_SEQUENCE :: u32 where "STATUS_INVALID_LOCK_SEQUENCE \<equiv> 0xC000001E"
abbreviation (input) STATUS_ALREADY_COMMITTED :: u32 where "STATUS_ALREADY_COMMITTED \<equiv> 0xC0000021"
abbreviation (input) STATUS_OBJECT_TYPE_MISMATCH :: u32 where "STATUS_OBJECT_TYPE_MISMATCH \<equiv> 0xC0000024"
abbreviation (input) STATUS_NOT_LOCKED :: u32 where "STATUS_NOT_LOCKED \<equiv> 0xC000002A"
abbreviation (input) STATUS_INVALID_PARAMETER_MIX :: u32 where "STATUS_INVALID_PARAMETER_MIX \<equiv> 0xC0000030"
abbreviation (input) STATUS_PORT_DISCONNECTED :: u32 where "STATUS_PORT_DISCONNECTED \<equiv> 0xC0000037"
abbreviation (input) STATUS_INVALID_PORT_HANDLE :: u32 where "STATUS_INVALID_PORT_HANDLE \<equiv> 0xC0000042"
abbreviation (input) STATUS_OBJECT_PATH_SYNTAX_BAD :: u32 where "STATUS_OBJECT_PATH_SYNTAX_BAD \<equiv> 0xC000003B"
abbreviation (input) STATUS_EAS_NOT_SUPPORTED :: u32 where "STATUS_EAS_NOT_SUPPORTED \<equiv> 0xC000004F"
abbreviation (input) STATUS_EA_TOO_LARGE :: u32 where "STATUS_EA_TOO_LARGE \<equiv> 0xC0000050"
abbreviation (input) STATUS_NONEXISTENT_EA_ENTRY :: u32 where "STATUS_NONEXISTENT_EA_ENTRY \<equiv> 0xC0000051"
abbreviation (input) STATUS_NO_EAS_ON_FILE :: u32 where "STATUS_NO_EAS_ON_FILE \<equiv> 0xC0000052"
abbreviation (input) STATUS_NO_SUCH_LOGON_SESSION :: u32 where "STATUS_NO_SUCH_LOGON_SESSION \<equiv> 0xC000005F"
abbreviation (input) STATUS_USER_EXISTS :: u32 where "STATUS_USER_EXISTS \<equiv> 0xC0000063"
abbreviation (input) STATUS_NO_SUCH_USER :: u32 where "STATUS_NO_SUCH_USER \<equiv> 0xC0000064"
abbreviation (input) STATUS_USER_SESSION_DELETED :: u32 where "STATUS_USER_SESSION_DELETED \<equiv> 0xC0000203"
abbreviation (input) STATUS_FILE_INVALID :: u32 where "STATUS_FILE_INVALID \<equiv> 0xC0000098"
abbreviation (input) STATUS_DFS_EXIT_PATH_FOUND :: u32 where "STATUS_DFS_EXIT_PATH_FOUND \<equiv> 0xC000009B"
abbreviation (input) STATUS_DEVICE_DATA_ERROR :: u32 where "STATUS_DEVICE_DATA_ERROR \<equiv> 0xC000009C"
abbreviation (input) STATUS_DEVICE_NOT_READY :: u32 where "STATUS_DEVICE_NOT_READY \<equiv> 0xC00000A3"
abbreviation (input) STATUS_ILLEGAL_FUNCTION :: u32 where "STATUS_ILLEGAL_FUNCTION \<equiv> 0xC00000AF"
abbreviation (input) STATUS_FILE_RENAMED :: u32 where "STATUS_FILE_RENAMED \<equiv> 0xC00000D5"
abbreviation (input) STATUS_FILE_DELETED :: u32 where "STATUS_FILE_DELETED \<equiv> 0xC0000123"
abbreviation (input) STATUS_NO_TRUST_LSA_SECRET :: u32 where "STATUS_NO_TRUST_LSA_SECRET \<equiv> 0xC000018A"
abbreviation (input) STATUS_NO_TRUST_SAM_ACCOUNT :: u32 where "STATUS_NO_TRUST_SAM_ACCOUNT \<equiv> 0xC000018B"
abbreviation (input) STATUS_TRUSTED_DOMAIN_FAILURE :: u32 where "STATUS_TRUSTED_DOMAIN_FAILURE \<equiv> 0xC000018C"
abbreviation (input) STATUS_TRUSTED_RELATIONSHIP_FAILURE :: u32 where "STATUS_TRUSTED_RELATIONSHIP_FAILURE \<equiv> 0xC000018D"
abbreviation (input) STATUS_NOT_SAME_DEVICE :: u32 where "STATUS_NOT_SAME_DEVICE \<equiv> 0xC00000D4"
abbreviation (input) STATUS_SMB_BAD_CLUSTER_DIALECT :: u32 where "STATUS_SMB_BAD_CLUSTER_DIALECT \<equiv> 0xC05D0001"
abbreviation (input) STATUS_DATA_ERROR :: u32 where "STATUS_DATA_ERROR \<equiv> 0xC000003E"
abbreviation (input) STATUS_SMB_BAD_COMMAND :: u32 where "STATUS_SMB_BAD_COMMAND \<equiv> 0xC0002016"
abbreviation (input) STATUS_TOO_MANY_NAMES :: u32 where "STATUS_TOO_MANY_NAMES \<equiv> 0xC00000CD"
abbreviation (input) STATUS_PIPE_CLOSING :: u32 where "STATUS_PIPE_CLOSING \<equiv> 0xC00000B1"
abbreviation (input) STATUS_NETLOGON_NOT_STARTED :: u32 where "STATUS_NETLOGON_NOT_STARTED \<equiv> 0xC0000192"
abbreviation (input) STATUS_BAD_DEVICE_TYPE :: u32 where "STATUS_BAD_DEVICE_TYPE \<equiv> 0xC00000CB"
abbreviation (input) STATUS_PRINT_QUEUE_FULL :: u32 where "STATUS_PRINT_QUEUE_FULL \<equiv> 0xC00000C6"
abbreviation (input) STATUS_NO_SPOOL_SPACE :: u32 where "STATUS_NO_SPOOL_SPACE \<equiv> 0xC00000C7"
abbreviation (input) STATUS_PRINT_CANCELLED :: u32 where "STATUS_PRINT_CANCELLED \<equiv> 0xC00000C8"
abbreviation (input) STATUS_UNEXPECTED_NETWORK_ERROR :: u32 where "STATUS_UNEXPECTED_NETWORK_ERROR \<equiv> 0xC00000C4"
abbreviation (input) STATUS_TOO_MANY_SESSIONS :: u32 where "STATUS_TOO_MANY_SESSIONS \<equiv> 0xC00000CE"
abbreviation (input) STATUS_SMB_BAD_UID :: u32 where "STATUS_SMB_BAD_UID \<equiv> 0x005B0002"
abbreviation (input) STATUS_SMB_USE_STANDARD :: u32 where "STATUS_SMB_USE_STANDARD \<equiv> 0xC00020FB"
abbreviation (input) STATUS_INVALID_DEVICE_STATE :: u32 where "STATUS_INVALID_DEVICE_STATE \<equiv> 0xC0000184"
abbreviation (input) STATUS_DISK_CORRUPT_ERROR :: u32 where "STATUS_DISK_CORRUPT_ERROR \<equiv> 0xC0000032"
abbreviation (input) STATUS_DEVICE_PAPER_EMPTY :: u32 where "STATUS_DEVICE_PAPER_EMPTY \<equiv> 0x8000000E"

abbreviation (input) STATUS_SEVERITY_SUCCESS :: u32 where "STATUS_SEVERITY_SUCCESS \<equiv> 0x00000000"
abbreviation (input) STATUS_SEVERITY_INFORMATIONAL :: u32 where "STATUS_SEVERITY_INFORMATIONAL \<equiv> 0x40000000"
abbreviation (input) STATUS_SEVERITY_WARNING :: u32 where "STATUS_SEVERITY_WARNING \<equiv> 0x80000000"
abbreviation (input) STATUS_SEVERITY_ERROR :: u32 where "STATUS_SEVERITY_ERROR \<equiv> 0xC0000000"
abbreviation (input) STATUS_SEVERITY_MASK :: u32 where "STATUS_SEVERITY_MASK \<equiv> 0xC0000000"

abbreviation (input) SMB_ENETFSACCOUNTRESTRICTED :: errno where "SMB_ENETFSACCOUNTRESTRICTED \<equiv> - 5042"
abbreviation (input) SMB_ENETFSPWDNEEDSCHANGE :: errno where "SMB_ENETFSPWDNEEDSCHANGE \<equiv> - 5045"
abbreviation (input) SMB_ENETFSPWDPOLICY :: errno where "SMB_ENETFSPWDPOLICY \<equiv> - 5046"

section \<open>NT status to errno\<close>

definition nt2errno :: "(u32 \<times> errno) list" where
  "nt2errno =
    [(STATUS_LOGON_TYPE_NOT_GRANTED, EAUTH),
     (STATUS_NO_LOGON_SERVERS, EAUTH),
     (STATUS_ACCESS_DENIED, EACCES),
     (STATUS_ACCESS_VIOLATION, EACCES),
     (STATUS_PRIVILEGE_NOT_HELD, EACCES),
     (STATUS_ACCOUNT_DISABLED, SMB_ENETFSACCOUNTRESTRICTED),
     (STATUS_ACCOUNT_RESTRICTION, SMB_ENETFSACCOUNTRESTRICTED),
     (STATUS_LOGIN_TIME_RESTRICTION, SMB_ENETFSACCOUNTRESTRICTED),
     (STATUS_ACCOUNT_LOCKED_OUT, SMB_ENETFSACCOUNTRESTRICTED),
     (STATUS_INVALID_ACCOUNT_NAME, SMB_ENETFSACCOUNTRESTRICTED),
     (STATUS_PWD_TOO_SHORT, SMB_ENETFSPWDPOLICY),
     (STATUS_PWD_TOO_RECENT, SMB_ENETFSPWDPOLICY),
     (STATUS_PWD_HISTORY_CONFLICT, SMB_ENETFSPWDPOLICY),
     (STATUS_ACCOUNT_EXPIRED, SMB_ENETFSACCOUNTRESTRICTED),
     (STATUS_PASSWORD_EXPIRED, SMB_ENETFSPWDNEEDSCHANGE),
     (STATUS_PASSWORD_RESTRICTION, SMB_ENETFSPWDPOLICY),
     (STATUS_PASSWORD_MUST_CHANGE, SMB_ENETFSPWDNEEDSCHANGE),
     (STATUS_INVALID_LOGON_HOURS, SMB_ENETFSACCOUNTRESTRICTED),
     (STATUS_ADDRESS_ALREADY_EXISTS, EADDRINUSE),
     (STATUS_BAD_NETWORK_NAME, ENOENT),
     (STATUS_NETWORK_NAME_DELETED, ENOENT),
     (STATUS_DUPLICATE_NAME, ENOENT),
     (STATUS_BAD_NETWORK_PATH, ENOENT),
     (STATUS_BUFFER_TOO_SMALL, E2BIG),
     (STATUS_INVALID_BUFFER_SIZE, EIO),
     (STATUS_CONFLICTING_ADDRESSES, EADDRINUSE),
     (STATUS_CONNECTION_ABORTED, ECONNABORTED),
     (STATUS_CONNECTION_DISCONNECTED, ECONNABORTED),
     (STATUS_CONNECTION_REFUSED, ECONNREFUSED),
     (STATUS_CONNECTION_RESET, ENETRESET),
     (STATUS_DEVICE_DOES_NOT_EXIST, ENODEV),
     (STATUS_DEVICE_PROTOCOL_ERROR, EPROTO),
     (STATUS_DIRECTORY_NOT_EMPTY, ENOTEMPTY),
     (STATUS_DISK_FULL, ENOSPC),
     (STATUS_DLL_NOT_FOUND, ENOENT),
     (STATUS_END_OF_FILE, ENODATA),
     (STATUS_FILE_IS_A_DIRECTORY, EISDIR),
     (STATUS_FILE_LOCK_CONFLICT, EIO),
     (STATUS_LOCK_NOT_GRANTED, EACCES),
     (STATUS_FLOAT_INEXACT_RESULT, ERANGE),
     (STATUS_FLOAT_OVERFLOW, ERANGE),
     (STATUS_FLOAT_UNDERFLOW, ERANGE),
     (STATUS_HOST_UNREACHABLE, EHOSTUNREACH),
     (STATUS_ILL_FORMED_PASSWORD, EAUTH),
     (STATUS_INTEGER_OVERFLOW, ERANGE),
     (STATUS_FILE_CLOSED, EBADF),
     (STATUS_INVALID_HANDLE, EBADF),
     (STATUS_INVALID_PARAMETER, EINVAL),
     (STATUS_INVALID_PIPE_STATE, EPIPE),
     (STATUS_INVALID_WORKSTATION, EACCES),
     (STATUS_IN_PAGE_ERROR, EFAULT),
     (STATUS_IO_TIMEOUT, ETIMEDOUT),
     (STATUS_IP_ADDRESS_CONFLICT1, EADDRINUSE),
     (STATUS_IP_ADDRESS_CONFLICT2, EADDRINUSE),
     (STATUS_LICENSE_QUOTA_EXCEEDED, EDQUOT),
     (STATUS_LOGON_FAILURE, EAUTH),
     (STATUS_MEDIA_WRITE_PROTECTED, EROFS),
     (STATUS_MEMORY_NOT_ALLOCATED, EFAULT),
     (STATUS_NAME_TOO_LONG, ENAMETOOLONG),
     (STATUS_NETWORK_ACCESS_DENIED, EACCES),
     (STATUS_NETWORK_BUSY, EBUSY),
     (STATUS_NETWORK_UNREACHABLE, ENETUNREACH),
     (STATUS_NET_WRITE_FAULT, EIO),
     (STATUS_NONEXISTENT_SECTOR, ESPIPE),
     (STATUS_NOT_A_DIRECTORY, ENOTDIR),
     (STATUS_NOT_FOUND, ENOENT),
     (STATUS_NOT_IMPLEMENTED, ENOTSUP),
     (STATUS_NOT_MAPPED_VIEW, EINVAL),
     (STATUS_NOT_SUPPORTED, ENOTSUP),
     (STATUS_NO_MEDIA, EIO),
     (STATUS_IO_DEVICE_ERROR, EIO),
     (STATUS_NO_MEDIA_IN_DEVICE, EIO),
     (STATUS_NO_MEMORY, ENOMEM),
     (STATUS_NO_SUCH_DEVICE, ENODEV),
     (STATUS_NO_SUCH_FILE, ENOENT),
     (STATUS_OBJECT_NAME_COLLISION, EEXIST),
     (STATUS_OBJECT_NAME_NOT_FOUND, ENOENT),
     (STATUS_OBJECT_PATH_INVALID, ENOTDIR),
     (STATUS_OBJECT_PATH_NOT_FOUND, ENOENT),
     (STATUS_PAGEFILE_QUOTA, EDQUOT),
     (STATUS_PATH_NOT_COVERED, ENOENT),
     (STATUS_NOT_A_REPARSE_POINT, ENOENT),
     (STATUS_IO_REPARSE_TAG_MISMATCH, EIO),
     (STATUS_IO_REPARSE_DATA_INVALID, EIO),
     (STATUS_IO_REPARSE_TAG_NOT_HANDLED, EIO),
     (STATUS_REPARSE_POINT_NOT_RESOLVED, ENOENT),
     (STATUS_PIPE_BROKEN, EPIPE),
     (STATUS_PIPE_BUSY, EPIPE),
     (STATUS_PIPE_CONNECTED, EISCONN),
     (STATUS_PIPE_DISCONNECTED, EPIPE),
     (STATUS_SMB_BAD_TID, ENOENT),
     (STATUS_INSUFFICIENT_RESOURCES, EAGAIN),
     (STATUS_INSUFF_SERVER_RESOURCES, EAGAIN),
     (STATUS_PIPE_NOT_AVAILABLE, ENOSYS),
     (STATUS_PORT_CONNECTION_REFUSED, ECONNREFUSED),
     (STATUS_PORT_MESSAGE_TOO_LONG, EMSGSIZE),
     (STATUS_PORT_UNREACHABLE, EHOSTUNREACH),
     (STATUS_PROTOCOL_UNREACHABLE, ENOPROTOOPT),
     (STATUS_QUOTA_EXCEEDED, EDQUOT),
     (STATUS_REGISTRY_QUOTA_LIMIT, EDQUOT),
     (STATUS_REMOTE_DISCONNECT, ESHUTDOWN),
     (STATUS_REMOTE_NOT_LISTENING, ECONNREFUSED),
     (STATUS_REQUEST_NOT_ACCEPTED, EUSERS),
     (STATUS_RETRY, EAGAIN),
     (STATUS_SHARING_VIOLATION, EBUSY),
     (STATUS_TIMER_NOT_CANCELED, ETIME),
     (STATUS_TOO_MANY_LINKS, EMLINK),
     (STATUS_TOO_MANY_OPENED_FILES, EMFILE),
     (STATUS_UNABLE_TO_FREE_VM, EADDRINUSE),
     (STATUS_UNSUCCESSFUL, EINVAL),
     (STATUS_WRONG_PASSWORD, EAUTH),
     (STATUS_DELETE_PENDING, EACCES),
     (STATUS_OBJECT_NAME_INVALID, ENAMETOOLONG),
     (STATUS_CANNOT_DELETE, EPERM),
     (STATUS_RANGE_NOT_LOCKED, EAGAIN),
     (STATUS_INVALID_LEVEL, ENOTSUP),
     (STATUS_MORE_PROCESSING_REQUIRED, EAGAIN),
     (STATUS_CANCELLED, ECANCELED),
     (STATUS_INVALID_INFO_CLASS, EINVAL),
     (STATUS_INFO_LENGTH_MISMATCH, EINVAL),
     (STATUS_INVALID_DEVICE_REQUEST, EINVAL),
     (STATUS_WRONG_VOLUME, ENOENT),
     (STATUS_UNRECOGNIZED_MEDIA, EIO),
     (STATUS_INVALID_SYSTEM_SERVICE, EINVAL),
     (STATUS_INVALID_LOCK_SEQUENCE, EACCES),
     (STATUS_ALREADY_COMMITTED, EACCES),
     (STATUS_OBJECT_TYPE_MISMATCH, EBADF),
     (STATUS_NOT_LOCKED, ENOLCK),
     (STATUS_INVALID_PARAMETER_MIX, EINVAL),
     (STATUS_PORT_DISCONNECTED, EBADF),
     (STATUS_INVALID_PORT_HANDLE, EBADF),
     (STATUS_OBJECT_PATH_SYNTAX_BAD, ENOENT),
     (STATUS_EAS_NOT_SUPPORTED, ENOTSUP),
     (STATUS_EA_TOO_LARGE, ENOATTR),
     (STATUS_NONEXISTENT_EA_ENTRY, ENOATTR),
     (STATUS_NO_EAS_ON_FILE, ENOATTR),
     (STATUS_NO_SUCH_LOGON_SESSION, SMB_ENETFSACCOUNTRESTRICTED),
     (STATUS_USER_EXISTS, SMB_ENETFSACCOUNTRESTRICTED),
     (STATUS_NO_SUCH_USER, SMB_ENETFSACCOUNTRESTRICTED),
     (STATUS_USER_SESSION_DELETED, SMB_ENETFSACCOUNTRESTRICTED),
     (STATUS_FILE_INVALID, EIO),
     (STATUS_DFS_EXIT_PATH_FOUND, ENOENT),
     (STATUS_DEVICE_DATA_ERROR, EIO),
     (STATUS_DEVICE_NOT_READY, EAGAIN),
     (STATUS_ILLEGAL_FUNCTION, EINVAL),
     (STATUS_FILE_RENAMED, ENOENT),
     (STATUS_FILE_DELETED, ENOENT),
     (STATUS_NO_TRUST_LSA_SECRET, EAUTH),
     (STATUS_NO_TRUST_SAM_ACCOUNT, EAUTH),
     (STATUS_TRUSTED_DOMAIN_FAILURE, EAUTH),
     (STATUS_TRUSTED_RELATIONSHIP_FAILURE, EAUTH),
     (STATUS_NOT_SAME_DEVICE, EXDEV),
     (STATUS_SMB_BAD_CLUSTER_DIALECT, EPROGMISMATCH),
     (0, 0)]"

text \<open>The search stops at the entry whose errno is zero, the end mark of the table.\<close>

primrec nt2errno_find :: "(u32 \<times> errno) list \<Rightarrow> u32 \<Rightarrow> errno option" where
  "nt2errno_find [] ntstatus = None"
| "nt2errno_find (x # xs) ntstatus =
     (if snd x = 0 then None
      else if fst x = ntstatus then Some (snd x)
      else nt2errno_find xs ntstatus)"

definition smb_ntstatus_error_to_errno :: "u32 \<Rightarrow> errno" where
  "smb_ntstatus_error_to_errno ntstatus =
     (case nt2errno_find nt2errno ntstatus of Some e \<Rightarrow> e | None \<Rightarrow> EIO)"

definition smb_ntstatus_warning_to_errno :: "u32 \<Rightarrow> errno" where
  "smb_ntstatus_warning_to_errno ntstatus =
     (if ntstatus = STATUS_BUFFER_OVERFLOW then 0
      else if ntstatus = STATUS_NO_MORE_FILES then ENOENT
      else if ntstatus = STATUS_STOPPED_ON_SYMLINK then EIO
      else EIO)"

definition smb_ntstatus_to_errno :: "u32 \<Rightarrow> errno" where
  "smb_ntstatus_to_errno ntstatus =
     (let sev = ntstatus AND STATUS_SEVERITY_MASK in
      if sev = STATUS_SEVERITY_SUCCESS then 0
      else if sev = STATUS_SEVERITY_INFORMATIONAL then 0
      else if sev = STATUS_SEVERITY_WARNING then smb_ntstatus_warning_to_errno ntstatus
      else if sev = STATUS_SEVERITY_ERROR then smb_ntstatus_error_to_errno ntstatus
      else EIO)"

section \<open>SMB 1 error classes to NT status\<close>

text \<open>Each switch is a table from the class's codes; a code that is not in it is unsuccessful.\<close>

definition dos_class_table :: "(u16 \<times> u32) list" where
  "dos_class_table =
       [(0x0001, STATUS_NOT_IMPLEMENTED),
        (0x0002, STATUS_NO_SUCH_FILE),
        (0x0003, STATUS_OBJECT_PATH_NOT_FOUND),
        (0x0004, STATUS_TOO_MANY_OPENED_FILES),
        (0x0005, STATUS_ACCESS_DENIED),
        (0x0006, STATUS_INVALID_HANDLE),
        (0x0007, STATUS_INSUFF_SERVER_RESOURCES),
        (0x0008, STATUS_NO_MEMORY),
        (0x0009, STATUS_NO_MEMORY),
        (0x000A, STATUS_INVALID_PARAMETER),
        (0x000B, STATUS_INVALID_PARAMETER),
        (0x000C, STATUS_ACCESS_DENIED),
        (0x000D, STATUS_DATA_ERROR),
        (0x000E, STATUS_NO_MEMORY),
        (0x000F, STATUS_INSUFF_SERVER_RESOURCES),
        (0x0010, STATUS_DIRECTORY_NOT_EMPTY),
        (0x0011, STATUS_NOT_SAME_DEVICE),
        (0x0012, STATUS_NO_MORE_FILES),
        (0x0013, STATUS_MEDIA_WRITE_PROTECTED),
        (0x0015, STATUS_DEVICE_NOT_READY),
        (0x0016, STATUS_SMB_BAD_COMMAND),
        (0x0017, STATUS_DATA_ERROR),
        (0x0018, STATUS_INFO_LENGTH_MISMATCH),
        (0x001B, STATUS_NONEXISTENT_SECTOR),
        (0x001F, STATUS_UNSUCCESSFUL),
        (0x0020, STATUS_SHARING_VIOLATION),
        (0x0021, STATUS_FILE_LOCK_CONFLICT),
        (0x0022, STATUS_WRONG_VOLUME),
        (0x0026, STATUS_END_OF_FILE),
        (0x0032, STATUS_NOT_SUPPORTED),
        (0x0042, STATUS_BAD_NETWORK_NAME),
        (0x0043, STATUS_BAD_NETWORK_NAME),
        (0x0044, STATUS_TOO_MANY_NAMES),
        (0x0050, STATUS_OBJECT_NAME_COLLISION),
        (0x0057, STATUS_INVALID_PARAMETER),
        (0x007B, STATUS_OBJECT_NAME_INVALID),
        (0x007C, STATUS_INVALID_LEVEL),
        (0x0091, STATUS_DIRECTORY_NOT_EMPTY),
        (0x009E, STATUS_RANGE_NOT_LOCKED),
        (0x00B7, STATUS_OBJECT_NAME_COLLISION),
        (0x00E6, STATUS_INVALID_PIPE_STATE),
        (0x00E7, STATUS_PIPE_BUSY),
        (0x00E8, STATUS_PIPE_CLOSING),
        (0x00E9, STATUS_PIPE_DISCONNECTED),
        (0x00EA, STATUS_MORE_PROCESSING_REQUIRED),
        (0x00FF, STATUS_EA_TOO_LARGE),
        (0x011A, STATUS_EAS_NOT_SUPPORTED),
        (0x03FE, STATUS_NOTIFY_ENUM_DIR),
        (0x0997, STATUS_NETLOGON_NOT_STARTED)]"

definition smb_dos_class_err_to_ntstatus :: "u16 \<Rightarrow> u32" where
  "smb_dos_class_err_to_ntstatus err =
     (case map_of dos_class_table err of Some s \<Rightarrow> s | None \<Rightarrow> STATUS_UNSUCCESSFUL)"

definition srv_class_table :: "(u16 \<times> u32) list" where
  "srv_class_table =
       [(0x0001, STATUS_INSUFFICIENT_RESOURCES),
        (0x0002, STATUS_WRONG_PASSWORD),
        (0x0003, STATUS_PATH_NOT_COVERED),
        (0x0004, STATUS_NETWORK_ACCESS_DENIED),
        (0x0005, STATUS_SMB_BAD_TID),
        (0x0006, STATUS_BAD_NETWORK_NAME),
        (0x0007, STATUS_BAD_DEVICE_TYPE),
        (0x0010, STATUS_UNSUCCESSFUL),
        (0x0011, STATUS_UNSUCCESSFUL),
        (0x0012, STATUS_UNSUCCESSFUL),
        (0x0016, STATUS_SMB_BAD_COMMAND),
        (0x0031, STATUS_PRINT_QUEUE_FULL),
        (0x0032, STATUS_NO_SPOOL_SPACE),
        (0x0033, STATUS_UNSUCCESSFUL),
        (0x0034, STATUS_PRINT_CANCELLED),
        (0x0040, STATUS_NOT_IMPLEMENTED),
        (0x0041, STATUS_UNEXPECTED_NETWORK_ERROR),
        (0x0043, STATUS_INVALID_HANDLE),
        (0x0045, STATUS_NETWORK_ACCESS_DENIED),
        (0x0047, STATUS_INVALID_PARAMETER),
        (0x0058, STATUS_IO_TIMEOUT),
        (0x0059, STATUS_REQUEST_NOT_ACCEPTED),
        (0x005A, STATUS_TOO_MANY_SESSIONS),
        (0x005B, STATUS_SMB_BAD_UID),
        (0x00E9, STATUS_PIPE_DISCONNECTED),
        (0x00FA, STATUS_NOT_IMPLEMENTED),
        (0x00FB, STATUS_SMB_USE_STANDARD),
        (0x00FC, STATUS_NOT_IMPLEMENTED),
        (0x08BF, STATUS_ACCOUNT_EXPIRED),
        (0x08C0, STATUS_INVALID_WORKSTATION),
        (0x08C1, STATUS_INVALID_LOGON_HOURS),
        (0x08C2, STATUS_PASSWORD_EXPIRED),
        (0xFFFF, STATUS_NOT_IMPLEMENTED)]"

definition smb_srv_class_err_to_ntstatus :: "u16 \<Rightarrow> u32" where
  "smb_srv_class_err_to_ntstatus err =
     (case map_of srv_class_table err of Some s \<Rightarrow> s | None \<Rightarrow> STATUS_UNSUCCESSFUL)"

definition hrd_class_table :: "(u16 \<times> u32) list" where
  "hrd_class_table =
       [(0x0013, STATUS_MEDIA_WRITE_PROTECTED),
        (0x0014, STATUS_UNSUCCESSFUL),
        (0x0015, STATUS_NO_MEDIA_IN_DEVICE),
        (0x0016, STATUS_INVALID_DEVICE_STATE),
        (0x0017, STATUS_DATA_ERROR),
        (0x0018, STATUS_DATA_ERROR),
        (0x0019, STATUS_UNSUCCESSFUL),
        (0x001A, STATUS_DISK_CORRUPT_ERROR),
        (0x001B, STATUS_NONEXISTENT_SECTOR),
        (0x001C, STATUS_DEVICE_PAPER_EMPTY),
        (0x001D, STATUS_IO_DEVICE_ERROR),
        (0x001E, STATUS_IO_DEVICE_ERROR),
        (0x001F, STATUS_UNSUCCESSFUL),
        (0x0020, STATUS_SHARING_VIOLATION),
        (0x0021, STATUS_FILE_LOCK_CONFLICT),
        (0x0022, STATUS_WRONG_VOLUME),
        (0x0023, STATUS_UNSUCCESSFUL),
        (0x0024, STATUS_UNSUCCESSFUL),
        (0x0027, STATUS_DISK_FULL)]"

definition smb_hrd_class_err_to_ntstatus :: "u16 \<Rightarrow> u32" where
  "smb_hrd_class_err_to_ntstatus err =
     (case map_of hrd_class_table err of Some s \<Rightarrow> s | None \<Rightarrow> STATUS_UNSUCCESSFUL)"

text \<open>The classes are 0 for success, 1 for DOS, 2 for server and 3 for hardware errors.\<close>

definition smb_errClassCodes_to_ntstatus :: "byte \<Rightarrow> u16 \<Rightarrow> u32" where
  "smb_errClassCodes_to_ntstatus errClass errCode =
     (if errClass = 1 then smb_dos_class_err_to_ntstatus errCode
      else if errClass = 2 then smb_srv_class_err_to_ntstatus errCode
      else if errClass = 3 then smb_hrd_class_err_to_ntstatus errCode
      else if errClass = 0 \<and> errCode = 0 then 0
      else STATUS_UNSUCCESSFUL)"

section \<open>Lemmas\<close>

lemma nt2errno_find_nonzero: "nt2errno_find xs s = Some e \<Longrightarrow> e \<noteq> 0"
  by (induction xs) (auto split: if_splits)

lemma smb_ntstatus_error_nonzero: "smb_ntstatus_error_to_errno s \<noteq> 0"
  by (auto simp: smb_ntstatus_error_to_errno_def split: option.splits dest: nt2errno_find_nonzero)

text \<open>The keys of the table as numbers.\<close>

lemma nt2errno_keys: "map (unat \<circ> fst) nt2errno =
  [3221225819,
   3221225566,
   3221225506,
   3221225477,
   3221225569,
   3221225586,
   3221225582,
   3221226055,
   3221226036,
   3221225570,
   3221226074,
   3221226075,
   3221226076,
   3221225875,
   3221225585,
   3221225580,
   3221226020,
   3221225583,
   3221225994,
   3221225676,
   3221225673,
   3221225661,
   3221225662,
   3221225507,
   3221225990,
   3221225496,
   3221226049,
   3221225996,
   3221226038,
   3221225997,
   3221225664,
   3221225862,
   3221225729,
   3221225599,
   3221225781,
   3221225489,
   3221225658,
   3221225556,
   3221225557,
   3221225615,
   3221225617,
   3221225619,
   3221226045,
   3221225579,
   3221225621,
   3221225768,
   3221225480,
   3221225485,
   3221225645,
   3221225584,
   3221225478,
   3221225653,
   3221226068,
   3221226069,
   3221226073,
   3221225581,
   3221225634,
   3221225632,
   3221225734,
   3221225674,
   3221225663,
   3221226044,
   3221225682,
   3221225493,
   3221225731,
   3221226021,
   3221225474,
   3221225497,
   3221225659,
   3221225848,
   3221225861,
   3221225491,
   3221225495,
   3221225486,
   3221225487,
   3221225525,
   3221225524,
   3221225529,
   3221225530,
   3221225479,
   3221226071,
   3221226101,
   3221226103,
   3221226104,
   3221226105,
   3221226112,
   3221225803,
   3221225646,
   3221225650,
   3221225648,
   3221233669,
   3221225626,
   3221225989,
   3221225644,
   3221225537,
   3221225519,
   3221226047,
   3221226046,
   3221225540,
   3221226070,
   3221225788,
   3221225660,
   3221225680,
   3221226029,
   3221225539,
   3221225484,
   3221226085,
   3221225759,
   3221225498,
   3221225473,
   3221225578,
   3221225558,
   3221225523,
   3221225761,
   3221225598,
   3221225800,
   3221225494,
   3221225760,
   3221225475,
   3221225476,
   3221225488,
   3221225490,
   3221225492,
   3221225500,
   3221225502,
   3221225505,
   3221225508,
   3221225514,
   3221225520,
   3221225527,
   3221225538,
   3221225531,
   3221225551,
   3221225552,
   3221225553,
   3221225554,
   3221225567,
   3221225571,
   3221225572,
   3221225987,
   3221225624,
   3221225627,
   3221225628,
   3221225635,
   3221225647,
   3221225685,
   3221225763,
   3221225866,
   3221225867,
   3221225868,
   3221225869,
   3221225684,
   3227320321, 0]"
  by (simp add: nt2errno_def)

lemma nt2errno_keys_distinct: "distinct (map fst nt2errno)"
proof -
  have "distinct (map (unat \<circ> fst) nt2errno)"
    unfolding nt2errno_keys by simp
  then show ?thesis by (simp add: distinct_map) (meson comp_inj_on_iff inj_on_imageI2)
qed

lemma nt2errno_split: "nt2errno = butlast nt2errno @ [(0, 0)]"
  by (simp add: nt2errno_def)

lemma nt2errno_nonzero: "\<forall>x \<in> set (butlast nt2errno). snd x \<noteq> 0"
  by (simp add: nt2errno_def)

lemma nt2errno_severity:
  "\<forall>x \<in> set (butlast nt2errno). fst x AND STATUS_SEVERITY_MASK = STATUS_SEVERITY_ERROR"
  by (simp add: nt2errno_def)

lemma nt2errno_find_mem:
  assumes "distinct (map fst xs)" "\<forall>x \<in> set xs. snd x \<noteq> 0" "(s, e) \<in> set xs"
  shows "nt2errno_find (xs @ ys) s = Some e"
  using assms by (induction xs) (auto simp: rev_image_eqI)

lemma severity_cases:
  fixes s :: u32
  obtains "s AND STATUS_SEVERITY_MASK = STATUS_SEVERITY_SUCCESS"
  | "s AND STATUS_SEVERITY_MASK = STATUS_SEVERITY_INFORMATIONAL"
  | "s AND STATUS_SEVERITY_MASK = STATUS_SEVERITY_WARNING"
  | "s AND STATUS_SEVERITY_MASK = STATUS_SEVERITY_ERROR"
  | "s AND STATUS_SEVERITY_MASK \<notin>
       {STATUS_SEVERITY_SUCCESS, STATUS_SEVERITY_INFORMATIONAL, STATUS_SEVERITY_WARNING,
        STATUS_SEVERITY_ERROR}"
  by blast

lemma class_err_severity:
  "\<forall>x \<in> set dos_class_table. smb_ntstatus_to_errno (snd x) = 0 \<longleftrightarrow> fst x = 0x03FE"
  "\<forall>x \<in> set srv_class_table. smb_ntstatus_to_errno (snd x) = 0 \<longleftrightarrow> fst x = 0x005B"
  "\<forall>x \<in> set hrd_class_table. smb_ntstatus_to_errno (snd x) \<noteq> 0"
  by (simp_all add: dos_class_table_def srv_class_table_def hrd_class_table_def
      smb_ntstatus_to_errno_def smb_ntstatus_error_nonzero smb_ntstatus_warning_to_errno_def)

lemma map_of_default_zero:
  assumes "\<forall>x \<in> set t. g (snd x) = 0 \<longleftrightarrow> P (fst x)" "g d \<noteq> (0 :: errno)"
    and "\<And>k. P k \<Longrightarrow> map_of t k \<noteq> None"
  shows "g (case map_of t k of Some s \<Rightarrow> s | None \<Rightarrow> d) = 0 \<longleftrightarrow> P k"
proof (cases "map_of t k")
  case None
  then show ?thesis using assms(2) assms(3) [of k] by auto
next
  case (Some s)
  with bspec [OF assms(1) map_of_SomeD [OF Some]] show ?thesis by simp
qed

section \<open>Properties\<close>


text \<open>No entry of the translation table is dead: every listed status is translated to the errno
  listed for it. A status of error severity that is not listed becomes EIO.\<close>

theorem nt2errno_effective:
  "((s, e) \<in> set (butlast nt2errno) \<longrightarrow> smb_ntstatus_to_errno s = e) \<and>
   (s AND STATUS_SEVERITY_MASK = STATUS_SEVERITY_ERROR \<and> s \<notin> fst ` set (butlast nt2errno) \<longrightarrow>
      smb_ntstatus_to_errno s = EIO)"
proof -
  have d: "distinct (map fst (butlast nt2errno))"
    using nt2errno_keys_distinct by (simp add: map_butlast distinct_butlast)
  have find: "nt2errno_find nt2errno s = nt2errno_find (butlast nt2errno @ [(0, 0)]) s"
    by (subst nt2errno_split) (rule refl)
  have "smb_ntstatus_to_errno s = e" if m: "(s, e) \<in> set (butlast nt2errno)"
  proof -
    have "s AND STATUS_SEVERITY_MASK = STATUS_SEVERITY_ERROR" using nt2errno_severity m by force
    then show ?thesis using nt2errno_find_mem [OF d nt2errno_nonzero m, of "[(0, 0)]"]
      by (simp add: smb_ntstatus_to_errno_def smb_ntstatus_error_to_errno_def find)
  qed
  moreover have "nt2errno_find (xs @ [(0, 0)]) s = None" if "s \<notin> fst ` set xs" for xs
    using that by (induction xs) auto
  ultimately show ?thesis
    by (auto simp: smb_ntstatus_to_errno_def smb_ntstatus_error_to_errno_def find)
qed

text \<open>An SMB 1 reply with an error class is reported to the caller as a failure, with exactly two
  exceptions: the DOS code for a directory change notification, and the server code for a bad user
  identifier, which is translated to a status of success severity and so becomes errno 0.\<close>

lemma error_class_reported:
  "smb_ntstatus_to_errno (smb_errClassCodes_to_ntstatus cls code) = 0 \<longleftrightarrow>
     cls = 0 \<and> code = 0 \<or> cls = 1 \<and> code = 0x03FE \<or> cls = 2 \<and> code = 0x005B"
proof -
  have u: "smb_ntstatus_to_errno STATUS_UNSUCCESSFUL \<noteq> 0"
    by (simp add: smb_ntstatus_to_errno_def smb_ntstatus_error_nonzero)
  have "smb_ntstatus_to_errno (smb_dos_class_err_to_ntstatus code) = 0 \<longleftrightarrow> code = 0x03FE"
    unfolding smb_dos_class_err_to_ntstatus_def
    by (rule map_of_default_zero [OF class_err_severity(1) u]) (simp add: dos_class_table_def)
  moreover have "smb_ntstatus_to_errno (smb_srv_class_err_to_ntstatus code) = 0 \<longleftrightarrow> code = 0x005B"
    unfolding smb_srv_class_err_to_ntstatus_def
    by (rule map_of_default_zero [OF class_err_severity(2) u]) (simp add: srv_class_table_def)
  moreover have "smb_ntstatus_to_errno (smb_hrd_class_err_to_ntstatus code) \<noteq> 0"
    using bspec [OF class_err_severity(3) map_of_SomeD] u
    by (auto simp: smb_hrd_class_err_to_ntstatus_def split: option.splits)
  moreover have "smb_ntstatus_to_errno 0 = 0" by (simp add: smb_ntstatus_to_errno_def)
  ultimately show ?thesis using u
    by (auto simp: smb_errClassCodes_to_ntstatus_def)
qed

end
