(* ===== verification/Request.thy ===== *)
theory Request
  imports Mchain ErrMap
begin

text \<open>
  The SMB 2/3 request of \<^verbatim>\<open>src/kernel/netsmb/smb_rq.h\<close> and \<^verbatim>\<open>src/kernel/netsmb/smb_rq_2.c\<close>: the connection
  objects a request refers to, the 64 byte header at the start of its message, and the length fields,
  padding and compound links filled in while it is built. Crediting, message ids and the reply are in
  theory \<open>Credits\<close>.

  Pointers into the message (\<^verbatim>\<open>sr_flagsp\<close> and its like) are places of the chain, an mbuf and an offset,
  with \<open>None\<close> for NULL. The host is little endian, as all hosts of the client are: \<^verbatim>\<open>htolel\<close> is the identity
  on values and a value is stored with its low byte first. A NULL dereference or an allocation loop
  that does not end is \<open>None\<close> in the results.
\<close>

section \<open>Constants\<close>

abbreviation (input) SMB2_NEGOTIATE :: u16 where "SMB2_NEGOTIATE \<equiv> 0x0000"
abbreviation (input) SMB2_WRITE :: u16 where "SMB2_WRITE \<equiv> 0x0009"
abbreviation (input) SMB2_SESSION_SETUP :: u16 where "SMB2_SESSION_SETUP \<equiv> 0x0001"
abbreviation (input) SMB2_LOGOFF :: u16 where "SMB2_LOGOFF \<equiv> 0x0002"
abbreviation (input) SMB2_TREE_CONNECT :: u16 where "SMB2_TREE_CONNECT \<equiv> 0x0003"
abbreviation (input) SMB2_READ :: u16 where "SMB2_READ \<equiv> 0x0008"
abbreviation (input) SMB2_CANCEL :: u16 where "SMB2_CANCEL \<equiv> 0x000C"
abbreviation (input) SMB2_ECHO :: u16 where "SMB2_ECHO \<equiv> 0x000D"
abbreviation (input) SMB2_OPLOCK_BREAK :: u16 where "SMB2_OPLOCK_BREAK \<equiv> 0x0012"
abbreviation (input) SMB2_NO_BLOCK :: byte where "SMB2_NO_BLOCK \<equiv> 0x80"
abbreviation (input) SMB2_TID_UNKNOWN :: u32 where "SMB2_TID_UNKNOWN \<equiv> 0xffffffff"
abbreviation (input) SMB2_FLAGS_ASYNC_COMMAND :: u32 where "SMB2_FLAGS_ASYNC_COMMAND \<equiv> 0x2"
abbreviation (input) SMB2_FLAGS_RELATED_OPERATIONS :: u32 where "SMB2_FLAGS_RELATED_OPERATIONS \<equiv> 0x4"
abbreviation (input) SMB2_SESSION_FLAG_ENCRYPT_DATA :: u32 where "SMB2_SESSION_FLAG_ENCRYPT_DATA \<equiv> 0x4"
abbreviation (input) SMB2_SHAREFLAG_ENCRYPT_DATA :: u32 where "SMB2_SHAREFLAG_ENCRYPT_DATA \<equiv> 0x8000"
abbreviation (input) SMB2_CMPD_FIRST :: u32 where "SMB2_CMPD_FIRST \<equiv> 1"
abbreviation (input) SMB2_CMPD_MIDDLE :: u32 where "SMB2_CMPD_MIDDLE \<equiv> 2"
abbreviation (input) SMB2_CMPD_LAST :: u32 where "SMB2_CMPD_LAST \<equiv> 4"
abbreviation (input) SMB2_HDRLEN :: u16 where "SMB2_HDRLEN \<equiv> 64"

abbreviation (input) SMB2_REQUEST :: u32 where "SMB2_REQUEST \<equiv> 0x1"
abbreviation (input) SMB2_RESPONSE :: u32 where "SMB2_RESPONSE \<equiv> 0x2"
abbreviation (input) SMB2_REQ_SENT :: u32 where "SMB2_REQ_SENT \<equiv> 0x4"
abbreviation (input) SMB2_HDR_PREPARSED :: u32 where "SMB2_HDR_PREPARSED \<equiv> 0x40"
abbreviation (input) SMB2_REQ_NO_BLOCK :: u32 where "SMB2_REQ_NO_BLOCK \<equiv> 0x80000000"

abbreviation (input) SMBR_ALLOCED :: u32 where "SMBR_ALLOCED \<equiv> 0x1"
abbreviation (input) SMBR_ASYNC :: u32 where "SMBR_ASYNC \<equiv> 0x2"
abbreviation (input) SMBR_RECONNECTED :: u32 where "SMBR_RECONNECTED \<equiv> 0x10"
abbreviation (input) SMBR_COMPOUND_RQ :: u32 where "SMBR_COMPOUND_RQ \<equiv> 0x100"
abbreviation (input) SMBR_COMPRESSED :: u32 where "SMBR_COMPRESSED \<equiv> 0x40000"
abbreviation (input) SMBR_SIGNED :: u32 where "SMBR_SIGNED \<equiv> 0x400"
abbreviation (input) SMBR_MOREDATA :: u32 where "SMBR_MOREDATA \<equiv> 0x8000"

definition kDefaultMaxIOSize :: nat where "kDefaultMaxIOSize = 8 * 1024 * 1024"

abbreviation (input) SMBV_SMB30 :: u32 where "SMBV_SMB30 \<equiv> 0x800"
abbreviation (input) SMBV_SMB2 :: u32 where "SMBV_SMB2 \<equiv> 0x1000"
abbreviation (input) SMBV_SMB302 :: u32 where "SMBV_SMB302 \<equiv> 0x8000"
abbreviation (input) SMBV_SMB311 :: u32 where "SMBV_SMB311 \<equiv> 0x20000"
abbreviation (input) SMBV_GUEST_ACCESS :: u32 where "SMBV_GUEST_ACCESS \<equiv> 0x400000"
abbreviation (input) SMBV_SFS_ACCESS :: u32 where "SMBV_SFS_ACCESS \<equiv> 0x8000000"
abbreviation (input) SMB_FLAGS2_SECURITY_SIGNATURE :: u16 where "SMB_FLAGS2_SECURITY_SIGNATURE \<equiv> 0x4"
abbreviation (input) SMB_CAP_LARGE_READX :: u32 where "SMB_CAP_LARGE_READX \<equiv> 0x4000"
abbreviation (input) SMB_CAP_LARGE_WRITEX :: u32 where "SMB_CAP_LARGE_WRITEX \<equiv> 0x8000"
abbreviation (input) SMB_COM_READ_ANDX :: byte where "SMB_COM_READ_ANDX \<equiv> 0x2E"
abbreviation (input) SMB_COM_WRITE_ANDX :: byte where "SMB_COM_WRITE_ANDX \<equiv> 0x2F"

definition SMB2_SIGNATURE :: "byte list" where
  "SMB2_SIGNATURE = [0xFE, 0x53, 0x4D, 0x42]"

section \<open>Sessions, shares and requests\<close>

text \<open>A context of the VFS layer: which one it is, what \<^verbatim>\<open>vfs_context_suser\<close> answers for it and its user.\<close>

record vfs_context =
  ctx_id :: nat
  ctx_suser :: errno
  ctx_uid :: nat

text \<open>The fields of a channel that crediting and signing use.\<close>

record smbiod =
  iod_flags :: u32
  iod_context :: "vfs_context option"
  iod_message_id :: u64
  iod_credits_granted :: u32
  iod_credits_ss_granted :: u32
  iod_credits_max :: u32
  iod_credits_wait :: u32
  iod_req_pending :: u32
  iod_oldest_message_id :: u64
  iod_mackey :: "byte list option"
  iod_smb3_signing_key :: "byte list"
  iod_smb3_signing_key_len :: nat
  iod_pre_auth_int_hash :: "byte list"
  iod_pre_auth_int_hash_neg :: "byte list"
  iod_sess_setup_message_id :: u64

text \<open>Channels are referred to by number; \<open>session_iod\<close> is the main one of a session.\<close>

record smb_session =
  session_flags :: u32
  session_misc_flags :: u64
  session_uid :: nat
  session_session_id :: u64
  session_hflags2 :: u16
  sv_caps :: u32
  sv_sessflags :: u32
  session_iod :: nat
  server_compression_algorithms_map :: u32
  compression_io_threshold :: u32
  compression_chunk_len :: u32
  write_compress_cnt :: u64
  write_cnt_LZ77Huff :: u64
  write_cnt_LZ77 :: u64
  write_cnt_LZNT1 :: u64
  write_cnt_fwd_pattern :: u64
  write_cnt_bwd_pattern :: u64
  read_compress_cnt :: u64
  read_cnt_LZ77Huff :: u64
  read_cnt_LZ77 :: u64
  read_cnt_LZNT1 :: u64
  read_cnt_fwd_pattern :: u64
  read_cnt_bwd_pattern :: u64
  session_seqno :: u32
  session_mackey :: "byte list option"
  full_session_mackey :: "byte list option"
  session_smb3_signing_key :: "byte list"
  session_smb3_signing_key_len :: nat
  session_smb3_encrypt_key :: "byte list"
  session_smb3_encrypt_key_len :: nat
  session_smb3_decrypt_key :: "byte list"
  session_smb3_decrypt_key_len :: nat
  session_smb3_encrypt_ciper :: u16
  session_smb3_signing_algorithm :: u16
  session_smb3_nonce_high :: u64
  session_smb3_nonce_low :: u64
  decrypt_bufferp :: "byte list option"

definition SMBV_SMB3_OR_LATER :: "smb_session \<Rightarrow> bool" where
  "SMBV_SMB3_OR_LATER sessionp \<longleftrightarrow>
     session_flags sessionp AND (SMBV_SMB30 OR SMBV_SMB302 OR SMBV_SMB311) \<noteq> 0"

text \<open>The two callbacks of a share are installed when it is mounted and NULL before.\<close>

record smb_share =
  ss_id :: nat
  ss_tree_id :: u32
  ss_share_flags :: u32
  ss_going_away :: bool
  ss_dead :: bool

type_synonym place = "nat \<times> nat"

record smb_rq =
  sr_session :: "smb_session option"
  sr_share :: "smb_share option"
  sr_extflags :: u32
  sr_command :: u16
  sr_creditcharge :: u16
  sr_creditsrequested :: u16
  sr_rqflags :: u32
  sr_nextcmd :: u32
  sr_messageid :: u64
  sr_messageidp :: "place option"
  sr_rqtreeid :: u32
  sr_rqsessionid :: u64
  sr_bcount :: "place option"
  sr_lcount :: "place option"
  sr_creditchargep :: "place option"
  sr_creditreqp :: "place option"
  sr_flagsp :: "place option"
  sr_nextcmdp :: "place option"
  sr_rspcreditsgranted :: u16
  sr_rspflags :: u32
  sr_rspnextcmd :: u32
  sr_rsppid :: u32
  sr_rsptreeid :: u32
  sr_rspasyncid :: u64
  sr_rspsessionid :: u64
  sr_cmd :: byte
  sr_rq :: mbchain
  sr_rp :: mdchain
  sr_rqsig :: "place option"
  sr_ntstatus :: u32
  sr_flags :: u32
  sr_context :: "vfs_context option"
  sr_iod :: "nat option"
  sr_rq_compressed :: mbchain
  sr_seqno :: u32
  sr_rseqno :: u32
  sr_t2 :: "u32 option"

section \<open>Lengths, padding and compound links\<close>

definition smb2_rq_length :: "smb_rq \<Rightarrow> u32" where
  "smb2_rq_length rqp = of_nat (mb_len (sr_rq rqp))"

definition smb2_rq_bstart :: "smb_rq \<Rightarrow> place \<Rightarrow> smb_rq" where
  "smb2_rq_bstart rqp len_ptr =
     rqp\<lparr>sr_bcount := Some len_ptr, sr_rq := (sr_rq rqp)\<lparr>mb_count := 0\<rparr>\<rparr>"

definition smb2_rq_bstart32 :: "smb_rq \<Rightarrow> place \<Rightarrow> smb_rq" where
  "smb2_rq_bstart32 rqp len_ptr =
     rqp\<lparr>sr_lcount := Some len_ptr, sr_rq := (sr_rq rqp)\<lparr>mb_count := 0\<rparr>\<rparr>"

text \<open>The byte count put into the length field; a request whose session is NULL is not passed to it.\<close>

definition smb_rq_bcnt32 :: "smb_rq \<Rightarrow> smb_session \<Rightarrow> u32" where
  "smb_rq_bcnt32 rqp sessionp =
     (let cnt = mb_count (sr_rq rqp)
      in if sv_caps sessionp AND SMB_CAP_LARGE_READX \<noteq> 0 \<and> sr_cmd rqp = SMB_COM_READ_ANDX \<or>
            sv_caps sessionp AND SMB_CAP_LARGE_WRITEX \<noteq> 0 \<and> sr_cmd rqp = SMB_COM_WRITE_ANDX
         then (if cnt > 0xffffffff then 0 else of_nat cnt)
         else if cnt > 0xffffffff then 0xfffffff
         else of_nat cnt)"

definition smb_rq_bend32 :: "smb_rq \<Rightarrow> smb_rq option" where
  "smb_rq_bend32 rqp =
     (case sr_lcount rqp of
        None \<Rightarrow> Some rqp
      | Some p \<Rightarrow>
          (case sr_session rqp of
             None \<Rightarrow> None
           | Some sessionp \<Rightarrow>
               Some (rqp\<lparr>sr_rq := mb_store (sr_rq rqp) p (le32 (smb_rq_bcnt32 rqp sessionp))\<rparr>)))"

text \<open>The result of the put is ignored.\<close>

definition smb2_rq_align8 :: "getm \<Rightarrow> smb_rq \<Rightarrow> smb_rq option" where
  "smb2_rq_align8 getm rqp =
     (if mb_len (sr_rq rqp) mod 8 \<noteq> 0 then
        do {
          (e, mbp) \<leftarrow> mb_put_mem getm (sr_rq rqp) [] (8 - mb_len (sr_rq rqp) mod 8) MB_MZERO;
          Some (rqp\<lparr>sr_rq := mbp\<rparr>)
        }
      else Some rqp)"

text \<open>Reading through a pointer into the message.\<close>

definition mb_load :: "mbchain \<Rightarrow> place \<Rightarrow> nat \<Rightarrow> byte list" where
  "mb_load mbp p n = take n (drop (snd p) (m_data (mb_top mbp ! fst p)))"

definition or_flags :: "mbchain \<Rightarrow> place \<Rightarrow> u32 \<Rightarrow> mbchain" where
  "or_flags mbp p f = mb_store mbp p (le32 (of_nat (le_dec (mb_load mbp p 4)) OR f))"

definition smb2_rq_update_cmpd_hdr :: "smb_rq \<Rightarrow> u32 \<Rightarrow> errno \<times> smb_rq" where
  "smb2_rq_update_cmpd_hdr rqp position_flag =
     (case sr_nextcmdp rqp of
        None \<Rightarrow> (ENOMEM, rqp)
      | Some nextcmdp \<Rightarrow>
          (case sr_flagsp rqp of
             None \<Rightarrow> (ENOMEM, rqp)
           | Some flagsp \<Rightarrow>
               if position_flag = SMB2_CMPD_FIRST then
                 (0, rqp\<lparr>sr_rq := mb_store (sr_rq rqp) nextcmdp (le32 (smb2_rq_length rqp))\<rparr>)
               else if position_flag = SMB2_CMPD_MIDDLE then
                 (0, rqp\<lparr>sr_rq := or_flags (mb_store (sr_rq rqp) nextcmdp (le32 (smb2_rq_length rqp)))
                                     flagsp SMB2_FLAGS_RELATED_OPERATIONS\<rparr>)
               else if position_flag = SMB2_CMPD_LAST then
                 (0, rqp\<lparr>sr_rq := or_flags (mb_store (sr_rq rqp) nextcmdp (le32 0))
                                     flagsp SMB2_FLAGS_RELATED_OPERATIONS\<rparr>)
               else (ENOMEM, rqp)))"

text \<open>
  Moving on to the next reply of a compound: \<open>next_cmd_offset\<close> is the sum of the offsets so far. When
  more than that has been parsed already, \<^verbatim>\<open>pad_bytes\<close> is negative and nothing is skipped.
\<close>

definition smb2_rq_next_command :: "smb_rq \<Rightarrow> nat \<Rightarrow> mdchain \<Rightarrow> errno \<times> nat \<times> mdchain" where
  "smb2_rq_next_command rqp next_cmd_offset mdp =
     (let off = next_cmd_offset + unat (sr_rspnextcmd rqp)
      in if off > md_len mdp then
           (case md_get_mem mdp (off - md_len mdp) of
              (Inl e, mdp') \<Rightarrow> (e, off, mdp')
            | (Inr _, mdp') \<Rightarrow> (0, off, mdp'))
         else (0, off, mdp))"

section \<open>The header of a request\<close>

text \<open>\<open>*p = v\<close> for a freshly reserved \<open>p\<close>; dereferencing the NULL of a failed reservation is \<open>None\<close>.\<close>

definition mb_reserve_put :: "mbuf option \<Rightarrow> mbchain \<Rightarrow> byte list \<Rightarrow> (place \<times> mbchain) option" where
  "mb_reserve_put nm mbp bs =
     (case mb_reserve nm mbp (length bs) of
        (None, _) \<Rightarrow> None
      | (Some p, mbp') \<Rightarrow> Some (p, mb_store mbp' p bs))"

text \<open>
  Building the header. The results of the puts are ignored. The sync and the async header differ in
  the flags and in the eight bytes behind the message id only. \<open>hdr\<close> is the mbuf \<^verbatim>\<open>mb_init\<close> gets, \<open>nm\<close> the
  one a reservation gets when the current mbuf is full.
\<close>

definition smb2_rq_new :: "getm \<Rightarrow> mbuf option \<Rightarrow> mbuf option \<Rightarrow> smb_rq \<Rightarrow> (errno \<times> smb_rq) option" where
  "smb2_rq_new getm nm hdr rqp =
     (let rqp = rqp\<lparr>sr_rq := mb_done (sr_rq rqp), sr_rp := md_done (sr_rp rqp)\<rparr>;
          async = (sr_flags rqp AND SMBR_ASYNC \<noteq> 0);
          rqflags = (if async then sr_rqflags rqp OR SMB2_FLAGS_ASYNC_COMMAND else sr_rqflags rqp)
      in case mb_init hdr of
           Inl e \<Rightarrow> Some (e, rqp)
         | Inr mbp \<Rightarrow>
             do {
               (_, mbp) \<leftarrow> mb_put_mem getm mbp SMB2_SIGNATURE 4 MB_MSYSTEM;
               (_, mbp) \<leftarrow> mb_put_uint16le getm mbp SMB2_HDRLEN;
               (creditchargep, mbp) \<leftarrow> mb_reserve_put nm mbp (le16 (sr_creditcharge rqp));
               (_, mbp) \<leftarrow> mb_put_uint32le getm mbp 0;
               (_, mbp) \<leftarrow> mb_put_uint16le getm mbp (sr_command rqp);
               (creditreqp, mbp) \<leftarrow> mb_reserve_put nm mbp (le16 (sr_creditsrequested rqp));
               (flagsp, mbp) \<leftarrow> mb_reserve_put nm mbp (le32 rqflags);
               (nextcmdp, mbp) \<leftarrow> mb_reserve_put nm mbp (le32 (sr_nextcmd rqp));
               (messageidp, mbp) \<leftarrow> mb_reserve_put nm mbp (replicate 8 0);
               (_, mbp) \<leftarrow>
                 (if async then mb_put_uint64le getm mbp 0
                  else do {
                    (_, mbp) \<leftarrow> mb_put_uint32le getm mbp 0xFEFF;
                    mb_put_uint32le getm mbp (sr_rqtreeid rqp)
                  });
               (_, mbp) \<leftarrow> mb_put_uint64le getm mbp (sr_rqsessionid rqp);
               (rqsig, mbp) \<leftarrow> mb_reserve_put nm mbp (replicate 16 0);
               Some (0, rqp\<lparr>sr_rq := mbp, sr_rqflags := rqflags, sr_creditchargep := Some creditchargep,
                            sr_creditreqp := Some creditreqp, sr_flagsp := Some flagsp,
                            sr_nextcmdp := Some nextcmdp, sr_messageidp := Some messageidp,
                            sr_rqsig := Some rqsig\<rparr>)
             })"

text \<open>A sequence of puts whose results are all ignored.\<close>

primrec mb_puts :: "getm \<Rightarrow> mbchain \<Rightarrow> field list \<Rightarrow> mbchain option" where
  "mb_puts getm mbp [] = Some mbp"
| "mb_puts getm mbp (f # fs) = do { (_, mbp') \<leftarrow> put_field getm mbp f; mb_puts getm mbp' fs }"

lemma mb_puts_append:
  "mb_puts getm mbp (fs @ gs) = do { mbp' \<leftarrow> mb_puts getm mbp fs; mb_puts getm mbp' gs }"
  by (induction fs arbitrary: mbp) (auto split: bind_splits)

section \<open>Building a message step by step\<close>

text \<open>
  \<open>built mbp bs ps\<close>: the message so far is \<open>bs\<close>, its length is recorded, and the pointers of \<open>ps\<close> are
  the places of the parts of it they are listed with.
\<close>

definition built :: "mbchain \<Rightarrow> byte list \<Rightarrow> (place \<times> nat \<times> nat) list \<Rightarrow> bool" where
  "built mbp bs ps \<longleftrightarrow>
     mb_inv mbp \<and> mb_bytes mbp = bs \<and> mb_len mbp = length bs \<and>
     list_all (\<lambda>(p, off, n). mb_place mbp p off n) ps"

lemma mb_reserve_frame:
  assumes "mb_inv mbp" and "mb_reserve nm mbp sz = (Some p, mbp')"
  shows "put_frame (mb_top mbp) (mb_cur mbp) (mb_top mbp')" and "mb_cur mbp \<le> mb_cur mbp'"
  using assms
  by (auto simp: mb_reserve_def Let_def put_frame_def mb_inv_def put_inv_def mbuf_setlen_def nth_append
      min_def split: option.splits if_splits)

lemma mb_reserve_Some:
  assumes "nm = Some n" "sz \<le> mbuf_maxlen n"
  obtains p mbp' where "mb_reserve nm mbp sz = (Some p, mbp')"
proof -
  have "fst (mb_reserve nm mbp sz) \<noteq> None" using assms by (simp add: mb_reserve_def Let_def)
  then show thesis using that by (cases "mb_reserve nm mbp sz") auto
qed

lemma built_placeD: "built mbp bs ps \<Longrightarrow> (p, off, n) \<in> set ps \<Longrightarrow> mb_place mbp p off n"
  by (auto simp: built_def list_all_iff)

lemma built_reserve:
  assumes b: "built mbp bs ps" and nm: "nm = Some n" "m_len n = 0" "length xs \<le> mbuf_maxlen n"
  shows "\<exists>p mbp'. mb_reserve_put nm mbp xs = Some (p, mbp') \<and>
           built mbp' (bs @ xs) ((p, length bs, length xs) # ps)"
proof -
  obtain p mbp1 where r: "mb_reserve nm mbp (length xs) = (Some p, mbp1)"
    using mb_reserve_Some [OF nm(1,3)] .
  have inv: "mb_inv mbp" using b by (simp add: built_def)
  note s = mb_reserve_spec [OF inv _ r] and f = mb_reserve_frame [OF inv r]
  have nm': "\<And>x. nm = Some x \<Longrightarrow> m_len x = 0" using nm by simp
  note s = s [OF nm']
  from s(2) obtain junk where "length junk = length xs" "mb_bytes mbp1 = bs @ junk"
    using b by (auto simp: built_def)
  then have bytes: "mb_bytes (mb_store mbp1 p xs) = bs @ xs"
    using mb_store_bytes [OF s(1,3)] b by (simp add: built_def)
  have cur: "mb_cur mbp < length (mb_top mbp)" using inv by (simp add: mb_inv_def put_inv_def)
  have "mb_place (mb_store mbp1 p xs) q off k" if "(q, off, k) \<in> set ps" for q off k
    by (rule mb_store_place [OF s(1,3) put_frame_place [OF f cur built_placeD [OF b that]]])
  then have "built (mb_store mbp1 p xs) (bs @ xs) ((p, length bs, length xs) # ps)"
    using bytes mb_store_inv [OF s(1,3)] mb_store_place [OF s(1,3,3)] s(4) b
    by (auto simp: built_def list_all_iff)
  with r show ?thesis by (auto simp: mb_reserve_put_def)
qed

lemma built_place:
  assumes b: "built mbp bs ps" and p: "(p, off, n) \<in> set ps"
  obtains pre post where "bs = pre @ mbuf_bytes (mb_top mbp ! fst p) @ post" "off = length pre + snd p"
    "snd p + n \<le> length (mbuf_bytes (mb_top mbp ! fst p))" "snd p + n \<le> m_len (mb_top mbp ! fst p)"
proof -
  have inv: "mb_inv mbp" and pl: "mb_place mbp p off n" and bs: "chain_bytes (mb_top mbp) = bs"
    using b p by (auto simp: built_def list_all_iff mb_bytes_def)
  have i: "fst p < length (mb_top mbp)" and w: "mbuf_wf (mb_top mbp ! fst p)"
    using inv pl by (auto simp: mb_inv_def put_inv_def mb_place_def)
  show thesis
    using that [OF bs [symmetric, unfolded chain_bytes_split [OF i]]] pl length_mbuf_bytes [OF w]
    by (simp add: mb_place_def)
qed

lemma built_store:
  assumes b: "built mbp bs ps" and p: "(p, off, length xs) \<in> set ps"
  shows "built (mb_store mbp p xs) (take off bs @ xs @ drop (off + length xs) bs) ps"
proof -
  have inv: "mb_inv mbp" and pl: "mb_place mbp p off (length xs)"
    using b p by (auto simp: built_def list_all_iff)
  have "off + length xs \<le> length bs" by (rule built_place [OF b p]) simp
  then have "length (take off bs @ xs @ drop (off + length xs) bs) = length bs" by simp
  then show ?thesis
    using b mb_store_bytes [OF inv pl] mb_store_inv [OF inv pl]
      mb_store_place [OF inv pl built_placeD [OF b]]
    by (auto simp: built_def list_all_iff simp del: length_append)
qed

lemma built_load:
  assumes b: "built mbp bs ps" and p: "(p, off, n) \<in> set ps"
  shows "mb_load mbp p n = take n (drop off bs)"
proof (rule built_place [OF b p])
  fix pre post
  assume bs: "bs = pre @ mbuf_bytes (mb_top mbp ! fst p) @ post" "off = length pre + snd p"
    "snd p + n \<le> length (mbuf_bytes (mb_top mbp ! fst p))" and le: "snd p + n \<le> m_len (mb_top mbp ! fst p)"
  have "mb_load mbp p n = take n (drop (snd p) (mbuf_bytes (mb_top mbp ! fst p)))"
    using le by (simp add: mb_load_def mbuf_bytes_def drop_take min_absorb1)
  then show ?thesis using bs by simp
qed

context mbuf_allocator
begin

lemma built_put:
  assumes "wf" "\<not> getm_fails getm" "built mbp bs ps" "type \<noteq> MB_MCUSTOM"
    and "type = MB_MZERO \<or> sz \<le> length xs"
  shows "\<exists>mbp'. mb_put_mem getm mbp xs sz type = Some (0, mbp') \<and> built mbp' (bs @ put_data type xs sz) ps"
proof -
  have inv: "mb_inv mbp" using assms(3) by (simp add: built_def)
  from put_mem_spec [OF assms(1) inv assms(4,5)] assms(2)
  obtain mbp' where p: "mb_put_mem getm mbp xs sz type = Some (0, mbp')"
    "mb_bytes mbp' = mb_bytes mbp @ put_data type xs sz" "mb_len mbp' = mb_len mbp + sz"
    "mb_cur mbp \<le> mb_cur mbp'" "put_frame (mb_top mbp) (mb_cur mbp) (mb_top mbp')" "mb_inv mbp'"
    by (auto split: if_splits)
  have cur: "mb_cur mbp < length (mb_top mbp)" using inv by (simp add: mb_inv_def put_inv_def)
  have len: "length (put_data type xs sz) = sz" using assms(4,5) by (auto simp: put_data_def)
  have "built mbp' (bs @ put_data type xs sz) ps"
    using p len put_frame_place [OF p(5,4) cur built_placeD [OF assms(3)]] assms(3)
    by (auto simp: built_def list_all_iff)
  with p(1) show ?thesis by blast
qed

lemma built_puts:
  assumes "wf" "\<not> getm_fails getm" "built mbp bs ps"
  shows "\<exists>mbp'. mb_puts getm mbp fs = Some mbp' \<and> built mbp' (bs @ concat (map field_bytes fs)) ps"
  using assms(3)
proof (induction fs arbitrary: mbp bs)
  case Nil
  then show ?case by simp
next
  case (Cons f fs)
  from built_put [OF assms(1,2) Cons.prems, of MB_MSYSTEM "length (field_bytes f)" "field_bytes f"]
  obtain mbp1 where "put_field getm mbp f = Some (0, mbp1)" "built mbp1 (bs @ field_bytes f) ps"
    by (auto simp: put_field_mem put_data_def)
  with Cons.IH [OF this(2)] show ?case by simp
qed

end

section \<open>The header as a value\<close>

text \<open>
  The header the client and the server exchange, as a record of its fields, and its 64 bytes. \<open>h_id\<close> is
  the process and the tree id of a sync header or the async id of an async one. A request \<open>implements\<close>
  a header and a body when its message is the two of them and its pointers are at the offsets of the
  fields they are named after.
\<close>

record smb2_hdr =
  h_charge :: u16
  h_status :: u32
  h_command :: u16
  h_credits :: u16
  h_flags :: u32
  h_nextcmd :: u32
  h_messageid :: u64
  h_id :: "byte list"
  h_session :: u64
  h_signature :: "byte list"

definition hdr_enc :: "smb2_hdr \<Rightarrow> byte list" where
  "hdr_enc h =
     SMB2_SIGNATURE @ le16 64 @ le16 (h_charge h) @ le32 (h_status h) @ le16 (h_command h) @
     le16 (h_credits h) @ le32 (h_flags h) @ le32 (h_nextcmd h) @ le64 (h_messageid h) @ h_id h @
     le64 (h_session h) @ h_signature h"

definition hdr_wf :: "smb2_hdr \<Rightarrow> bool" where
  "hdr_wf h \<longleftrightarrow> length (h_id h) = 8 \<and> length (h_signature h) = 16"

definition implements :: "smb_rq \<Rightarrow> smb2_hdr \<Rightarrow> byte list \<Rightarrow> bool" where
  "implements rqp h body \<longleftrightarrow>
     hdr_wf h \<and>
     (\<exists>charge credits flags nextcmd mid sig.
        sr_creditchargep rqp = Some charge \<and> sr_creditreqp rqp = Some credits \<and>
        sr_flagsp rqp = Some flags \<and> sr_nextcmdp rqp = Some nextcmd \<and>
        sr_messageidp rqp = Some mid \<and> sr_rqsig rqp = Some sig \<and>
        built (sr_rq rqp) (hdr_enc h @ body)
          [(sig, 48, 16), (mid, 24, 8), (nextcmd, 20, 4), (flags, 16, 4), (credits, 14, 2), (charge, 6, 2)])"

lemma length_hdr_enc [simp]: "hdr_wf h \<Longrightarrow> length (hdr_enc h) = 64"
  by (simp add: hdr_wf_def hdr_enc_def SMB2_SIGNATURE_def)

text \<open>The header a new request starts with.\<close>

definition new_hdr :: "smb_rq \<Rightarrow> smb2_hdr" where
  "new_hdr rqp =
     (let async = sr_flags rqp AND SMBR_ASYNC \<noteq> 0
      in \<lparr>h_charge = sr_creditcharge rqp, h_status = 0, h_command = sr_command rqp,
          h_credits = sr_creditsrequested rqp,
          h_flags = (if async then sr_rqflags rqp OR SMB2_FLAGS_ASYNC_COMMAND else sr_rqflags rqp),
          h_nextcmd = sr_nextcmd rqp, h_messageid = 0,
          h_id = (if async then le64 0 else le32 0xFEFF @ le32 (sr_rqtreeid rqp)),
          h_session = sr_rqsessionid rqp, h_signature = replicate 16 0\<rparr>)"

lemma mb_initm_built:
  "mbuf_wf m \<Longrightarrow> m_len m = 0 \<Longrightarrow> built (mb_initm [m]) [] []"
  by (simp add: built_def mb_initm_def mb_inv_def put_inv_def mb_bytes_def chain_bytes_empty)

lemma le_enc_zero: "le_enc n 0 = replicate n 0"
  by (induction n) simp_all

lemma le64_zero: "le64 0 = replicate 8 0"
  by (simp add: le64_def le_enc_zero)

text \<open>
  One rule per step of a building sequence: what holds of the continuation holds of the sequence. The
  steps are the put of an integer, nested or not, and a reservation that is filled in at once.
\<close>

context mbuf_allocator
begin

lemma put_bind:
  assumes "wf" "\<not> getm_fails getm" "built mbp bs ps"
  shows "length xs = k \<Longrightarrow> (\<And>mbp'. built mbp' (bs @ xs) ps \<Longrightarrow> P (f 0 mbp')) \<Longrightarrow>
      P (Option.bind (mb_put_mem getm mbp xs k MB_MSYSTEM) (case_prod f))"
    and "(\<And>mbp'. built mbp' (bs @ le16 x) ps \<Longrightarrow> P (f 0 mbp')) \<Longrightarrow>
      P (Option.bind (mb_put_uint16le getm mbp x) (case_prod f))"
    and "(\<And>mbp'. built mbp' (bs @ le32 y) ps \<Longrightarrow> P (f 0 mbp')) \<Longrightarrow>
      P (Option.bind (mb_put_uint32le getm mbp y) (case_prod f))"
    and "(\<And>mbp'. built mbp' (bs @ le64 z) ps \<Longrightarrow> P (f 0 mbp')) \<Longrightarrow>
      P (Option.bind (mb_put_uint64le getm mbp z) (case_prod f))"
    and "(\<And>mbp'. built mbp' (bs @ le32 y) ps \<Longrightarrow> P (Option.bind (g 0 mbp') (case_prod f))) \<Longrightarrow>
      P (Option.bind (mb_put_uint32le getm mbp y) (\<lambda>r. Option.bind (case_prod g r) (case_prod f)))"
proof -
  have *: "\<exists>mbp'. mb_put_mem getm mbp xs (length xs) MB_MSYSTEM = Some (0, mbp') \<and> built mbp' (bs @ xs) ps"
    for xs
    using built_put [OF assms(1-3), of MB_MSYSTEM "length xs" xs] by (simp add: put_data_def)
  show "length xs = k \<Longrightarrow> (\<And>mbp'. built mbp' (bs @ xs) ps \<Longrightarrow> P (f 0 mbp')) \<Longrightarrow>
      P (Option.bind (mb_put_mem getm mbp xs k MB_MSYSTEM) (case_prod f))"
    using * [of xs] by auto
  show "(\<And>mbp'. built mbp' (bs @ le16 x) ps \<Longrightarrow> P (f 0 mbp')) \<Longrightarrow>
      P (Option.bind (mb_put_uint16le getm mbp x) (case_prod f))"
    using * [of "le16 x"] by (auto simp: mb_put_uint16le_def)
  show "(\<And>mbp'. built mbp' (bs @ le32 y) ps \<Longrightarrow> P (f 0 mbp')) \<Longrightarrow>
      P (Option.bind (mb_put_uint32le getm mbp y) (case_prod f))"
    using * [of "le32 y"] by (auto simp: mb_put_uint32le_def)
  show "(\<And>mbp'. built mbp' (bs @ le64 z) ps \<Longrightarrow> P (f 0 mbp')) \<Longrightarrow>
      P (Option.bind (mb_put_uint64le getm mbp z) (case_prod f))"
    using * [of "le64 z"] by (auto simp: mb_put_uint64le_def)
  show "(\<And>mbp'. built mbp' (bs @ le32 y) ps \<Longrightarrow> P (Option.bind (g 0 mbp') (case_prod f))) \<Longrightarrow>
      P (Option.bind (mb_put_uint32le getm mbp y) (\<lambda>r. Option.bind (case_prod g r) (case_prod f)))"
    using * [of "le32 y"] by (auto simp: mb_put_uint32le_def)
qed

end

lemma reserve_bind:
  assumes "built mbp bs ps" "nm = Some n" "m_len n = 0" "length xs \<le> mbuf_maxlen n"
    and "\<And>p mbp'. built mbp' (bs @ xs) ((p, length bs, length xs) # ps) \<Longrightarrow> P (f p mbp')"
  shows "P (Option.bind (mb_reserve_put nm mbp xs) (case_prod f))"
  using built_reserve [OF assms(1-4)] assms(5) by auto

definition new_post :: "smb_rq \<Rightarrow> (errno \<times> smb_rq) option \<Rightarrow> bool" where
  "new_post rqp r \<longleftrightarrow>
     (\<exists>rqp'. r = Some (0, rqp') \<and> implements rqp' (new_hdr rqp) [] \<and>
        sr_creditcharge rqp' = sr_creditcharge rqp \<and> sr_command rqp' = sr_command rqp \<and>
        sr_iod rqp' = sr_iod rqp \<and> sr_session rqp' = sr_session rqp \<and> sr_flags rqp' = sr_flags rqp \<and>
        sr_extflags rqp' = sr_extflags rqp)"

context mbuf_allocator
begin

lemma rq_new_implements:
  assumes wf: "wf" "\<not> getm_fails getm" and nm: "nm = Some n" "m_len n = 0" "16 \<le> mbuf_maxlen n"
    and m: "mbuf_wf m" "m_len m = 0"
  shows "new_post rqp (smb2_rq_new getm nm (Some m) rqp)"
proof -
  note put = put_bind [OF wf, where P = "new_post rqp"]
    and res = reserve_bind [OF _ nm(1,2) order_trans [OF _ nm(3)], where P = "new_post rqp"]
    and post = new_post_def implements_def new_hdr_def hdr_enc_def hdr_wf_def SMB2_SIGNATURE_def le64_zero
  show ?thesis
  proof (cases "sr_flags rqp AND SMBR_ASYNC = 0")
    case True
    then show ?thesis
      unfolding smb2_rq_new_def Let_def mb_init_def option.case sum.case
      apply simp
      apply (rule put(1) [OF mb_initm_built [OF m]], simp add: SMB2_SIGNATURE_def)
      apply (rule put(2), assumption)
      apply (rule res, assumption, simp)
      apply (rule put(3), assumption)
      apply (rule put(2), assumption)
      apply (rule res, assumption, simp)+
      apply (rule put(5), assumption)
      apply (rule put(3), assumption)
      apply (rule put(4), assumption)
      apply (rule res, assumption, simp)
      apply (simp add: post del: split_paired_Ex)
      done
  next
    case False
    then show ?thesis
      unfolding smb2_rq_new_def Let_def mb_init_def option.case sum.case
      apply simp
      apply (rule put(1) [OF mb_initm_built [OF m]], simp add: SMB2_SIGNATURE_def)
      apply (rule put(2), assumption)
      apply (rule res, assumption, simp)
      apply (rule put(3), assumption)
      apply (rule put(2), assumption)
      apply (rule res, assumption, simp)+
      apply (rule put(4), assumption)+
      apply (rule res, assumption, simp)
      apply (simp add: post del: split_paired_Ex)
      done
  qed
qed

end

section \<open>Changing the header in place\<close>

lemma hdr_store:
  assumes "hdr_wf h"
  shows "take 16 (hdr_enc h @ b) @ le32 x @ drop 20 (hdr_enc h @ b) = hdr_enc (h\<lparr>h_flags := x\<rparr>) @ b"
    and "take 20 (hdr_enc h @ b) @ le32 y @ drop 24 (hdr_enc h @ b) = hdr_enc (h\<lparr>h_nextcmd := y\<rparr>) @ b"
    and "take 24 (hdr_enc h @ b) @ le64 z @ drop 32 (hdr_enc h @ b) = hdr_enc (h\<lparr>h_messageid := z\<rparr>) @ b"
    and "take 4 (drop 16 (hdr_enc h @ b)) = le32 (h_flags h)"
  using assms by (simp_all add: hdr_enc_def hdr_wf_def SMB2_SIGNATURE_def)

lemma implements_store:
  assumes "implements rqp h body"
  shows "sr_flagsp rqp = Some p \<Longrightarrow>
           implements (rqp\<lparr>sr_rq := mb_store (sr_rq rqp) p (le32 x)\<rparr>) (h\<lparr>h_flags := x\<rparr>) body"
    and "sr_nextcmdp rqp = Some p \<Longrightarrow>
           implements (rqp\<lparr>sr_rq := mb_store (sr_rq rqp) p (le32 x)\<rparr>) (h\<lparr>h_nextcmd := x\<rparr>) body"
    and "sr_messageidp rqp = Some p \<Longrightarrow>
           implements (rqp\<lparr>sr_rq := mb_store (sr_rq rqp) p (le64 z)\<rparr>) (h\<lparr>h_messageid := z\<rparr>) body"
    and "sr_flagsp rqp = Some p \<Longrightarrow> mb_load (sr_rq rqp) p 4 = le32 (h_flags h)"
    and "mb_len (sr_rq rqp) = 64 + length body"
proof -
  from assms obtain charge credits flags nextcmd mid sig where wf: "hdr_wf h" and
    ptr: "sr_creditchargep rqp = Some charge" "sr_creditreqp rqp = Some credits"
      "sr_flagsp rqp = Some flags" "sr_nextcmdp rqp = Some nextcmd"
      "sr_messageidp rqp = Some mid" "sr_rqsig rqp = Some sig" and
    b: "built (sr_rq rqp) (hdr_enc h @ body)
          [(sig, 48, 16), (mid, 24, 8), (nextcmd, 20, 4), (flags, 16, 4), (credits, 14, 2), (charge, 6, 2)]"
    unfolding implements_def by blast
  have wf': "hdr_wf (h\<lparr>h_flags := x\<rparr>)" "hdr_wf (h\<lparr>h_nextcmd := x\<rparr>)" "hdr_wf (h\<lparr>h_messageid := z\<rparr>)"
    using wf by (simp_all add: hdr_wf_def)
  note hs = hdr_store [OF wf, of body]
  have st: "built (mb_store (sr_rq rqp) flags (le32 x)) (hdr_enc (h\<lparr>h_flags := x\<rparr>) @ body)
      [(sig, 48, 16), (mid, 24, 8), (nextcmd, 20, 4), (flags, 16, 4), (credits, 14, 2), (charge, 6, 2)]"
    "built (mb_store (sr_rq rqp) nextcmd (le32 x)) (hdr_enc (h\<lparr>h_nextcmd := x\<rparr>) @ body)
      [(sig, 48, 16), (mid, 24, 8), (nextcmd, 20, 4), (flags, 16, 4), (credits, 14, 2), (charge, 6, 2)]"
    "built (mb_store (sr_rq rqp) mid (le64 z)) (hdr_enc (h\<lparr>h_messageid := z\<rparr>) @ body)
      [(sig, 48, 16), (mid, 24, 8), (nextcmd, 20, 4), (flags, 16, 4), (credits, 14, 2), (charge, 6, 2)]"
    using built_store [OF b, of flags 16 "le32 x"] built_store [OF b, of nextcmd 20 "le32 x"]
      built_store [OF b, of mid 24 "le64 z"]
    by (simp_all add: hs del: take_append drop_append)
  show "sr_flagsp rqp = Some p \<Longrightarrow>
      implements (rqp\<lparr>sr_rq := mb_store (sr_rq rqp) p (le32 x)\<rparr>) (h\<lparr>h_flags := x\<rparr>) body"
    "sr_nextcmdp rqp = Some p \<Longrightarrow>
      implements (rqp\<lparr>sr_rq := mb_store (sr_rq rqp) p (le32 x)\<rparr>) (h\<lparr>h_nextcmd := x\<rparr>) body"
    "sr_messageidp rqp = Some p \<Longrightarrow>
      implements (rqp\<lparr>sr_rq := mb_store (sr_rq rqp) p (le64 z)\<rparr>) (h\<lparr>h_messageid := z\<rparr>) body"
    using st ptr wf' by (simp_all add: implements_def del: split_paired_Ex)
  show "sr_flagsp rqp = Some p \<Longrightarrow> mb_load (sr_rq rqp) p 4 = le32 (h_flags h)"
    using built_load [OF b, of p 16 4] ptr by (simp only: hs) simp
  show "mb_len (sr_rq rqp) = 64 + length body"
    using b wf by (simp add: built_def)
qed

lemma or_flags_header:
  assumes "implements rqp h body" "sr_flagsp rqp = Some p"
  shows "implements (rqp\<lparr>sr_rq := or_flags (sr_rq rqp) p f\<rparr>) (h\<lparr>h_flags := h_flags h OR f\<rparr>) body"
  using implements_store(1) [OF assms, of "h_flags h OR f"] implements_store(4) [OF assms]
  by (simp add: or_flags_def wire)

text \<open>Linking a request into a compound is, on headers, the setting of two fields.\<close>

definition link_hdr :: "u32 \<Rightarrow> u32 \<Rightarrow> smb2_hdr \<Rightarrow> smb2_hdr" where
  "link_hdr pos len h =
     (if pos = SMB2_CMPD_FIRST then h\<lparr>h_nextcmd := len\<rparr>
      else if pos = SMB2_CMPD_MIDDLE then
        h\<lparr>h_nextcmd := len, h_flags := h_flags h OR SMB2_FLAGS_RELATED_OPERATIONS\<rparr>
      else h\<lparr>h_nextcmd := 0, h_flags := h_flags h OR SMB2_FLAGS_RELATED_OPERATIONS\<rparr>)"

lemma update_cmpd_hdr_link:
  assumes imp: "implements rqp h body" and pos: "pos \<in> {SMB2_CMPD_FIRST, SMB2_CMPD_MIDDLE, SMB2_CMPD_LAST}"
  shows "\<exists>rqp'. smb2_rq_update_cmpd_hdr rqp pos = (0, rqp') \<and>
           implements rqp' (link_hdr pos (of_nat (64 + length body)) h) body"
proof -
  from imp obtain fp np where p: "sr_flagsp rqp = Some fp" "sr_nextcmdp rqp = Some np"
    by (auto simp: implements_def)
  note st = implements_store(2) [OF imp p(2)]
  have len: "smb2_rq_length rqp = of_nat (64 + length body)"
    using implements_store(5) [OF imp] by (simp add: smb2_rq_length_def)
  show ?thesis
    using st [of "smb2_rq_length rqp"] or_flags_header [OF st [of "smb2_rq_length rqp"], of fp 4]
      or_flags_header [OF st [of 0], of fp 4] pos p
    by (auto simp: smb2_rq_update_cmpd_hdr_def link_hdr_def len)
qed

context mbuf_allocator
begin

lemma align8_pads:
  assumes "wf" "\<not> getm_fails getm" and imp: "implements rqp h body"
  shows "\<exists>rqp' pad. smb2_rq_align8 getm rqp = Some rqp' \<and> implements rqp' h (body @ replicate pad 0) \<and>
           pad < 8 \<and> 8 dvd 64 + length body + pad"
proof (cases "length body mod 8 = 0")
  case True
  then show ?thesis using imp implements_store(5) [OF imp]
    by (intro exI [of _ rqp] exI [of _ 0]) (auto simp: smb2_rq_align8_def mod_eq_0_iff_dvd)
next
  case False
  define pad where "pad = 8 - length body mod 8"
  from imp obtain charge credits flags nextcmd mid sig where wf: "hdr_wf h" and
    ptr: "sr_creditchargep rqp = Some charge" "sr_creditreqp rqp = Some credits"
      "sr_flagsp rqp = Some flags" "sr_nextcmdp rqp = Some nextcmd"
      "sr_messageidp rqp = Some mid" "sr_rqsig rqp = Some sig" and
    b: "built (sr_rq rqp) (hdr_enc h @ body)
          [(sig, 48, 16), (mid, 24, 8), (nextcmd, 20, 4), (flags, 16, 4), (credits, 14, 2), (charge, 6, 2)]"
    unfolding implements_def by blast
  from built_put [OF assms(1,2) b, of MB_MZERO pad "[]"] obtain mbp' where
    put: "mb_put_mem getm (sr_rq rqp) [] pad MB_MZERO = Some (0, mbp')" and
    b': "built mbp' ((hdr_enc h @ body) @ replicate pad 0)
           [(sig, 48, 16), (mid, 24, 8), (nextcmd, 20, 4), (flags, 16, 4), (credits, 14, 2), (charge, 6, 2)]"
    by (auto simp: put_data_def)
  have len: "mb_len (sr_rq rqp) mod 8 = length body mod 8"
    using implements_store(5) [OF imp] by presburger
  have "implements (rqp\<lparr>sr_rq := mbp'\<rparr>) h (body @ replicate pad 0)"
    using b' ptr wf by (simp add: implements_def del: split_paired_Ex)
  moreover have "smb2_rq_align8 getm rqp = Some (rqp\<lparr>sr_rq := mbp'\<rparr>)"
    using put False len by (simp add: smb2_rq_align8_def pad_def)
  moreover have "pad < 8" "8 dvd 64 + length body + pad"
    using False by (auto simp: pad_def) presburger
  ultimately show ?thesis by blast
qed

end

section \<open>Properties\<close>

definition wit_rq :: smb_rq where
  "wit_rq = \<lparr>sr_session = None, sr_share = None, sr_extflags = 1, sr_command = 8, sr_creditcharge = 2,
     sr_creditsrequested = 256, sr_rqflags = 0, sr_nextcmd = 0, sr_messageid = 0, sr_messageidp = None,
     sr_rqtreeid = 5, sr_rqsessionid = 9, sr_bcount = None, sr_lcount = None, sr_creditchargep = None,
     sr_creditreqp = None, sr_flagsp = None, sr_nextcmdp = None, sr_rspcreditsgranted = 0,
     sr_rspflags = 0, sr_rspnextcmd = 4, sr_rsppid = 0, sr_rsptreeid = 0, sr_rspasyncid = 0,
     sr_rspsessionid = 0, sr_cmd = 0, sr_rq = wit_mbp, sr_rp = wit_mdp, sr_rqsig = None,
     sr_ntstatus = 0, sr_flags = 0, sr_context = None, sr_iod = Some 0,
     sr_rq_compressed = \<lparr>mb_top = [], mb_cur = 0, mb_mleft = 0, mb_count = 0, mb_len = 0\<rparr>,
     sr_seqno = 0, sr_rseqno = 0, sr_t2 = None\<rparr>"

definition wit_mbuf :: mbuf where
  "wit_mbuf = fresh_mbuf (replicate 20 9)"

lemma wit_mbuf_ok: "m_len wit_mbuf = 0" "mbuf_wf wit_mbuf" "16 \<le> mbuf_maxlen wit_mbuf"
  by (simp_all add: wit_mbuf_def fresh_mbuf_def mbuf_wf_def mbuf_maxlen_def)

text \<open>C5: Building a request, in the kernel and without a failing allocation, gives a message that is the
  64 byte header of the request and nothing else, and the pointers kept for later (credit charge,
  credit request, flags, next command, message id, signature) are at the offsets of these fields,
  wherever the mbuf borders fall. The credit charge, the command and the flags of the request stay.\<close>

theorem smb2_rq_new_header:
  assumes "kpi_wf kpi" "\<not> kpi_fails kpi" and "m_len n = 0" "16 \<le> mbuf_maxlen n"
    and "mbuf_wf m" "m_len m = 0"
  shows "\<exists>rqp'. smb2_rq_new (smb_mbuf_getm kpi) (Some n) (Some m) rqp = Some (0, rqp') \<and>
           implements rqp' (new_hdr rqp) [] \<and> length (mb_bytes (sr_rq rqp')) = 64 \<and>
           sr_creditcharge rqp' = sr_creditcharge rqp \<and> sr_command rqp' = sr_command rqp \<and>
           sr_flags rqp' = sr_flags rqp"
proof -
  have nf: "\<not> getm_fails (smb_mbuf_getm kpi)" using assms(2) smb_mbuf_getm_fails [OF assms(1)] by blast
  from kernel_mbufs.rq_new_implements [OF assms(1) nf refl assms(3-6), of rqp] obtain rqp' where
    r: "smb2_rq_new (smb_mbuf_getm kpi) (Some n) (Some m) rqp = Some (0, rqp')"
      "implements rqp' (new_hdr rqp) []" "sr_creditcharge rqp' = sr_creditcharge rqp"
      "sr_command rqp' = sr_command rqp" "sr_flags rqp' = sr_flags rqp"
    by (auto simp: new_post_def)
  then have "length (mb_bytes (sr_rq rqp')) = 64" by (auto simp: implements_def built_def)
  with r show ?thesis by blast
qed

theorem smb2_rq_new_header_witness:
  "\<exists>rqp'. smb2_rq_new (smb_mbuf_getm wit_kpi) (Some wit_mbuf) (Some wit_mbuf) wit_rq = Some (0, rqp') \<and>
     implements rqp' (new_hdr wit_rq) []"
  using smb2_rq_new_header [OF wit_kpi_wf wit_mbuf_ok(1,3,2,1), of wit_rq] by blast

text \<open>C6: Padding a request and linking it into a compound: the message becomes the header with its next
  command offset set to the padded length (zero for the last request), the related flag added for all
  but the first, and the body followed by fewer than eight zeros that make the next header start at a
  multiple of eight; no other field and no byte of the body changes.\<close>

theorem compound_request_linked:
  assumes "kpi_wf kpi" "\<not> kpi_fails kpi" "implements rqp h body"
    and "pos \<in> {SMB2_CMPD_FIRST, SMB2_CMPD_MIDDLE, SMB2_CMPD_LAST}"
  shows "\<exists>rqp1 rqp2 pad. smb2_rq_align8 (smb_mbuf_getm kpi) rqp = Some rqp1 \<and>
           smb2_rq_update_cmpd_hdr rqp1 pos = (0, rqp2) \<and> pad < 8 \<and> 8 dvd 64 + length body + pad \<and>
           implements rqp2 (link_hdr pos (of_nat (64 + length body + pad)) h) (body @ replicate pad 0)"
proof -
  have nf: "\<not> getm_fails (smb_mbuf_getm kpi)" using assms(2) smb_mbuf_getm_fails [OF assms(1)] by blast
  from kernel_mbufs.align8_pads [OF assms(1) nf assms(3)] obtain rqp1 pad where
    1: "smb2_rq_align8 (smb_mbuf_getm kpi) rqp = Some rqp1" "implements rqp1 h (body @ replicate pad 0)"
       "pad < 8" "8 dvd 64 + length body + pad" by blast
  from update_cmpd_hdr_link [OF 1(2) assms(4)] 1 show ?thesis by (auto simp: add.assoc)
qed

theorem compound_request_linked_witness:
  "\<exists>rqp rqp1 rqp2. implements rqp (new_hdr wit_rq) [] \<and>
     smb2_rq_align8 (smb_mbuf_getm wit_kpi) rqp = Some rqp1 \<and> smb2_rq_update_cmpd_hdr rqp1 2 = (0, rqp2) \<and>
     (\<exists>pad. implements rqp2 (link_hdr 2 (of_nat (64 + pad)) (new_hdr wit_rq)) (replicate pad 0))"
proof -
  have nf: "\<not> getm_fails (smb_mbuf_getm wit_kpi)"
    using wit_kpi_wf(2) smb_mbuf_getm_fails [OF wit_kpi_wf(1)] by blast
  from kernel_mbufs.rq_new_implements [OF wit_kpi_wf(1) nf refl wit_mbuf_ok(1,3,2,1), of wit_rq]
  obtain rqp where "implements rqp (new_hdr wit_rq) []" by (auto simp: new_post_def)
  with compound_request_linked [OF wit_kpi_wf this, of 2] show ?thesis by fastforce
qed

text \<open>In a compound reply the step to the next command lands exactly at the start of the next reply,
  however much of the current one has been parsed.\<close>

lemma smb2_rq_next_command_lands:
  assumes "md_inv mdp" and "md_len mdp = off + k" "k \<le> unat (sr_rspnextcmd rqp)"
    and "md_rest mdp = drop k (reply @ rest)" "length reply = unat (sr_rspnextcmd rqp)"
  shows "\<exists>mdp'. smb2_rq_next_command rqp off mdp = (0, off + length reply, mdp') \<and>
           md_rest mdp' = rest \<and> md_inv mdp' \<and> md_len mdp' = off + length reply"
proof (cases "k = length reply")
  case True
  then show ?thesis using assms by (simp add: smb2_rq_next_command_def)
next
  case False
  then have less: "off + k < off + length reply" using assms by simp
  define n where "n = length reply - k"
  obtain r mdp' where g: "md_get_mem mdp n = (r, mdp')" by fastforce
  have n: "n \<le> length (md_rest mdp)" "drop n (md_rest mdp) = rest" "off + k + n = off + length reply"
    using assms less by (auto simp: n_def)
  have "\<exists>x. r = Inr x" "md_inv mdp'" "md_rest mdp' = rest" "md_len mdp' = off + length reply"
    using md_get_mem_spec [OF assms(1), of n] g n assms(2) by simp_all
  then show ?thesis using g less assms by (auto simp: smb2_rq_next_command_def n_def)
qed

end
