(* ===== verification/Compress.thy ===== *)
theory Compress
  imports Request
begin

text \<open>
  Compression of \<^verbatim>\<open>src/kernel/netsmb/smb_crypt.c\<close>: a write request is replaced by a compressed message,
  chained (a sequence of payloads, each with its own algorithm, runs of one byte as patterns) or not,
  and a compressed reply is replaced by the message it stands for.

  The compression library of the kernel is a parameter, as are the allocations. The memory the reply
  is taken apart in, \<^verbatim>\<open>bufferp\<close>, has twice the size the reply announces: a store that does not fit in it is
  the outcome \<open>Fault\<close>. \<open>None\<close> is a loop that does not end. Sizes are numbers; the code keeps them in 32 or
  64 bits, and where they come from the message or are cut to 32 bits this is written out.
\<close>

section \<open>The library and the environment\<close>

datatype compression_algorithm = COMPRESSION_SMB_LZNT1 | COMPRESSION_SMB_LZ77 | COMPRESSION_SMB_LZ77H

datatype stream_op = COMPRESSION_STREAM_ENCODE | COMPRESSION_STREAM_DECODE

text \<open>
  The two coders get the room in the target and the source and return what they store in the target;
  nothing stands for a return value of 0.
\<close>

record compression_lib =
  compression_encode_scratch_buffer_size :: "compression_algorithm \<Rightarrow> nat"
  compression_decode_scratch_buffer_size :: "compression_algorithm \<Rightarrow> nat"
  compression_encode_buffer :: "nat \<Rightarrow> byte list \<Rightarrow> compression_algorithm \<Rightarrow> byte list"
  compression_decode_buffer :: "nat \<Rightarrow> byte list \<Rightarrow> compression_algorithm \<Rightarrow> byte list"

text \<open>
  \<open>env_hdr\<close> is the mbuf \<^verbatim>\<open>mb_init\<close> gets, \<open>env_malloc\<close> tells for which sizes \<^verbatim>\<open>SMB_MALLOC_DATA\<close> succeeds and
  \<open>env_log\<close> whether \<^verbatim>\<open>smbfs_loglevel\<close> has \<^verbatim>\<open>SMB_COMPRESSION_LOG_LEVEL\<close>.
\<close>

record crypt_env =
  env_getm :: getm
  env_hdr :: "mbuf option"
  env_malloc :: "nat \<Rightarrow> bool"
  env_lib :: compression_lib
  env_log :: bool

abbreviation (input) SMB2_NO_COMPRESS_WRITE :: u32 where "SMB2_NO_COMPRESS_WRITE \<equiv> 0x10"
abbreviation (input) SMB2_FAILED_COMPRESS_WRITE :: u32 where "SMB2_FAILED_COMPRESS_WRITE \<equiv> 0x20"
abbreviation (input) SMBV_COMPRESSION_CHAINING_OFF :: u64 where
  "SMBV_COMPRESSION_CHAINING_OFF \<equiv> 0x200000000"
abbreviation (input) SMB2_COMPRESSION_NONE :: u16 where "SMB2_COMPRESSION_NONE \<equiv> 0"
abbreviation (input) SMB2_COMPRESSION_LZNT1 :: u16 where "SMB2_COMPRESSION_LZNT1 \<equiv> 1"
abbreviation (input) SMB2_COMPRESSION_LZ77 :: u16 where "SMB2_COMPRESSION_LZ77 \<equiv> 2"
abbreviation (input) SMB2_COMPRESSION_LZ77_HUFFMAN :: u16 where "SMB2_COMPRESSION_LZ77_HUFFMAN \<equiv> 3"
abbreviation (input) SMB2_COMPRESSION_PATTERN_V1 :: u16 where "SMB2_COMPRESSION_PATTERN_V1 \<equiv> 4"
abbreviation (input) SMB2_COMPRESSION_FLAG_NONE :: u16 where "SMB2_COMPRESSION_FLAG_NONE \<equiv> 0"
abbreviation (input) SMB2_COMPRESSION_FLAG_CHAINED :: u16 where "SMB2_COMPRESSION_FLAG_CHAINED \<equiv> 1"
abbreviation (input) SMB2_COMPRESSION_LZNT1_ENABLED :: u32 where "SMB2_COMPRESSION_LZNT1_ENABLED \<equiv> 1"
abbreviation (input) SMB2_COMPRESSION_LZ77_ENABLED :: u32 where "SMB2_COMPRESSION_LZ77_ENABLED \<equiv> 2"
abbreviation (input) SMB2_COMPRESSION_LZ77_HUFFMAN_ENABLED :: u32 where
  "SMB2_COMPRESSION_LZ77_HUFFMAN_ENABLED \<equiv> 4"


definition SMB2_SIGNATURE_COMPRESSION :: "byte list" where
  "SMB2_SIGNATURE_COMPRESSION = [0xFC, 0x53, 0x4D, 0x42]"

definition compress_algorithm :: "u16 \<Rightarrow> compression_algorithm option" where
  "compress_algorithm algorithm =
     (if algorithm = SMB2_COMPRESSION_LZNT1 then Some COMPRESSION_SMB_LZNT1
      else if algorithm = SMB2_COMPRESSION_LZ77 then Some COMPRESSION_SMB_LZ77
      else if algorithm = SMB2_COMPRESSION_LZ77_HUFFMAN then Some COMPRESSION_SMB_LZ77H
      else None)"

text \<open>
  One call of the library: \<open>source\<close> is coded into a target with \<open>room\<close> bytes. What it stores is
  returned, its length is \<^verbatim>\<open>*actual_len\<close>.
\<close>

definition smb2_compress_data ::
  "crypt_env \<Rightarrow> stream_op \<Rightarrow> byte list \<Rightarrow> nat \<Rightarrow> u16 \<Rightarrow> errno + byte list" where
  "smb2_compress_data env compress_flag source room algorithm =
     (case compress_algorithm algorithm of
        None \<Rightarrow> Inl EINVAL
      | Some alg \<Rightarrow>
          let scratch_size =
                (if compress_flag = COMPRESSION_STREAM_ENCODE
                 then compression_encode_scratch_buffer_size (env_lib env) alg
                 else compression_decode_scratch_buffer_size (env_lib env) alg)
          in if scratch_size > 0 \<and> \<not> env_malloc env scratch_size then Inl ENOMEM
             else
               let out =
                     (if compress_flag = COMPRESSION_STREAM_ENCODE
                      then compression_encode_buffer (env_lib env) room source alg
                      else compression_decode_buffer (env_lib env) room source alg)
               in if length out = 0 \<and> compress_flag = COMPRESSION_STREAM_DECODE then Inl EINVAL
                  else Inr out)"

section \<open>Compressing a write\<close>

text \<open>
  A byte of the buffer is a \<^verbatim>\<open>uint8_t\<close>, the character it is compared with is a \<^verbatim>\<open>char\<close>, which is signed on
  the client's platforms: both are promoted to \<^verbatim>\<open>int\<close>.
\<close>

definition char_eq :: "byte \<Rightarrow> byte \<Rightarrow> bool" where
  "char_eq b c \<longleftrightarrow> uint b = sint c"

definition forward_scan :: "byte list \<Rightarrow> nat \<Rightarrow> byte \<Rightarrow> nat" where
  "forward_scan write_bufferp n c =
     1 + length (takeWhile (\<lambda>i. char_eq (write_bufferp ! i) c) [1..<n])"

definition backward_scan :: "byte list \<Rightarrow> nat \<Rightarrow> byte \<Rightarrow> nat \<Rightarrow> nat" where
  "backward_scan write_bufferp n c backward_data_stop =
     1 + length (takeWhile (\<lambda>i. char_eq (write_bufferp ! i) c) (rev [Suc backward_data_stop..<n - 1]))"

text \<open>The out parameters of \<^verbatim>\<open>smb2_rq_compress_chunk\<close>; \<open>ck_out\<close> is what is stored at \<^verbatim>\<open>compress_startp\<close>.\<close>

record chunk =
  ck_fwd :: nat
  ck_fchar :: byte
  ck_bwd :: nat
  ck_bchar :: byte
  ck_out :: "byte list"
  ck_data_len :: nat
  ck_actual_len :: nat

text \<open>\<open>bchar\<close> is the backward character of the chunk before, which stays when there is no backward scan.\<close>

definition chunk_forward :: "smb_session \<Rightarrow> byte list \<Rightarrow> nat \<Rightarrow> nat \<times> byte \<times> nat \<times> smb_session" where
  "chunk_forward sessionp write_bufferp n =
     (let c = write_bufferp ! 0;
          fwd = forward_scan write_bufferp n c
      in if fwd > 1 then (fwd, c, n - fwd, sessionp\<lparr>write_cnt_fwd_pattern := write_cnt_fwd_pattern sessionp + 1\<rparr>)
         else (fwd, c, n, sessionp))"

definition chunk_backward ::
  "smb_session \<Rightarrow> byte list \<Rightarrow> nat \<Rightarrow> nat \<Rightarrow> nat \<Rightarrow> byte \<Rightarrow> nat \<times> byte \<times> nat \<times> smb_session" where
  "chunk_backward sessionp write_bufferp n fwd remaining bchar =
     (if remaining > 0 \<and> n \<ge> 2 then
        let stop = (if fwd > 1 then fwd - 1 else 1);
            c = write_bufferp ! (n - 1);
            bwd = backward_scan write_bufferp n c stop
        in if bwd > 1 then
             (bwd, c, remaining - bwd, sessionp\<lparr>write_cnt_bwd_pattern := write_cnt_bwd_pattern sessionp + 1\<rparr>)
           else (bwd, c, remaining, sessionp)
      else (1, bchar, remaining, sessionp))"

definition smb2_rq_compress_chunk ::
  "crypt_env \<Rightarrow> smb_session \<Rightarrow> u16 \<Rightarrow> byte list \<Rightarrow> nat \<Rightarrow> byte \<Rightarrow> errno \<times> chunk \<times> smb_session" where
  "smb2_rq_compress_chunk env sessionp algorithm write_bufferp n bchar =
     (case chunk_forward sessionp write_bufferp n of
        (fwd, fc, remaining, sessionp) \<Rightarrow>
          (case chunk_backward sessionp write_bufferp n fwd remaining bchar of
             (bwd, bc, remaining, sessionp) \<Rightarrow>
               let ck = \<lparr>ck_fwd = fwd, ck_fchar = fc, ck_bwd = bwd, ck_bchar = bc, ck_out = [],
                          ck_data_len = 0, ck_actual_len = 0\<rparr>
               in if remaining > 0 then
                    let skip = (if fwd > 1 then fwd else 0);
                        data_len = n - skip - (if bwd > 1 then bwd else 0);
                        source = take data_len (drop skip write_bufferp);
                        ck = ck\<lparr>ck_data_len := data_len\<rparr>
                    in case smb2_compress_data env COMPRESSION_STREAM_ENCODE source data_len algorithm of
                         Inl e \<Rightarrow> (e, ck, sessionp)
                       | Inr out \<Rightarrow>
                           if length out = 0 then (0, ck\<lparr>ck_out := source\<rparr>, sessionp)
                           else (0, ck\<lparr>ck_out := out, ck_actual_len := length out\<rparr>, sessionp)
                  else (0, ck, sessionp)))"

text \<open>The payloads of a chunk: the forward pattern, the data, the backward pattern.\<close>

definition pattern_fields :: "byte \<Rightarrow> nat \<Rightarrow> field list" where
  "pattern_fields c n =
     [U16le SMB2_COMPRESSION_PATTERN_V1, U16le SMB2_COMPRESSION_FLAG_NONE, U32le 8,
      U8 c, U8 0, U16le 0, U32le (of_nat n)]"

definition data_fields :: "u16 \<Rightarrow> chunk \<Rightarrow> field list" where
  "data_fields algorithm ck =
     (if ck_actual_len ck \<noteq> 0 then
        [U16le algorithm, U16le SMB2_COMPRESSION_FLAG_NONE, U32le (of_nat (ck_actual_len ck) + 4),
         U32le (of_nat (ck_data_len ck)), Mem (take (ck_actual_len ck) (ck_out ck))]
      else if ck_data_len ck \<noteq> 0 then
        [U16le SMB2_COMPRESSION_NONE, U16le SMB2_COMPRESSION_FLAG_NONE, U32le (of_nat (ck_data_len ck)),
         Mem (take (ck_data_len ck) (ck_out ck))]
      else [])"

definition chunk_fields :: "u16 \<Rightarrow> chunk \<Rightarrow> field list" where
  "chunk_fields algorithm ck =
     (if ck_fwd ck > 1 then pattern_fields (ck_fchar ck) (ck_fwd ck) else []) @
     data_fields algorithm ck @
     (if ck_bwd ck > 1 then pattern_fields (ck_bchar ck) (ck_bwd ck) else [])"

text \<open>
  The loop over the chunks. \<open>one\<close> is \<^verbatim>\<open>one_chunk_compressed\<close>. With a chunk length of 0 it makes no progress
  and does not end.
\<close>

partial_function (option) compress_loop ::
  "crypt_env \<Rightarrow> u16 \<Rightarrow> smb_session \<Rightarrow> byte list \<Rightarrow> nat \<Rightarrow> byte \<Rightarrow> bool \<Rightarrow> mbchain \<Rightarrow>
     (errno \<times> bool \<times> smb_session \<times> mbchain) option" where
  "compress_loop env algorithm sessionp write_bufferp remaining bchar one mbp =
     (if remaining > 0 then
        let n = (if remaining > unat (compression_chunk_len sessionp)
                 then unat (compression_chunk_len sessionp) else remaining);
            (e, ck, sessionp') = smb2_rq_compress_chunk env sessionp algorithm write_bufferp n bchar
        in if e \<noteq> 0 then Some (e, one, sessionp', mbp)
           else do {
             mbp' \<leftarrow> mb_puts (env_getm env) mbp (chunk_fields algorithm ck);
             compress_loop env algorithm sessionp' (drop n write_bufferp) (remaining - n) (ck_bchar ck)
               (one \<or> ck_actual_len ck \<noteq> 0 \<or> ck_fwd ck > 1 \<or> ck_bwd ck > 1) mbp'
           }
      else Some (0, one, sessionp, mbp))"

declare compress_loop.simps [simp del]

text \<open>\<open>hdr_write\<close> is the header and the fixed part of a write request, 112 bytes, its length field at 68.\<close>

definition sizeof_hdr_write :: nat where "sizeof_hdr_write = 112"

definition hdr_write_length :: "byte list \<Rightarrow> nat" where
  "hdr_write_length hdr_write = le_dec (take 4 (drop 68 hdr_write))"

definition not_smaller :: "smb_rq \<Rightarrow> smb_rq" where
  "not_smaller rqp =
     rqp\<lparr>sr_extflags := sr_extflags rqp OR SMB2_FAILED_COMPRESS_WRITE,
         sr_rq_compressed := mb_done (sr_rq_compressed rqp)\<rparr>"

definition compressed :: "smb_rq \<Rightarrow> smb_session \<Rightarrow> mbchain \<Rightarrow> smb_rq" where
  "compressed rqp sessionp mbp =
     rqp\<lparr>sr_flags := sr_flags rqp OR SMBR_COMPRESSED, sr_rq_compressed := mbp,
         sr_session := Some (sessionp\<lparr>write_compress_cnt := write_compress_cnt sessionp + 1\<rparr>)\<rparr>"

definition compress_chained ::
  "crypt_env \<Rightarrow> smb_rq \<Rightarrow> smb_session \<Rightarrow> u16 \<Rightarrow> byte list \<Rightarrow> byte list \<Rightarrow> (errno \<times> smb_rq) option" where
  "compress_chained env rqp sessionp algorithm hdr_write write_bufferp =
     do {
       mbp \<leftarrow> mb_puts (env_getm env) (sr_rq_compressed rqp)
         [Mem SMB2_SIGNATURE_COMPRESSION, U32le (of_nat (sizeof_hdr_write + length write_bufferp)),
          U16le SMB2_COMPRESSION_NONE, U16le SMB2_COMPRESSION_FLAG_CHAINED,
          U32le (of_nat sizeof_hdr_write), Mem hdr_write];
       (e, one, sessionp, mbp) \<leftarrow>
         compress_loop env algorithm sessionp write_bufferp (length write_bufferp) 0 False mbp;
       let rqp = rqp\<lparr>sr_session := Some sessionp, sr_rq_compressed := mbp\<rparr>
       in Some (if e \<noteq> 0 then (e, rqp)
                else if \<not> one then (0, not_smaller rqp)
                else (0, compressed rqp sessionp mbp))
     }"

definition compress_unchained ::
  "crypt_env \<Rightarrow> smb_rq \<Rightarrow> smb_session \<Rightarrow> u16 \<Rightarrow> byte list \<Rightarrow> byte list \<Rightarrow> (errno \<times> smb_rq) option" where
  "compress_unchained env rqp sessionp algorithm hdr_write write_bufferp =
     (case smb2_compress_data env COMPRESSION_STREAM_ENCODE write_bufferp (length write_bufferp) algorithm of
        Inl e \<Rightarrow> Some (e, rqp)
      | Inr out \<Rightarrow>
          if length out = 0 then Some (0, not_smaller rqp)
          else do {
            mbp \<leftarrow> mb_puts (env_getm env) (sr_rq_compressed rqp)
              [Mem SMB2_SIGNATURE_COMPRESSION, U32le (of_nat (length write_bufferp)), U16le algorithm,
               U16le SMB2_COMPRESSION_FLAG_NONE, U32le (of_nat sizeof_hdr_write), Mem hdr_write, Mem out];
            Some (0, compressed rqp sessionp mbp)
          })"

text \<open>The request is read through a second chain on the same mbufs.\<close>

definition compress_request ::
  "crypt_env \<Rightarrow> smb_rq \<Rightarrow> smb_session \<Rightarrow> u16 \<Rightarrow> bool \<Rightarrow> (errno \<times> smb_rq) option" where
  "compress_request env rqp sessionp algorithm chained =
     (case md_get_mem (md_initm (mb_top (sr_rq rqp)) []) sizeof_hdr_write of
        (Inl e, _) \<Rightarrow> Some (e, rqp)
      | (Inr hdr_write, temp_mbdata) \<Rightarrow>
          let write_buffer_len = hdr_write_length hdr_write
          in if write_buffer_len = 0 then Some (EINVAL, rqp)
             else if write_buffer_len > kDefaultMaxIOSize then Some (E2BIG, rqp)
             else if write_buffer_len < 2 \<or> write_buffer_len < unat (compression_io_threshold sessionp)
             then Some (0, rqp)
             else if \<not> env_malloc env (write_buffer_len * 2) then Some (ENOMEM, rqp)
             else case md_get_mem temp_mbdata write_buffer_len of
                    (Inl e, _) \<Rightarrow> Some (e, rqp)
                  | (Inr write_bufferp, _) \<Rightarrow>
                      if chained then compress_chained env rqp sessionp algorithm hdr_write write_bufferp
                      else compress_unchained env rqp sessionp algorithm hdr_write write_bufferp)"

definition write_algorithm :: "smb_session \<Rightarrow> (u16 \<times> smb_session) option" where
  "write_algorithm sessionp =
     (let algs = server_compression_algorithms_map sessionp
      in if algs AND SMB2_COMPRESSION_LZ77_HUFFMAN_ENABLED \<noteq> 0 then
           Some (SMB2_COMPRESSION_LZ77_HUFFMAN, sessionp\<lparr>write_cnt_LZ77Huff := write_cnt_LZ77Huff sessionp + 1\<rparr>)
         else if algs AND SMB2_COMPRESSION_LZ77_ENABLED \<noteq> 0 then
           Some (SMB2_COMPRESSION_LZ77, sessionp\<lparr>write_cnt_LZ77 := write_cnt_LZ77 sessionp + 1\<rparr>)
         else if algs AND SMB2_COMPRESSION_LZNT1_ENABLED \<noteq> 0 then
           Some (SMB2_COMPRESSION_LZNT1, sessionp\<lparr>write_cnt_LZNT1 := write_cnt_LZNT1 sessionp + 1\<rparr>)
         else None)"

definition smb2_rq_compress_write :: "crypt_env \<Rightarrow> smb_rq \<Rightarrow> (errno \<times> smb_rq) option" where
  "smb2_rq_compress_write env rqp =
     (case sr_session rqp of
        None \<Rightarrow> Some (EINVAL, rqp)
      | Some sessionp \<Rightarrow>
          if \<not> SMBV_SMB3_OR_LATER sessionp \<or> server_compression_algorithms_map sessionp = 0 \<or>
             sr_flags rqp AND SMBR_COMPOUND_RQ \<noteq> 0 \<or> sr_command rqp \<noteq> SMB2_WRITE \<or>
             sr_extflags rqp AND SMB2_NO_COMPRESS_WRITE \<noteq> 0
          then Some (0, rqp)
          else case write_algorithm sessionp of
                 None \<Rightarrow> Some (0, rqp)
               | Some (algorithm, sessionp) \<Rightarrow>
                   (case mb_init (env_hdr env) of
                      Inl e \<Rightarrow> Some (e, rqp\<lparr>sr_session := Some sessionp\<rparr>)
                    | Inr mbp \<Rightarrow>
                        compress_request env (rqp\<lparr>sr_session := Some sessionp, sr_rq_compressed := mbp\<rparr>)
                          sessionp algorithm
                          (session_misc_flags sessionp AND SMBV_COMPRESSION_CHAINING_OFF = 0)))"

section \<open>Decompressing a reply\<close>

datatype 'a outcome = Fault | Ret errno 'a

text \<open>Going on after a call that may fail.\<close>

definition and_then :: "'a outcome \<Rightarrow> ('a \<Rightarrow> 'a outcome option) \<Rightarrow> 'a outcome option" where
  "and_then r k =
     (case r of Fault \<Rightarrow> Some Fault | Ret e s \<Rightarrow> if e \<noteq> 0 then Some (Ret e s) else k s)"

text \<open>
  The variables of the loop: \<^verbatim>\<open>compressed_mdp\<close>, \<^verbatim>\<open>decompressed_mbp\<close>, \<^verbatim>\<open>CurrentDecompressedDataSize\<close>,
  \<^verbatim>\<open>decompress_called\<close>, \<^verbatim>\<open>read_smb_hdr\<close> and the session with its counters.
\<close>

record dec_state =
  ds_md :: mdchain
  ds_mb :: mbchain
  ds_cur :: nat
  ds_called :: bool
  ds_hdr :: bool
  ds_session :: smb_session

definition dget ::
  "(mdchain \<Rightarrow> (errno + 'v) \<times> mdchain) \<Rightarrow> ('v \<Rightarrow> dec_state \<Rightarrow> dec_state outcome option) \<Rightarrow>
     dec_state \<Rightarrow> dec_state outcome option" where
  "dget get k s =
     (case get (ds_md s) of
        (Inl e, md) \<Rightarrow> Some (Ret e (s\<lparr>ds_md := md\<rparr>))
      | (Inr v, md) \<Rightarrow> k v (s\<lparr>ds_md := md\<rparr>))"

definition dput :: "crypt_env \<Rightarrow> byte list \<Rightarrow> dec_state \<Rightarrow> dec_state option" where
  "dput env bs s =
     do { (_, mb) \<leftarrow> mb_put_mem (env_getm env) (ds_mb s) bs (length bs) MB_MSYSTEM; Some (s\<lparr>ds_mb := mb\<rparr>) }"

text \<open>
  Copying bytes that are not compressed. When the log level asks for it, the header is taken out
  first so that its message id can be printed.
\<close>

definition copy_rest :: "crypt_env \<Rightarrow> nat \<Rightarrow> dec_state \<Rightarrow> dec_state outcome option" where
  "copy_rest env n s =
     do {
       (e, md, mb) \<leftarrow> md_get_mem_put_mem (env_getm env) (ds_md s) (ds_mb s) n;
       Some (Ret e (s\<lparr>ds_md := md, ds_mb := mb\<rparr>))
     }"

definition copy_plain :: "crypt_env \<Rightarrow> bool \<Rightarrow> nat \<Rightarrow> dec_state \<Rightarrow> dec_state outcome option" where
  "copy_plain env unread n s =
     (if env_log env \<and> n > 64 \<and> unread then
        dget (\<lambda>md. md_get_mem md 64)
          (\<lambda>smb2_hdr s. do { s \<leftarrow> dput env smb2_hdr (s\<lparr>ds_hdr := True\<rparr>); copy_rest env (n - 64) s }) s
      else copy_rest env n s)"

text \<open>
  The length of a payload, or the offset of the compressed part in a message that is not chained;
  the bytes before that part are copied.
\<close>

definition payload_length ::
  "crypt_env \<Rightarrow> bool \<Rightarrow> nat \<Rightarrow> (nat \<Rightarrow> dec_state \<Rightarrow> dec_state outcome option) \<Rightarrow> dec_state \<Rightarrow>
     dec_state outcome option" where
  "payload_length env chained segment k =
     dget md_get_uint32le (\<lambda>len s.
       if chained then
         if unat len > md_get_size (ds_md s) then Some (Ret E2BIG s) else k (unat len) s
       else if unat len > segment - ds_cur s then Some (Ret EINVAL s)
       else if unat len > 0 then do { r \<leftarrow> copy_plain env True (unat len) s; and_then r (k (unat len)) }
       else k (unat len) s)"

definition decompress_none :: "crypt_env \<Rightarrow> nat \<Rightarrow> nat \<Rightarrow> dec_state \<Rightarrow> dec_state outcome option" where
  "decompress_none env segment compress_len s =
     (if compress_len > segment - ds_cur s then Some (Ret EINVAL s)
      else do {
        r \<leftarrow> copy_plain env (\<not> ds_hdr s) compress_len s;
        and_then r (\<lambda>s. Some (Ret 0 (s\<lparr>ds_cur := ds_cur s + compress_len\<rparr>)))
      })"

definition count_pattern :: "dec_state \<Rightarrow> dec_state" where
  "count_pattern s =
     (let sessionp = ds_session s
      in if \<not> ds_called s then
           s\<lparr>ds_session := sessionp\<lparr>read_cnt_fwd_pattern := read_cnt_fwd_pattern sessionp + 1\<rparr>, ds_called := True\<rparr>
         else s\<lparr>ds_session := sessionp\<lparr>read_cnt_bwd_pattern := read_cnt_bwd_pattern sessionp + 1\<rparr>\<rparr>)"

definition decompress_pattern :: "crypt_env \<Rightarrow> nat \<Rightarrow> dec_state \<Rightarrow> dec_state outcome option" where
  "decompress_pattern env segment s =
     dget md_get_uint8 (\<lambda>pattern_char.
     dget md_get_uint8 (\<lambda>_.
     dget md_get_uint16le (\<lambda>_.
     dget md_get_uint32le (\<lambda>pattern_repetitions s.
       let n = unat pattern_repetitions
       in if n > segment - ds_cur s then Some (Ret EINVAL s)
          else if n > segment * 2 then Some Fault
          else do {
            s \<leftarrow> dput env (replicate n pattern_char) s;
            Some (Ret 0 (s\<lparr>ds_cur := ds_cur s + n\<rparr>))
          })))) (count_pattern s)"

definition count_lz :: "u16 \<Rightarrow> dec_state \<Rightarrow> dec_state" where
  "count_lz algorithm s =
     (let sessionp = ds_session s
      in s\<lparr>ds_called := True,
           ds_session :=
             (if algorithm = SMB2_COMPRESSION_LZ77_HUFFMAN
              then sessionp\<lparr>read_cnt_LZ77Huff := read_cnt_LZ77Huff sessionp + 1\<rparr>
              else if algorithm = SMB2_COMPRESSION_LZ77
              then sessionp\<lparr>read_cnt_LZ77 := read_cnt_LZ77 sessionp + 1\<rparr>
              else sessionp\<lparr>read_cnt_LZNT1 := read_cnt_LZNT1 sessionp + 1\<rparr>)\<rparr>)"

text \<open>
  The compressed bytes are copied to the first half of the buffer, which has \<open>segment * 2\<close> bytes in
  all, and decoded into its second half. The copy stores what the message still has, at most
  \<open>compress_len\<close> bytes.
\<close>

definition lz_decode :: "crypt_env \<Rightarrow> nat \<Rightarrow> u16 \<Rightarrow> nat \<Rightarrow> nat \<Rightarrow> dec_state \<Rightarrow> dec_state outcome option" where
  "lz_decode env segment algorithm compress_len original_payload_size s =
     (if min compress_len (md_get_size (ds_md s)) > segment * 2 then Some Fault
      else
        dget (\<lambda>md. md_get_mem md compress_len) (\<lambda>source s.
          case smb2_compress_data env COMPRESSION_STREAM_DECODE source original_payload_size algorithm of
            Inl e \<Rightarrow> Some (Ret e s)
          | Inr out \<Rightarrow>
              if length out \<noteq> original_payload_size then Some (Ret EINVAL s)
              else do {
                s \<leftarrow> dput env out s;
                Some (Ret 0 (s\<lparr>ds_cur := ds_cur s + original_payload_size,
                               ds_hdr := (ds_hdr s \<or> env_log env \<and> length out > 64)\<rparr>))
              }) s)"

text \<open>\<open>replyLen\<close> is the length of the whole message.\<close>

definition decompress_lz ::
  "crypt_env \<Rightarrow> nat \<Rightarrow> bool \<Rightarrow> nat \<Rightarrow> u16 \<Rightarrow> nat \<Rightarrow> dec_state \<Rightarrow> dec_state outcome option" where
  "decompress_lz env replyLen chained segment algorithm len s =
     (if chained then
        dget md_get_uint32le (\<lambda>original_payload_size s.
          if unat original_payload_size > segment - ds_cur s then Some (Ret EINVAL s)
          else if len \<le> 4 then Some (Ret EINVAL s)
          else lz_decode env segment algorithm (len - 4) (unat original_payload_size) s) (count_lz algorithm s)
      else
        let compress_len = replyLen mod 2 ^ 32
        in if len > compress_len then Some (Ret EINVAL (count_lz algorithm s))
           else if 16 > compress_len - len then Some (Ret EINVAL (count_lz algorithm s))
           else lz_decode env segment algorithm (compress_len - len - 16) segment (count_lz algorithm s))"

definition decompress_payload ::
  "crypt_env \<Rightarrow> nat \<Rightarrow> bool \<Rightarrow> nat \<Rightarrow> dec_state \<Rightarrow> dec_state outcome option" where
  "decompress_payload env replyLen chained segment =
     dget md_get_uint16le (\<lambda>algorithm.
     dget md_get_uint16le (\<lambda>flags.
     payload_length env chained segment (\<lambda>len s.
       if algorithm = SMB2_COMPRESSION_NONE then decompress_none env segment len s
       else if algorithm = SMB2_COMPRESSION_PATTERN_V1 then decompress_pattern env segment s
       else if algorithm = SMB2_COMPRESSION_LZNT1 \<or> algorithm = SMB2_COMPRESSION_LZ77 \<or>
               algorithm = SMB2_COMPRESSION_LZ77_HUFFMAN
       then decompress_lz env replyLen chained segment algorithm len s
       else Some (Ret EINVAL s))))"

partial_function (option) decompress_loop ::
  "crypt_env \<Rightarrow> nat \<Rightarrow> bool \<Rightarrow> nat \<Rightarrow> dec_state \<Rightarrow> dec_state outcome option" where
  "decompress_loop env replyLen chained segment s =
     (if ds_cur s < segment then
        do {
          r \<leftarrow> decompress_payload env replyLen chained segment s;
          case r of
            Fault \<Rightarrow> Some Fault
          | Ret e s' \<Rightarrow>
              if e \<noteq> 0 then Some (Ret e s')
              else decompress_loop env replyLen chained segment s'
        }
      else Some (Ret 0 s))"

declare decompress_loop.simps [simp del]

text \<open>The whole function, with the new reply and the session; the reply stays when there is an error.\<close>

definition decompress_segment ::
  "crypt_env \<Rightarrow> smb_session \<Rightarrow> mbuf list \<Rightarrow> mbchain \<Rightarrow> nat \<Rightarrow> mdchain \<Rightarrow> (smb_session \<times> mbuf list) outcome option" where
  "decompress_segment env sessionp m mbp segment mdp =
     do {
       r \<leftarrow> decompress_loop env (mbuf_get_chain_len m)
              (session_misc_flags sessionp AND SMBV_COMPRESSION_CHAINING_OFF = 0) segment
              \<lparr>ds_md = mdp, ds_mb = mbp, ds_cur = 0, ds_called = False, ds_hdr = False, ds_session = sessionp\<rparr>;
       Some (case r of
               Fault \<Rightarrow> Fault
             | Ret e s \<Rightarrow>
                 if e \<noteq> 0 then Ret e (ds_session s, m)
                 else if ds_cur s \<noteq> segment then Ret EINVAL (ds_session s, m)
                 else Ret 0 ((ds_session s)\<lparr>read_compress_cnt := read_compress_cnt (ds_session s) + 1\<rparr>,
                              mb_top (ds_mb s)))
     }"

definition smb2_rq_decompress_read ::
  "crypt_env \<Rightarrow> smb_session \<Rightarrow> mbuf list \<Rightarrow> (smb_session \<times> mbuf list) outcome option" where
  "smb2_rq_decompress_read env sessionp m =
     (if \<not> SMBV_SMB3_OR_LATER sessionp \<or> server_compression_algorithms_map sessionp = 0
      then Some (Ret 0 (sessionp, m))
      else case mb_init (env_hdr env) of
             Inl e \<Rightarrow> Some (Ret e (sessionp, m))
           | Inr mbp \<Rightarrow>
               (case md_get_uint32le (md_initm m []) of
                  (Inl e, _) \<Rightarrow> Some (Ret e (sessionp, m))
                | (Inr protocol_id, mdp) \<Rightarrow>
                    (case md_get_uint32le mdp of
                       (Inl e, _) \<Rightarrow> Some (Ret e (sessionp, m))
                     | (Inr originalCompressedSegmentSize, mdp) \<Rightarrow>
                         let segment = unat originalCompressedSegmentSize
                         in if segment > kDefaultMaxIOSize then Some (Ret E2BIG (sessionp, m))
                            else if \<not> env_malloc env (segment * 2) then Some (Ret ENOMEM (sessionp, m))
                            else decompress_segment env sessionp m mbp segment mdp)))"

section \<open>Reading and writing without failing allocations\<close>

text \<open>
  The environments the theorems are about: mbufs come from the kernel's allocator, which does not fail,
  and the coders stay inside the target they are given.
\<close>

definition env_ok :: "crypt_env \<Rightarrow> bool" where
  "env_ok env \<longleftrightarrow>
     (\<exists>kpi. kpi_wf kpi \<and> \<not> kpi_fails kpi \<and> env_getm env = smb_mbuf_getm kpi) \<and>
     (\<exists>m. env_hdr env = Some m \<and> mbuf_wf m \<and> m_len m = 0) \<and>
     (\<forall>n src alg. length (compression_encode_buffer (env_lib env) n src alg) \<le> n \<and>
        length (compression_decode_buffer (env_lib env) n src alg) \<le> n)"

lemma env_put:
  assumes "env_ok env" "mb_inv mbp"
  shows "\<exists>mbp'. mb_put_mem (env_getm env) mbp bs (length bs) MB_MSYSTEM = Some (0, mbp') \<and> mb_inv mbp' \<and>
           mb_bytes mbp' = mb_bytes mbp @ bs"
proof -
  obtain kpi where k: "kpi_wf kpi" "\<not> kpi_fails kpi" "env_getm env = smb_mbuf_getm kpi"
    using assms(1) by (auto simp: env_ok_def)
  have "\<not> getm_fails (smb_mbuf_getm kpi)" using smb_mbuf_getm_fails k by blast
  then show ?thesis
    using kernel_mbufs.put_mem_spec [OF k(1) assms(2), of MB_MSYSTEM "length bs" bs]
    by (auto simp: k(3) put_data_def split: if_splits)
qed

lemma env_copy:
  assumes "env_ok env" "mb_inv mbp" "md_inv mdp"
  shows "\<exists>e mdp' mbp'. md_get_mem_put_mem (env_getm env) mdp mbp n = Some (e, mdp', mbp') \<and>
           (if n \<le> length (md_rest mdp)
            then e = 0 \<and> mb_inv mbp' \<and> md_inv mdp' \<and> mb_bytes mbp' = mb_bytes mbp @ take n (md_rest mdp) \<and>
                 md_rest mdp' = drop n (md_rest mdp)
            else e \<noteq> 0)"
proof -
  obtain kpi where k: "kpi_wf kpi" "\<not> kpi_fails kpi" "env_getm env = smb_mbuf_getm kpi"
    using assms(1) by (auto simp: env_ok_def)
  show ?thesis
    using md_get_mem_put_mem_copies [OF k(1) assms(3,2), of n] k(2) by (fastforce simp: k(3) split: if_splits)
qed

lemma env_puts:
  assumes "env_ok env" "built mbp bs ps"
  shows "\<exists>mbp'. mb_puts (env_getm env) mbp fs = Some mbp' \<and> built mbp' (bs @ concat (map field_bytes fs)) ps"
proof -
  obtain kpi where k: "kpi_wf kpi" "\<not> kpi_fails kpi" "env_getm env = smb_mbuf_getm kpi"
    using assms(1) by (auto simp: env_ok_def)
  have "\<not> getm_fails (smb_mbuf_getm kpi)" using smb_mbuf_getm_fails k by blast
  then show ?thesis using kernel_mbufs.built_puts [OF k(1) _ assms(2)] by (simp add: k(3))
qed

lemma env_init:
  assumes "env_ok env"
  obtains mbp where "mb_init (env_hdr env) = Inr mbp" "built mbp [] []"
  using assms mb_initm_built by (auto simp: env_ok_def mb_init_def)

section \<open>The loop over the payloads of a reply\<close>

definition advance :: "nat \<Rightarrow> dec_state \<Rightarrow> dec_state" where
  "advance n s = s\<lparr>ds_md := snd (md_get_mem (ds_md s) n)\<rparr>"

lemma advance_simps [simp]:
  "ds_mb (advance n s) = ds_mb s" "ds_cur (advance n s) = ds_cur s" "ds_called (advance n s) = ds_called s"
  "ds_hdr (advance n s) = ds_hdr s" "ds_session (advance n s) = ds_session s"
  by (simp_all add: advance_def)

lemma advance_rest [simp]:
  assumes "md_inv (ds_md s)"
  shows "md_inv (ds_md (advance n s))" "md_rest (ds_md (advance n s)) = drop n (md_rest (ds_md s))"
  using md_get_mem_spec [OF assms] by (simp_all add: advance_def)

lemma dget_mem:
  assumes "md_inv (ds_md s)"
  shows "dget (\<lambda>md. apfst (map_sum id f) (md_get_mem md n)) k s =
           (if n \<le> length (md_rest (ds_md s)) then k (f (take n (md_rest (ds_md s)))) (advance n s)
            else Some (Ret EBADRPC (advance n s)))"
  using md_get_mem_spec(1) [OF assms, of n]
  by (cases "md_get_mem (ds_md s) n") (auto simp: dget_def advance_def)

lemma md_get_eta:
  "md_get_uint8 = (\<lambda>md. apfst (map_sum id hd) (md_get_mem md 1))"
  "md_get_uint16le = (\<lambda>md. apfst (map_sum id (\<lambda>bs. of_nat (le_dec bs))) (md_get_mem md 2))"
  "md_get_uint32le = (\<lambda>md. apfst (map_sum id (\<lambda>bs. of_nat (le_dec bs))) (md_get_mem md 4))"
  by (simp_all add: fun_eq_iff md_get_uint8_def md_get_uint16le_def md_get_uint32le_def)

lemma dget_reads:
  assumes "md_inv (ds_md s)"
  shows "dget md_get_uint8 k8 s =
           (if 1 \<le> length (md_rest (ds_md s)) then k8 (hd (take 1 (md_rest (ds_md s)))) (advance 1 s)
            else Some (Ret EBADRPC (advance 1 s)))"
    and "dget md_get_uint16le k16 s =
           (if 2 \<le> length (md_rest (ds_md s)) then k16 (of_nat (le_dec (take 2 (md_rest (ds_md s))))) (advance 2 s)
            else Some (Ret EBADRPC (advance 2 s)))"
    and "dget md_get_uint32le k32 s =
           (if 4 \<le> length (md_rest (ds_md s)) then k32 (of_nat (le_dec (take 4 (md_rest (ds_md s))))) (advance 4 s)
            else Some (Ret EBADRPC (advance 4 s)))"
    and "dget (\<lambda>md. md_get_mem md n) k s =
           (if n \<le> length (md_rest (ds_md s)) then k (take n (md_rest (ds_md s))) (advance n s)
            else Some (Ret EBADRPC (advance n s)))"
  using md_get_mem_spec(1) [OF assms, of n]
  unfolding md_get_eta dget_mem [OF assms]
  by (auto simp: dget_def advance_def split: prod.splits sum.splits if_splits)

text \<open>
  \<open>dec_inv s\<close>: both chains are well formed. \<open>dec_post big Q r\<close>: the step returns, stores outside of the
  buffer only when \<open>big\<close>, and when it succeeds \<open>Q\<close> holds.
\<close>

definition dec_inv :: "dec_state \<Rightarrow> bool" where
  "dec_inv s \<longleftrightarrow> md_inv (ds_md s) \<and> mb_inv (ds_mb s)"

abbreviation rest_of :: "dec_state \<Rightarrow> byte list" where "rest_of s \<equiv> md_rest (ds_md s)"
abbreviation out_of :: "dec_state \<Rightarrow> byte list" where "out_of s \<equiv> mb_bytes (ds_mb s)"

definition dec_post :: "bool \<Rightarrow> (dec_state \<Rightarrow> bool) \<Rightarrow> dec_state outcome option \<Rightarrow> bool" where
  "dec_post big Q r \<longleftrightarrow>
     (case r of None \<Rightarrow> False | Some Fault \<Rightarrow> big | Some (Ret e s) \<Rightarrow> e \<noteq> 0 \<or> Q s)"

lemma dec_post_simps [simp]:
  "dec_post big Q (Some Fault) = big"
  "dec_post big Q (Some (Ret e s)) = (e \<noteq> 0 \<or> Q s)"
  "\<not> dec_post big Q None"
  by (simp_all add: dec_post_def)

lemma dec_post_and_then:
  assumes "dec_post big R r0" "\<And>s. R s \<Longrightarrow> dec_post big Q (k s)"
  shows "dec_post big Q (do { r \<leftarrow> r0; and_then r k })"
proof (cases r0)
  case (Some o0)
  with assms(1) show ?thesis
    by (cases o0) (auto simp: and_then_def intro: assms(2))
qed (use assms(1) in simp)

lemma dec_post_mono: "dec_post big Q r \<Longrightarrow> (\<And>s. Q s \<Longrightarrow> R s) \<Longrightarrow> dec_post big R r"
  by (auto simp: dec_post_def split: option.splits outcome.splits)

lemma dput_ok:
  assumes "env_ok env" "dec_inv s"
  shows "\<exists>mb. dput env bs s = Some (s\<lparr>ds_mb := mb\<rparr>) \<and> mb_inv mb \<and> mb_bytes mb = out_of s @ bs"
  using env_put [OF assms(1), of "ds_mb s" bs] assms(2) by (auto simp: dput_def dec_inv_def)

text \<open>Copying \<open>n\<close> bytes: what it needs and what it does.\<close>

definition copied :: "nat \<Rightarrow> dec_state \<Rightarrow> dec_state \<Rightarrow> bool" where
  "copied n s s' \<longleftrightarrow>
     n \<le> length (rest_of s) \<and> dec_inv s' \<and> rest_of s' = drop n (rest_of s) \<and>
     out_of s' = out_of s @ take n (rest_of s) \<and> ds_cur s' = ds_cur s \<and> ds_called s' = ds_called s \<and>
     ds_session s' = ds_session s"

lemma copy_rest_ok:
  assumes "env_ok env" "dec_inv s"
  shows "if n \<le> length (rest_of s) then \<exists>s'. copy_rest env n s = Some (Ret 0 s') \<and> copied n s s'
         else \<exists>e s'. e \<noteq> 0 \<and> copy_rest env n s = Some (Ret e s')"
  using env_copy [OF assms(1), of "ds_mb s" "ds_md s" n] assms(2)
  by (fastforce simp: copy_rest_def dec_inv_def copied_def split: if_splits)

lemma copied_add:
  assumes "copied a s s1" "copied b s1 s2"
  shows "copied (a + b) s s2"
  using assms by (auto simp: copied_def take_add add.commute)

lemma copy_plain_ok:
  assumes "env_ok env" "dec_inv s"
  shows "if n \<le> length (rest_of s) then \<exists>s'. copy_plain env u n s = Some (Ret 0 s') \<and> copied n s s'
         else \<exists>e s'. e \<noteq> 0 \<and> copy_plain env u n s = Some (Ret e s')"
proof (cases "env_log env \<and> n > 64 \<and> u")
  case False
  then have "copy_plain env u n s = copy_rest env n s" by (auto simp: copy_plain_def)
  then show ?thesis using copy_rest_ok [OF assms, of n] by metis
next
  case True
  have md: "md_inv (ds_md s)" using assms(2) by (simp add: dec_inv_def)
  have cp: "copy_plain env u n s =
      dget (\<lambda>md. md_get_mem md 64)
        (\<lambda>smb2_hdr s. do { s \<leftarrow> dput env smb2_hdr (s\<lparr>ds_hdr := True\<rparr>); copy_rest env (n - 64) s }) s"
    using True by (simp add: copy_plain_def)
  show ?thesis
  proof (cases "64 \<le> length (rest_of s)")
    case False
    then have "copy_plain env u n s = Some (Ret EBADRPC (advance 64 s))"
      unfolding cp using md by (simp add: dget_reads)
    then show ?thesis using False True by auto
  next
    case l: True
    define s1 where "s1 = (advance 64 s)\<lparr>ds_hdr := True\<rparr>"
    have s1: "dec_inv s1" using assms(2) md by (simp add: s1_def dec_inv_def)
    from dput_ok [OF assms(1) s1, of "take 64 (rest_of s)"] obtain mb where
      p: "dput env (take 64 (rest_of s)) s1 = Some (s1\<lparr>ds_mb := mb\<rparr>)" "mb_inv mb"
      "mb_bytes mb = out_of s @ take 64 (rest_of s)"
      by (auto simp: s1_def)
    have c: "copied 64 s (s1\<lparr>ds_mb := mb\<rparr>)"
      using l md p(2,3) by (simp add: copied_def dec_inv_def s1_def)
    have inv: "dec_inv (s1\<lparr>ds_mb := mb\<rparr>)" using c by (simp add: copied_def)
    have e: "copy_plain env u n s = copy_rest env (n - 64) (s1\<lparr>ds_mb := mb\<rparr>)"
      using l md p(1) by (simp add: cp dget_reads s1_def)
    have len: "length (rest_of (s1\<lparr>ds_mb := mb\<rparr>)) = length (rest_of s) - 64"
      using c by (simp add: copied_def)
    show ?thesis
      using copy_rest_ok [OF assms(1) inv, of "n - 64"] copied_add [OF c, of "n - 64"] True
      unfolding e len by (auto split: if_splits)
  qed
qed

text \<open>
  The invariant of the loop, for a message of \<open>N\<close> bytes in all. In a chained message the bytes put out
  are as many as the code has counted, in the other form at least as many.
\<close>

definition dec_loop_inv :: "bool \<Rightarrow> nat \<Rightarrow> nat \<Rightarrow> dec_state \<Rightarrow> bool" where
  "dec_loop_inv chained segment N s \<longleftrightarrow>
     dec_inv s \<and> length (rest_of s) + 8 \<le> N \<and>
     (if chained then ds_cur s \<le> segment \<and> length (out_of s) = ds_cur s
      else ds_cur s \<le> length (out_of s))"

definition dec_step_post :: "bool \<Rightarrow> nat \<Rightarrow> nat \<Rightarrow> nat \<Rightarrow> dec_state \<Rightarrow> bool" where
  "dec_step_post chained segment N l s \<longleftrightarrow> dec_loop_inv chained segment N s \<and> length (rest_of s) \<le> l"

lemma copy_plain_post:
  assumes "env_ok env" "dec_inv s"
  shows "dec_post big (copied n s) (copy_plain env u n s)"
  using copy_plain_ok [OF assms, of n u] by (auto split: if_splits)

lemma decompress_none_post:
  assumes "env_ok env" "dec_loop_inv chained segment N s" "ds_cur s < segment"
  shows "dec_post big (dec_step_post chained segment N (length (rest_of s))) (decompress_none env segment n s)"
proof (cases "n > segment - ds_cur s")
  case True
  then show ?thesis by (simp add: decompress_none_def)
next
  case False
  have "dec_inv s" using assms(2) by (simp add: dec_loop_inv_def)
  from copy_plain_post [OF assms(1) this, of big n "\<not> ds_hdr s"]
  have "dec_post big (dec_step_post chained segment N (length (rest_of s)))
      (do { r \<leftarrow> copy_plain env (\<not> ds_hdr s) n s; and_then r (\<lambda>s. Some (Ret 0 (s\<lparr>ds_cur := ds_cur s + n\<rparr>))) })"
    by (rule dec_post_and_then)
      (use False assms(2,3) in \<open>auto simp: dec_step_post_def dec_loop_inv_def dec_inv_def copied_def split: if_splits\<close>)
  then show ?thesis using False by (simp add: decompress_none_def)
qed

lemma count_simps [simp]:
  "ds_md (count_pattern s) = ds_md s" "ds_mb (count_pattern s) = ds_mb s" "ds_cur (count_pattern s) = ds_cur s"
  "ds_hdr (count_pattern s) = ds_hdr s"
  "ds_md (count_lz alg s) = ds_md s" "ds_mb (count_lz alg s) = ds_mb s" "ds_cur (count_lz alg s) = ds_cur s"
  "ds_hdr (count_lz alg s) = ds_hdr s"
  by (simp_all add: count_pattern_def count_lz_def Let_def)

lemma dput_post:
  assumes "env_ok env" "dec_inv s"
    and "\<And>mb. mb_inv mb \<Longrightarrow> mb_bytes mb = out_of s @ bs \<Longrightarrow> dec_post big Q (k (s\<lparr>ds_mb := mb\<rparr>))"
  shows "dec_post big Q (do { s \<leftarrow> dput env bs s; k s })"
  using dput_ok [OF assms(1,2), of bs] assms(3) by auto

lemma decompress_pattern_post:
  assumes "env_ok env" "dec_loop_inv chained segment N s" "ds_cur s < segment"
  shows "dec_post big (dec_step_post chained segment N (length (rest_of s))) (decompress_pattern env segment s)"
proof -
  have md: "md_inv (ds_md s)" and inv: "dec_inv s" using assms(2) by (simp_all add: dec_loop_inv_def dec_inv_def)
  show ?thesis
    using md assms(2,3)
    by (auto simp: decompress_pattern_def dget_reads Let_def dec_inv_def dec_step_post_def dec_loop_inv_def
        intro!: dput_post [OF assms(1)] split: if_splits)
qed

lemma lz_decode_post:
  assumes "env_ok env" "dec_loop_inv chained segment N s" "segment * 2 < length (rest_of s) \<Longrightarrow> big"
    and "chained \<Longrightarrow> m \<le> segment - ds_cur s"
  shows "dec_post big (dec_step_post chained segment N (length (rest_of s))) (lz_decode env segment alg n m s)"
proof -
  have md: "md_inv (ds_md s)" and inv: "dec_inv s" using assms(2) by (simp_all add: dec_loop_inv_def dec_inv_def)
  have sz: "md_get_size (ds_md s) = length (rest_of s)" by (rule md_get_size_rest [OF md])
  show ?thesis
    using md assms(2,3,4)
    by (auto simp: lz_decode_def sz dget_reads Let_def dec_inv_def dec_step_post_def dec_loop_inv_def
        intro!: dput_post [OF assms(1)] split: if_splits sum.split)
qed

lemma dec_loop_inv_advance:
  assumes "dec_loop_inv chained segment N s"
  shows "dec_loop_inv chained segment N (advance n s)"
proof -
  have "md_inv (ds_md s)" "length (rest_of s) - n + 8 \<le> N"
    using assms by (auto simp: dec_loop_inv_def dec_inv_def)
  with assms show ?thesis by (simp add: dec_loop_inv_def dec_inv_def split: if_splits)
qed

lemma decompress_lz_post:
  assumes "env_ok env" "dec_loop_inv chained segment N s" "segment * 2 < length (rest_of s) \<Longrightarrow> big"
  shows "dec_post big (dec_step_post chained segment N (length (rest_of s)))
           (decompress_lz env replyLen chained segment alg len s)"
proof -
  have inv: "dec_loop_inv chained segment N (count_lz alg s)" and md: "md_inv (ds_md s)"
    using assms(2) by (simp_all add: dec_loop_inv_def dec_inv_def)
  show ?thesis
  proof (cases chained)
    case True
    define s1 where "s1 = advance 4 (count_lz alg s)"
    have s1: "dec_loop_inv chained segment N s1" "length (rest_of s1) \<le> length (rest_of s)"
      using dec_loop_inv_advance [OF inv] md by (simp_all add: s1_def)
    have "dec_post big (dec_step_post chained segment N (length (rest_of s))) (lz_decode env segment alg n m s1)"
      if "m \<le> segment - ds_cur s1" for n m
      by (rule dec_post_mono [OF lz_decode_post [OF assms(1) s1(1)]])
        (use that s1(2) assms(3) in \<open>auto simp: dec_step_post_def\<close>)
    then show ?thesis
      using True md by (simp add: decompress_lz_def dget_reads s1_def [symmetric])
  next
    case False
    have "dec_post big (dec_step_post chained segment N (length (rest_of s)))
        (lz_decode env segment alg n m (count_lz alg s))" for n m
      using lz_decode_post [OF assms(1) inv, of big m alg n] False assms(3) by simp
    then show ?thesis using False by (simp add: decompress_lz_def Let_def)
  qed
qed

lemma payload_length_post:
  assumes "env_ok env" "dec_loop_inv chained segment N s"
    and k: "\<And>n s'. dec_step_post chained segment N (length (rest_of s) - 4) s' \<Longrightarrow> 4 \<le> length (rest_of s) \<Longrightarrow>
              ds_cur s' = ds_cur s \<Longrightarrow> dec_post big Q (k n s')"
  shows "dec_post big Q (payload_length env chained segment k s)"
proof -
  have md: "md_inv (ds_md s)" using assms(2) by (simp add: dec_loop_inv_def dec_inv_def)
  define s1 where "s1 = advance 4 s"
  have s1: "dec_inv s1" "rest_of s1 = drop 4 (rest_of s)" "out_of s1 = out_of s" "ds_cur s1 = ds_cur s"
    using assms(2) md by (simp_all add: s1_def dec_loop_inv_def dec_inv_def)
  have post: "dec_step_post chained segment N (length (rest_of s) - 4) s1"
    using s1 dec_loop_inv_advance [OF assms(2)] by (simp add: dec_step_post_def s1_def)
  show ?thesis
  proof (cases "4 \<le> length (rest_of s)")
    case False
    then show ?thesis using md by (simp add: payload_length_def dget_reads)
  next
    case len: True
    have cp: "dec_post big Q (do { r \<leftarrow> copy_plain env True n s1; and_then r (k n) })" if "\<not> chained" for n
      by (rule dec_post_and_then [OF copy_plain_post [OF assms(1) s1(1)]], rule k)
        (use that s1 len assms(2) in \<open>auto simp: copied_def dec_step_post_def dec_loop_inv_def\<close>)
    show ?thesis
      using len md k [OF post len s1(4)] cp by (simp add: payload_length_def dget_reads s1_def [symmetric])
  qed
qed

lemma decompress_payload_post:
  assumes "env_ok env" "dec_loop_inv chained segment N s" "ds_cur s < segment"
  shows "dec_post (segment * 2 + 16 < N) (\<lambda>s'. dec_loop_inv chained segment N s' \<and> length (rest_of s') + 8 \<le> length (rest_of s))
           (decompress_payload env replyLen chained segment s)"
    (is "dec_post ?big ?Q _")
proof -
  have md: "md_inv (ds_md s)" using assms(2) by (simp add: dec_loop_inv_def dec_inv_def)
  define s1 where "s1 = advance 2 (advance 2 s)"
  have s1: "dec_loop_inv chained segment N s1" "rest_of s1 = drop 4 (rest_of s)" "ds_cur s1 = ds_cur s"
    using dec_loop_inv_advance [OF dec_loop_inv_advance [OF assms(2)]] md by (simp_all add: s1_def)
  have body: "dec_post ?big ?Q
      (if alg = SMB2_COMPRESSION_NONE then decompress_none env segment len s'
       else if alg = SMB2_COMPRESSION_PATTERN_V1 then decompress_pattern env segment s'
       else if alg = SMB2_COMPRESSION_LZNT1 \<or> alg = SMB2_COMPRESSION_LZ77 \<or> alg = SMB2_COMPRESSION_LZ77_HUFFMAN
       then decompress_lz env replyLen chained segment alg len s'
       else Some (Ret EINVAL s'))"
    if s': "dec_step_post chained segment N (length (rest_of s1) - 4) s'" "4 \<le> length (rest_of s1)"
      "ds_cur s' = ds_cur s1" for alg len s'
  proof -
    have i: "dec_loop_inv chained segment N s'" "ds_cur s' < segment"
      using s' assms(3) s1 by (simp_all add: dec_step_post_def)
    have b: "segment * 2 < length (rest_of s') \<Longrightarrow> ?big"
      using s' s1(2) assms(2) unfolding dec_step_post_def dec_loop_inv_def by (elim conjE) simp
    have q: "dec_step_post chained segment N (length (rest_of s')) s'' \<Longrightarrow> ?Q s''" for s''
      using s'(1,2) s1(2) unfolding dec_step_post_def by (elim conjE) simp
    show ?thesis
      using dec_post_mono [OF decompress_none_post [OF assms(1) i] q]
        dec_post_mono [OF decompress_pattern_post [OF assms(1) i] q]
        dec_post_mono [OF decompress_lz_post [OF assms(1) i(1) b] q]
      by simp
  qed
  have "dec_post ?big ?Q (payload_length env chained segment (\<lambda>len s'.
       if alg = SMB2_COMPRESSION_NONE then decompress_none env segment len s'
       else if alg = SMB2_COMPRESSION_PATTERN_V1 then decompress_pattern env segment s'
       else if alg = SMB2_COMPRESSION_LZNT1 \<or> alg = SMB2_COMPRESSION_LZ77 \<or> alg = SMB2_COMPRESSION_LZ77_HUFFMAN
       then decompress_lz env replyLen chained segment alg len s'
       else Some (Ret EINVAL s')) s1)" for alg
    by (rule payload_length_post [OF assms(1) s1(1) body])
  then show ?thesis
    using md by (simp add: decompress_payload_def dget_reads s1_def [symmetric])
qed

lemma decompress_loop_post:
  assumes "env_ok env" "dec_loop_inv chained segment N s"
  shows "dec_post (segment * 2 + 16 < N) (\<lambda>s'. dec_loop_inv chained segment N s' \<and> segment \<le> ds_cur s')
           (decompress_loop env replyLen chained segment s)"
  using assms(2)
proof (induction "length (rest_of s)" arbitrary: s rule: less_induct)
  case less
  show ?case
  proof (cases "ds_cur s < segment")
    case False
    then show ?thesis using less.prems by (subst decompress_loop.simps) simp
  next
    case True
    note p = decompress_payload_post [OF assms(1) less.prems True, of replyLen]
    show ?thesis
    proof (cases "decompress_payload env replyLen chained segment s")
      case None
      then show ?thesis using p by simp
    next
      case (Some r)
      with p less.hyps True show ?thesis
        by (cases r; subst decompress_loop.simps) auto
    qed
  qed
qed

section \<open>A whole reply\<close>

lemma md_get_u32:
  assumes "md_inv md"
  shows "md_get_uint32le md =
           (if 4 \<le> length (md_rest md) then Inr (of_nat (le_dec (take 4 (md_rest md)))) else Inl EBADRPC,
            snd (md_get_mem md 4))"
  using md_get_mem_spec(1) [OF assms, of 4]
  by (cases "md_get_mem md 4") (auto simp: md_get_uint32le_def split: if_splits)

text \<open>The size the reply announces, and when the client takes a reply apart as a chained one.\<close>

definition reply_segment :: "byte list \<Rightarrow> nat" where
  "reply_segment bs = le_dec (take 4 (drop 4 bs))"

definition compression_on :: "smb_session \<Rightarrow> bool" where
  "compression_on sessionp \<longleftrightarrow>
     SMBV_SMB3_OR_LATER sessionp \<and> server_compression_algorithms_map sessionp \<noteq> 0"

definition chaining :: "smb_session \<Rightarrow> bool" where
  "chaining sessionp \<longleftrightarrow> session_misc_flags sessionp AND SMBV_COMPRESSION_CHAINING_OFF = 0"

lemma le_dec_u32: "length bs \<le> 4 \<Longrightarrow> unat (of_nat (le_dec bs) :: u32) = le_dec bs"
proof -
  assume "length bs \<le> 4"
  then have "256 ^ length bs \<le> (256 ^ 4 :: nat)" by (rule power_increasing) simp
  with le_dec_bound [of bs] have "le_dec bs < 2 ^ 32" by simp
  then show ?thesis by (simp add: unat_of_nat)
qed

definition first_state :: "smb_session \<Rightarrow> mdchain \<Rightarrow> mbchain \<Rightarrow> dec_state" where
  "first_state sessionp mdp mbp =
     \<lparr>ds_md = mdp, ds_mb = mbp, ds_cur = 0, ds_called = False, ds_hdr = False, ds_session = sessionp\<rparr>"

lemma decompress_read_cases [consumes 2, case_names off bad run]:
  assumes "env_ok env" "\<forall>m \<in> set ms. mbuf_wf m"
  obtains (off) "\<not> compression_on sessionp" "smb2_rq_decompress_read env sessionp ms = Some (Ret 0 (sessionp, ms))"
  | (bad) e where "compression_on sessionp" "e \<noteq> 0" "smb2_rq_decompress_read env sessionp ms = Some (Ret e (sessionp, ms))"
      "length (chain_bytes ms) < 8 \<or> kDefaultMaxIOSize < reply_segment (chain_bytes ms) \<or>
       \<not> env_malloc env (reply_segment (chain_bytes ms) * 2)"
  | (run) mdp mbp where "compression_on sessionp" "8 \<le> length (chain_bytes ms)"
      "reply_segment (chain_bytes ms) \<le> kDefaultMaxIOSize" "md_inv mdp" "md_rest mdp = drop 8 (chain_bytes ms)"
      "built mbp [] []"
      "smb2_rq_decompress_read env sessionp ms =
         decompress_segment env sessionp ms mbp (reply_segment (chain_bytes ms)) mdp"
proof -
  obtain mbp where mbp: "mb_init (env_hdr env) = Inr mbp" "built mbp [] []" using env_init [OF assms(1)] .
  note md0 = md_initm_inv [OF assms(2), of "[]"]
  define md1 where "md1 = snd (md_get_mem (md_initm ms []) 4)"
  define md2 where "md2 = snd (md_get_mem md1 4)"
  have md1: "md_inv md1" "md_rest md1 = drop 4 (chain_bytes ms)"
    using md_get_mem_spec(2,3) [OF md0(1), of 4] md0(2) by (simp_all add: md1_def)
  have md2: "md_inv md2" "md_rest md2 = drop 8 (chain_bytes ms)"
    using md_get_mem_spec(2,3) [OF md1(1), of 4] md1(2) by (simp_all add: md2_def)
  have seg: "unat (of_nat (le_dec (take 4 (drop 4 (chain_bytes ms)))) :: u32) = reply_segment (chain_bytes ms)"
    by (simp add: reply_segment_def le_dec_u32)
  note def = smb2_rq_decompress_read_def md_get_u32 [OF md0(1)] md_get_u32 [OF md1(1)] mbp(1)
    md0(2) md1 md1_def [symmetric] md2_def [symmetric] seg compression_on_def
  show thesis
  proof (cases "compression_on sessionp")
    case False
    then show thesis by (intro off) (auto simp: def)
  next
    case True
    show thesis
    proof (cases "8 \<le> length (chain_bytes ms) \<and> reply_segment (chain_bytes ms) \<le> kDefaultMaxIOSize \<and>
        env_malloc env (reply_segment (chain_bytes ms) * 2)")
      case False
      then have "\<exists>e. e \<noteq> 0 \<and> smb2_rq_decompress_read env sessionp ms = Some (Ret e (sessionp, ms))"
        using True by (simp add: def Let_def)
      then show thesis using bad [OF True] False by force
    next
      case ok: True
      then show thesis using True md2 mbp(2) by (intro run) (auto simp: def Let_def)
    qed
  qed
qed

section \<open>What a chunk stands for\<close>

text \<open>What is relied on for reading back: nothing fails, and the decoder undoes the encoder.\<close>

definition coder_ok :: "crypt_env \<Rightarrow> bool" where
  "coder_ok env \<longleftrightarrow>
     (\<forall>n. env_malloc env n) \<and>
     (\<forall>n src alg. compression_encode_buffer (env_lib env) n src alg \<noteq> [] \<longrightarrow>
        compression_decode_buffer (env_lib env) (length src) (compression_encode_buffer (env_lib env) n src alg) alg = src)"

lemma char_eq_imp: "char_eq b c \<Longrightarrow> b = c"
proof -
  assume "char_eq b c"
  then have "uint b = sint c" by (simp add: char_eq_def)
  then have "(word_of_int (uint b) :: byte) = word_of_int (sint c)" by simp
  then show "b = c" by simp
qed

lemma takeWhile_upt_prefix:
  "length (takeWhile P [i..<n]) = m \<Longrightarrow> m \<le> n - i \<and> (\<forall>j<m. P (i + j))"
proof -
  assume m: "length (takeWhile P [i..<n]) = m"
  have le: "m \<le> n - i" using m length_takeWhile_le [of P "[i..<n]"] by simp
  have "P (i + j)" if "j < m" for j
    using set_takeWhileD [of "takeWhile P [i..<n] ! j" P "[i..<n]"] nth_mem [of j "takeWhile P [i..<n]"] that m le
    by (simp add: takeWhile_nth)
  with le show ?thesis by blast
qed

lemma forward_scan_run:
  assumes "0 < n" "n \<le> length buf"
  shows "forward_scan buf n (buf ! 0) \<le> n"
    and "take (forward_scan buf n (buf ! 0)) buf = replicate (forward_scan buf n (buf ! 0)) (buf ! 0)"
proof -
  define m where "m = length (takeWhile (\<lambda>i. char_eq (buf ! i) (buf ! 0)) [1..<n])"
  have f: "forward_scan buf n (buf ! 0) = Suc m" by (simp add: forward_scan_def m_def)
  have m: "m \<le> n - 1" "\<forall>j<m. char_eq (buf ! (1 + j)) (buf ! 0)"
    using takeWhile_upt_prefix [OF m_def [symmetric]] by blast+
  show "forward_scan buf n (buf ! 0) \<le> n" using m(1) assms(1) by (simp add: f)
  have eq: "take (Suc m) buf ! i = replicate (Suc m) (buf ! 0) ! i" if "i < Suc m" for i
  proof (cases i)
    case (Suc j)
    then have "buf ! Suc j = buf ! 0" using that m(2) by (intro char_eq_imp) simp
    then show ?thesis using that Suc by (simp del: replicate_Suc)
  qed simp
  have "length (take (Suc m) buf) = Suc m" using m(1) assms by simp
  then have "take (Suc m) buf = replicate (Suc m) (buf ! 0)"
    by (intro nth_equalityI) (use eq in \<open>simp_all only: length_replicate\<close>)
  then show "take (forward_scan buf n (buf ! 0)) buf = replicate (forward_scan buf n (buf ! 0)) (buf ! 0)"
    by (simp only: f)
qed

lemma takeWhile_rev_upt_suffix:
  "length (takeWhile P (rev [i..<n])) = m \<Longrightarrow> m \<le> n - i \<and> (\<forall>j<m. P (n - Suc j))"
proof -
  assume m: "length (takeWhile P (rev [i..<n])) = m"
  have le: "m \<le> n - i" using m length_takeWhile_le [of P "rev [i..<n]"] by simp
  have "P (n - Suc j)" if "j < m" for j
    using set_takeWhileD [of "takeWhile P (rev [i..<n]) ! j" P "rev [i..<n]"]
      nth_mem [of j "takeWhile P (rev [i..<n])"] that m le
    by (simp add: takeWhile_nth rev_nth)
  with le show ?thesis by blast
qed

lemma backward_scan_run:
  assumes "2 \<le> n" "n \<le> length buf" "stop < n - 1" and c: "c = buf ! (n - 1)"
  shows "backward_scan buf n c stop + stop < n"
    and "drop (n - backward_scan buf n c stop) (take n buf) = replicate (backward_scan buf n c stop) c"
proof -
  define m where "m = length (takeWhile (\<lambda>i. char_eq (buf ! i) c) (rev [Suc stop..<n - 1]))"
  have b: "backward_scan buf n c stop = Suc m" by (simp add: backward_scan_def m_def)
  have m: "m \<le> n - 1 - Suc stop" "\<forall>j<m. char_eq (buf ! (n - 1 - Suc j)) c"
    using takeWhile_rev_upt_suffix [OF m_def [symmetric]] by blast+
  show "backward_scan buf n c stop + stop < n" using m(1) assms(1,3) by (simp add: b)
  have "take n buf ! (n - Suc m + i) = c" if "i < Suc m" for i
  proof (cases "i = m")
    case False
    define j where "j = m - Suc i"
    have j: "j < m" "n - 1 - Suc j = n - Suc m + i" using that False m(1) assms(1,3) by (auto simp: j_def)
    then show ?thesis using m(2) char_eq_imp assms(1,2) m(1) that False by fastforce
  qed (use assms m(1) in simp)
  moreover have "length (drop (n - Suc m) (take n buf)) = Suc m" using m(1) assms(1-3) by simp
  ultimately have "drop (n - Suc m) (take n buf) = replicate (Suc m) c"
    by (intro nth_equalityI) (simp_all del: replicate_Suc)
  then show "drop (n - backward_scan buf n c stop) (take n buf) = replicate (backward_scan buf n c stop) c"
    by (simp only: b)
qed

text \<open>
  \<open>chunk_stands env alg ck bs\<close>: the payloads of \<open>ck\<close> stand for the bytes \<open>bs\<close>.
\<close>

definition run :: "nat \<Rightarrow> byte \<Rightarrow> byte list" where
  "run n c = (if n > 1 then replicate n c else [])"

definition chunk_stands :: "crypt_env \<Rightarrow> u16 \<Rightarrow> chunk \<Rightarrow> byte list \<Rightarrow> bool" where
  "chunk_stands env alg ck bs \<longleftrightarrow>
     (\<exists>mid. bs = run (ck_fwd ck) (ck_fchar ck) @ mid @ run (ck_bwd ck) (ck_bchar ck) \<and>
        ck_data_len ck = length mid \<and>
        (if ck_actual_len ck \<noteq> 0
         then ck_actual_len ck = length (ck_out ck) \<and> ck_actual_len ck \<le> length mid \<and>
              smb2_compress_data env COMPRESSION_STREAM_DECODE (ck_out ck) (length mid) alg = Inr mid
         else ck_out ck = mid))"

lemma split_runs:
  assumes "skip + b \<le> n" "n \<le> length buf"
  shows "take n buf = take skip buf @ take (n - skip - b) (drop skip buf) @ drop (n - b) (take n buf)"
proof -
  have "take n buf = take (n - b) (take n buf) @ drop (n - b) (take n buf)" by (rule append_take_drop_id [symmetric])
  also have "take (n - b) (take n buf) = take skip buf @ take (n - skip - b) (drop skip buf)"
    using assms by (simp add: min_absorb1 flip: take_add)
  finally show ?thesis by simp
qed

lemma chunk_forward_run:
  assumes "0 < n" "n \<le> length buf" "chunk_forward sessionp buf n = (fwd, fc, remaining, sessionp')"
  shows "take (if fwd > 1 then fwd else 0) buf = run fwd fc" "remaining = n - (if fwd > 1 then fwd else 0)"
    "fwd \<le> n" "compression_chunk_len sessionp' = compression_chunk_len sessionp"
  using forward_scan_run [OF assms(1,2)] assms(3)
  by (auto simp: chunk_forward_def Let_def run_def split: if_splits)

lemma chunk_backward_run:
  assumes "0 < n" "n \<le> length buf" "remaining = n - (if fwd > 1 then fwd else 0)" "fwd \<le> n"
    and "chunk_backward sessionp buf n fwd remaining bchar = (bwd, bc, remaining', sessionp')"
  shows "drop (n - (if bwd > 1 then bwd else 0)) (take n buf) = run bwd bc"
    "remaining' = remaining - (if bwd > 1 then bwd else 0)"
    "(if fwd > 1 then fwd else 0) + (if bwd > 1 then bwd else 0) \<le> n"
    "compression_chunk_len sessionp' = compression_chunk_len sessionp"
proof -
  define stop where "stop = (if fwd > 1 then fwd - 1 else 1)"
  define c where "c = buf ! (n - 1)"
  define b where "b = backward_scan buf n c stop"
  have small: "b = 1" if "\<not> stop < n - 1" using that by (simp add: b_def backward_scan_def)
  have big: "b + stop < n \<and> drop (n - b) (take n buf) = replicate b c" if "stop < n - 1" "2 \<le> n"
    using backward_scan_run [OF that(2) assms(2) that(1) c_def] by (simp add: b_def)
  have ub: "chunk_backward sessionp buf n fwd remaining bchar =
      (if remaining > 0 \<and> n \<ge> 2 then
         if b > 1 then (b, c, remaining - b, sessionp\<lparr>write_cnt_bwd_pattern := write_cnt_bwd_pattern sessionp + 1\<rparr>)
         else (b, c, remaining, sessionp)
       else (1, bchar, remaining, sessionp))"
    by (simp add: chunk_backward_def Let_def b_def c_def stop_def)
  have st: "b > 1 \<Longrightarrow> stop < n - 1" using small by (cases "stop < n - 1") auto
  show "drop (n - (if bwd > 1 then bwd else 0)) (take n buf) = run bwd bc"
    "remaining' = remaining - (if bwd > 1 then bwd else 0)"
    "(if fwd > 1 then fwd else 0) + (if bwd > 1 then bwd else 0) \<le> n"
    "compression_chunk_len sessionp' = compression_chunk_len sessionp"
    using assms(5) st big assms(4) unfolding ub
    by (auto simp: run_def stop_def split: if_splits)
qed

lemma encode_decode:
  assumes "env_ok env" "coder_ok env" "compress_algorithm alg \<noteq> None"
  obtains out where "smb2_compress_data env COMPRESSION_STREAM_ENCODE src n alg = Inr out"
    "length out \<le> n"
    "out \<noteq> [] \<Longrightarrow> src \<noteq> [] \<Longrightarrow> smb2_compress_data env COMPRESSION_STREAM_DECODE out (length src) alg = Inr src"
proof -
  obtain a where a: "compress_algorithm alg = Some a" using assms(3) by auto
  define out where "out = compression_encode_buffer (env_lib env) n src a"
  have "length out \<le> n" using assms(1) by (simp add: env_ok_def out_def)
  moreover have "out \<noteq> [] \<Longrightarrow> compression_decode_buffer (env_lib env) (length src) out a = src"
    using assms(2) by (simp add: coder_ok_def out_def)
  ultimately show thesis
    using assms(2) by (intro that [of out]) (simp_all add: smb2_compress_data_def a out_def [symmetric] coder_ok_def)
qed

lemma compress_chunk_stands:
  assumes "env_ok env" "coder_ok env" "compress_algorithm alg \<noteq> None" "0 < n" "n \<le> length buf"
  shows "\<exists>ck sessionp'. smb2_rq_compress_chunk env sessionp alg buf n bchar = (0, ck, sessionp') \<and>
           chunk_stands env alg ck (take n buf) \<and> compression_chunk_len sessionp' = compression_chunk_len sessionp"
proof -
  obtain fwd fc rem1 s1 where f: "chunk_forward sessionp buf n = (fwd, fc, rem1, s1)" by (metis prod_cases4)
  obtain bwd bc rem2 s2 where b: "chunk_backward s1 buf n fwd rem1 bchar = (bwd, bc, rem2, s2)" by (metis prod_cases4)
  define skip where "skip = (if fwd > 1 then fwd else 0)"
  define tail where "tail = (if bwd > 1 then bwd else 0)"
  note fr = chunk_forward_run [OF assms(4,5) f, folded skip_def]
  note br = chunk_backward_run [OF assms(4,5) fr(2) [unfolded skip_def] fr(3) b, folded skip_def tail_def]
  define mid where "mid = take (n - skip - tail) (drop skip buf)"
  have len: "length mid = n - skip - tail" using br(3) assms(5) by (simp add: mid_def)
  have mid: "take (length mid) (drop skip buf) = mid" unfolding len by (simp only: mid_def)
  have split: "take n buf = run fwd fc @ mid @ run bwd bc"
    using split_runs [OF br(3) assms(5)] by (simp add: fr(1) br(1) mid_def)
  have rem: "rem2 = length mid" using br(2) fr(2) len by simp
  obtain out where out: "smb2_compress_data env COMPRESSION_STREAM_ENCODE mid (length mid) alg = Inr out"
    "length out \<le> length mid"
    "out \<noteq> [] \<Longrightarrow> mid \<noteq> [] \<Longrightarrow> smb2_compress_data env COMPRESSION_STREAM_DECODE out (length mid) alg = Inr mid"
    using encode_decode [OF assms(1-3), of mid "length mid"] by metis
  have unf: "smb2_rq_compress_chunk env sessionp alg buf n bchar =
      (0, \<lparr>ck_fwd = fwd, ck_fchar = fc, ck_bwd = bwd, ck_bchar = bc,
            ck_out = (if mid = [] then [] else if out = [] then mid else out), ck_data_len = length mid,
            ck_actual_len = (if mid = [] then 0 else length out)\<rparr>, s2)"
    unfolding smb2_rq_compress_chunk_def f b Let_def prod.case rem skip_def [symmetric] tail_def [symmetric]
      len [symmetric] mid out(1)
    by simp
  show ?thesis
    using out(2,3) fr(4) br(4) by (simp add: unf chunk_stands_def split)
qed

section \<open>Reading the payloads back\<close>

definition step_ok :: "dec_state \<Rightarrow> byte list \<Rightarrow> byte list \<Rightarrow> dec_state \<Rightarrow> bool" where
  "step_ok s bs xs s' \<longleftrightarrow>
     dec_inv s' \<and> rest_of s' = xs \<and> out_of s' = out_of s @ bs \<and> ds_cur s' = ds_cur s + length bs"

lemma step_ok_trans: "step_ok s bs r1 s1 \<Longrightarrow> step_ok s1 bs' r2 s2 \<Longrightarrow> step_ok s (bs @ bs') r2 s2"
  by (auto simp: step_ok_def)

text \<open>The three fields every payload starts with.\<close>

lemma payload_start:
  assumes "md_inv (ds_md s)" "rest_of s = le16 alg @ le16 flags @ le32 len @ xs" "unat len \<le> length xs"
  shows "decompress_payload env replyLen True segment s =
           (let s' = advance 4 (advance 2 (advance 2 s))
            in if alg = SMB2_COMPRESSION_NONE then decompress_none env segment (unat len) s'
               else if alg = SMB2_COMPRESSION_PATTERN_V1 then decompress_pattern env segment s'
               else if alg = SMB2_COMPRESSION_LZNT1 \<or> alg = SMB2_COMPRESSION_LZ77 \<or>
                       alg = SMB2_COMPRESSION_LZ77_HUFFMAN
               then decompress_lz env replyLen True segment alg (unat len) s'
               else Some (Ret EINVAL s'))"
  using assms
  by (simp add: decompress_payload_def payload_length_def dget_reads md_get_size_rest word_decode Let_def)

lemma payload_start_state:
  assumes "dec_inv s" "rest_of s = le16 alg @ le16 flags @ le32 len @ xs"
  shows "dec_inv (advance 4 (advance 2 (advance 2 s)))" "rest_of (advance 4 (advance 2 (advance 2 s))) = xs"
  using assms by (simp_all add: dec_inv_def)

lemma unat_of_nat_u32: "n < 2 ^ 32 \<Longrightarrow> unat (of_nat n :: u32) = n"
  by (simp add: unat_of_nat)

lemma pattern_step:
  assumes "env_ok env" "dec_inv s" "rest_of s = concat (map field_bytes (pattern_fields c n)) @ xs"
    and "ds_cur s + n \<le> segment" "n < 2 ^ 32"
  shows "\<exists>s'. decompress_payload env replyLen True segment s = Some (Ret 0 s') \<and> step_ok s (replicate n c) xs s'"
proof -
  have rest: "rest_of s = le16 SMB2_COMPRESSION_PATTERN_V1 @ le16 SMB2_COMPRESSION_FLAG_NONE @ le32 8 @
      [c, 0] @ le16 0 @ le32 (of_nat n) @ xs"
    using assms(3) by (simp add: pattern_fields_def)
  define s1 where "s1 = advance 4 (advance 2 (advance 2 s))"
  note s1 = payload_start_state [OF assms(2) rest, folded s1_def]
  have md: "md_inv (ds_md s)" using assms(2) by (simp add: dec_inv_def)
  have cur: "ds_cur s1 = ds_cur s" by (simp add: s1_def)
  have fits: "\<not> segment - ds_cur s < n" "\<not> segment * 2 < n" using assms(4) by simp_all
  define s2 where "s2 = advance 4 (advance 2 (advance 1 (advance 1 (count_pattern s1))))"
  have s2: "dec_inv s2" "rest_of s2 = xs" "out_of s2 = out_of s" "ds_cur s2 = ds_cur s"
    using s1 by (simp_all add: s2_def s1_def dec_inv_def)
  from dput_ok [OF assms(1) s2(1), of "replicate n c"] obtain mb where
    p: "dput env (replicate n c) s2 = Some (s2\<lparr>ds_mb := mb\<rparr>)" "mb_inv mb" "mb_bytes mb = out_of s @ replicate n c"
    by (auto simp: s2)
  have "decompress_payload env replyLen True segment s = decompress_pattern env segment s1"
    by (subst payload_start [OF md rest]) (simp_all add: s1_def)
  also have "\<dots> = Some (Ret 0 (s2\<lparr>ds_mb := mb, ds_cur := ds_cur s2 + n\<rparr>))"
    using s1 p(1) fits assms(5)
    by (simp add: decompress_pattern_def dget_reads dec_inv_def word_decode unat_of_nat_u32
        s2_def [unfolded One_nat_def, symmetric] s2(4) cur)
  finally show ?thesis using p s2 by (simp add: step_ok_def dec_inv_def)
qed

lemma none_step:
  assumes "env_ok env" "dec_inv s"
    and "rest_of s = le16 SMB2_COMPRESSION_NONE @ le16 flags @ le32 (of_nat (length bs)) @ bs @ xs"
    and "ds_cur s + length bs \<le> segment" "length bs < 2 ^ 32"
  shows "\<exists>s'. decompress_payload env replyLen True segment s = Some (Ret 0 s') \<and> step_ok s bs xs s'"
proof -
  define s1 where "s1 = advance 4 (advance 2 (advance 2 s))"
  note s1 = payload_start_state [OF assms(2,3), folded s1_def]
  have md: "md_inv (ds_md s)" using assms(2) by (simp add: dec_inv_def)
  from copy_plain_ok [OF assms(1) s1(1), of "length bs" "\<not> ds_hdr s1"] s1(2)
  obtain s2 where s2: "copy_plain env (\<not> ds_hdr s1) (length bs) s1 = Some (Ret 0 s2)" "copied (length bs) s1 s2"
    by auto
  have "decompress_payload env replyLen True segment s = decompress_none env segment (length bs) s1"
    using assms(5) by (subst payload_start [OF md assms(3)]) (simp_all add: s1_def unat_of_nat_u32)
  also have "\<dots> = Some (Ret 0 (s2\<lparr>ds_cur := ds_cur s2 + length bs\<rparr>))"
    using s2 assms(4) by (simp add: decompress_none_def and_then_def s1_def)
  finally show ?thesis using s2(2) s1(2) by (simp add: step_ok_def copied_def dec_inv_def s1_def)
qed

lemma lz_step:
  assumes "env_ok env" "dec_inv s" "alg \<in> {SMB2_COMPRESSION_LZNT1, SMB2_COMPRESSION_LZ77, SMB2_COMPRESSION_LZ77_HUFFMAN}"
    and "rest_of s = le16 alg @ le16 flags @ le32 (of_nat (length out) + 4) @ le32 (of_nat (length bs)) @ out @ xs"
    and "ds_cur s + length bs \<le> segment" "length out \<le> length bs" "length bs + 4 < 2 ^ 32" "out \<noteq> []"
    and "smb2_compress_data env COMPRESSION_STREAM_DECODE out (length bs) alg = Inr bs"
  shows "\<exists>s'. decompress_payload env replyLen True segment s = Some (Ret 0 s') \<and> step_ok s bs xs s'"
proof -
  define s1 where "s1 = advance 4 (advance 2 (advance 2 s))"
  note s1 = payload_start_state [OF assms(2,4), folded s1_def]
  have md: "md_inv (ds_md s)" using assms(2) by (simp add: dec_inv_def)
  have n: "unat (of_nat (length out) + 4 :: u32) = length out + 4"
    using unat_of_nat_u32 [of "length out + 4"] assms(6,7) by simp
  have fits: "\<not> segment - ds_cur s < length bs" using assms(5) by simp
  define s2 where "s2 = advance 4 (count_lz alg s1)"
  have s2: "dec_inv s2" "rest_of s2 = out @ xs" "out_of s2 = out_of s" "ds_cur s2 = ds_cur s"
    using s1 by (simp_all add: s2_def s1_def dec_inv_def)
  define s3 where "s3 = advance (length out) s2"
  have s3: "dec_inv s3" "rest_of s3 = xs" "out_of s3 = out_of s" "ds_cur s3 = ds_cur s"
    using s2 by (simp_all add: s3_def dec_inv_def)
  from dput_ok [OF assms(1) s3(1), of bs] obtain mb where
    p: "dput env bs s3 = Some (s3\<lparr>ds_mb := mb\<rparr>)" "mb_inv mb" "mb_bytes mb = out_of s @ bs"
    by (auto simp: s3)
  have "decompress_payload env replyLen True segment s = decompress_lz env replyLen True segment alg (length out + 4) s1"
    using assms(3) by (subst payload_start [OF md assms(4)]) (auto simp: n s1_def)
  also have "\<dots> = lz_decode env segment alg (length out) (length bs) s2"
    using s1 fits assms(7,8) by (simp add: decompress_lz_def dget_reads dec_inv_def word_decode unat_of_nat_u32
        s2_def [symmetric] s2(4))
  also have "\<dots> = Some (Ret 0 (s3\<lparr>ds_mb := mb, ds_cur := ds_cur s3 + length bs,
                                      ds_hdr := (ds_hdr s3 \<or> env_log env \<and> length bs > 64)\<rparr>))"
    using s2 assms(5,6,9) p(1) by (simp add: lz_decode_def md_get_size_rest dec_inv_def dget_reads s3_def [symmetric])
  finally show ?thesis using p s3 by (auto simp: step_ok_def dec_inv_def)
qed

text \<open>One payload after the other.\<close>

definition reads_back :: "crypt_env \<Rightarrow> nat \<Rightarrow> byte list \<Rightarrow> byte list \<Rightarrow> bool" where
  "reads_back env replyLen wire bs \<longleftrightarrow>
     (\<forall>segment s xs. dec_inv s \<longrightarrow> rest_of s = wire @ xs \<longrightarrow> ds_cur s + length bs \<le> segment \<longrightarrow>
        (\<exists>s'. decompress_loop env replyLen True segment s = decompress_loop env replyLen True segment s' \<and>
              step_ok s bs xs s'))"

lemma reads_back_Nil: "reads_back env replyLen [] []"
  unfolding reads_back_def step_ok_def by auto

lemma reads_back_append:
  assumes "reads_back env replyLen w1 b1" "reads_back env replyLen w2 b2"
  shows "reads_back env replyLen (w1 @ w2) (b1 @ b2)"
  unfolding reads_back_def
proof (intro allI impI)
  fix segment s xs
  assume s: "dec_inv s" "rest_of s = (w1 @ w2) @ xs" "ds_cur s + length (b1 @ b2) \<le> segment"
  then obtain s1 where s1: "decompress_loop env replyLen True segment s = decompress_loop env replyLen True segment s1"
    "step_ok s b1 (w2 @ xs) s1"
    using assms(1) [unfolded reads_back_def, rule_format, of s "w2 @ xs" segment] by auto
  then have "dec_inv s1" "rest_of s1 = w2 @ xs" "ds_cur s1 + length b2 \<le> segment"
    using s(3) by (auto simp: step_ok_def)
  then obtain s2 where "decompress_loop env replyLen True segment s1 = decompress_loop env replyLen True segment s2"
    "step_ok s1 b2 xs s2"
    using assms(2) [unfolded reads_back_def, rule_format, of s1 xs segment] by auto
  with s1 step_ok_trans [OF s1(2)]
  show "\<exists>s'. decompress_loop env replyLen True segment s = decompress_loop env replyLen True segment s' \<and>
      step_ok s (b1 @ b2) xs s'" by metis
qed

lemma reads_back_step:
  assumes "bs \<noteq> []"
    and "\<And>segment s xs. dec_inv s \<Longrightarrow> rest_of s = wire @ xs \<Longrightarrow> ds_cur s + length bs \<le> segment \<Longrightarrow>
       \<exists>s'. decompress_payload env replyLen True segment s = Some (Ret 0 s') \<and> step_ok s bs xs s'"
  shows "reads_back env replyLen wire bs"
  unfolding reads_back_def
proof (intro allI impI)
  fix segment s xs
  assume s: "dec_inv s" "rest_of s = wire @ xs" "ds_cur s + length bs \<le> segment"
  from assms(2) [OF s] obtain s' where
    s': "decompress_payload env replyLen True segment s = Some (Ret 0 s')" "step_ok s bs xs s'" by blast
  have "ds_cur s < segment" using s(3) assms(1) by (cases bs) auto
  then have "decompress_loop env replyLen True segment s = decompress_loop env replyLen True segment s'"
    using s'(1) by (subst decompress_loop.simps) simp
  with s'(2) show "\<exists>s'. decompress_loop env replyLen True segment s = decompress_loop env replyLen True segment s' \<and>
      step_ok s bs xs s'" by blast
qed

lemma run_reads_back:
  assumes "env_ok env" "n < 2 ^ 32"
  shows "reads_back env replyLen (if n > 1 then concat (map field_bytes (pattern_fields c n)) else []) (run n c)"
proof (cases "n > 1")
  case True
  have "reads_back env replyLen (concat (map field_bytes (pattern_fields c n))) (replicate n c)"
    by (rule reads_back_step) (use True assms pattern_step in auto)
  with True show ?thesis by (simp add: run_def)
qed (simp add: run_def reads_back_Nil)

lemma chunk_reads_back:
  assumes "env_ok env" "chunk_stands env alg ck bs" "length bs + 4 < 2 ^ 32"
    and "alg \<in> {SMB2_COMPRESSION_LZNT1, SMB2_COMPRESSION_LZ77, SMB2_COMPRESSION_LZ77_HUFFMAN}"
  shows "reads_back env replyLen (concat (map field_bytes (chunk_fields alg ck))) bs"
proof -
  obtain mid where mid: "bs = run (ck_fwd ck) (ck_fchar ck) @ mid @ run (ck_bwd ck) (ck_bchar ck)"
    "ck_data_len ck = length mid"
    "if ck_actual_len ck \<noteq> 0
     then ck_actual_len ck = length (ck_out ck) \<and> ck_actual_len ck \<le> length mid \<and>
          smb2_compress_data env COMPRESSION_STREAM_DECODE (ck_out ck) (length mid) alg = Inr mid
     else ck_out ck = mid"
    using assms(2) by (auto simp: chunk_stands_def)
  have n: "length mid + 4 < 2 ^ 32" using assms(3) mid(1) by simp
  have small: "ck_fwd ck < 2 ^ 32" "ck_bwd ck < 2 ^ 32"
    using assms(3) mid(1) by (auto simp: run_def split: if_splits)
  have data: "reads_back env replyLen (concat (map field_bytes (data_fields alg ck))) mid"
  proof (cases "mid = []")
    case True
    with mid(3) have "ck_actual_len ck = 0" by (auto split: if_splits)
    with mid(2) True show ?thesis by (simp add: data_fields_def reads_back_Nil)
  next
    case False
    show ?thesis
    proof (rule reads_back_step [OF False])
      fix segment s xs
      assume s: "dec_inv s" "rest_of s = concat (map field_bytes (data_fields alg ck)) @ xs"
        "ds_cur s + length mid \<le> segment"
      show "\<exists>s'. decompress_payload env replyLen True segment s = Some (Ret 0 s') \<and> step_ok s mid xs s'"
      proof (cases "ck_actual_len ck = 0")
        case True
        then show ?thesis
          using none_step [OF assms(1) s(1) _ s(3), of 0 xs] s(2) mid n False by (simp add: data_fields_def)
      next
        case nz: False
        then show ?thesis
          using lz_step [OF assms(1) s(1) assms(4) _ s(3), of 0 "ck_out ck" xs] s(2) mid n False
          by (simp add: data_fields_def)
      qed
    qed
  qed
  show ?thesis
    using reads_back_append [OF run_reads_back [OF assms(1) small(1)]
        reads_back_append [OF data run_reads_back [OF assms(1) small(2)]]]
    by (simp add: chunk_fields_def mid(1) if_distrib [of "map field_bytes"] if_distrib [of concat] cong: if_cong)
qed

lemma compress_loop_reads_back:
  assumes "env_ok env" "coder_ok env" "0 < unat (compression_chunk_len sessionp)" "length buf + 4 < 2 ^ 32"
    and alg: "alg \<in> {SMB2_COMPRESSION_LZNT1, SMB2_COMPRESSION_LZ77, SMB2_COMPRESSION_LZ77_HUFFMAN}"
    and "built mbp bs []"
  shows "\<exists>one' sessionp' mbp' wire.
           compress_loop env alg sessionp buf (length buf) bchar one mbp = Some (0, one', sessionp', mbp') \<and>
           built mbp' (bs @ wire) [] \<and> (\<forall>replyLen. reads_back env replyLen wire buf)"
  using assms(3,4,6)
proof (induction "length buf" arbitrary: buf sessionp bchar one mbp bs rule: less_induct)
  case less
  have a: "compress_algorithm alg \<noteq> None" using alg by (auto simp: compress_algorithm_def)
  show ?case
  proof (cases "buf = []")
    case True
    then show ?thesis using less.prems(3) reads_back_Nil
      by (subst compress_loop.simps) (auto intro: exI [of _ "[]"])
  next
    case False
    define n where "n = (if length buf > unat (compression_chunk_len sessionp)
                         then unat (compression_chunk_len sessionp) else length buf)"
    have n: "0 < n" "n \<le> length buf" using False less.prems(1) by (auto simp: n_def)
    from compress_chunk_stands [OF assms(1,2) a n, of sessionp bchar] obtain ck s1 where
      ck: "smb2_rq_compress_chunk env sessionp alg buf n bchar = (0, ck, s1)" "chunk_stands env alg ck (take n buf)"
      "compression_chunk_len s1 = compression_chunk_len sessionp"
      by blast
    define w where "w = concat (map field_bytes (chunk_fields alg ck))"
    have rb: "reads_back env replyLen w (take n buf)" for replyLen
      unfolding w_def by (rule chunk_reads_back [OF assms(1) ck(2) _ alg]) (use less.prems(2) in simp)
    from env_puts [OF assms(1) less.prems(3), of "chunk_fields alg ck"] obtain mbp1 where
      m: "mb_puts (env_getm env) mbp (chunk_fields alg ck) = Some mbp1" "built mbp1 (bs @ w) []"
      by (auto simp: w_def)
    define one1 where "one1 = (one \<or> ck_actual_len ck \<noteq> 0 \<or> ck_fwd ck > 1 \<or> ck_bwd ck > 1)"
    have "\<exists>one' s2 mbp2 wire.
        compress_loop env alg s1 (drop n buf) (length (drop n buf)) (ck_bchar ck) one1 mbp1 = Some (0, one', s2, mbp2) \<and>
        built mbp2 ((bs @ w) @ wire) [] \<and> (\<forall>replyLen. reads_back env replyLen wire (drop n buf))"
      by (rule less.hyps [OF _ _ _ m(2)]) (use n less.prems ck(3) in auto)
    then obtain one' s2 mbp2 wire where
      r: "compress_loop env alg s1 (drop n buf) (length (drop n buf)) (ck_bchar ck) one1 mbp1 = Some (0, one', s2, mbp2)"
      "built mbp2 (bs @ w @ wire) []" "\<And>replyLen. reads_back env replyLen wire (drop n buf)"
      by auto
    have "compress_loop env alg sessionp buf (length buf) bchar one mbp = Some (0, one', s2, mbp2)"
      using False ck(1) m(1) r(1)
      by (subst compress_loop.simps) (simp add: Let_def n_def [symmetric] one1_def)
    moreover have "reads_back env replyLen (w @ wire) buf" for replyLen
      using reads_back_append [OF rb r(3)] by simp
    ultimately show ?thesis using r(2) by blast
  qed
qed

lemma decompress_chained_bytes:
  assumes "env_ok env" "coder_ok env" "compression_on sessionp" "chaining sessionp" "\<forall>m \<in> set ms. mbuf_wf m"
    and "chain_bytes ms = SMB2_SIGNATURE_COMPRESSION @ le32 (of_nat (length bs)) @ wire"
    and "length bs \<le> kDefaultMaxIOSize" "\<And>replyLen. reads_back env replyLen wire bs"
  shows "\<exists>sessionp' ms'. smb2_rq_decompress_read env sessionp ms = Some (Ret 0 (sessionp', ms')) \<and> chain_bytes ms' = bs"
proof -
  have small: "length bs < 2 ^ 32" using assms(7) by (simp add: kDefaultMaxIOSize_def)
  have seg: "reply_segment (chain_bytes ms) = length bs"
    using small by (simp add: reply_segment_def assms(6) SMB2_SIGNATURE_COMPRESSION_def le32_def le_dec_enc unat_of_nat_u32)
  from assms(1,5) show ?thesis
  proof (cases rule: decompress_read_cases [where sessionp = sessionp])
    case off
    then show ?thesis using assms(3) by simp
  next
    case (bad e)
    then show ?thesis using assms(2,6,7) seg by (simp add: coder_ok_def SMB2_SIGNATURE_COMPRESSION_def)
  next
    case (run mdp mbp)
    define s where "s = first_state sessionp mdp mbp"
    have s: "dec_inv s" "rest_of s = wire @ []" "ds_cur s + length bs \<le> length bs" "out_of s = []"
      using run(4,5,6) by (simp_all add: s_def first_state_def dec_inv_def built_def assms(6)
          SMB2_SIGNATURE_COMPRESSION_def)
    from assms(8) [unfolded reads_back_def, rule_format, OF s(1-3)] obtain s' where
      s': "decompress_loop env (mbuf_get_chain_len ms) True (length bs) s =
           decompress_loop env (mbuf_get_chain_len ms) True (length bs) s'" "step_ok s bs [] s'"
      by blast
    have cur: "ds_cur s' = length bs" "out_of s' = bs" using s'(2) s(4) by (simp_all add: step_ok_def s_def first_state_def)
    have "decompress_loop env (mbuf_get_chain_len ms) True (length bs) s = Some (Ret 0 s')"
      unfolding s'(1) by (subst decompress_loop.simps) (simp add: cur(1))
    then show ?thesis
      using cur assms(4) unfolding run(7) seg
      by (simp add: decompress_segment_def s_def first_state_def chaining_def mb_bytes_def)
  qed
qed

lemma decompress_unchained_bytes:
  assumes "env_ok env" "coder_ok env" "compression_on sessionp" "\<not> chaining sessionp" "\<forall>m \<in> set ms. mbuf_wf m"
    and bytes: "chain_bytes ms = SMB2_SIGNATURE_COMPRESSION @ le32 (of_nat (length bs)) @ le16 alg @ le16 flags @
       le32 (of_nat (length hdr)) @ hdr @ out"
    and alg: "alg \<in> {SMB2_COMPRESSION_LZNT1, SMB2_COMPRESSION_LZ77, SMB2_COMPRESSION_LZ77_HUFFMAN}"
    and len: "length bs \<le> kDefaultMaxIOSize" "0 < length hdr" "length hdr \<le> length bs" "length out \<le> length bs"
    and dec: "smb2_compress_data env COMPRESSION_STREAM_DECODE out (length bs) alg = Inr bs"
  shows "\<exists>sessionp' ms'. smb2_rq_decompress_read env sessionp ms = Some (Ret 0 (sessionp', ms')) \<and> chain_bytes ms' = hdr @ bs"
proof -
  have small: "length bs < 2 ^ 32" "length hdr < 2 ^ 32" "16 + length hdr + length out < 2 ^ 32"
    using len by (simp_all add: kDefaultMaxIOSize_def)
  have nz: "bs \<noteq> []" using len(2,3) by auto
  have seg: "reply_segment (chain_bytes ms) = length bs"
    using small by (simp add: reply_segment_def bytes SMB2_SIGNATURE_COMPRESSION_def le32_def le_dec_enc unat_of_nat_u32)
  have rl: "mbuf_get_chain_len ms = 16 + length hdr + length out"
    using length_chain_bytes [OF assms(5)] bytes
    by (simp add: mbuf_get_chain_len_def SMB2_SIGNATURE_COMPRESSION_def)
  from assms(1,5) show ?thesis
  proof (cases rule: decompress_read_cases [where sessionp = sessionp])
    case off
    then show ?thesis using assms(3) by simp
  next
    case (bad e)
    then show ?thesis using assms(2) len(1) seg by (simp add: coder_ok_def SMB2_SIGNATURE_COMPRESSION_def bytes)
  next
    case (run mdp mbp)
    define s where "s = first_state sessionp mdp mbp"
    have s: "dec_inv s" "rest_of s = le16 alg @ le16 flags @ le32 (of_nat (length hdr)) @ hdr @ out" "out_of s = []"
      "ds_cur s = 0"
      using run(4,5,6) by (simp_all add: s_def first_state_def dec_inv_def built_def bytes
          SMB2_SIGNATURE_COMPRESSION_def)
    define s1 where "s1 = advance 4 (advance 2 (advance 2 s))"
    note s1 = payload_start_state [OF s(1,2), folded s1_def]
    from copy_plain_ok [OF assms(1) s1(1), of "length hdr" True] s1(2) obtain s2 where
      s2: "copy_plain env True (length hdr) s1 = Some (Ret 0 s2)" "copied (length hdr) s1 s2" by auto
    define s3 where "s3 = count_lz alg s2"
    have s3: "dec_inv s3" "rest_of s3 = out" "out_of s3 = hdr" "ds_cur s3 = 0"
      using s2(2) s1(2) s(3,4) by (simp_all add: s3_def copied_def dec_inv_def s1_def)
    define s4 where "s4 = advance (length out) s3"
    have s4: "dec_inv s4" "out_of s4 = hdr" "ds_cur s4 = 0"
      using s3 by (simp_all add: s4_def dec_inv_def)
    from dput_ok [OF assms(1) s4(1), of bs] obtain mb where
      p: "dput env bs s4 = Some (s4\<lparr>ds_mb := mb\<rparr>)" "mb_inv mb" "mb_bytes mb = hdr @ bs" by (auto simp: s4)
    define s5 where "s5 = s4\<lparr>ds_mb := mb, ds_cur := length bs, ds_hdr := (ds_hdr s4 \<or> env_log env \<and> length bs > 64)\<rparr>"
    have lz: "lz_decode env (length bs) alg (length out) (length bs) s3 = Some (Ret 0 s5)"
      using s3 s4 p(1) len(4) dec
      by (simp add: lz_decode_def md_get_size_rest dec_inv_def dget_reads s4_def [symmetric] s5_def)
    have pl: "decompress_payload env (mbuf_get_chain_len ms) False (length bs) s =
        decompress_lz env (mbuf_get_chain_len ms) False (length bs) alg (length hdr) s2"
      using s s2(1) alg len(2,3) small(2)
      by (auto simp: decompress_payload_def payload_length_def dget_reads dec_inv_def word_decode unat_of_nat_u32
          s1_def [symmetric] and_then_def) (auto simp: s1_def)
    also have "\<dots> = Some (Ret 0 s5)"
      using small(3) lz by (simp add: decompress_lz_def Let_def rl s3_def [symmetric])
    finally have "decompress_loop env (mbuf_get_chain_len ms) False (length bs) s = Some (Ret 0 s5)"
      using nz s(4) by (subst decompress_loop.simps, subst decompress_loop.simps) (simp add: s5_def)
    then show ?thesis
      using p assms(4) unfolding run(7) seg
      by (simp add: decompress_segment_def s_def first_state_def chaining_def mb_bytes_def s5_def)
  qed
qed

section \<open>A whole write\<close>

definition lz_algorithms :: "u16 set" where
  "lz_algorithms = {SMB2_COMPRESSION_LZNT1, SMB2_COMPRESSION_LZ77, SMB2_COMPRESSION_LZ77_HUFFMAN}"

lemma write_algorithm_Some:
  assumes "write_algorithm sessionp = Some (alg, sessionp')"
  shows "alg \<in> lz_algorithms" "compression_chunk_len sessionp' = compression_chunk_len sessionp"
    "compression_io_threshold sessionp' = compression_io_threshold sessionp"
    "session_misc_flags sessionp' = session_misc_flags sessionp"
  using assms by (auto simp: write_algorithm_def lz_algorithms_def Let_def split: if_splits)

lemma compress_request_reads:
  assumes "mb_inv (sr_rq rqp)" "mb_bytes (sr_rq rqp) = hdr @ bs" "length hdr = 112" "hdr_write_length hdr = length bs"
    and "2 \<le> length bs" "unat (compression_io_threshold sessionp) \<le> length bs" "length bs \<le> kDefaultMaxIOSize"
    and "env_malloc env (length bs * 2)"
  shows "compress_request env rqp sessionp alg chained =
           (if chained then compress_chained env rqp sessionp alg hdr bs
            else compress_unchained env rqp sessionp alg hdr bs)"
proof -
  have wf: "\<forall>m \<in> set (mb_top (sr_rq rqp)). mbuf_wf m" using assms(1) by (simp add: mb_inv_def put_inv_def)
  define md0 where "md0 = md_initm (mb_top (sr_rq rqp)) []"
  have md0: "md_inv md0" "md_rest md0 = hdr @ bs"
    using md_initm_inv [OF wf, of "[]"] assms(2) by (simp_all add: md0_def mb_bytes_def)
  obtain md1 where md1: "md_get_mem md0 sizeof_hdr_write = (Inr hdr, md1)" "md_inv md1" "md_rest md1 = bs"
    using md_get_mem_spec(1-3) [OF md0(1), of sizeof_hdr_write] md0(2) assms(3)
    by (cases "md_get_mem md0 sizeof_hdr_write") (auto simp: sizeof_hdr_write_def)
  obtain md2 where md2: "md_get_mem md1 (length bs) = (Inr bs, md2)"
    using md_get_mem_spec(1) [OF md1(2), of "length bs"] md1(3)
    by (cases "md_get_mem md1 (length bs)") auto
  have "bs \<noteq> []" using assms(5) by auto
  then show ?thesis
    using assms(5-8) by (simp add: compress_request_def md0_def [symmetric] md1(1) md2 assms(4) Let_def)
qed

lemma compress_write_request:
  assumes "env_ok env" "coder_ok env"
    and "sr_session rqp = Some sessionp" "compression_on sessionp" "write_algorithm sessionp \<noteq> None"
      "sr_command rqp = SMB2_WRITE" "sr_flags rqp AND SMBR_COMPOUND_RQ = 0"
      "sr_extflags rqp AND SMB2_NO_COMPRESS_WRITE = 0"
    and msg: "mb_inv (sr_rq rqp)" "mb_bytes (sr_rq rqp) = hdr @ bs" "length hdr = 112"
      "hdr_write_length hdr = length bs"
    and len: "2 \<le> length bs" "unat (compression_io_threshold sessionp) \<le> length bs" "length bs \<le> kDefaultMaxIOSize"
  obtains mbp s1 alg where "built mbp [] []" "alg \<in> lz_algorithms"
    "compression_chunk_len s1 = compression_chunk_len sessionp"
    "smb2_rq_compress_write env rqp =
       (let rqp = rqp\<lparr>sr_session := Some s1, sr_rq_compressed := mbp\<rparr>
        in if chaining sessionp then compress_chained env rqp s1 alg hdr bs
           else compress_unchained env rqp s1 alg hdr bs)"
proof -
  obtain mbp where mbp: "mb_init (env_hdr env) = Inr mbp" "built mbp [] []" using env_init [OF assms(1)] .
  obtain alg s1 where a: "write_algorithm sessionp = Some (alg, s1)" using assms(5) by auto
  note s1 = write_algorithm_Some [OF a]
  have mem: "env_malloc env (length bs * 2)" using assms(2) by (simp add: coder_ok_def)
  define rqp1 where "rqp1 = rqp\<lparr>sr_session := Some s1, sr_rq_compressed := mbp\<rparr>"
  have "smb2_rq_compress_write env rqp = compress_request env rqp1 s1 alg (chaining sessionp)"
    using assms(3,4,6,7,8) s1(4)
    by (simp add: smb2_rq_compress_write_def compression_on_def a mbp(1) rqp1_def chaining_def)
  also have "\<dots> = (if chaining sessionp then compress_chained env rqp1 s1 alg hdr bs
      else compress_unchained env rqp1 s1 alg hdr bs)"
    by (rule compress_request_reads) (use msg len s1(3) mem in \<open>simp_all add: rqp1_def\<close>)
  finally show thesis using mbp(2) s1(1,2) by (intro that [of mbp alg s1]) (simp_all add: rqp1_def Let_def)
qed

text \<open>
  \<open>sent_back env s2 rqp msg rqp'\<close>: the request stays the one to be sent, or its compressed form is, and
  that is read back as \<open>msg\<close>.
\<close>

definition sent_back :: "crypt_env \<Rightarrow> smb_session \<Rightarrow> smb_rq \<Rightarrow> byte list \<Rightarrow> smb_rq \<Rightarrow> bool" where
  "sent_back env sessionp2 rqp msg rqp' \<longleftrightarrow>
     sr_rq rqp' = sr_rq rqp \<and>
     (rqp' = rqp\<lparr>sr_session := sr_session rqp', sr_rq_compressed := sr_rq_compressed rqp',
                 sr_extflags := sr_extflags rqp OR SMB2_FAILED_COMPRESS_WRITE\<rparr> \<or>
      sr_flags rqp' = sr_flags rqp OR SMBR_COMPRESSED \<and>
      (\<exists>sessionp3 ms. smb2_rq_decompress_read env sessionp2 (mb_top (sr_rq_compressed rqp')) =
           Some (Ret 0 (sessionp3, ms)) \<and> chain_bytes ms = msg))"

lemma built_mbufs: "built mbp bs ps \<Longrightarrow> (\<forall>m \<in> set (mb_top mbp). mbuf_wf m) \<and> chain_bytes (mb_top mbp) = bs"
  by (simp add: built_def mb_inv_def put_inv_def mb_bytes_def)

lemma compress_chained_back:
  assumes "env_ok env" "coder_ok env" "built (sr_rq_compressed rqp) [] []" "alg \<in> lz_algorithms"
    "0 < unat (compression_chunk_len s1)" "length hdr = 112" "112 + length bs \<le> kDefaultMaxIOSize"
    and "compression_on sessionp2" "chaining sessionp2"
  shows "\<exists>rqp'. compress_chained env rqp s1 alg hdr bs = Some (0, rqp') \<and> sent_back env sessionp2 rqp (hdr @ bs) rqp'"
proof -
  define h where "h = le16 SMB2_COMPRESSION_NONE @ le16 SMB2_COMPRESSION_FLAG_CHAINED @ le32 (of_nat (length hdr)) @ hdr"
  have small: "length bs + 4 < 2 ^ 32" "length hdr < 2 ^ 32" using assms(6,7) by (simp_all add: kDefaultMaxIOSize_def)
  have ne: "hdr \<noteq> []" using assms(6) by auto
  have h: "reads_back env replyLen h hdr" for replyLen
    by (rule reads_back_step [OF ne]) (use none_step [OF assms(1)] small(2) in \<open>simp add: h_def\<close>)
  define hf where "hf = [Mem SMB2_SIGNATURE_COMPRESSION, U32le (of_nat (sizeof_hdr_write + length bs)),
          U16le SMB2_COMPRESSION_NONE, U16le SMB2_COMPRESSION_FLAG_CHAINED,
          U32le (of_nat sizeof_hdr_write), Mem hdr]"
  have hb: "concat (map field_bytes hf) = SMB2_SIGNATURE_COMPRESSION @ le32 (of_nat (length (hdr @ bs))) @ h"
    using assms(6) by (simp add: hf_def h_def sizeof_hdr_write_def)
  from env_puts [OF assms(1,3), of hf] obtain m1 where
    m1: "mb_puts (env_getm env) (sr_rq_compressed rqp) hf = Some m1" "built m1 (concat (map field_bytes hf)) []"
    by auto
  from compress_loop_reads_back [OF assms(1,2,5) small(1) assms(4) [unfolded lz_algorithms_def] m1(2), of 0 False]
  obtain one s2 m2 w where
    l: "compress_loop env alg s1 bs (length bs) 0 False m1 = Some (0, one, s2, m2)"
    "built m2 (concat (map field_bytes hf) @ w) []" "\<And>replyLen. reads_back env replyLen w bs"
    by blast
  note bm = built_mbufs [OF l(2), unfolded hb]
  have bk: "\<exists>s3 ms. smb2_rq_decompress_read env sessionp2 (mb_top m2) = Some (Ret 0 (s3, ms)) \<and> chain_bytes ms = hdr @ bs"
    by (rule decompress_chained_bytes [OF assms(1,2,8,9), of _ _ "h @ w"])
      (use bm assms(6,7) reads_back_append [OF h l(3)] in auto)
  have "compress_chained env rqp s1 alg hdr bs =
      Some (0, let rqp = rqp\<lparr>sr_session := Some s2, sr_rq_compressed := m2\<rparr>
               in if one then compressed rqp s2 m2 else not_smaller rqp)"
    unfolding compress_chained_def hf_def [symmetric] m1(1) by (simp add: l(1) Let_def)
  then show ?thesis
    using bk by (cases one) (simp_all add: sent_back_def compressed_def not_smaller_def Let_def)
qed

lemma compress_unchained_back:
  assumes "env_ok env" "coder_ok env" "built (sr_rq_compressed rqp) [] []" "alg \<in> lz_algorithms"
    "length hdr = 112" "112 \<le> length bs" "length bs \<le> kDefaultMaxIOSize"
    and "compression_on sessionp2" "\<not> chaining sessionp2"
  shows "\<exists>rqp'. compress_unchained env rqp s1 alg hdr bs = Some (0, rqp') \<and> sent_back env sessionp2 rqp (hdr @ bs) rqp'"
proof -
  have a: "compress_algorithm alg \<noteq> None" using assms(4) by (auto simp: lz_algorithms_def compress_algorithm_def)
  have ne: "bs \<noteq> []" using assms(6) by auto
  obtain out where out: "smb2_compress_data env COMPRESSION_STREAM_ENCODE bs (length bs) alg = Inr out"
    "length out \<le> length bs"
    "out \<noteq> [] \<Longrightarrow> smb2_compress_data env COMPRESSION_STREAM_DECODE out (length bs) alg = Inr bs"
    using encode_decode [OF assms(1,2) a, of bs "length bs"] ne by metis
  show ?thesis
  proof (cases "out = []")
    case True
    then show ?thesis using out(1) by (simp add: compress_unchained_def sent_back_def not_smaller_def)
  next
    case False
    define fs where "fs = [Mem SMB2_SIGNATURE_COMPRESSION, U32le (of_nat (length bs)), U16le alg,
               U16le SMB2_COMPRESSION_FLAG_NONE, U32le (of_nat sizeof_hdr_write), Mem hdr, Mem out]"
    from env_puts [OF assms(1,3), of fs] obtain m1 where
      m1: "mb_puts (env_getm env) (sr_rq_compressed rqp) fs = Some m1" "built m1 (concat (map field_bytes fs)) []"
      by auto
    note bm = built_mbufs [OF m1(2)]
    have "\<exists>s3 ms. smb2_rq_decompress_read env sessionp2 (mb_top m1) = Some (Ret 0 (s3, ms)) \<and> chain_bytes ms = hdr @ bs"
      by (rule decompress_unchained_bytes [OF assms(1,2,8,9) conjunct1 [OF bm], of _ alg SMB2_COMPRESSION_FLAG_NONE _ out])
        (use bm assms(4-7) out(2,3) False in \<open>auto simp: fs_def sizeof_hdr_write_def lz_algorithms_def\<close>)
    then show ?thesis
      using False unfolding compress_unchained_def out(1) sum.case fs_def [symmetric] m1(1)
      by (simp add: sent_back_def compressed_def)
  qed
qed

section \<open>Properties\<close>

text \<open>A library with a coder for runs, and a session and messages to apply the theorems to.\<close>

definition wit_lib :: compression_lib where
  "wit_lib =
     \<lparr>compression_encode_scratch_buffer_size = (\<lambda>_. 8), compression_decode_scratch_buffer_size = (\<lambda>_. 0),
      compression_encode_buffer =
        (\<lambda>n src _. if 0 < n \<and> 1 < length src \<and> src = replicate (length src) (hd src) then [hd src] else []),
      compression_decode_buffer = (\<lambda>n src _. if src = [] then [] else replicate n (hd src))\<rparr>"

definition wit_env :: crypt_env where
  "wit_env = \<lparr>env_getm = smb_mbuf_getm wit_kpi, env_hdr = Some wit_mbuf, env_malloc = (\<lambda>_. True),
              env_lib = wit_lib, env_log = False\<rparr>"

definition comp_session :: smb_session where
  "comp_session = \<lparr>session_flags = 0x21000, session_misc_flags = 0, session_uid = 501,
     session_session_id = 7, session_hflags2 = 4, sv_caps = 0, sv_sessflags = 0, session_iod = 0,
     server_compression_algorithms_map = 4, compression_io_threshold = 100, compression_chunk_len = 64,
     write_compress_cnt = 0, write_cnt_LZ77Huff = 0, write_cnt_LZ77 = 0, write_cnt_LZNT1 = 0,
     write_cnt_fwd_pattern = 0, write_cnt_bwd_pattern = 0, read_compress_cnt = 0, read_cnt_LZ77Huff = 0,
     read_cnt_LZ77 = 0, read_cnt_LZNT1 = 0, read_cnt_fwd_pattern = 0, read_cnt_bwd_pattern = 0,
     session_seqno = 0, session_mackey = Some (replicate 16 7), full_session_mackey = Some
     (replicate 16 7), session_smb3_signing_key = replicate 16 7, session_smb3_signing_key_len
     = 16, session_smb3_encrypt_key = replicate 16 7, session_smb3_encrypt_key_len = 16,
     session_smb3_decrypt_key = replicate 16 7, session_smb3_decrypt_key_len = 16,
     session_smb3_encrypt_ciper = 1, session_smb3_signing_algorithm = 1,
     session_smb3_nonce_high = 0, session_smb3_nonce_low = 0, decrypt_bufferp = None\<rparr>"

definition wit_hdr :: "byte list" where
  "wit_hdr = replicate 68 1 @ le32 200 @ replicate 40 2"

definition one_mbuf :: "byte list \<Rightarrow> mbuf" where
  "one_mbuf bs = \<lparr>m_flags = M_PKTHDR, m_data = bs, m_len = length bs, m_pkthdr_len = 0\<rparr>"

definition wit_write :: smb_rq where
  "wit_write = wit_rq\<lparr>sr_session := Some comp_session, sr_command := SMB2_WRITE,
     sr_rq := \<lparr>mb_top = [one_mbuf (wit_hdr @ replicate 200 0xFF)], mb_cur = 0, mb_mleft = 0, mb_count = 0,
               mb_len = 312\<rparr>\<rparr>"

lemma wit_env_ok: "env_ok wit_env" "coder_ok wit_env"
  using wit_kpi_wf wit_mbuf_ok by (auto simp: env_ok_def coder_ok_def wit_env_def wit_lib_def)

lemma comp_session_on: "compression_on comp_session" "chaining comp_session"
  by (simp_all add: compression_on_def chaining_def comp_session_def SMBV_SMB3_OR_LATER_def)

lemma one_mbuf_simps: "mbuf_wf (one_mbuf bs)" "mbuf_bytes (one_mbuf bs) = bs" "m_len (one_mbuf bs) = length bs"
  by (simp_all add: one_mbuf_def mbuf_wf_def mbuf_bytes_def)



text \<open>C20: A write request that is sent compressed is read back as it was: when the client compresses a
  write, chained or not, and marks it so, then taking the compressed message apart gives the header
  and the data of the request. When it does not, the request itself is left to be sent and marked as one
  that did not get smaller. Chained messages are read back up to 112 bytes less than the largest
  write, messages that are not chained from 112 bytes on.\<close>

theorem compress_decompress:
  assumes "env_ok env" "coder_ok env"
    and rq: "sr_session rqp = Some sessionp" "compression_on sessionp" "write_algorithm sessionp \<noteq> None"
      "sr_command rqp = SMB2_WRITE" "sr_flags rqp AND SMBR_COMPOUND_RQ = 0"
      "sr_extflags rqp AND SMB2_NO_COMPRESS_WRITE = 0" "0 < compression_chunk_len sessionp"
    and msg: "mb_inv (sr_rq rqp)" "mb_bytes (sr_rq rqp) = hdr @ bs" "length hdr = 112"
      "hdr_write_length hdr = length bs"
    and len: "2 \<le> length bs" "unat (compression_io_threshold sessionp) \<le> length bs" "length bs \<le> kDefaultMaxIOSize"
    and reply: "compression_on sessionp2" "chaining sessionp2 = chaining sessionp"
      "if chaining sessionp then 112 + length bs \<le> kDefaultMaxIOSize else 112 \<le> length bs"
  shows "\<exists>rqp'. smb2_rq_compress_write env rqp = Some (0, rqp') \<and> sr_rq rqp' = sr_rq rqp \<and>
           (rqp' = rqp\<lparr>sr_session := sr_session rqp', sr_rq_compressed := sr_rq_compressed rqp',
                       sr_extflags := sr_extflags rqp OR SMB2_FAILED_COMPRESS_WRITE\<rparr> \<or>
            sr_flags rqp' = sr_flags rqp OR SMBR_COMPRESSED \<and>
            (\<exists>sessionp3 ms. smb2_rq_decompress_read env sessionp2 (mb_top (sr_rq_compressed rqp')) =
                 Some (Ret 0 (sessionp3, ms)) \<and> chain_bytes ms = hdr @ bs))"
proof -
  obtain mbp s1 alg where c: "built mbp [] []" "alg \<in> lz_algorithms"
    "compression_chunk_len s1 = compression_chunk_len sessionp"
    "smb2_rq_compress_write env rqp =
       (let rqp = rqp\<lparr>sr_session := Some s1, sr_rq_compressed := mbp\<rparr>
        in if chaining sessionp then compress_chained env rqp s1 alg hdr bs
           else compress_unchained env rqp s1 alg hdr bs)"
    using compress_write_request [OF assms(1,2) rq(1-6) msg len] by metis
  define rqp1 where "rqp1 = rqp\<lparr>sr_session := Some s1, sr_rq_compressed := mbp\<rparr>"
  have "0 < unat (compression_chunk_len s1)" using rq(7) c(3) by (simp add: word_less_nat_alt)
  then have "\<exists>rqp'. smb2_rq_compress_write env rqp = Some (0, rqp') \<and> sent_back env sessionp2 rqp1 (hdr @ bs) rqp'"
    using compress_chained_back [OF assms(1,2) _ c(2) _ msg(3) _ reply(1), of rqp1 s1 bs]
      compress_unchained_back [OF assms(1,2) _ c(2) msg(3) _ len(3) reply(1), of rqp1 s1] c(1,4) reply(2,3)
    by (simp add: rqp1_def Let_def split: if_splits)
  then show ?thesis by (auto simp: sent_back_def rqp1_def)
qed

theorem compress_decompress_witness:
  "\<exists>rqp'. smb2_rq_compress_write wit_env wit_write = Some (0, rqp') \<and> sr_rq rqp' = sr_rq wit_write"
proof -
  have "sr_session wit_write = Some comp_session" "write_algorithm comp_session \<noteq> None"
    "sr_command wit_write = SMB2_WRITE" "sr_flags wit_write AND SMBR_COMPOUND_RQ = 0"
    "sr_extflags wit_write AND SMB2_NO_COMPRESS_WRITE = 0" "0 < compression_chunk_len comp_session"
    by (simp_all add: wit_write_def wit_rq_def comp_session_def write_algorithm_def)
  moreover have "mb_inv (sr_rq wit_write)" "mb_bytes (sr_rq wit_write) = wit_hdr @ replicate 200 0xFF"
    by (simp_all add: wit_write_def mb_inv_def put_inv_def mb_bytes_def one_mbuf_simps)
      (simp add: one_mbuf_def mbuf_trailingspace_def)
  moreover have "length wit_hdr = 112" "hdr_write_length wit_hdr = length (replicate 200 (0xFF :: byte))"
    by (simp_all add: wit_hdr_def hdr_write_length_def le32_def le_dec_enc)
  moreover have "unat (compression_io_threshold comp_session) = 100" by (simp add: comp_session_def)
  ultimately show ?thesis
    using compress_decompress [OF wit_env_ok _ comp_session_on(1), of wit_write wit_hdr "replicate 200 0xFF" comp_session]
    by (simp add: comp_session_on kDefaultMaxIOSize_def) blast
qed

text \<open>C33: A reply can make the client write past the end of its buffer: a chained reply that announces
  \<open>k\<close> bytes in all and brings a compressed payload of more than \<open>2 * k\<close> bytes is copied to the buffer
  of \<open>2 * k\<close> bytes as it is, since only the length of the message bounds it.\<close>

theorem decompress_overflow:
  assumes "env_ok env" "coder_ok env" "compression_on sessionp" "chaining sessionp" "\<forall>m \<in> set ms. mbuf_wf m"
    and bytes: "chain_bytes ms = SMB2_SIGNATURE_COMPRESSION @ le32 (of_nat k) @ le16 alg @ le16 flags @
       le32 (of_nat (length junk) + 4) @ le32 1 @ junk"
    and "alg \<in> lz_algorithms" "0 < k" "k \<le> kDefaultMaxIOSize" "2 * k < length junk" "length junk + 4 < 2 ^ 32"
  shows "smb2_rq_decompress_read env sessionp ms = Some Fault"
proof -
  have small: "k < 2 ^ 32" using assms(9) by (simp add: kDefaultMaxIOSize_def)
  have seg: "reply_segment (chain_bytes ms) = k"
    using small by (simp add: reply_segment_def bytes SMB2_SIGNATURE_COMPRESSION_def le32_def le_dec_enc unat_of_nat_u32)
  have n: "unat (of_nat (length junk) + 4 :: u32) = length junk + 4"
    using unat_of_nat_u32 [of "length junk + 4"] assms(11) by simp
  from assms(1,5) show ?thesis
  proof (cases rule: decompress_read_cases [where sessionp = sessionp])
    case off
    then show ?thesis using assms(3) by simp
  next
    case (bad e)
    then show ?thesis using assms(2,9) seg by (simp add: coder_ok_def SMB2_SIGNATURE_COMPRESSION_def bytes)
  next
    case (run mdp mbp)
    define s where "s = first_state sessionp mdp mbp"
    have s: "dec_inv s" "rest_of s = le16 alg @ le16 flags @ le32 (of_nat (length junk) + 4) @ le32 1 @ junk" "ds_cur s = 0"
      using run(4,5,6) by (simp_all add: s_def first_state_def dec_inv_def built_def bytes SMB2_SIGNATURE_COMPRESSION_def)
    define s1 where "s1 = advance 4 (advance 2 (advance 2 s))"
    note s1 = payload_start_state [OF s(1,2), folded s1_def]
    have "decompress_payload env (mbuf_get_chain_len ms) True k s =
        decompress_lz env (mbuf_get_chain_len ms) True k alg (length junk + 4) s1"
      using assms(7) s(1) by (subst payload_start [OF _ s(2)]) (auto simp: n s1_def dec_inv_def lz_algorithms_def)
    also have "\<dots> = Some Fault"
      using s1 s(3) assms(8,10)
      by (simp add: decompress_lz_def lz_decode_def dget_reads dec_inv_def word_decode md_get_size_rest)
        (auto simp: s1_def)
    finally show ?thesis
      using assms(4,8) s(3) unfolding run(7) seg
      by (subst decompress_segment_def, subst decompress_loop.simps)
        (simp add: s_def first_state_def chaining_def)
  qed
qed

theorem decompress_overflow_witness:
  "smb2_rq_decompress_read wit_env comp_session
     [one_mbuf (SMB2_SIGNATURE_COMPRESSION @ le32 1 @ le16 3 @ le16 0 @ le32 7 @ le32 1 @ [65, 66, 67])] = Some Fault"
  by (rule decompress_overflow [of _ _ _ 1 3 0 "[65, 66, 67]"])
    (simp_all add: wit_env_ok comp_session_on one_mbuf_simps lz_algorithms_def kDefaultMaxIOSize_def)

text \<open>Runs of a byte above 127 are not found: the byte is compared with a signed character. A chunk that
  starts and ends with such bytes is never given a pattern payload.\<close>

lemma compress_chunk_high_bytes:
  assumes "smb2_rq_compress_chunk env sessionp alg buf n bchar = (e, ck, sessionp')"
    and "128 \<le> unat (buf ! 0)" "128 \<le> unat (buf ! (n - 1))"
  shows "ck_fwd ck = 1 \<and> ck_bwd ck = 1 \<and> write_cnt_fwd_pattern sessionp' = write_cnt_fwd_pattern sessionp \<and>
         write_cnt_bwd_pattern sessionp' = write_cnt_bwd_pattern sessionp"
proof -
  have never: "\<not> char_eq b c" if "128 \<le> unat c" for b c
  proof
    assume c: "char_eq b c"
    then have "uint c = sint c" using char_eq_imp [OF c] by (simp add: char_eq_def)
    moreover have "sint c < 2 ^ 7" using sint_lt [of c] by simp
    moreover have "128 \<le> uint c" using that by (metis of_nat_le_iff of_nat_numeral uint_nat)
    ultimately show False by simp
  qed
  have f: "forward_scan buf n (buf ! 0) = 1" and b: "backward_scan buf n (buf ! (n - 1)) stop = 1" for stop
    using never [OF assms(2)] never [OF assms(3)]
    by (simp_all add: forward_scan_def backward_scan_def takeWhile_eq_Nil_iff)
  show ?thesis
    using assms(1) by (auto simp: smb2_rq_compress_chunk_def chunk_forward_def chunk_backward_def f b [unfolded One_nat_def] Let_def
        split: if_splits sum.splits)
qed

end
