(* ===== verification/Credits.thy ===== *)
theory Credits
  imports Request
begin

text \<open>
  Crediting, message ids, the life of a request and the parsing of the reply header
  (\<^verbatim>\<open>src/kernel/netsmb/smb_rq_2.c\<close>, with \<^verbatim>\<open>smb_rq_getenv\<close> and \<^verbatim>\<open>smb_rq_done\<close> of \<^verbatim>\<open>smb_rq.c\<close>).

  The channels live in a store, a map from numbers to records. All of the crediting of a channel runs
  under its credit lock, which is given up only in \<^verbatim>\<open>msleep\<close> and around a forced reconnect. What other
  threads do there is the environment's: a list of wake-ups, each with the value \<^verbatim>\<open>msleep\<close> returns and
  an arbitrary change of the state. A call that is still asleep when the list ends has the result \<open>None\<close>.
\<close>

section \<open>The state\<close>

text \<open>
  \<open>going_away\<close> is what the \<^verbatim>\<open>ss_going_away\<close> callback of a share answers, \<open>dead\<close> the shares whose
  \<^verbatim>\<open>ss_dead\<close> callback has been called.
\<close>

record smb_state =
  iods :: "nat \<Rightarrow> smbiod"
  going_away :: "nat \<Rightarrow> bool"
  dead :: "nat list"

type_synonym wake = "errno \<times> (smb_state \<Rightarrow> smb_state)"

definition upd_iod :: "nat \<Rightarrow> (smbiod \<Rightarrow> smbiod) \<Rightarrow> smb_state \<Rightarrow> smb_state" where
  "upd_iod i f st = st\<lparr>iods := (iods st)(i := f (iods st i))\<rparr>"

text \<open>The credits of a channel are read as a signed 32 bit number.\<close>

definition curr_credits :: "smb_state \<Rightarrow> nat \<Rightarrow> int" where
  "curr_credits st i = sint (iod_credits_granted (iods st i))"

abbreviation (input) kCREDIT_REQUEST_AMT :: u16 where "kCREDIT_REQUEST_AMT \<equiv> 256"
abbreviation (input) kCREDIT_LOW_WATER :: int where "kCREDIT_LOW_WATER \<equiv> 10"
abbreviation (input) kCREDIT_MIN_AMT :: int where "kCREDIT_MIN_AMT \<equiv> 1"
abbreviation (input) kCREDIT_MAX_AMT :: int where "kCREDIT_MAX_AMT \<equiv> 65535"
abbreviation (input) SMBIOD_SHUTDOWN :: u32 where "SMBIOD_SHUTDOWN \<equiv> 0x1"
abbreviation (input) SMBIOD_ALTERNATE_CHANNEL :: u32 where "SMBIOD_ALTERNATE_CHANNEL \<equiv> 0x100"
abbreviation (input) EWOULDBLOCK :: errno where "EWOULDBLOCK \<equiv> 35"

section \<open>Taking credits\<close>

text \<open>The length that the credits of the channel allow; the charge is kept in 16 bits, read signed.\<close>

definition smb2_rq_credit_check :: "smbiod \<Rightarrow> smb_rq \<Rightarrow> u32 \<Rightarrow> u32 \<times> smb_rq" where
  "smb2_rq_credit_check iod rqp len =
     (if len \<le> 64 * 1024 then (len, rqp)
      else
        let curr = sint (iod_credits_granted iod)
        in if curr \<le> kCREDIT_LOW_WATER then (64 * 1024, rqp)
           else
             let charge16 = ucast ((len - 1) div (64 * 1024) + 1) :: u16
             in if sint charge16 + kCREDIT_LOW_WATER > curr then
                  (word_of_int ((curr - kCREDIT_LOW_WATER) * (64 * 1024)),
                   rqp\<lparr>sr_creditcharge := word_of_int (curr - kCREDIT_LOW_WATER)\<rparr>)
                else (len, rqp\<lparr>sr_creditcharge := charge16\<rparr>))"

text \<open>The distance of the next message id from the oldest one that is pending.\<close>

definition message_id_diff :: "smbiod \<Rightarrow> u64" where
  "message_id_diff iod =
     (if iod_message_id iod > iod_oldest_message_id iod
      then iod_message_id iod - iod_oldest_message_id iod
      else (0xffffffffffffffff - iod_oldest_message_id iod) + iod_message_id iod)"

definition send_window_open :: "smbiod \<Rightarrow> bool" where
  "send_window_open iod \<longleftrightarrow>
     (let curr = sint (iod_credits_granted iod)
      in curr \<ge> kCREDIT_MIN_AMT \<and>
         (iod_req_pending iod = 0 \<or> message_id_diff iod \<le> word_of_int curr))"

definition share_going_away :: "smb_state \<Rightarrow> smb_rq \<Rightarrow> bool" where
  "share_going_away st rqp =
     (case sr_share rqp of None \<Rightarrow> False | Some sh \<Rightarrow> ss_going_away sh \<and> going_away st (ss_id sh))"

text \<open>
  The inner loop, at most \<open>n\<close> sleeps of a second: either the share goes away, or the loop is left with
  the last value of \<^verbatim>\<open>msleep\<close>.
\<close>

fun credit_sleep ::
  "smb_rq \<Rightarrow> nat \<Rightarrow> nat \<Rightarrow> errno \<Rightarrow> wake list \<Rightarrow> smb_state \<Rightarrow> ((errno + errno) \<times> smb_state \<times> wake list) option"
where
  "credit_sleep rqp i 0 ret ws st = Some (Inr ret, st, ws)"
| "credit_sleep rqp i (Suc n) ret [] st = None"
| "credit_sleep rqp i (Suc n) ret (w # ws) st =
     (let st = snd w (upd_iod i (\<lambda>d. d\<lparr>iod_credits_wait := iod_credits_wait d + 1\<rparr>) st)
      in if fst w = EWOULDBLOCK then
           let st = (if iod_credits_wait (iods st i) \<noteq> 0
                     then upd_iod i (\<lambda>d. d\<lparr>iod_credits_wait := iod_credits_wait d - 1\<rparr>) st else st)
           in if share_going_away st rqp then Some (Inl ENXIO, st, ws)
              else if curr_credits st i > 0 then Some (Inr 0, st, ws)
              else credit_sleep rqp i n EWOULDBLOCK ws st
         else Some (Inr (fst w), st, ws))"

lemma credit_sleep_length:
  "credit_sleep rqp i n ret ws st = Some (r, st', ws') \<Longrightarrow> length ws' + (if n = 0 then 0 else 1) \<le> length ws"
  by (induction rqp i n ret ws st rule: credit_sleep.induct)
    (force simp: Let_def split: if_splits)+

text \<open>
  Waiting until the send window is open. After sixty sleeps without a credit a reconnect is forced, with
  the lock given up; the next item of the environment's list is what happens meanwhile.
\<close>

function credit_wait ::
  "smb_rq \<Rightarrow> nat \<Rightarrow> wake list \<Rightarrow> smb_state \<Rightarrow> (errno \<times> smb_state \<times> wake list) option"
where
  "credit_wait rqp i ws st =
     (if send_window_open (iods st i) then Some (0, st, ws)
      else if sr_command rqp = SMB2_ECHO \<or> sr_extflags rqp AND SMB2_REQ_NO_BLOCK \<noteq> 0
      then Some (ENOBUFS, st, ws)
      else if share_going_away st rqp then Some (ENXIO, st, ws)
      else if iod_flags (iods st i) AND SMBIOD_SHUTDOWN \<noteq> 0 then Some (ENXIO, st, ws)
      else
        (case credit_sleep rqp i 60 0 ws st of
           None \<Rightarrow> None
         | Some (Inl e, st', ws') \<Rightarrow> Some (e, st', ws')
         | Some (Inr ret, st', ws') \<Rightarrow>
             if ret = EWOULDBLOCK then
               (case ws' of [] \<Rightarrow> None | w # ws'' \<Rightarrow> credit_wait rqp i ws'' (snd w st'))
             else credit_wait rqp i ws' st'))"
  by pat_completeness auto

termination
  by (relation "measure (\<lambda>(_, _, ws, _). length ws)") (auto dest: credit_sleep_length)

declare credit_wait.simps [simp del]

definition main_context :: "smb_state \<Rightarrow> smb_session \<Rightarrow> vfs_context option" where
  "main_context st sessionp = iod_context (iods st (session_iod sessionp))"

text \<open>
  The charge of a request is taken from its channel. The result is the error, the request, the length
  the caller may use, the state and what is left of the environment's list.
\<close>

definition smb2_rq_credit_decrement ::
  "wake list \<Rightarrow> smb_state \<Rightarrow> smb_rq \<Rightarrow> u32 option \<Rightarrow>
     (errno \<times> smb_rq \<times> u32 option \<times> smb_state \<times> wake list) option" where
  "smb2_rq_credit_decrement ws st rqp rq_len =
     (case sr_session rqp of
        None \<Rightarrow> Some (ENOMEM, rqp, rq_len, st, ws)
      | Some sessionp \<Rightarrow>
     (case sr_iod rqp of
        None \<Rightarrow> None
      | Some i \<Rightarrow>
          let cmd = sr_command rqp
          in if cmd = SMB2_NEGOTIATE then
               Some (0, rqp\<lparr>sr_creditcharge := 0, sr_creditsrequested := 0\<rparr>, rq_len,
                     upd_iod i (\<lambda>d. d\<lparr>iod_credits_granted := 0, iod_credits_ss_granted := 0,
                                      iod_credits_max := 0\<rparr>) st, ws)
             else if cmd = SMB2_SESSION_SETUP \<or> cmd = SMB2_TREE_CONNECT then
               Some (0, rqp\<lparr>sr_creditsrequested := kCREDIT_REQUEST_AMT\<rparr>, rq_len, st, ws)
             else if cmd = SMB2_LOGOFF then Some (0, rqp, rq_len, st, ws)
             else if cmd \<noteq> SMB2_OPLOCK_BREAK \<and> session_flags sessionp AND SMBV_SMB2 = 0 then
               Some (ERPCMISMATCH, rqp, rq_len, st, ws)
             else if cmd \<noteq> SMB2_OPLOCK_BREAK \<and> sr_context rqp = main_context st sessionp then
               Some (0, rqp, rq_len, st, ws)
             else
               (case credit_wait rqp i ws st of
                  None \<Rightarrow> None
                | Some (e, st, ws) \<Rightarrow>
                    if e \<noteq> 0 then Some (e, rqp, rq_len, st, ws)
                    else
                      let (rq_len, rqp) =
                            (case rq_len of
                               None \<Rightarrow> (None, rqp)
                             | Some len \<Rightarrow>
                                 (let (len, rqp) = smb2_rq_credit_check (iods st i) rqp len
                                  in (Some len, rqp)));
                          st = upd_iod i (\<lambda>d. d\<lparr>iod_credits_granted :=
                                 iod_credits_granted d + word_of_int (- sint (sr_creditcharge rqp))\<rparr>) st;
                          rqp = (if curr_credits st i < kCREDIT_MAX_AMT
                                 then rqp\<lparr>sr_creditsrequested := kCREDIT_REQUEST_AMT\<rparr> else rqp)
                      in Some (0, rqp, rq_len, st, ws))))"

section \<open>Receiving credits\<close>

text \<open>Waking a sleeper: the counter of the sleepers is lowered.\<close>

definition credit_wakeup :: "smbiod \<Rightarrow> smbiod" where
  "credit_wakeup d =
     (if iod_credits_wait d \<noteq> 0 then d\<lparr>iod_credits_wait := iod_credits_wait d - 1\<rparr> else d)"

definition smb2_rq_credit_increment :: "smb_state \<Rightarrow> smb_rq \<Rightarrow> errno \<times> smb_state" where
  "smb2_rq_credit_increment st rqp =
     (if sr_rspcreditsgranted rqp = 0 then (0, st)
      else
        case sr_session rqp of
          None \<Rightarrow> (ENOMEM, st)
        | Some sessionp \<Rightarrow>
       (case sr_iod rqp of
          None \<Rightarrow> (ENOMEM, st)
        | Some i \<Rightarrow>
            let cmd = sr_command rqp;
                in_reconnect = (sr_context rqp = main_context st sessionp);
                g = ucast (sr_rspcreditsgranted rqp) :: u32
            in if cmd = SMB2_NEGOTIATE \<or> cmd = SMB2_LOGOFF then (0, st)
               else if cmd = SMB2_SESSION_SETUP \<or> cmd = SMB2_TREE_CONNECT \<and> in_reconnect then
                 (0, upd_iod i (\<lambda>d. d\<lparr>iod_credits_ss_granted := iod_credits_ss_granted d + g\<rparr>) st)
               else if cmd \<noteq> SMB2_TREE_CONNECT \<and> cmd \<noteq> SMB2_OPLOCK_BREAK \<and> in_reconnect then (0, st)
               else
                 (0, upd_iod i (\<lambda>d.
                       let curr = iod_credits_granted d + g;
                           d = d\<lparr>iod_credits_granted := curr\<rparr>;
                           d = (if iod_credits_max d < curr \<and> sint curr < kCREDIT_MAX_AMT
                                then d\<lparr>iod_credits_max := curr\<rparr> else d)
                       in credit_wakeup d) st)))"

definition smb2_rq_credit_start :: "nat \<Rightarrow> u16 \<Rightarrow> smb_state \<Rightarrow> smb_state" where
  "smb2_rq_credit_start i credits =
     upd_iod i (\<lambda>d.
       let d = d\<lparr>iod_credits_granted := iod_credits_granted d +
                   (if credits = 0 then iod_credits_ss_granted d else ucast credits)\<rparr>;
           d = d\<lparr>iod_credits_max := iod_credits_granted d, iod_req_pending := 0,
                 iod_oldest_message_id := 0\<rparr>
       in credit_wakeup d)"

section \<open>Message ids\<close>

text \<open>The next id of the request's channel, into the request and its header; \<open>step\<close> ids are used up.\<close>

definition set_message_id :: "smb_state \<Rightarrow> smb_rq \<Rightarrow> u64 \<Rightarrow> (smb_rq \<times> smb_state) option" where
  "set_message_id st rqp step =
     (case (sr_iod rqp, sr_messageidp rqp) of
        (Some i, Some p) \<Rightarrow>
          let mid = iod_message_id (iods st i)
          in Some (rqp\<lparr>sr_messageid := mid, sr_rq := mb_store (sr_rq rqp) p (le64 mid)\<rparr>,
                   upd_iod i (\<lambda>d. d\<lparr>iod_message_id := mid + step\<rparr>) st)
      | _ \<Rightarrow> None)"

text \<open>The chain of a compound through \<^verbatim>\<open>sr_next_rqp\<close> is a list.\<close>

primrec set_message_ids :: "smb_state \<Rightarrow> smb_rq list \<Rightarrow> (smb_rq list \<times> smb_state) option" where
  "set_message_ids st [] = Some ([], st)"
| "set_message_ids st (rqp # rqps) =
     do {
       (rqp, st) \<leftarrow> set_message_id st rqp (ucast (sr_creditcharge rqp));
       (rqps, st) \<leftarrow> set_message_ids st rqps;
       Some (rqp # rqps, st)
     }"

definition smb2_rq_message_id_increment ::
  "smb_state \<Rightarrow> smb_rq \<Rightarrow> smb_rq list \<Rightarrow> (errno \<times> smb_rq \<times> smb_rq list \<times> smb_state) option" where
  "smb2_rq_message_id_increment st rqp next_rqps =
     (if sr_session rqp = None then Some (ENOMEM, rqp, next_rqps, st)
      else if sr_command rqp = SMB2_NEGOTIATE then
        do { (rqp, st) \<leftarrow> set_message_id st rqp 1; Some (0, rqp, next_rqps, st) }
      else if sr_flags rqp AND SMBR_COMPOUND_RQ \<noteq> 0 then
        do {
          (rqp, st) \<leftarrow> set_message_id st rqp (ucast (sr_creditcharge rqp));
          (next_rqps, st) \<leftarrow> set_message_ids st next_rqps;
          Some (0, rqp, next_rqps, st)
        }
      else
        do {
          (rqp, st) \<leftarrow> set_message_id st rqp (ucast (sr_creditcharge rqp));
          Some (0, rqp, next_rqps, st)
        })"

section \<open>The life of a request\<close>

text \<open>
  The object a request is for: a session or a share with its parent, \<open>None\<close> for a zombie, or an object
  of another level.
\<close>

datatype smb_connobj =
    SMBL_SESSION smb_session bool
  | SMBL_SHARE smb_share "smb_connobj option"
  | SMBL_OTHER

fun smb_rq_getenv :: "smb_connobj \<Rightarrow> errno + smb_session \<times> smb_share option" where
  "smb_rq_getenv (SMBL_SESSION sessionp parent) = (if \<not> parent then Inl EINVAL else Inr (sessionp, None))"
| "smb_rq_getenv (SMBL_SHARE share None) = Inl EINVAL"
| "smb_rq_getenv (SMBL_SHARE share (Some obj)) =
     (case smb_rq_getenv obj of
        Inl e \<Rightarrow> Inl e
      | Inr (sessionp, _) \<Rightarrow> Inr (sessionp, Some share))"
| "smb_rq_getenv SMBL_OTHER = Inl EINVAL"

abbreviation (input) SMBV_MNT_TIME_MACHINE :: u64 where "SMBV_MNT_TIME_MACHINE \<equiv> 0x20000"
abbreviation (input) SMBV_MNT_HIGH_FIDELITY :: u64 where "SMBV_MNT_HIGH_FIDELITY \<equiv> 0x100000"

definition smb_session_access :: "smb_session \<Rightarrow> vfs_context option \<Rightarrow> errno" where
  "smb_session_access sessionp context =
     (if session_flags sessionp AND (SMBV_GUEST_ACCESS OR SMBV_SFS_ACCESS) \<noteq> 0 \<and>
         session_misc_flags sessionp AND SMBV_MNT_TIME_MACHINE = 0 \<and>
         session_misc_flags sessionp AND SMBV_MNT_HIGH_FIDELITY = 0 then 0
      else
        (case context of
           None \<Rightarrow> 0
         | Some ctx \<Rightarrow>
             if ctx_suser ctx = 0 \<or> ctx_uid ctx = session_uid sessionp then 0 else EACCES))"

text \<open>Giving up a request: the credits of one that was never sent come back.\<close>

definition smb_rq_done :: "smb_state \<Rightarrow> smb_rq \<Rightarrow> smb_state" where
  "smb_rq_done st rqp =
     (if sr_extflags rqp AND SMB2_REQUEST \<noteq> 0 \<and> sr_extflags rqp AND SMB2_REQ_SENT = 0 \<and>
         sr_flags rqp AND SMBR_RECONNECTED = 0
      then snd (smb2_rq_credit_increment st (rqp\<lparr>sr_rspcreditsgranted := sr_creditcharge rqp\<rparr>))
      else st)"

text \<open>The request after \<^verbatim>\<open>bzero\<close>.\<close>

definition zero_rq :: smb_rq where
  "zero_rq =
     \<lparr>sr_session = None, sr_share = None, sr_extflags = 0, sr_command = 0, sr_creditcharge = 0,
      sr_creditsrequested = 0, sr_rqflags = 0, sr_nextcmd = 0, sr_messageid = 0, sr_messageidp = None,
      sr_rqtreeid = 0, sr_rqsessionid = 0, sr_bcount = None, sr_lcount = None, sr_creditchargep = None,
      sr_creditreqp = None, sr_flagsp = None, sr_nextcmdp = None, sr_rspcreditsgranted = 0,
      sr_rspflags = 0, sr_rspnextcmd = 0, sr_rsppid = 0, sr_rsptreeid = 0, sr_rspasyncid = 0,
      sr_rspsessionid = 0, sr_cmd = 0,
      sr_rq = \<lparr>mb_top = [], mb_cur = 0, mb_mleft = 0, mb_count = 0, mb_len = 0\<rparr>,
      sr_rp = \<lparr>md_top = [], md_cur = 0, md_pos = 0, md_len = 0, md_nextpkt = []\<rparr>,
      sr_rqsig = None, sr_ntstatus = 0, sr_flags = 0, sr_context = None, sr_iod = None,
      sr_rq_compressed = \<lparr>mb_top = [], mb_cur = 0, mb_mleft = 0, mb_count = 0, mb_len = 0\<rparr>,
     sr_seqno = 0, sr_rseqno = 0, sr_t2 = None\<rparr>"

text \<open>The tree id goes with the commands that work on a tree.\<close>

definition set_rq_ids :: "smb_rq \<Rightarrow> smb_rq" where
  "set_rq_ids rqp =
     (let cmd = sr_command rqp
      in if cmd = SMB2_NEGOTIATE then rqp\<lparr>sr_rqsessionid := 0\<rparr>
         else if cmd \<in> {SMB2_SESSION_SETUP, SMB2_LOGOFF, SMB2_ECHO, SMB2_CANCEL, SMB2_TREE_CONNECT} then rqp
         else rqp\<lparr>sr_rqtreeid := (case sr_share rqp of None \<Rightarrow> SMB2_TID_UNKNOWN | Some sh \<Rightarrow> ss_tree_id sh)\<rparr>)"

text \<open>
  A new request. On an error the request's channel pointer is cleared, the request is done with, and the
  result has no request.
\<close>

definition smb2_rq_init_internal ::
  "getm \<Rightarrow> mbuf option \<Rightarrow> mbuf option \<Rightarrow> wake list \<Rightarrow> smb_state \<Rightarrow> smb_connobj \<Rightarrow> byte \<Rightarrow> u32 option \<Rightarrow> u32 \<Rightarrow>
     vfs_context option \<Rightarrow> nat \<Rightarrow> ((errno + smb_rq \<times> u32 option) \<times> smb_state) option" where
  "smb2_rq_init_internal getm nm hdr ws st obj cmd rq_len rq_flags context iod =
     (let rqp = zero_rq\<lparr>sr_flags := rq_flags\<rparr>;
          bad = (\<lambda>e rqp st. Some (Inl e, smb_rq_done st (rqp\<lparr>sr_iod := None\<rparr>)))
      in case smb_rq_getenv obj of
           Inl e \<Rightarrow> bad e rqp st
         | Inr (sessionp, share) \<Rightarrow>
             let rqp = rqp\<lparr>sr_session := Some sessionp, sr_share := share\<rparr>;
                 e = smb_session_access sessionp context
             in if e \<noteq> 0 then bad e rqp st
                else
                  let no_block = (cmd AND SMB2_NO_BLOCK \<noteq> 0);
                      rqp = rqp\<lparr>sr_command := ucast (if no_block then cmd AND NOT SMB2_NO_BLOCK else cmd),
                                sr_creditcharge := 1, sr_creditsrequested := 1, sr_rqtreeid := 0,
                                sr_rqsessionid := session_session_id sessionp, sr_context := context,
                                sr_iod := Some iod,
                                sr_extflags := (if no_block then SMB2_REQ_NO_BLOCK else 0) OR SMB2_REQUEST\<rparr>
                  in case smb2_rq_credit_decrement ws st rqp rq_len of
                       None \<Rightarrow> None
                     | Some (e, rqp, rq_len, st, ws) \<Rightarrow>
                         if e \<noteq> 0 then bad e (rqp\<lparr>sr_creditcharge := 0\<rparr>) st
                         else
                           (case smb2_rq_new getm nm hdr (set_rq_ids rqp) of
                              None \<Rightarrow> None
                            | Some (e, rqp) \<Rightarrow>
                                if e \<noteq> 0 then bad e rqp st else Some (Inr (rqp, rq_len), st)))"

text \<open>\<open>malloced\<close> says whether the memory for the request was there.\<close>

definition smb2_rq_alloc ::
  "bool \<Rightarrow> getm \<Rightarrow> mbuf option \<Rightarrow> mbuf option \<Rightarrow> wake list \<Rightarrow> smb_state \<Rightarrow> smb_connobj \<Rightarrow> byte \<Rightarrow> u32 option \<Rightarrow>
     vfs_context option \<Rightarrow> nat \<Rightarrow> ((errno + smb_rq \<times> u32 option) \<times> smb_state) option" where
  "smb2_rq_alloc malloced getm nm hdr ws st obj cmd rq_len context iod =
     (if \<not> malloced then Some (Inl ENOMEM, st)
      else smb2_rq_init_internal getm nm hdr ws st obj cmd rq_len SMBR_ALLOCED context iod)"

section \<open>The header of a reply\<close>

text \<open>
  Taking a field out of the reply: an error ends the parsing with the request, the chain and the state
  as they are.
\<close>

definition get_or ::
  "(errno + 'a) \<times> mdchain \<Rightarrow> smb_rq \<Rightarrow> smb_state \<Rightarrow>
     ('a \<Rightarrow> mdchain \<Rightarrow> errno \<times> smb_rq \<times> mdchain \<times> smb_state) \<Rightarrow> errno \<times> smb_rq \<times> mdchain \<times> smb_state" where
  "get_or r rqp st k = (case r of (Inl e, mdp) \<Rightarrow> (e, rqp, mdp, st) | (Inr x, mdp) \<Rightarrow> k x mdp)"

text \<open>Whether the reply is encrypted, so that its signature is not looked at.\<close>

definition encryption_on :: "smb_session \<Rightarrow> smb_rq \<Rightarrow> bool" where
  "encryption_on sessionp rqp =
     (if session_flags sessionp AND (SMBV_SMB30 OR SMBV_SMB302 OR SMBV_SMB311) \<noteq> 0 then
        if sv_sessflags sessionp AND SMB2_SESSION_FLAG_ENCRYPT_DATA \<noteq> 0 then
          sr_command rqp \<noteq> SMB2_NEGOTIATE
        else
          (case sr_share rqp of
             None \<Rightarrow> False
           | Some sh \<Rightarrow>
               sr_command rqp \<noteq> SMB2_NEGOTIATE \<and> sr_command rqp \<noteq> SMB2_SESSION_SETUP \<and>
               sr_command rqp \<noteq> SMB2_TREE_CONNECT \<and> ss_share_flags sh AND SMB2_SHAREFLAG_ENCRYPT_DATA \<noteq> 0)
      else False)"

text \<open>
  What an expired or deleted session leads to: the error to report, and the state after a forced
  reconnect where there is one; \<open>reconnect\<close> is what \<^verbatim>\<open>smb_session_force_reconnect\<close> does to the state.
\<close>

definition session_expired ::
  "(nat \<Rightarrow> smb_state \<Rightarrow> smb_state) \<Rightarrow> smb_state \<Rightarrow> smb_session \<Rightarrow> smb_rq \<Rightarrow> errno \<Rightarrow> errno \<times> smb_state" where
  "session_expired reconnect st sessionp rqp rperror =
     (case sr_iod rqp of
        None \<Rightarrow> (rperror, st)
      | Some i \<Rightarrow>
          if iod_flags (iods st i) AND SMBIOD_ALTERNATE_CHANNEL \<noteq> 0 then
            if sr_context rqp = iod_context (iods st i) then (rperror, st) else (rperror, reconnect i st)
          else
            if sr_context rqp = main_context st sessionp then (ENETRESET, st)
            else (rperror, reconnect i st))"

text \<open>From the signature on: verification, the status and what follows from it.\<close>

definition parse_header_status ::
  "(smb_rq \<Rightarrow> mdchain \<Rightarrow> byte list \<Rightarrow> errno) \<Rightarrow> (nat \<Rightarrow> smb_state \<Rightarrow> smb_state) \<Rightarrow> smb_state \<Rightarrow> smb_session \<Rightarrow>
     smb_rq \<Rightarrow> mdchain \<Rightarrow> byte list \<Rightarrow> mdchain \<Rightarrow> errno \<times> smb_rq \<times> mdchain \<times> smb_state" where
  "parse_header_status verify reconnect st sessionp rqp md_sign signature mdp =
     (let error = (if \<not> encryption_on sessionp rqp \<and>
                      (session_hflags2 sessionp AND SMB_FLAGS2_SECURITY_SIGNATURE \<noteq> 0 \<or>
                       sr_flags rqp AND SMBR_SIGNED \<noteq> 0)
                   then verify rqp md_sign signature else 0)
      in if error \<noteq> 0 then (error, rqp, mdp, st)
         else
           let rperror = smb_ntstatus_to_errno (sr_ntstatus rqp);
               (rperror, st) =
                 (if sr_ntstatus rqp = STATUS_NETWORK_SESSION_EXPIRED \<or>
                     sr_ntstatus rqp = STATUS_USER_SESSION_DELETED
                  then session_expired reconnect st sessionp rqp rperror else (rperror, st));
               st = (case sr_share rqp of
                       None \<Rightarrow> st
                     | Some sh \<Rightarrow>
                         if rperror = ENETRESET \<and> ss_dead sh then st\<lparr>dead := ss_id sh # dead st\<rparr> else st);
               rqp = (if rperror \<noteq> 0 \<and> sr_ntstatus rqp = STATUS_BUFFER_TOO_SMALL
                      then rqp\<lparr>sr_flags := sr_flags rqp OR SMBR_MOREDATA\<rparr>
                      else rqp\<lparr>sr_flags := sr_flags rqp AND NOT SMBR_MOREDATA\<rparr>)
           in (rperror, rqp, mdp, st))"

text \<open>
  The fields in their order. \<open>md_sign\<close> is the chain before anything is taken out of it, and \<open>sessionp\<close> the
  session the request points to, which it always has when its reply is parsed.
\<close>

definition parse_header_fields ::
  "(smb_rq \<Rightarrow> mdchain \<Rightarrow> byte list \<Rightarrow> errno) \<Rightarrow> (nat \<Rightarrow> smb_state \<Rightarrow> smb_state) \<Rightarrow> smb_state \<Rightarrow> smb_session \<Rightarrow>
     smb_rq \<Rightarrow> mdchain \<Rightarrow> bool \<Rightarrow> errno \<times> smb_rq \<times> mdchain \<times> smb_state" where
  "parse_header_fields verify reconnect st sessionp rqp md_sign parse_for_credits =
     get_or (md_get_uint32le md_sign) rqp st (\<lambda>protocol_id mdp.
     get_or (md_get_uint16le mdp) rqp st (\<lambda>length mdp.
     if length \<noteq> 64 then (EBADRPC, rqp, mdp, st) else
     get_or (md_get_uint16le mdp) rqp st (\<lambda>credit_charge mdp.
     get_or (md_get_uint32le mdp) rqp st (\<lambda>ntstatus mdp.
     let rqp = rqp\<lparr>sr_ntstatus := ntstatus\<rparr> in
     get_or (md_get_uint16le mdp) rqp st (\<lambda>command mdp.
     get_or (md_get_uint16le mdp) rqp st (\<lambda>granted mdp.
     let rqp = rqp\<lparr>sr_rspcreditsgranted := granted\<rparr>;
         st = (if granted \<noteq> 0 \<and> sr_extflags rqp AND SMB2_HDR_PREPARSED = 0
               then snd (smb2_rq_credit_increment st rqp) else st)
     in
     if parse_for_credits then (0, rqp, mdp, st) else
     get_or (md_get_uint32le mdp) rqp st (\<lambda>rspflags mdp.
     let rqp = rqp\<lparr>sr_rspflags := rspflags\<rparr> in
     get_or (md_get_uint32le mdp) rqp st (\<lambda>nextcmd mdp.
     let rqp = rqp\<lparr>sr_rspnextcmd := nextcmd\<rparr> in
     get_or (md_get_uint64le mdp) rqp st (\<lambda>message_id mdp.
     let ids = (\<lambda>rqp mdp.
           get_or (md_get_uint64le mdp) rqp st (\<lambda>sessionid mdp.
           let rqp = rqp\<lparr>sr_rspsessionid := sessionid\<rparr> in
           get_or (md_get_mem mdp 16) rqp st (\<lambda>signature mdp.
           parse_header_status verify reconnect st sessionp rqp md_sign signature mdp)))
     in
     if rspflags AND SMB2_FLAGS_ASYNC_COMMAND = 0 then
       get_or (md_get_uint32le mdp) rqp st (\<lambda>pid mdp.
       let rqp = rqp\<lparr>sr_rsppid := pid\<rparr> in
       get_or (md_get_uint32le mdp) rqp st (\<lambda>treeid mdp.
       ids (rqp\<lparr>sr_rsptreeid := treeid\<rparr>) mdp))
     else
       get_or (md_get_uint64le mdp) rqp st (\<lambda>async_id mdp.
       if async_id \<noteq> sr_rspasyncid rqp then (EBADRPC, rqp, mdp, st) else ids rqp mdp))))))))))"

text \<open>
  The chain is the one of the request itself when its reply has come in and the parsing is not for the
  credits only; the request's chain is then the one that is advanced.
\<close>

definition smb2_rq_parse_header ::
  "(smb_rq \<Rightarrow> mdchain \<Rightarrow> byte list \<Rightarrow> errno) \<Rightarrow> (nat \<Rightarrow> smb_state \<Rightarrow> smb_state) \<Rightarrow> smb_state \<Rightarrow> smb_session \<Rightarrow>
     smb_rq \<Rightarrow> mdchain \<Rightarrow> bool \<Rightarrow> errno \<times> smb_rq \<times> mdchain \<times> smb_state" where
  "smb2_rq_parse_header verify reconnect st sessionp rqp mdp parse_for_credits =
     (if sr_extflags rqp AND SMB2_RESPONSE \<noteq> 0 \<and> \<not> parse_for_credits then
        let (e, rqp, mdp, st) = parse_header_fields verify reconnect st sessionp rqp (sr_rp rqp) False
        in (e, rqp\<lparr>sr_rp := mdp\<rparr>, mdp, st)
      else parse_header_fields verify reconnect st sessionp rqp mdp parse_for_credits)"

text \<open>Taking the credits of a reply early, on a copy of its chain.\<close>

definition smb2_rq_credit_preprocess_reply ::
  "(smb_rq \<Rightarrow> mdchain \<Rightarrow> byte list \<Rightarrow> errno) \<Rightarrow> (nat \<Rightarrow> smb_state \<Rightarrow> smb_state) \<Rightarrow> smb_state \<Rightarrow> smb_session \<Rightarrow>
     smb_rq \<Rightarrow> smb_rq \<times> smb_state" where
  "smb2_rq_credit_preprocess_reply verify reconnect st sessionp rqp =
     (if sr_extflags rqp AND SMB2_RESPONSE = 0 then (rqp, st)
      else if sr_flags rqp AND SMBR_COMPOUND_RQ \<noteq> 0 then (rqp, st)
      else
        let (error, rqp, _, st) =
              smb2_rq_parse_header verify reconnect st sessionp rqp (md_shadow_copy (sr_rp rqp) (sr_rp zero_rq)) True
        in if error \<noteq> 0 then (rqp, st)
           else (rqp\<lparr>sr_extflags := sr_extflags rqp OR SMB2_HDR_PREPARSED\<rparr>, st))"

section \<open>The credit check\<close>

lemma credit_charge16:
  fixes len :: u32
  assumes "64 * 1024 < len" "len \<le> 0x7FFF0000"
  shows "uint (ucast ((len - 1) div (64 * 1024) + 1) :: u16) = (uint len - 1) div 65536 + 1"
    and "sint (ucast ((len - 1) div (64 * 1024) + 1) :: u16) = (uint len - 1) div 65536 + 1"
    and "0 < (uint len - 1) div 65536" "(uint len - 1) div 65536 + 1 < 32768"
proof -
  have L: "0x10000 < uint len" "uint len \<le> 0x7FFF0000"
    using assms by (simp_all add: word_less_def word_le_def)
  then show lt: "(uint len - 1) div 65536 + 1 < 32768" and "0 < (uint len - 1) div 65536" by linarith+
  have "uint (len - 1) = uint len - 1" using L by (simp add: uint_sub_if')
  then have "uint ((len - 1) div (64 * 1024)) = (uint len - 1) div 65536" by (simp add: uint_div)
  then have u: "uint ((len - 1) div (64 * 1024) + 1) = (uint len - 1) div 65536 + 1"
    using lt L by (simp add: uint_word_ariths)
  then show e: "uint (ucast ((len - 1) div (64 * 1024) + 1) :: u16) = (uint len - 1) div 65536 + 1"
    using lt by (subst uint_ucast_small) simp_all
  then show "sint (ucast ((len - 1) div (64 * 1024) + 1) :: u16) = (uint len - 1) div 65536 + 1"
    using lt by (subst sint_small) simp_all
qed

text \<open>
  The length is reduced, never to nothing, and the charge is the number of 64 KB units of what remains;
  it leaves the reserve of ten credits where more than one is charged.
\<close>

lemma credit_check_spec:
  assumes len: "0 < len" "len \<le> 0x7FFF0000" and one: "sr_creditcharge rqp = 1"
    and r: "smb2_rq_credit_check iod rqp len = (len', rqp')"
  shows "0 < len'" "len' \<le> len"
    and "uint (sr_creditcharge rqp') = (uint len' - 1) div 65536 + 1"
    and "sint (sr_creditcharge rqp') = uint (sr_creditcharge rqp')"
    and "uint (sr_creditcharge rqp') = 1 \<or> uint (sr_creditcharge rqp') + 10 \<le> sint (iod_credits_granted iod)"
    and "rqp' = rqp\<lparr>sr_creditcharge := sr_creditcharge rqp'\<rparr>"
proof -
  define curr where "curr = sint (iod_credits_granted iod)"
  define c where "c = (uint len - 1) div 65536 + 1"
  consider (small) "len \<le> 64 * 1024" | (low) "64 * 1024 < len" "curr \<le> 10"
    | (short) "64 * 1024 < len" "10 < curr" "c + 10 > curr" | (enough) "64 * 1024 < len" "10 < curr" "c + 10 \<le> curr"
    by fastforce
  then have "0 < len' \<and> len' \<le> len \<and> uint (sr_creditcharge rqp') = (uint len' - 1) div 65536 + 1 \<and>
      sint (sr_creditcharge rqp') = uint (sr_creditcharge rqp') \<and>
      (uint (sr_creditcharge rqp') = 1 \<or> uint (sr_creditcharge rqp') + 10 \<le> curr) \<and>
      rqp' = rqp\<lparr>sr_creditcharge := sr_creditcharge rqp'\<rparr>"
  proof cases
    case small
    have "(uint len - 1) div 65536 = 0" using small len by (simp add: word_less_def word_le_def)
    then show ?thesis using small r len one by (simp add: smb2_rq_credit_check_def)
  next
    case low
    then show ?thesis using r one
      by (auto simp: smb2_rq_credit_check_def curr_def not_le Let_def word_less_def word_le_def)
  next
    case short
    note cc = credit_charge16 [OF short(1) len(2)]
    have nle: "(len \<le> 64 * 1024) = False" using short(1) by (simp add: not_le)
    have "smb2_rq_credit_check iod rqp len =
        (word_of_int ((curr - 10) * (64 * 1024)), rqp\<lparr>sr_creditcharge := word_of_int (curr - 10)\<rparr>)"
      unfolding smb2_rq_credit_check_def Let_def nle curr_def [symmetric] cc(2) c_def [symmetric]
      using short by simp
    with r have res: "len' = word_of_int ((curr - 10) * 65536)"
      "rqp' = rqp\<lparr>sr_creditcharge := word_of_int (curr - 10)\<rparr>" by simp_all
    have bnd: "0 < curr - 10" "curr - 10 < c" "c < 32768" using short cc by (simp_all add: c_def)
    have ch: "uint (sr_creditcharge rqp') = curr - 10" "sint (sr_creditcharge rqp') = curr - 10"
      using uint_of_int_small [of "curr - 10", where 'a = 16] sint_of_int_small [of "curr - 10", where 'a = 16] bnd
      by (simp_all add: res(2))
    have l': "uint len' = (curr - 10) * 65536"
      unfolding res by (rule uint_of_int_small) (use bnd in simp_all)
    have "(curr - 10) * 65536 \<le> uint len" using bnd by (simp add: c_def)
    moreover have "rqp' = rqp\<lparr>sr_creditcharge := sr_creditcharge rqp'\<rparr>" using res(2) by simp
    ultimately show ?thesis using bnd l' ch by (simp add: word_less_def word_le_def)
  next
    case enough
    note cc = credit_charge16 [OF enough(1) len(2)]
    have nle: "(len \<le> 64 * 1024) = False" using enough(1) by (simp add: not_le)
    have "smb2_rq_credit_check iod rqp len =
        (len, rqp\<lparr>sr_creditcharge := ucast ((len - 1) div (64 * 1024) + 1)\<rparr>)"
      unfolding smb2_rq_credit_check_def Let_def nle curr_def [symmetric] cc(2) c_def [symmetric]
      using enough by simp
    with r have "len' = len" "rqp' = rqp\<lparr>sr_creditcharge := ucast ((len - 1) div (64 * 1024) + 1)\<rparr>"
      by auto
    then show ?thesis using enough len cc by (simp add: c_def)
  qed
  then show "0 < len'" "len' \<le> len" "uint (sr_creditcharge rqp') = (uint len' - 1) div 65536 + 1"
    "sint (sr_creditcharge rqp') = uint (sr_creditcharge rqp')"
    "uint (sr_creditcharge rqp') = 1 \<or> uint (sr_creditcharge rqp') + 10 \<le> sint (iod_credits_granted iod)"
    "rqp' = rqp\<lparr>sr_creditcharge := sr_creditcharge rqp'\<rparr>"
    unfolding curr_def by blast+
qed

section \<open>Waiting for credits\<close>

lemma credit_sleep_error: "credit_sleep rqp i n ret ws st = Some (Inl e, st', ws') \<Longrightarrow> e = ENXIO"
  by (induction rqp i n ret ws st rule: credit_sleep.induct) (auto simp: Let_def split: if_splits)

lemma credit_wait_result:
  "credit_wait rqp i ws st = Some (e, st', ws') \<Longrightarrow>
     (if e = 0 then send_window_open (iods st' i) else e = ENOBUFS \<or> e = ENXIO)"
proof (induction rqp i ws st rule: credit_wait.induct)
  case (1 rqp i ws st)
  show ?case
    using 1(3) [unfolded credit_wait.simps [of rqp i ws st]] 1(1,2)
    by (auto dest: credit_sleep_error split: if_splits option.splits sum.splits prod.splits list.splits)
qed

text \<open>A request that must not block never waits, whatever the environment does.\<close>

lemma credit_wait_no_block:
  assumes "sr_command rqp = SMB2_ECHO \<or> sr_extflags rqp AND SMB2_REQ_NO_BLOCK \<noteq> 0"
  shows "credit_wait rqp i ws st = Some (if send_window_open (iods st i) then 0 else ENOBUFS, st, ws)"
  using assms by (simp add: credit_wait.simps [of rqp i ws st])

lemma upd_iod_simps [simp]:
  "iods (upd_iod i f st) = (iods st)(i := f (iods st i))"
  "going_away (upd_iod i f st) = going_away st" "dead (upd_iod i f st) = dead st"
  by (simp_all add: upd_iod_def)

lemma upd_iod_upd: "upd_iod i f (upd_iod i g st) = upd_iod i (\<lambda>d. f (g d)) st"
  by (simp add: upd_iod_def)

lemma upd_iod_id: "(\<And>d. f d = d) \<Longrightarrow> upd_iod i f st = st"
  by (simp add: upd_iod_def)

text \<open>Sleeping without a wake-up and without credits leaves everything as it was.\<close>

lemma credit_sleep_timeouts:
  assumes "iod_credits_wait (iods st i) \<noteq> -1" "curr_credits st i \<le> 0" "\<not> share_going_away st rqp"
  shows "credit_sleep rqp i n ret (replicate n (EWOULDBLOCK, id) @ ws) st =
           Some (Inr (if n = 0 then ret else EWOULDBLOCK), st, ws)"
proof (induction n arbitrary: ret)
  case (Suc n)
  define st1 where "st1 = upd_iod i (\<lambda>d. d\<lparr>iod_credits_wait := iod_credits_wait d + 1\<rparr>) st"
  have "iod_credits_wait (iods st1 i) \<noteq> 0"
    using assms(1) by (simp add: st1_def eq_neg_iff_add_eq_0)
  moreover have "upd_iod i (\<lambda>d. d\<lparr>iod_credits_wait := iod_credits_wait d - 1\<rparr>) st1 = st"
    unfolding st1_def upd_iod_upd by (rule upd_iod_id) simp
  ultimately show ?case
    using Suc [of EWOULDBLOCK] assms(2,3) by (simp add: Let_def st1_def [symmetric])
qed simp

section \<open>The requests that are credited\<close>

text \<open>
  The commands of login and reconnect bypass crediting. All other requests take their credits through
  the send window; these are the credited ones.
\<close>

definition credited :: "smb_state \<Rightarrow> smb_rq \<Rightarrow> bool" where
  "credited st rqp \<longleftrightarrow>
     sr_command rqp \<notin> {SMB2_NEGOTIATE, SMB2_SESSION_SETUP, SMB2_TREE_CONNECT, SMB2_LOGOFF} \<and>
     (\<exists>sessionp. sr_session rqp = Some sessionp \<and>
        (sr_command rqp = SMB2_OPLOCK_BREAK \<or>
         session_flags sessionp AND SMBV_SMB2 \<noteq> 0 \<and> sr_context rqp \<noteq> main_context st sessionp))"

definition len_ok :: "u32 option \<Rightarrow> bool" where
  "len_ok rq_len = (case rq_len of None \<Rightarrow> True | Some len \<Rightarrow> 0 < len \<and> len \<le> 0x7FFF0000)"

text \<open>The length and the request after the credit check, if there is a length.\<close>

definition check_len :: "smbiod \<Rightarrow> smb_rq \<Rightarrow> u32 option \<Rightarrow> u32 option \<times> smb_rq" where
  "check_len iod rqp rq_len =
     (case rq_len of
        None \<Rightarrow> (None, rqp)
      | Some len \<Rightarrow> (let (len, rqp) = smb2_rq_credit_check iod rqp len in (Some len, rqp)))"

definition charge_ok :: "u32 option \<Rightarrow> u32 option \<Rightarrow> u16 \<Rightarrow> bool" where
  "charge_ok rq_len rq_len' charge =
     (case rq_len of
        None \<Rightarrow> rq_len' = None \<and> charge = 1
      | Some len \<Rightarrow> \<exists>len'. rq_len' = Some len' \<and> 0 < len' \<and> len' \<le> len \<and>
          uint charge = (uint len' - 1) div 65536 + 1)"

lemma check_len_spec:
  assumes "len_ok rq_len" "sr_creditcharge rqp = 1" "check_len iod rqp rq_len = (rq_len', rqp')"
  shows "charge_ok rq_len rq_len' (sr_creditcharge rqp')"
    and "sint (sr_creditcharge rqp') = uint (sr_creditcharge rqp')"
    and "1 \<le> sint (iod_credits_granted iod) \<Longrightarrow> uint (sr_creditcharge rqp') \<le> sint (iod_credits_granted iod)"
    and "rqp' = rqp\<lparr>sr_creditcharge := sr_creditcharge rqp'\<rparr>"
proof -
  have *: "charge_ok rq_len rq_len' (sr_creditcharge rqp') \<and>
      sint (sr_creditcharge rqp') = uint (sr_creditcharge rqp') \<and>
      (1 \<le> sint (iod_credits_granted iod) \<longrightarrow> uint (sr_creditcharge rqp') \<le> sint (iod_credits_granted iod)) \<and>
      rqp' = rqp\<lparr>sr_creditcharge := sr_creditcharge rqp'\<rparr>"
  proof (cases rq_len)
    case None
    then show ?thesis using assms by (auto simp: check_len_def charge_ok_def)
  next
    case (Some len)
    obtain len1 rqp1 where r: "smb2_rq_credit_check iod rqp len = (len1, rqp1)" by fastforce
    note c = credit_check_spec [OF _ _ assms(2) r]
    have "0 < len" "len \<le> 0x7FFF0000" using Some assms(1) by (simp_all add: len_ok_def)
    note c = c [OF this]
    have "rq_len' = Some len1" "rqp' = rqp1" using r assms(3) Some by (simp_all add: check_len_def)
    then show ?thesis using c Some by (auto simp: charge_ok_def)
  qed
  then show "charge_ok rq_len rq_len' (sr_creditcharge rqp')"
    "sint (sr_creditcharge rqp') = uint (sr_creditcharge rqp')"
    "1 \<le> sint (iod_credits_granted iod) \<Longrightarrow> uint (sr_creditcharge rqp') \<le> sint (iod_credits_granted iod)"
    "rqp' = rqp\<lparr>sr_creditcharge := sr_creditcharge rqp'\<rparr>" by blast+
qed

text \<open>A credited request takes exactly its charge, at a moment when the window is open.\<close>

lemma credit_decrement_credited:
  assumes "credited st rqp" "sr_iod rqp = Some i"
  shows "smb2_rq_credit_decrement ws st rqp rq_len =
     (case credit_wait rqp i ws st of
        None \<Rightarrow> None
      | Some (e, st, ws) \<Rightarrow>
          if e \<noteq> 0 then Some (e, rqp, rq_len, st, ws)
          else
            let (rq_len, rqp) = check_len (iods st i) rqp rq_len;
                st = upd_iod i (\<lambda>d. d\<lparr>iod_credits_granted :=
                       iod_credits_granted d + word_of_int (- sint (sr_creditcharge rqp))\<rparr>) st;
                rqp = (if curr_credits st i < kCREDIT_MAX_AMT
                       then rqp\<lparr>sr_creditsrequested := kCREDIT_REQUEST_AMT\<rparr> else rqp)
            in Some (0, rqp, rq_len, st, ws))"
proof -
  from assms(1) obtain sessionp where s: "sr_session rqp = Some sessionp"
    "sr_command rqp = SMB2_OPLOCK_BREAK \<or>
     session_flags sessionp AND SMBV_SMB2 \<noteq> 0 \<and> sr_context rqp \<noteq> main_context st sessionp"
    by (auto simp: credited_def)
  then have nc: "(sr_command rqp \<noteq> SMB2_OPLOCK_BREAK \<and> session_flags sessionp AND SMBV_SMB2 = 0) = False"
    "(sr_command rqp \<noteq> SMB2_OPLOCK_BREAK \<and> sr_context rqp = main_context st sessionp) = False"
    by blast+
  have nb: "(sr_command rqp = SMB2_NEGOTIATE) = False" "(sr_command rqp = SMB2_SESSION_SETUP) = False"
    "(sr_command rqp = SMB2_TREE_CONNECT) = False" "(sr_command rqp = SMB2_LOGOFF) = False"
    using assms(1) by (auto simp: credited_def)
  show ?thesis
    by (simp only: smb2_rq_credit_decrement_def check_len_def s(1) assms(2) option.case Let_def nc nb
        if_False simp_thms)
qed

lemma credit_decrement_takes:
  assumes cr: "credited st rqp" "sr_iod rqp = Some i" and ok: "len_ok rq_len" "sr_creditcharge rqp = 1"
    and d: "smb2_rq_credit_decrement ws st rqp rq_len = Some (0, rqp', rq_len', st', ws')"
  shows "\<exists>st1. credit_wait rqp i ws st = Some (0, st1, ws') \<and> send_window_open (iods st1 i) \<and>
           curr_credits st' i = curr_credits st1 i - uint (sr_creditcharge rqp') \<and>
           0 \<le> curr_credits st' i \<and> (\<forall>j. j \<noteq> i \<longrightarrow> iods st' j = iods st1 j) \<and>
           charge_ok rq_len rq_len' (sr_creditcharge rqp')"
proof -
  from d [unfolded credit_decrement_credited [OF cr]] obtain st1 where
    w: "credit_wait rqp i ws st = Some (0, st1, ws')"
    by (auto simp: Let_def split: option.splits if_splits prod.splits)
  obtain l rq where c: "check_len (iods st1 i) rqp rq_len = (l, rq)" by fastforce
  define st2 where "st2 = upd_iod i (\<lambda>d. d\<lparr>iod_credits_granted :=
      iod_credits_granted d + word_of_int (- sint (sr_creditcharge rq))\<rparr>) st1"
  have res: "sr_creditcharge rqp' = sr_creditcharge rq" "rq_len' = l" "st' = st2"
    using d [unfolded credit_decrement_credited [OF cr]] w c
    by (auto simp: Let_def st2_def split: if_splits)
  have open': "send_window_open (iods st1 i)" using credit_wait_result [OF w] by simp
  then have one: "1 \<le> sint (iod_credits_granted (iods st1 i))" by (simp add: send_window_open_def Let_def)
  note ch = check_len_spec [OF ok c]
  have small: "uint (sr_creditcharge rq) < 65536" using uint_lt2p [of "sr_creditcharge rq"] by simp
  have neg: "sint (word_of_int (- uint (sr_creditcharge rq)) :: u32) = - uint (sr_creditcharge rq)"
    by (rule sint_of_int_small; simp; use small uint_ge_0 [of "sr_creditcharge rq"] in linarith)
  have "sint (iod_credits_granted (iods st1 i)) < 2147483648"
    using sint_lt [of "iod_credits_granted (iods st1 i)"] by simp
  then have up: "sint (iod_credits_granted (iods st1 i)) - uint (sr_creditcharge rq) < 2147483648"
    using uint_ge_0 [of "sr_creditcharge rq"] by linarith
  have "sint (iod_credits_granted (iods st1 i) + word_of_int (- uint (sr_creditcharge rq))) =
      sint (iod_credits_granted (iods st1 i)) - uint (sr_creditcharge rq)"
    using sint_add_small [of "iod_credits_granted (iods st1 i)" "word_of_int (- uint (sr_creditcharge rq))"]
      neg up one ch(3) by simp
  then have "curr_credits st' i = curr_credits st1 i - uint (sr_creditcharge rqp')"
    using ch(2) by (simp add: curr_credits_def res st2_def)
  then show ?thesis
    using w open' ch(1,3) one res by (auto simp: curr_credits_def st2_def)
qed

lemma credit_increment_credited:
  assumes "credited st rqp" "sr_iod rqp = Some i"
  shows "\<exists>st'. smb2_rq_credit_increment st rqp = (0, st') \<and> (\<forall>j. j \<noteq> i \<longrightarrow> iods st' j = iods st j) \<and>
           iod_credits_granted (iods st' i) =
             iod_credits_granted (iods st i) + ucast (sr_rspcreditsgranted rqp)"
  using assms
  by (auto simp: credited_def smb2_rq_credit_increment_def Let_def credit_wakeup_def)

lemma curr_credits_add:
  assumes "0 \<le> curr_credits st i" "curr_credits st i + uint (g :: u16) < 2 ^ 31"
    and "iod_credits_granted (iods st' i) = iod_credits_granted (iods st i) + ucast g"
  shows "curr_credits st' i = curr_credits st i + uint g"
proof -
  have "uint (ucast g :: u32) = uint g" by (rule uint_ucast_small) (use uint_lt2p [of g] in simp)
  moreover have "sint (ucast g :: u32) = uint (ucast g :: u32)"
    by (rule sint_small) (use uint_lt2p [of g] calculation in simp)
  ultimately show ?thesis
    using assms sint_add_small [of "iod_credits_granted (iods st i)" "ucast g"] uint_ge_0 [of g]
    by (simp add: curr_credits_def)
qed

section \<open>The credit ledger of a channel\<close>

text \<open>
  Any interleaving of the crediting operations on channel \<open>i\<close>, at the granularity of the credit lock: a
  credited request takes its credits, a reply brings credits, a request that was not sent gives its
  credits back. \<open>g\<close> is what the server has granted and \<open>c\<close> what has been charged, net of what was given
  back. A call that has slept takes its credits in the state it wakes up in, as a call without a sleep.
\<close>

inductive ledger :: "nat \<Rightarrow> smb_state \<Rightarrow> int \<Rightarrow> int \<Rightarrow> bool" for i where
  start: "0 \<le> curr_credits st i \<Longrightarrow> ledger i st (curr_credits st i) 0"
| take: "ledger i st g c \<Longrightarrow> credited st rqp \<Longrightarrow> sr_iod rqp = Some i \<Longrightarrow> sr_creditcharge rqp = 1 \<Longrightarrow>
    len_ok rq_len \<Longrightarrow> smb2_rq_credit_decrement [] st rqp rq_len = Some (0, rqp', rq_len', st', []) \<Longrightarrow>
    ledger i st' g (c + uint (sr_creditcharge rqp'))"
| refuse: "ledger i st g c \<Longrightarrow> credited st rqp \<Longrightarrow> sr_iod rqp = Some i \<Longrightarrow>
    smb2_rq_credit_decrement [] st rqp rq_len = Some (e, rqp', rq_len', st', []) \<Longrightarrow> e \<noteq> 0 \<Longrightarrow>
    ledger i st' g c"
| grant: "ledger i st g c \<Longrightarrow> credited st rqp \<Longrightarrow> sr_iod rqp = Some i \<Longrightarrow>
    g + uint (sr_rspcreditsgranted rqp) < 2 ^ 31 \<Longrightarrow> smb2_rq_credit_increment st rqp = (e, st') \<Longrightarrow>
    ledger i st' (g + uint (sr_rspcreditsgranted rqp)) c"
| give_back: "ledger i st g c \<Longrightarrow> credited st rqp \<Longrightarrow> sr_iod rqp = Some i \<Longrightarrow>
    sr_extflags rqp AND SMB2_REQUEST \<noteq> 0 \<Longrightarrow> sr_extflags rqp AND SMB2_REQ_SENT = 0 \<Longrightarrow>
    sr_flags rqp AND SMBR_RECONNECTED = 0 \<Longrightarrow> uint (sr_creditcharge rqp) \<le> c \<Longrightarrow>
    ledger i (smb_rq_done st rqp) g (c - uint (sr_creditcharge rqp))"

lemma credit_sleep_nil: "0 < n \<Longrightarrow> credit_sleep rqp i n ret [] st = None"
  by (cases n) simp_all

lemma credit_wait_no_sleep:
  "credit_wait rqp i [] st = Some (e, st', ws') \<Longrightarrow> st' = st"
  using credit_sleep_nil [of 60 rqp i 0 st]
  by (auto simp: credit_wait.simps [of rqp i "[]" st] split: if_splits)

lemma ledger_invariant:
  "ledger i st g c \<Longrightarrow> curr_credits st i = g - c \<and> 0 \<le> g - c \<and> 0 \<le> c \<and> g < 2 ^ 31"
proof (induction rule: ledger.induct)
  case (start st)
  then show ?case using sint_lt [of "iod_credits_granted (iods st i)"] by (simp add: curr_credits_def)
next
  case (take st g c rqp rq_len rqp' rq_len' st')
  from credit_decrement_takes [OF take(2,3,5,4,6)] obtain st1 where
    "credit_wait rqp i [] st = Some (0, st1, [])"
    "curr_credits st' i = curr_credits st1 i - uint (sr_creditcharge rqp')" "0 \<le> curr_credits st' i"
    by auto
  then show ?case using take.IH credit_wait_no_sleep [of rqp i st] by auto
next
  case (refuse st g c rqp rq_len e rqp' rq_len' st')
  then show ?case
    by (auto simp: credit_decrement_credited Let_def dest!: credit_wait_no_sleep
        split: option.splits if_splits prod.splits)
next
  case (grant st g c rqp e st')
  from credit_increment_credited [OF grant(2,3)] grant(5) have
    "iod_credits_granted (iods st' i) = iod_credits_granted (iods st i) + ucast (sr_rspcreditsgranted rqp)"
    by auto
  from curr_credits_add [OF _ _ this] grant.IH grant(4) uint_ge_0 [of "sr_rspcreditsgranted rqp"]
  show ?case by linarith
next
  case (give_back st g c rqp)
  let ?rqp = "rqp\<lparr>sr_rspcreditsgranted := sr_creditcharge rqp\<rparr>"
  have "credited st ?rqp" "sr_iod ?rqp = Some i" using give_back by (simp_all add: credited_def)
  from credit_increment_credited [OF this] give_back have
    "iod_credits_granted (iods (smb_rq_done st rqp) i) =
       iod_credits_granted (iods st i) + ucast (sr_creditcharge rqp)"
    by (auto simp: smb_rq_done_def)
  from curr_credits_add [OF _ _ this] give_back.IH give_back(7) uint_ge_0 [of "sr_creditcharge rqp"]
  show ?case by linarith
qed

section \<open>Message ids\<close>

text \<open>Consecutive ranges of ids, one per charge.\<close>

primrec msg_ids :: "u64 \<Rightarrow> u16 list \<Rightarrow> u64 list" where
  "msg_ids base [] = []"
| "msg_ids base (c # cs) = base # msg_ids (base + ucast c) cs"

definition charges :: "u16 list \<Rightarrow> nat" where
  "charges cs = sum_list (map unat cs)"

lemma charges_simps [simp]: "charges [] = 0" "charges (c # cs) = unat c + charges cs"
  by (simp_all add: charges_def)

lemma length_msg_ids [simp]: "length (msg_ids base cs) = length cs"
  by (induction cs arbitrary: base) simp_all

lemma unat_add_charge:
  assumes "unat (base :: u64) + unat (c :: u16) < 2 ^ 64"
  shows "unat (base + ucast c) = unat base + unat c"
proof -
  have "uint (ucast c :: u64) = uint c" by (rule uint_ucast_small) (use uint_lt2p [of c] in simp)
  then have "unat (ucast c :: u64) = unat c" by (metis nat_uint_eq)
  then show ?thesis using assms by (simp add: unat_word_ariths)
qed

lemma msg_ids_ge:
  "unat base + charges cs < 2 ^ 64 \<Longrightarrow> k < length cs \<Longrightarrow>
     unat base \<le> unat (msg_ids base cs ! k) \<and> unat (msg_ids base cs ! k) + unat (cs ! k) \<le> unat base + charges cs"
proof (induction cs arbitrary: base k)
  case (Cons c cs)
  then have "unat (base + ucast c) = unat base + unat c" by (intro unat_add_charge) simp
  with Cons.IH [of "base + ucast c" "k - 1"] Cons.prems show ?case
    by (cases k) auto
qed simp

lemma msg_ids_disjoint:
  "unat base + charges cs < 2 ^ 64 \<Longrightarrow> j < k \<Longrightarrow> k < length cs \<Longrightarrow>
     unat (msg_ids base cs ! j) + unat (cs ! j) \<le> unat (msg_ids base cs ! k)"
proof (induction cs arbitrary: base j k)
  case (Cons c cs)
  have u: "unat (base + ucast c) = unat base + unat c" using Cons.prems by (intro unat_add_charge) simp
  then show ?case
    using Cons.IH [of "base + ucast c" "j - 1" "k - 1"] msg_ids_ge [of "base + ucast c" cs "k - 1"] Cons.prems
    by (cases j; cases k) auto
qed simp

text \<open>A request on channel \<open>i\<close> with its header in place.\<close>

definition ready :: "nat \<Rightarrow> smb_rq \<Rightarrow> bool" where
  "ready i rqp \<longleftrightarrow> sr_iod rqp = Some i \<and> (\<exists>h body. implements rqp h body)"

text \<open>The id is in the request and in its header, and nothing else of the message changes.\<close>

definition has_message_id :: "smb_rq \<Rightarrow> smb_rq \<Rightarrow> bool" where
  "has_message_id rqp rqp' \<longleftrightarrow>
     sr_creditcharge rqp' = sr_creditcharge rqp \<and>
     (\<forall>h body. implements rqp h body \<longrightarrow> implements rqp' (h\<lparr>h_messageid := sr_messageid rqp'\<rparr>) body)"

lemma implements_messageid_cong: "implements (rqp\<lparr>sr_messageid := x\<rparr>) h body = implements rqp h body"
  by (simp add: implements_def)

lemma set_message_id_spec:
  assumes "ready i rqp"
  shows "\<exists>rqp'. set_message_id st rqp k =
             Some (rqp', upd_iod i (\<lambda>d. d\<lparr>iod_message_id := iod_message_id (iods st i) + k\<rparr>) st) \<and>
           sr_messageid rqp' = iod_message_id (iods st i) \<and> has_message_id rqp rqp'"
proof -
  define mid where "mid = iod_message_id (iods st i)"
  from assms obtain p where p: "sr_messageidp rqp = Some p" "sr_iod rqp = Some i"
    by (auto simp: ready_def implements_def)
  define rqp' where "rqp' = rqp\<lparr>sr_messageid := mid, sr_rq := mb_store (sr_rq rqp) p (le64 mid)\<rparr>"
  have "implements rqp' (h\<lparr>h_messageid := mid\<rparr>) body" if "implements rqp h body" for h body
  proof -
    have "rqp' = (rqp\<lparr>sr_rq := mb_store (sr_rq rqp) p (le64 mid)\<rparr>)\<lparr>sr_messageid := mid\<rparr>"
      by (simp add: rqp'_def)
    then show ?thesis
      using implements_store(3) [OF that p(1), of mid] by (simp only: implements_messageid_cong)
  qed
  then have "has_message_id rqp rqp'" by (simp add: has_message_id_def rqp'_def)
  then show ?thesis
    using p by (intro exI [of _ rqp']) (simp add: set_message_id_def rqp'_def mid_def Let_def)
qed

lemma set_message_ids_spec:
  "list_all (ready i) rqps \<Longrightarrow>
     \<exists>rqps' st'. set_message_ids st rqps = Some (rqps', st') \<and> list_all2 has_message_id rqps rqps' \<and>
       map sr_messageid rqps' = msg_ids (iod_message_id (iods st i)) (map sr_creditcharge rqps) \<and>
       iod_message_id (iods st' i) =
         fold (\<lambda>c m. m + ucast c) (map sr_creditcharge rqps) (iod_message_id (iods st i))"
proof (induction rqps arbitrary: st)
  case (Cons rqp rqps)
  define st1 where "st1 = upd_iod i (\<lambda>d. d\<lparr>iod_message_id :=
      iod_message_id (iods st i) + ucast (sr_creditcharge rqp)\<rparr>) st"
  from set_message_id_spec [of i rqp st "ucast (sr_creditcharge rqp)"] Cons.prems obtain rqp' where
    1: "set_message_id st rqp (ucast (sr_creditcharge rqp)) = Some (rqp', st1)"
      "sr_messageid rqp' = iod_message_id (iods st i)" "has_message_id rqp rqp'"
    by (auto simp: st1_def)
  have m: "iod_message_id (iods st1 i) = iod_message_id (iods st i) + ucast (sr_creditcharge rqp)"
    by (simp add: st1_def)
  from Cons.IH [of st1] Cons.prems obtain rqps' st' where
    2: "set_message_ids st1 rqps = Some (rqps', st')" "list_all2 has_message_id rqps rqps'"
      "map sr_messageid rqps' = msg_ids (iod_message_id (iods st1 i)) (map sr_creditcharge rqps)"
      "iod_message_id (iods st' i) =
         fold (\<lambda>c m. m + ucast c) (map sr_creditcharge rqps) (iod_message_id (iods st1 i))"
    by auto
  with 1 m show ?case by auto
qed simp

lemma fold_charges:
  "unat (base :: u64) + charges cs < 2 ^ 64 \<Longrightarrow> unat (fold (\<lambda>c m. m + ucast c) cs base) = unat base + charges cs"
proof (induction cs arbitrary: base)
  case (Cons c cs)
  then have "unat (base + ucast c) = unat base + unat c" by (intro unat_add_charge) simp
  with Cons show ?case by simp
qed simp

lemma message_id_increment_compound:
  assumes "sr_session rqp \<noteq> None" "sr_command rqp \<noteq> SMB2_NEGOTIATE"
    and "sr_flags rqp AND SMBR_COMPOUND_RQ \<noteq> 0 \<or> nexts = []"
  shows "smb2_rq_message_id_increment st rqp nexts =
     map_option (\<lambda>(rqps, st). (0, hd rqps, tl rqps, st)) (set_message_ids st (rqp # nexts))"
  using assms
  by (auto simp: smb2_rq_message_id_increment_def bind_eq_None_conv split: Option.bind_splits prod.splits)

section \<open>Reading a reply\<close>

text \<open>The integer at an offset of a message.\<close>

definition fld :: "byte list \<Rightarrow> nat \<Rightarrow> nat \<Rightarrow> nat" where
  "fld msg off n = le_dec (take n (drop off msg))"

lemma get_or_rules:
  assumes "md_inv mdp" "md_rest mdp = drop off msg" "md_len mdp = l + off" "off \<le> length msg"
  shows "(\<And>m. md_inv m \<Longrightarrow> md_rest m = drop (off + 2) msg \<Longrightarrow> md_len m = l + (off + 2) \<Longrightarrow>
            off + 2 \<le> length msg \<Longrightarrow> Q (k16 (of_nat (fld msg off 2)) m)) \<Longrightarrow>
         (\<And>m. length msg < off + 2 \<Longrightarrow> Q (EBADRPC, rqp, m, st)) \<Longrightarrow>
         Q (get_or (md_get_uint16le mdp) rqp st k16)"
    and "(\<And>m. md_inv m \<Longrightarrow> md_rest m = drop (off + 4) msg \<Longrightarrow> md_len m = l + (off + 4) \<Longrightarrow>
            off + 4 \<le> length msg \<Longrightarrow> Q (k32 (of_nat (fld msg off 4)) m)) \<Longrightarrow>
         (\<And>m. length msg < off + 4 \<Longrightarrow> Q (EBADRPC, rqp, m, st)) \<Longrightarrow>
         Q (get_or (md_get_uint32le mdp) rqp st k32)"
    and "(\<And>m. md_inv m \<Longrightarrow> md_rest m = drop (off + 8) msg \<Longrightarrow> md_len m = l + (off + 8) \<Longrightarrow>
            off + 8 \<le> length msg \<Longrightarrow> Q (k64 (of_nat (fld msg off 8)) m)) \<Longrightarrow>
         (\<And>m. length msg < off + 8 \<Longrightarrow> Q (EBADRPC, rqp, m, st)) \<Longrightarrow>
         Q (get_or (md_get_uint64le mdp) rqp st k64)"
    and "(\<And>m. md_inv m \<Longrightarrow> md_rest m = drop (off + n) msg \<Longrightarrow> md_len m = l + (off + n) \<Longrightarrow>
            off + n \<le> length msg \<Longrightarrow> Q (km (take n (drop off msg)) m)) \<Longrightarrow>
         (\<And>m. length msg < off + n \<Longrightarrow> Q (EBADRPC, rqp, m, st)) \<Longrightarrow>
         Q (get_or (md_get_mem mdp n) rqp st km)"
proof -
  have *: "(\<exists>m. md_get_mem mdp n = (Inr (take n (drop off msg)), m) \<and> md_inv m \<and>
               md_rest m = drop (off + n) msg \<and> md_len m = l + (off + n) \<and> off + n \<le> length msg) \<or>
           length msg < off + n \<and> (\<exists>m. md_get_mem mdp n = (Inl EBADRPC, m))" for n
  proof -
    obtain r m where g: "md_get_mem mdp n = (r, m)" by fastforce
    with md_get_mem_spec [OF assms(1), of n] assms show ?thesis
      by (cases "n \<le> length (md_rest mdp)") (auto simp: add.commute)
  qed
  show "(\<And>m. md_inv m \<Longrightarrow> md_rest m = drop (off + 2) msg \<Longrightarrow> md_len m = l + (off + 2) \<Longrightarrow>
            off + 2 \<le> length msg \<Longrightarrow> Q (k16 (of_nat (fld msg off 2)) m)) \<Longrightarrow>
         (\<And>m. length msg < off + 2 \<Longrightarrow> Q (EBADRPC, rqp, m, st)) \<Longrightarrow>
         Q (get_or (md_get_uint16le mdp) rqp st k16)"
    using * [of 2] by (auto simp: get_or_def md_get_uint16le_def fld_def)
  show "(\<And>m. md_inv m \<Longrightarrow> md_rest m = drop (off + 4) msg \<Longrightarrow> md_len m = l + (off + 4) \<Longrightarrow>
            off + 4 \<le> length msg \<Longrightarrow> Q (k32 (of_nat (fld msg off 4)) m)) \<Longrightarrow>
         (\<And>m. length msg < off + 4 \<Longrightarrow> Q (EBADRPC, rqp, m, st)) \<Longrightarrow>
         Q (get_or (md_get_uint32le mdp) rqp st k32)"
    using * [of 4] by (auto simp: get_or_def md_get_uint32le_def fld_def)
  show "(\<And>m. md_inv m \<Longrightarrow> md_rest m = drop (off + 8) msg \<Longrightarrow> md_len m = l + (off + 8) \<Longrightarrow>
            off + 8 \<le> length msg \<Longrightarrow> Q (k64 (of_nat (fld msg off 8)) m)) \<Longrightarrow>
         (\<And>m. length msg < off + 8 \<Longrightarrow> Q (EBADRPC, rqp, m, st)) \<Longrightarrow>
         Q (get_or (md_get_uint64le mdp) rqp st k64)"
    using * [of 8] by (auto simp: get_or_def md_get_uint64le_def fld_def)
  show "(\<And>m. md_inv m \<Longrightarrow> md_rest m = drop (off + n) msg \<Longrightarrow> md_len m = l + (off + n) \<Longrightarrow>
            off + n \<le> length msg \<Longrightarrow> Q (km (take n (drop off msg)) m)) \<Longrightarrow>
         (\<And>m. length msg < off + n \<Longrightarrow> Q (EBADRPC, rqp, m, st)) \<Longrightarrow>
         Q (get_or (md_get_mem mdp n) rqp st km)"
    using * [of n] by (auto simp: get_or_def)
qed

text \<open>
  What the parsing takes out of the 64 bytes of a reply's header, and the state after its credits have
  been added, which happens once.
\<close>

definition reply_credits :: "smb_state \<Rightarrow> smb_rq \<Rightarrow> byte list \<Rightarrow> smb_state" where
  "reply_credits st rqp msg =
     (let rqp = rqp\<lparr>sr_ntstatus := of_nat (fld msg 8 4), sr_rspcreditsgranted := of_nat (fld msg 14 2)\<rparr>
      in if sr_rspcreditsgranted rqp \<noteq> 0 \<and> sr_extflags rqp AND SMB2_HDR_PREPARSED = 0
         then snd (smb2_rq_credit_increment st rqp) else st)"

definition reply_rq :: "smb_rq \<Rightarrow> byte list \<Rightarrow> smb_rq" where
  "reply_rq rqp msg =
     (let rqp = rqp\<lparr>sr_ntstatus := of_nat (fld msg 8 4), sr_rspcreditsgranted := of_nat (fld msg 14 2),
                    sr_rspflags := of_nat (fld msg 16 4), sr_rspnextcmd := of_nat (fld msg 20 4)\<rparr>;
          rqp = (if sr_rspflags rqp AND SMB2_FLAGS_ASYNC_COMMAND = 0
                 then rqp\<lparr>sr_rsppid := of_nat (fld msg 32 4), sr_rsptreeid := of_nat (fld msg 36 4)\<rparr>
                 else rqp)
      in rqp\<lparr>sr_rspsessionid := of_nat (fld msg 40 8)\<rparr>)"

lemma reply_rq_simps [simp]:
  "sr_command (reply_rq rqp msg) = sr_command rqp" "sr_share (reply_rq rqp msg) = sr_share rqp"
  "sr_flags (reply_rq rqp msg) = sr_flags rqp" "sr_ntstatus (reply_rq rqp msg) = of_nat (fld msg 8 4)"
  "sr_rspcreditsgranted (reply_rq rqp msg) = of_nat (fld msg 14 2)"
  "sr_rspflags (reply_rq rqp msg) = of_nat (fld msg 16 4)" "sr_rspnextcmd (reply_rq rqp msg) = of_nat (fld msg 20 4)"
  "sr_rspsessionid (reply_rq rqp msg) = of_nat (fld msg 40 8)" "sr_extflags (reply_rq rqp msg) = sr_extflags rqp"
  by (simp_all add: reply_rq_def Let_def)

lemma encryption_on_reply [simp]: "encryption_on sessionp (reply_rq rqp msg) = encryption_on sessionp rqp"
  by (simp add: encryption_on_def split: option.split)

lemma status_verified:
  assumes "fst (parse_header_status verify reconnect st sessionp rqp md_sign signature mdp) = 0"
    and "\<not> encryption_on sessionp rqp"
    and "session_hflags2 sessionp AND SMB_FLAGS2_SECURITY_SIGNATURE \<noteq> 0 \<or> sr_flags rqp AND SMBR_SIGNED \<noteq> 0"
  shows "verify rqp md_sign signature = 0"
proof (rule ccontr)
  assume "verify rqp md_sign signature \<noteq> 0"
  with assms show False by (simp add: parse_header_status_def Let_def)
qed

lemma session_expired_error: "fst (session_expired reconnect st sessionp rqp e) \<in> {e, ENETRESET}"
  by (simp add: session_expired_def split: option.split)

lemma status_no_error:
  assumes "fst (parse_header_status verify reconnect st sessionp rqp md_sign signature mdp) = 0"
  shows "smb_ntstatus_to_errno (sr_ntstatus rqp) = 0"
proof (rule ccontr)
  assume "\<not> ?thesis"
  with assms session_expired_error [of reconnect st sessionp rqp "smb_ntstatus_to_errno (sr_ntstatus rqp)"]
  show False by (auto simp: parse_header_status_def Let_def split: if_splits prod.splits)
qed

text \<open>A header that is complete, has the right size and, if it is async, the id that was announced.\<close>

definition reply_ok :: "smb_rq \<Rightarrow> byte list \<Rightarrow> bool" where
  "reply_ok rqp msg \<longleftrightarrow>
     64 \<le> length msg \<and> (of_nat (fld msg 4 2) :: u16) = 64 \<and>
     ((of_nat (fld msg 16 4) :: u32) AND SMB2_FLAGS_ASYNC_COMMAND = 0 \<or>
      (of_nat (fld msg 32 8) :: u64) = sr_rspasyncid rqp)"

definition parse_post ::
  "(smb_rq \<Rightarrow> mdchain \<Rightarrow> byte list \<Rightarrow> errno) \<Rightarrow> (nat \<Rightarrow> smb_state \<Rightarrow> smb_state) \<Rightarrow> smb_state \<Rightarrow> smb_session \<Rightarrow>
     smb_rq \<Rightarrow> mdchain \<Rightarrow> errno \<times> smb_rq \<times> mdchain \<times> smb_state \<Rightarrow> bool" where
  "parse_post verify reconnect st sessionp rqp mdp r \<longleftrightarrow>
     (if reply_ok rqp (md_rest mdp) then
        \<exists>m. r = parse_header_status verify reconnect (reply_credits st rqp (md_rest mdp)) sessionp
                  (reply_rq rqp (md_rest mdp)) mdp (take 16 (drop 48 (md_rest mdp))) m \<and>
            md_inv m \<and> md_rest m = drop 64 (md_rest mdp) \<and> md_len m = md_len mdp + 64
      else fst r = EBADRPC)"

lemma if_cases: "(c \<Longrightarrow> Q a) \<Longrightarrow> (\<not> c \<Longrightarrow> Q b) \<Longrightarrow> Q (if c then a else b)"
  by simp

lemma parse_header_fields_spec:
  assumes "md_inv mdp"
  shows "parse_post verify reconnect st sessionp rqp mdp
           (parse_header_fields verify reconnect st sessionp rqp mdp False)"
proof -
  define msg where "msg = md_rest mdp"
  let ?Q = "parse_post verify reconnect st sessionp rqp mdp"
  note get = get_or_rules [where Q = ?Q and msg = msg and l = "md_len mdp"]
    and br = if_cases [where Q = ?Q]
  have start: "md_inv mdp" "md_rest mdp = drop 0 msg" "md_len mdp = md_len mdp + 0" "0 \<le> length msg"
    using assms by (simp_all add: msg_def)
  have bad: "?Q (EBADRPC, q, m, s)" if "\<not> reply_ok rqp msg" for q m s
    using that by (simp add: parse_post_def msg_def)
  have short: "?Q (EBADRPC, q, m, s)" if "length msg < 64" for q m s
    using that by (intro bad) (simp add: reply_ok_def)
  show ?thesis
    unfolding parse_header_fields_def Let_def if_False
    apply (rule get(2) [OF start])
     apply (rule get(1), assumption+)
      apply (rule br)
       apply (rule bad, simp add: reply_ok_def)
      apply (rule get(1), assumption+)
       apply (rule get(2), assumption+)
        apply (rule get(1), assumption+)
         apply (rule get(1), assumption+)
          apply (rule get(2), assumption+)
           apply (rule get(2), assumption+)
            apply (rule get(3), assumption+)
             apply (rule br)
              apply (rule get(2), assumption+)
               apply (rule get(2), assumption+)
                apply (rule get(3), assumption+)
                 apply (rule get(4), assumption+)
                  defer
                  apply (rule short, simp)+
             apply (rule get(3), assumption+)
              apply (rule br)
               apply (rule bad, simp add: reply_ok_def)
              apply (rule get(3), assumption+)
               apply (rule get(4), assumption+)
                defer
                apply (rule short, simp)+
     apply (auto simp: parse_post_def reply_ok_def reply_rq_def reply_credits_def msg_def [symmetric] Let_def)[1]
    apply (auto simp: parse_post_def reply_ok_def reply_rq_def reply_credits_def msg_def [symmetric] Let_def)
    done
qed

lemma hdr_fld:
  assumes "hdr_wf h"
  shows "of_nat (fld (hdr_enc h @ b) 4 2) = (64 :: u16)" "of_nat (fld (hdr_enc h @ b) 8 4) = h_status h"
    "of_nat (fld (hdr_enc h @ b) 14 2) = h_credits h" "of_nat (fld (hdr_enc h @ b) 16 4) = h_flags h"
    "of_nat (fld (hdr_enc h @ b) 20 4) = h_nextcmd h" "of_nat (fld (hdr_enc h @ b) 40 8) = h_session h"
    "h_id h = le32 pid @ le32 tid \<Longrightarrow> of_nat (fld (hdr_enc h @ b) 32 4) = pid"
    "h_id h = le32 pid @ le32 tid \<Longrightarrow> of_nat (fld (hdr_enc h @ b) 36 4) = tid"
    "h_id h = le64 aid \<Longrightarrow> of_nat (fld (hdr_enc h @ b) 32 8) = aid"
  using assms by (simp_all add: hdr_wf_def hdr_enc_def fld_def SMB2_SIGNATURE_def wire)

lemma mb_chain_read:
  assumes "mb_inv mbp"
  shows "md_inv (md_initm (mb_top mbp) pkts)" "md_rest (md_initm (mb_top mbp) pkts) = mb_bytes mbp"
proof -
  obtain m ms where m: "mb_top mbp = m # ms" using assms by (cases "mb_top mbp") (auto simp: mb_inv_def put_inv_def)
  then show "md_inv (md_initm (mb_top mbp) pkts)" "md_rest (md_initm (mb_top mbp) pkts) = mb_bytes mbp"
    using assms by (auto simp: md_initm_def md_inv_def pos_inv_def mb_inv_def put_inv_def md_rest_def
        rest_bytes_def mb_bytes_def)
qed

text \<open>A header that is read for its credits only.\<close>

lemma parse_header_credits_spec:
  assumes "md_inv mdp" "reply_ok rqp (md_rest mdp)"
  shows "\<exists>m. parse_header_fields verify reconnect st sessionp rqp mdp True =
           (0, rqp\<lparr>sr_ntstatus := of_nat (fld (md_rest mdp) 8 4),
                  sr_rspcreditsgranted := of_nat (fld (md_rest mdp) 14 2)\<rparr>, m, reply_credits st rqp (md_rest mdp))"
    (is "?Q (parse_header_fields verify reconnect st sessionp rqp mdp True)")
proof -
  define msg where "msg = md_rest mdp"
  have start: "md_inv mdp" "md_rest mdp = drop 0 msg" "md_len mdp = md_len mdp + 0" "0 \<le> length msg"
    using assms by (simp_all add: msg_def)
  have len: "64 \<le> length msg" "(of_nat (fld msg 4 2) :: u16) = 64"
    using assms(2) by (simp_all add: reply_ok_def msg_def)
  define Q where "Q = (\<lambda>r :: errno \<times> smb_rq \<times> mdchain \<times> smb_state. \<exists>m. r =
      (0, rqp\<lparr>sr_ntstatus := of_nat (fld msg 8 4), sr_rspcreditsgranted := of_nat (fld msg 14 2)\<rparr>, m,
       reply_credits st rqp msg))"
  note get = get_or_rules [where Q = Q and msg = msg and l = "md_len mdp"]
  have "Q (parse_header_fields verify reconnect st sessionp rqp mdp True)"
    unfolding parse_header_fields_def Let_def if_True
    apply (rule get(2) [OF start])
     apply (rule get(1), assumption+)
      apply (rule if_cases [where Q = Q])
       apply (simp add: len)
      apply (rule get(1), assumption+)
       apply (rule get(2), assumption+)
        apply (rule get(1), assumption+)
         apply (rule get(1), assumption+)
          apply (simp add: Q_def reply_credits_def Let_def)
    using len by simp_all
  then show ?thesis by (simp add: Q_def msg_def)
qed

section \<open>Properties\<close>

definition wit_session :: smb_session where
  "wit_session = \<lparr>session_flags = 0x21000, session_misc_flags = 0, session_uid = 501,
     session_session_id = 7, session_hflags2 = 4, sv_caps = 0, sv_sessflags = 0, session_iod = 0,
     server_compression_algorithms_map = 14, compression_io_threshold = 4096,
     compression_chunk_len = 262144, write_compress_cnt = 0, write_cnt_LZ77Huff = 0,
     write_cnt_LZ77 = 0, write_cnt_LZNT1 = 0, write_cnt_fwd_pattern = 0, write_cnt_bwd_pattern
     = 0, read_compress_cnt = 0, read_cnt_LZ77Huff = 0, read_cnt_LZ77 = 0, read_cnt_LZNT1 = 0,
     read_cnt_fwd_pattern = 0, read_cnt_bwd_pattern = 0,
     session_seqno = 0, session_mackey = Some (replicate 16 7), full_session_mackey = Some
     (replicate 16 7), session_smb3_signing_key = replicate 16 7, session_smb3_signing_key_len
     = 16, session_smb3_encrypt_key = replicate 16 7, session_smb3_encrypt_key_len = 16,
     session_smb3_decrypt_key = replicate 16 7, session_smb3_decrypt_key_len = 16,
     session_smb3_encrypt_ciper = 1, session_smb3_signing_algorithm = 1,
     session_smb3_nonce_high = 0, session_smb3_nonce_low = 0, decrypt_bufferp = None\<rparr>"

definition wit_iod :: smbiod where
  "wit_iod = \<lparr>iod_flags = 0, iod_context = Some \<lparr>ctx_id = 1, ctx_suser = 0, ctx_uid = 0\<rparr>,
     iod_message_id = 100, iod_credits_granted = 20, iod_credits_ss_granted = 0, iod_credits_max = 20,
     iod_credits_wait = 0, iod_req_pending = 1, iod_oldest_message_id = 95,
     iod_mackey = None, iod_smb3_signing_key = [], iod_smb3_signing_key_len = 0,
     iod_pre_auth_int_hash = replicate 64 0, iod_pre_auth_int_hash_neg = replicate 64 0,
     iod_sess_setup_message_id = 0\<rparr>"

definition wit_st :: smb_state where
  "wit_st = \<lparr>iods = (\<lambda>_. wit_iod), going_away = (\<lambda>_. False), dead = []\<rparr>"

text \<open>A read that has not taken its credits yet.\<close>

definition wit_read :: smb_rq where
  "wit_read = wit_rq\<lparr>sr_session := Some wit_session, sr_creditcharge := 1\<rparr>"

lemma wit_read_credited:
  "credited wit_st wit_read" "sr_iod wit_read = Some 0" "sr_creditcharge wit_read = 1"
  by (simp_all add: credited_def wit_read_def wit_rq_def wit_session_def main_context_def wit_st_def
      wit_iod_def)

lemma wit_read_window: "credit_wait wit_read 0 ws wit_st = Some (0, wit_st, ws)"
proof -
  have "send_window_open (iods wit_st 0)"
    by (simp add: send_window_open_def message_id_diff_def wit_st_def wit_iod_def)
  then show ?thesis by (simp add: credit_wait.simps [of _ _ _ wit_st])
qed

text \<open>C29: The credit check of a multi-credit request returns a length that is positive and not above the
  one asked for, charges one credit for each started 64 KB of it, and, when it charges more than one,
  leaves at least the ten credits of the low-water mark.\<close>

theorem smb2_rq_credit_check_bounds:
  assumes "0 < len" "len \<le> 0x7FFF0000" and "sr_creditcharge rqp = 1"
    and "smb2_rq_credit_check iod rqp len = (len', rqp')"
  shows "0 < len' \<and> len' \<le> len \<and> uint (sr_creditcharge rqp') = (uint len' - 1) div 65536 + 1 \<and>
         (uint (sr_creditcharge rqp') = 1 \<or>
          uint (sr_creditcharge rqp') + 10 \<le> sint (iod_credits_granted iod))"
  using credit_check_spec [OF assms] by blast

theorem smb2_rq_credit_check_bounds_witness:
  "\<exists>len' rqp'. smb2_rq_credit_check wit_iod wit_read 0x100000 = (len', rqp') \<and> 0 < len' \<and> len' \<le> 0x100000 \<and>
     uint (sr_creditcharge rqp') = (uint len' - 1) div 65536 + 1"
proof -
  obtain len' rqp' where r: "smb2_rq_credit_check wit_iod wit_read 0x100000 = (len', rqp')" by fastforce
  from smb2_rq_credit_check_bounds [OF _ _ wit_read_credited(3) r] r show ?thesis by simp
qed



text \<open>C28: Echo requests, requests that must not block, and the commands of login and reconnect never wait
  for credits: for every behaviour of the environment the call returns at once, with success, ENOBUFS
  or, on an SMB 1 connection, ERPCMISMATCH.\<close>

theorem credit_decrement_never_blocks:
  assumes "sr_session rqp = Some sessionp" "sr_iod rqp = Some i"
    and "sr_command rqp = SMB2_ECHO \<or> sr_extflags rqp AND SMB2_REQ_NO_BLOCK \<noteq> 0 \<or> \<not> credited st rqp"
  shows "\<exists>e rqp' rq_len' st'. smb2_rq_credit_decrement ws st rqp rq_len = Some (e, rqp', rq_len', st', ws) \<and>
           e \<in> {0, ENOBUFS, ERPCMISMATCH}"
proof (cases "credited st rqp")
  case True
  then show ?thesis
    using assms credit_wait_no_block [of rqp i ws st]
    by (auto simp: credit_decrement_credited Let_def split: prod.splits)
next
  case False
  with assms(1) have "sr_command rqp \<in> {SMB2_NEGOTIATE, SMB2_SESSION_SETUP, SMB2_TREE_CONNECT, SMB2_LOGOFF} \<or>
      sr_command rqp \<noteq> SMB2_OPLOCK_BREAK \<and>
      (session_flags sessionp AND SMBV_SMB2 = 0 \<or> sr_context rqp = main_context st sessionp)"
    by (auto simp: credited_def)
  then show ?thesis
    using assms(1,2) by (auto simp: smb2_rq_credit_decrement_def Let_def)
qed

theorem credit_decrement_never_blocks_witness:
  "\<exists>e rqp' l st'. smb2_rq_credit_decrement [(35, id)] wit_st (wit_read\<lparr>sr_command := 13\<rparr>) None =
     Some (e, rqp', l, st', [(35, id)])"
  using credit_decrement_never_blocks [of "wit_read\<lparr>sr_command := 13\<rparr>" wit_session 0 wit_st "[(35, id)]" None]
  by (auto simp: wit_read_def wit_rq_def)

text \<open>C27: A request that finds no credits and is not woken up for sixty sleeps of a second does not wait
  for ever: it forces a reconnect of its channel, and when the reconnect opens the send window the
  request goes on in the state the reconnect left.\<close>

theorem credit_starvation_reconnects:
  assumes "\<not> send_window_open (iods st i)" "curr_credits st i \<le> 0"
    and "sr_command rqp \<noteq> SMB2_ECHO" "sr_extflags rqp AND SMB2_REQ_NO_BLOCK = 0"
    and "\<not> share_going_away st rqp" "iod_flags (iods st i) AND SMBIOD_SHUTDOWN = 0"
    and "iod_credits_wait (iods st i) \<noteq> -1" and "send_window_open (iods (reconnect st) i)"
  shows "credit_wait rqp i (replicate 60 (EWOULDBLOCK, id) @ (r, reconnect) # ws) st = Some (0, reconnect st, ws)"
  using credit_sleep_timeouts [OF assms(7,2,5), of 60 0 "(r, reconnect) # ws"] assms
  by (simp add: credit_wait.simps [of rqp i _ st] credit_wait.simps [of rqp i ws "reconnect st"] id_def)

theorem credit_starvation_reconnects_witness:
  "credit_wait wit_read 0 (replicate 60 (EWOULDBLOCK, id) @ [(0, \<lambda>_. wit_st)])
     (upd_iod 0 (\<lambda>d. d\<lparr>iod_credits_granted := 0\<rparr>) wit_st) = Some (0, wit_st, [])"
  by (rule credit_starvation_reconnects)
    (simp_all add: send_window_open_def message_id_diff_def curr_credits_def share_going_away_def
      wit_st_def wit_iod_def wit_read_def wit_rq_def Let_def upd_iod_def)



text \<open>C15: The requests of a compound, or a single request, get consecutive, disjoint ranges of message ids,
  as many as each is charged for, in their order; the id is in the request and at its place in the
  header; and the channel's next id lies behind all of them. Nothing else of the messages changes.\<close>

theorem message_ids_disjoint:
  assumes "sr_session rqp \<noteq> None" "sr_command rqp \<noteq> SMB2_NEGOTIATE"
    and "sr_flags rqp AND SMBR_COMPOUND_RQ \<noteq> 0 \<or> nexts = []" and "list_all (ready i) (rqp # nexts)"
    and "unat (iod_message_id (iods st i)) + charges (map sr_creditcharge (rqp # nexts)) < 2 ^ 64"
  shows "\<exists>rqps' st'. smb2_rq_message_id_increment st rqp nexts = Some (0, hd rqps', tl rqps', st') \<and>
           list_all2 has_message_id (rqp # nexts) rqps' \<and>
           (\<forall>j k. j < k \<and> k < length rqps' \<longrightarrow>
              unat (sr_messageid (rqps' ! j)) + unat (sr_creditcharge (rqps' ! j)) \<le> unat (sr_messageid (rqps' ! k))) \<and>
           unat (iod_message_id (iods st' i)) =
             unat (iod_message_id (iods st i)) + charges (map sr_creditcharge (rqp # nexts))"
proof -
  let ?cs = "map sr_creditcharge (rqp # nexts)" and ?base = "iod_message_id (iods st i)"
  from set_message_ids_spec [OF assms(4), of st] obtain rqps' st' where
    r: "set_message_ids st (rqp # nexts) = Some (rqps', st')" "list_all2 has_message_id (rqp # nexts) rqps'"
      "map sr_messageid rqps' = msg_ids ?base ?cs"
      "iod_message_id (iods st' i) = fold (\<lambda>c m. m + ucast c) ?cs ?base" by blast
  have inc: "smb2_rq_message_id_increment st rqp nexts = Some (0, hd rqps', tl rqps', st')"
    using message_id_increment_compound [OF assms(1-3), of st] r(1) by (simp del: set_message_ids.simps)
  have len: "length rqps' = length ?cs" using list_all2_lengthD [OF r(2)] by simp
  have id: "sr_messageid (rqps' ! k) = msg_ids ?base ?cs ! k" if "k < length ?cs" for k
    using that arg_cong [OF r(3), of "\<lambda>xs. xs ! k"] len by simp
  have charge: "sr_creditcharge (rqps' ! k) = ?cs ! k" if "k < length ?cs" for k
    using that list_all2_nthD [OF r(2), of k] nth_map [of k "rqp # nexts" sr_creditcharge]
    by (simp add: has_message_id_def del: list.map)
  have "unat (sr_messageid (rqps' ! j)) + unat (sr_creditcharge (rqps' ! j)) \<le> unat (sr_messageid (rqps' ! k))"
    if "j < k" "k < length rqps'" for j k
    using msg_ids_disjoint [OF assms(5) that(1)] that len id [of j] id [of k] charge [of j]
    by (simp only: less_trans)
  then show ?thesis using inc r(2) fold_charges [OF assms(5)] r(4) by auto
qed

lemma rq_done_no_iod: "smb_rq_done st (rqp\<lparr>sr_iod := None\<rparr>) = st"
  by (simp add: smb_rq_done_def smb2_rq_credit_increment_def split: option.split)

lemma rq_new_no_mbuf: "\<exists>rqp'. smb2_rq_new getm nm None rqp = Some (ENOBUFS, rqp')"
  by (simp add: smb2_rq_new_def mb_init_def)

theorem message_ids_disjoint_witness:
  "\<exists>rqp rqps' st'. smb2_rq_message_id_increment wit_st rqp [rqp] = Some (0, hd rqps', tl rqps', st') \<and>
     unat (iod_message_id (iods st' 0)) = 104"
proof -
  have nf: "\<not> getm_fails (smb_mbuf_getm wit_kpi)"
    using wit_kpi_wf(2) smb_mbuf_getm_fails [OF wit_kpi_wf(1)] by blast
  define q where "q = wit_read\<lparr>sr_creditcharge := 2, sr_flags := 0x100\<rparr>"
  from kernel_mbufs.rq_new_implements [OF wit_kpi_wf(1) nf refl wit_mbuf_ok(1,3,2,1), of q]
  obtain rqp where r: "implements rqp (new_hdr q) []" "sr_creditcharge rqp = 2" "sr_command rqp = 8"
    "sr_iod rqp = Some 0" "sr_session rqp = Some wit_session" "sr_flags rqp = 0x100"
    by (auto simp: new_post_def q_def wit_read_def wit_rq_def)
  then have "ready 0 rqp" by (auto simp: ready_def)
  then have "list_all (ready 0) (rqp # [rqp])" by simp
  from message_ids_disjoint [of rqp "[rqp]", OF _ _ _ this, of wit_st] r show ?thesis
    by (auto simp: wit_st_def wit_iod_def)
qed

text \<open>C31: When the header of a new request cannot be built because no mbuf is left, the credit the request
  has already taken is not given back: the error path clears the request's channel first, so that
  the recovery of unused credits finds no channel and does nothing.\<close>


theorem init_failure_loses_credit:
  assumes "smb_rq_getenv obj = Inr (sessionp, share)" "smb_session_access sessionp context = 0"
    and "cmd \<notin> {0, 1, 2, 3}" "cmd AND SMB2_NO_BLOCK = 0"
    and "session_flags sessionp AND SMBV_SMB2 \<noteq> 0" "context \<noteq> main_context st sessionp"
    and "send_window_open (iods st iod)"
  shows "\<exists>st'. smb2_rq_init_internal getm nm None ws st obj cmd None flags context iod =
             Some (Inl ENOBUFS, st') \<and> curr_credits st' iod = curr_credits st iod - 1"
proof -
  define rqp where "rqp = zero_rq\<lparr>sr_flags := flags, sr_session := Some sessionp, sr_share := share,
      sr_command := ucast cmd, sr_creditcharge := 1, sr_creditsrequested := 1, sr_rqtreeid := 0,
      sr_rqsessionid := session_session_id sessionp, sr_context := context, sr_iod := Some iod,
      sr_extflags := 1\<rparr>"
  have cmd: "(ucast cmd :: u16) \<notin> {0, 1, 2, 3}"
  proof -
    have "uint (ucast cmd :: u16) = uint cmd" by (rule uint_ucast_small) (use uint_lt2p [of cmd] in simp)
    then show ?thesis using assms(3) by (auto simp: word_uint_eq_iff)
  qed
  have cr: "credited st rqp" "sr_iod rqp = Some iod" "sr_creditcharge rqp = 1"
    using assms cmd by (simp_all add: rqp_def credited_def)
  have w: "credit_wait rqp iod ws st = Some (0, st, ws)"
    using assms(7) by (simp add: credit_wait.simps [of _ _ _ st])
  obtain rqp' st' where d: "smb2_rq_credit_decrement ws st rqp None = Some (0, rqp', None, st', ws)"
    "sr_creditcharge rqp' = 1"
    using cr(3) by (auto simp: credit_decrement_credited [OF cr(1,2)] w check_len_def Let_def)
  from credit_decrement_takes [OF cr(1,2) _ cr(3) d(1)] d(2) w have
    "curr_credits st' iod = curr_credits st iod - 1" by (auto simp: len_ok_def)
  moreover obtain q where "smb2_rq_new getm nm None (set_rq_ids rqp') = Some (ENOBUFS, q)"
    using rq_new_no_mbuf by blast
  ultimately show ?thesis
    using assms(1,2,4) d(1)
    by (simp add: smb2_rq_init_internal_def Let_def rqp_def rq_done_no_iod)
qed

theorem init_failure_loses_credit_witness:
  "\<exists>st'. smb2_rq_init_internal (smb_mbuf_getm wit_kpi) None None [] wit_st (SMBL_SESSION wit_session True) 8 None
       0 None 0 = Some (Inl ENOBUFS, st') \<and> curr_credits st' 0 = curr_credits wit_st 0 - 1"
  by (rule init_failure_loses_credit [where sessionp = wit_session and share = None])
    (simp_all add: wit_session_def smb_session_access_def main_context_def wit_st_def wit_iod_def
      send_window_open_def message_id_diff_def)

text \<open>A reply on a connection that signs, and that is not encrypted, is accepted only when the header is
  complete, has the right size, its signature, the sixteen bytes from offset 48 on, passes the
  verification on the whole reply, and its status stands for no error. This holds for every chain of
  bytes a server or an attacker may send.\<close>

lemma forged_reply_rejected:
  fixes rqp mdp
  defines "chain \<equiv> if sr_extflags rqp AND SMB2_RESPONSE \<noteq> 0 then sr_rp rqp else mdp"
  defines "msg \<equiv> md_rest chain"
  assumes "md_inv chain" and "\<not> encryption_on sessionp rqp"
    and "session_hflags2 sessionp AND SMB_FLAGS2_SECURITY_SIGNATURE \<noteq> 0 \<or> sr_flags rqp AND SMBR_SIGNED \<noteq> 0"
    and "smb2_rq_parse_header verify reconnect st sessionp rqp mdp False = (0, rqp', mdp', st')"
  shows "64 \<le> length msg \<and> (of_nat (fld msg 4 2) :: u16) = 64 \<and>
         verify (reply_rq rqp msg) chain (take 16 (drop 48 msg)) = 0 \<and>
         smb_ntstatus_to_errno (of_nat (fld msg 8 4)) = 0"
proof -
  define r where "r = parse_header_fields verify reconnect st sessionp rqp chain False"
  have r0: "fst r = 0"
    using assms(6) by (auto simp: smb2_rq_parse_header_def r_def chain_def split: if_splits prod.splits)
  have p: "parse_post verify reconnect st sessionp rqp chain r"
    unfolding r_def by (rule parse_header_fields_spec [OF assms(3)])
  have ok: "reply_ok rqp msg"
    using p r0 by (auto simp: parse_post_def msg_def split: if_splits)
  from p ok obtain m where
    m: "r = parse_header_status verify reconnect (reply_credits st rqp msg) sessionp (reply_rq rqp msg)
              chain (take 16 (drop 48 msg)) m"
    by (auto simp: parse_post_def msg_def)
  have "verify (reply_rq rqp msg) chain (take 16 (drop 48 msg)) = 0"
    by (rule status_verified [OF r0 [unfolded m]]) (use assms(4,5) in simp_all)
  moreover have "smb_ntstatus_to_errno (of_nat (fld msg 8 4)) = 0"
    using status_no_error [OF r0 [unfolded m]] by simp
  ultimately show ?thesis using ok by (auto simp: reply_ok_def)
qed

text \<open>A signed reply: one mbuf with 64 bytes of header, of the right size and with status 0.\<close>

definition wit_reply :: mdchain where
  "wit_reply = md_initm [\<lparr>m_flags = 2,
     m_data = [0xFE, 0x53, 0x4D, 0x42, 64, 0, 1, 0, 0, 0, 0, 0, 8, 0, 5, 0] @ replicate 48 0,
     m_len = 64, m_pkthdr_len = 64\<rparr>] []"

lemma wit_reply_ok:
  "md_inv wit_reply"
  "md_rest wit_reply = [0xFE, 0x53, 0x4D, 0x42, 64, 0, 1, 0, 0, 0, 0, 0, 8, 0, 5, 0] @ replicate 48 0"
  by (simp_all add: wit_reply_def md_initm_def md_inv_def pos_inv_def mbuf_wf_def md_rest_def rest_bytes_def
      mbuf_bytes_def)

lemma le_dec_zero: "le_dec (replicate n 0) = 0"
  by (induction n) simp_all

lemma wit_reply_fld:
  "reply_ok wit_read (md_rest wit_reply)" "fld (md_rest wit_reply) 8 4 = 0" "fld (md_rest wit_reply) 14 2 = 5"
  "fld (md_rest wit_reply) 4 2 = 64"
  by (simp_all add: wit_reply_ok(2) reply_ok_def fld_def take_Cons' drop_Cons' le_dec_zero)

text \<open>C7: The header the client builds is the header its parser reads: for a message that implements a
  header and a body, with status zero and no signature to verify, the parser succeeds, finds the
  status, credits, flags, next command offset, process and tree id and session id that the header has,
  and leaves exactly the body to be read.\<close>

theorem header_roundtrip:
  assumes imp: "implements rqp h body" and h: "h_id h = le32 pid @ le32 tid" "h_status h = 0"
    and sync: "h_flags h AND SMB2_FLAGS_ASYNC_COMMAND = 0" and q: "sr_extflags q AND SMB2_RESPONSE = 0"
    and nosig: "encryption_on sessionp q \<or>
      session_hflags2 sessionp AND SMB_FLAGS2_SECURITY_SIGNATURE = 0 \<and> sr_flags q AND SMBR_SIGNED = 0"
  shows "\<exists>q' m st'. smb2_rq_parse_header verify reconnect st sessionp q (md_initm (mb_top (sr_rq rqp)) []) False =
             (0, q', m, st') \<and> md_rest m = body \<and> sr_ntstatus q' = 0 \<and>
           sr_rspcreditsgranted q' = h_credits h \<and> sr_rspflags q' = h_flags h \<and> sr_rspnextcmd q' = h_nextcmd h \<and>
           sr_rsppid q' = pid \<and> sr_rsptreeid q' = tid \<and> sr_rspsessionid q' = h_session h"
proof -
  let ?mdp = "md_initm (mb_top (sr_rq rqp)) []"
  from imp have wf: "hdr_wf h" and inv: "mb_inv (sr_rq rqp)" and bytes: "mb_bytes (sr_rq rqp) = hdr_enc h @ body"
    by (auto simp: implements_def built_def)
  note rd = mb_chain_read [OF inv, of "[]"] and f = hdr_fld [OF wf, where b = body]
  have ok: "reply_ok q (md_rest ?mdp)" using wf sync by (simp add: reply_ok_def rd bytes f)
  have "parse_post verify reconnect st sessionp q ?mdp (parse_header_fields verify reconnect st sessionp q ?mdp False)"
    by (rule parse_header_fields_spec [OF rd(1)])
  then obtain m where p: "parse_header_fields verify reconnect st sessionp q ?mdp False =
      parse_header_status verify reconnect (reply_credits st q (md_rest ?mdp)) sessionp
        (reply_rq q (md_rest ?mdp)) ?mdp (take 16 (drop 48 (md_rest ?mdp))) m" "md_rest m = body"
    using ok wf by (auto simp: parse_post_def rd bytes)
  have pid: "sr_rsppid (reply_rq q (md_rest ?mdp)) = pid" "sr_rsptreeid (reply_rq q (md_rest ?mdp)) = tid"
    using sync h(1) by (simp_all add: reply_rq_def Let_def rd bytes f)
  have "smb_ntstatus_to_errno 0 = 0" by (simp add: smb_ntstatus_to_errno_def)
  then show ?thesis
    using p nosig q h(2) pid f
    by (auto simp: smb2_rq_parse_header_def parse_header_status_def Let_def rd bytes split: option.split)
qed

theorem header_roundtrip_witness:
  "\<exists>rqp q' m st'. implements rqp (new_hdr wit_rq) [] \<and>
     smb2_rq_parse_header (\<lambda>_ _ _. EAUTH) (\<lambda>_. id) wit_st (wit_session\<lparr>session_hflags2 := 0\<rparr>) wit_read
       (md_initm (mb_top (sr_rq rqp)) []) False = (0, q', m, st') \<and> md_rest m = [] \<and>
     sr_rsptreeid q' = 5 \<and> sr_rspsessionid q' = 9"
proof -
  have nf: "\<not> getm_fails (smb_mbuf_getm wit_kpi)"
    using wit_kpi_wf(2) smb_mbuf_getm_fails [OF wit_kpi_wf(1)] by blast
  from kernel_mbufs.rq_new_implements [OF wit_kpi_wf(1) nf refl wit_mbuf_ok(1,3,2,1), of wit_rq]
  obtain rqp where r: "implements rqp (new_hdr wit_rq) []" by (auto simp: new_post_def)
  have "h_id (new_hdr wit_rq) = le32 0xFEFF @ le32 5" "h_status (new_hdr wit_rq) = 0"
    "h_flags (new_hdr wit_rq) AND 2 = 0" "h_session (new_hdr wit_rq) = 9"
    by (simp_all add: new_hdr_def wit_rq_def Let_def)
  note h = this
  have "sr_extflags wit_read AND SMB2_RESPONSE = 0" "sr_flags wit_read AND SMBR_SIGNED = 0"
    by (simp_all add: wit_read_def wit_rq_def)
  with header_roundtrip [OF r h(1-3) this(1), where sessionp = "wit_session\<lparr>session_hflags2 := 0\<rparr>" and
      verify = "\<lambda>_ _ _. EAUTH" and reconnect = "\<lambda>_. id" and st = wit_st] r h(4)
  show ?thesis by auto
qed

lemma and_or_self: "(x OR y) AND y = (y :: 'a::len word)"
  by (rule bit_word_eqI) (auto simp: bit_simps)

text \<open>The credits of a reply are counted once. When the reader thread has taken them out of a reply
  early, the later, full parsing of the same reply, with status zero, adds nothing: the state after
  both is the state after the credits were added.\<close>

lemma reply_credits_counted_once:
  assumes "md_inv (sr_rp rqp)" "reply_ok rqp (md_rest (sr_rp rqp))" "of_nat (fld (md_rest (sr_rp rqp)) 8 4) = (0 :: u32)"
    and "sr_extflags rqp AND SMB2_RESPONSE \<noteq> 0" "sr_flags rqp AND SMBR_COMPOUND_RQ = 0"
    and "smb2_rq_credit_preprocess_reply verify reconnect st sessionp rqp = (rqp1, st1)"
    and "smb2_rq_parse_header verify reconnect st1 sessionp rqp1 mdp False = (e, rqp2, mdp2, st2)"
  shows "st1 = reply_credits st rqp (md_rest (sr_rp rqp)) \<and> st2 = st1"
proof -
  let ?msg = "md_rest (sr_rp rqp)"
  define sh where "sh = md_shadow_copy (sr_rp rqp) (sr_rp zero_rq)"
  have sh: "md_inv sh" "md_rest sh = ?msg"
    using assms(1) by (simp_all add: sh_def md_shadow_copy_def md_inv_def md_rest_def)
  have ok: "reply_ok rqp (md_rest sh)" using assms(2) sh by simp
  from parse_header_credits_spec [OF sh(1) ok, of verify reconnect st sessionp] assms(4,5,6) sh
  have pre: "st1 = reply_credits st rqp ?msg"
    "rqp1 = rqp\<lparr>sr_ntstatus := of_nat (fld ?msg 8 4), sr_rspcreditsgranted := of_nat (fld ?msg 14 2),
               sr_extflags := sr_extflags rqp OR SMB2_HDR_PREPARSED\<rparr>"
    by (auto simp: smb2_rq_credit_preprocess_reply_def smb2_rq_parse_header_def sh_def [symmetric])
  have ext: "sr_extflags rqp1 AND SMB2_HDR_PREPARSED \<noteq> 0" "sr_extflags rqp1 AND SMB2_RESPONSE \<noteq> 0"
    using assms(4) bit.conj_disj_distrib2 [of "sr_extflags rqp" 64 2]
    by (simp_all add: pre(2) and_or_self)
  have "parse_post verify reconnect st1 sessionp rqp1 (sr_rp rqp)
      (parse_header_fields verify reconnect st1 sessionp rqp1 (sr_rp rqp) False)"
    by (rule parse_header_fields_spec [OF assms(1)])
  then obtain m where "parse_header_fields verify reconnect st1 sessionp rqp1 (sr_rp rqp) False =
      parse_header_status verify reconnect st1 sessionp (reply_rq rqp1 ?msg) (sr_rp rqp)
        (take 16 (drop 48 ?msg)) m"
    using assms(2) ext(1) by (auto simp: parse_post_def reply_ok_def pre(2) reply_credits_def Let_def)
  moreover have "smb_ntstatus_to_errno 0 = 0" by (simp add: smb_ntstatus_to_errno_def)
  ultimately show ?thesis
    using assms(3,7) ext(2) pre
    by (auto simp: smb2_rq_parse_header_def parse_header_status_def Let_def split: option.splits if_splits)
qed

end
