(* ===== verification/Sign.thy ===== *)
theory Sign
  imports Credits
begin

text \<open>
  Signing of messages and the keys for it (\<^verbatim>\<open>src/kernel/netsmb/smb_crypt.c\<close>): the MD5 signatures of SMB 1
  with their sequence numbers, HMAC-SHA256 of SMB 2 and the CMAC or GMAC of SMB 3, the verification of a reply
  that may lie anywhere in a chain of mbufs, the derivation of keys and the hash over the first
  messages.

  The digests and ciphers are functions of the whole input: a sequence of updates stands for the
  concatenation of its pieces. They are parameters, as is the allocation of the memory for a digest.
  Verification looks at the received chain; that it overwrites the signature in it is part of the model
  of \<^verbatim>\<open>smb3_verify\<close>, which computes on the chain it has changed.
\<close>

record crypto_lib =
  MD5 :: "byte list \<Rightarrow> byte list"
  cchmac_sha256 :: "byte list \<Rightarrow> byte list \<Rightarrow> byte list"
  cccmac :: "byte list \<Rightarrow> byte list \<Rightarrow> byte list"
  ccgcm_mac :: "byte list \<Rightarrow> byte list \<Rightarrow> byte list \<Rightarrow> byte list"
  SHA512 :: "byte list \<Rightarrow> byte list"
  ccnistkdf_ctr_hmac :: "byte list \<Rightarrow> byte list \<Rightarrow> byte list \<Rightarrow> nat \<Rightarrow> errno + byte list"
  lib_malloc :: "nat \<Rightarrow> bool"

abbreviation (input) SMB2_FLAGS_SIGNED :: u32 where "SMB2_FLAGS_SIGNED \<equiv> 0x8"
abbreviation (input) SMB2_SIGNING_AES_CMAC :: u16 where "SMB2_SIGNING_AES_CMAC \<equiv> 1"
abbreviation (input) SMB2_SIGNING_AES_GMAC :: u16 where "SMB2_SIGNING_AES_GMAC \<equiv> 2"
abbreviation (input) SMB2_GMAC_IV_IS_RESPONSE :: u32 where "SMB2_GMAC_IV_IS_RESPONSE \<equiv> 1"
abbreviation (input) SMB2_GMAC_IV_IS_CANCEL :: u32 where "SMB2_GMAC_IV_IS_CANCEL \<equiv> 2"
abbreviation (input) SMBV_ANONYMOUS_ACCESS :: u32 where "SMBV_ANONYMOUS_ACCESS \<equiv> 0x800000"
abbreviation (input) SMBIOD_USE_CHANNEL_KEYS :: u32 where "SMBIOD_USE_CHANNEL_KEYS \<equiv> 0x200"
abbreviation (input) SMBT2_SECONDARY :: u32 where "SMBT2_SECONDARY \<equiv> 0x20"
abbreviation (input) SMB_COM_SESSION_SETUP_ANDX :: byte where "SMB_COM_SESSION_SETUP_ANDX \<equiv> 0x73"
abbreviation (input) SMB3_KEY_LEN :: nat where "SMB3_KEY_LEN \<equiv> 16"
abbreviation (input) SMB2SIGLEN :: nat where "SMB2SIGLEN \<equiv> 16"
abbreviation (input) SMB2SIGOFF :: nat where "SMB2SIGOFF \<equiv> 48"
abbreviation (input) SMBSIGLEN :: nat where "SMBSIGLEN \<equiv> 8"
abbreviation (input) SMBSIGOFF :: nat where "SMBSIGOFF \<equiv> 14"
abbreviation (input) SMBPASTSIG :: nat where "SMBPASTSIG \<equiv> 22"

text \<open>\<^verbatim>\<open>cc_cmp_safe\<close> returns 0 exactly when the bytes are equal.\<close>

definition cc_cmp_safe :: "nat \<Rightarrow> byte list \<Rightarrow> byte list \<Rightarrow> errno" where
  "cc_cmp_safe n a b = (if take n a = take n b then 0 else 1)"

section \<open>SMB 1\<close>

definition smb_reset_sig :: "smb_session \<Rightarrow> smb_session" where
  "smb_reset_sig sessionp =
     sessionp\<lparr>session_mackey := None, full_session_mackey := None, session_smb3_signing_key_len := 0,
              session_seqno := 0\<rparr>"

text \<open>A store through \<^verbatim>\<open>sr_rqsig\<close>, which may be NULL.\<close>

definition put_rqsig :: "smb_rq \<Rightarrow> byte list \<Rightarrow> smb_rq" where
  "put_rqsig rqp bs =
     (case sr_rqsig rqp of None \<Rightarrow> rqp | Some p \<Rightarrow> rqp\<lparr>sr_rq := mb_store (sr_rq rqp) p bs\<rparr>)"

definition smb_rq_sign :: "crypto_lib \<Rightarrow> smb_session \<Rightarrow> smb_rq \<Rightarrow> smb_rq \<times> smb_session" where
  "smb_rq_sign lib sessionp rqp =
     (case session_mackey sessionp of
        None \<Rightarrow> (put_rqsig rqp [0x42, 0x53, 0x52, 0x53, 0x50, 0x4C, 0x59, 0x20], sessionp)
      | Some mackey \<Rightarrow>
          if sr_cmd rqp = SMB_COM_SESSION_SETUP_ANDX
          then (put_rqsig rqp [0x42, 0x53, 0x52, 0x53, 0x50, 0x4C, 0x59, 0x20], sessionp)
          else
            let first = (case sr_t2 rqp of None \<Rightarrow> True | Some fl \<Rightarrow> fl AND SMBT2_SECONDARY = 0);
                seqno = session_seqno sessionp;
                rqp = (if first then rqp\<lparr>sr_seqno := seqno, sr_rseqno := seqno + 1\<rparr> else rqp);
                sessionp = (if first then sessionp\<lparr>session_seqno := seqno + 2\<rparr> else sessionp);
                rqp = put_rqsig rqp (le32 (sr_seqno rqp) @ replicate 4 0);
                digest = MD5 lib (mackey @ chain_bytes (mb_top (sr_rq rqp)))
            in (put_rqsig rqp (take 8 digest), sessionp))"

text \<open>\<open>None\<close> is a first mbuf shorter than the header, which the code has asserted not to be there.\<close>

definition smb_verify :: "crypto_lib \<Rightarrow> byte list \<Rightarrow> mdchain \<Rightarrow> u32 \<Rightarrow> errno option" where
  "smb_verify lib mackey mdp seqno =
     (case md_top mdp of
        [] \<Rightarrow> None
      | mb # rest \<Rightarrow>
          if m_len mb < 32 then None
          else
            let bs = mbuf_bytes mb;
                digest = MD5 lib (mackey @ take SMBSIGOFF bs @ (le32 seqno @ replicate 4 0) @
                                  drop SMBPASTSIG bs @ chain_bytes rest)
            in Some (cc_cmp_safe SMBSIGLEN (drop SMBSIGOFF bs) digest))"

definition smb_rq_verify :: "crypto_lib \<Rightarrow> smb_session \<Rightarrow> smb_rq \<Rightarrow> errno option" where
  "smb_rq_verify lib sessionp rqp =
     (if session_hflags2 sessionp AND SMB_FLAGS2_SECURITY_SIGNATURE = 0 then Some 0
      else case session_mackey sessionp of
             None \<Rightarrow> Some 0
           | Some mackey \<Rightarrow>
               if sr_cmd rqp = SMB_COM_SESSION_SETUP_ANDX then Some 0
               else if session_flags sessionp AND SMBV_ANONYMOUS_ACCESS = SMBV_ANONYMOUS_ACCESS then Some 0
               else do {
                 r \<leftarrow> smb_verify lib mackey (sr_rp rqp) (sr_rseqno rqp);
                 Some (if r = 0 then 0 else EAUTH)
               })"

section \<open>SMB 2\<close>

text \<open>
  The digest has 32 bytes. Without memory for it the request is left as it is. A missing session or key
  is \<open>None\<close>; the caller has looked at those of the first request.
\<close>

definition smb2_sign :: "crypto_lib \<Rightarrow> smb_rq \<Rightarrow> smb_rq option" where
  "smb2_sign lib rqp =
     (case sr_rqsig rqp of
        None \<Rightarrow> Some rqp
      | Some sig \<Rightarrow>
          if \<not> lib_malloc lib 32 then Some rqp
          else case sr_flagsp rqp of
                 None \<Rightarrow> None
               | Some flagsp \<Rightarrow>
                   do {
                     sessionp \<leftarrow> sr_session rqp;
                     mackey \<leftarrow> session_mackey sessionp;
                     let mbp = or_flags (mb_store (sr_rq rqp) sig (replicate SMB2SIGLEN 0)) flagsp SMB2_FLAGS_SIGNED;
                         mac = cchmac_sha256 lib mackey (chain_bytes (mb_top mbp))
                     in Some (rqp\<lparr>sr_rq := mb_store mbp sig (take SMB2SIGLEN mac)\<rparr>)
                   })"

text \<open>
  The three loops of the verification walk over the mbufs like \<^verbatim>\<open>md_get_mem\<close>, with the same error when
  there are no more: 48 bytes that are digested, 16 bytes of the signature that are skipped, and the rest.
\<close>

definition smb2_verify ::
  "crypto_lib \<Rightarrow> byte list \<Rightarrow> mdchain \<Rightarrow> u32 \<Rightarrow> byte list \<Rightarrow> errno" where
  "smb2_verify lib mackey mdp nextCmdOffset signature =
     (if \<not> lib_malloc lib 32 then ENOMEM
      else
        let remaining = (if nextCmdOffset \<noteq> 0 then unat nextCmdOffset else md_get_size mdp)
        in if remaining < 64 then EBADRPC
           else case md_get_mem mdp SMB2SIGOFF of
                  (Inl e, _) \<Rightarrow> e
                | (Inr a, mdp) \<Rightarrow>
                    (case md_get_mem mdp SMB2SIGLEN of
                       (Inl e, _) \<Rightarrow> e
                     | (Inr _, mdp) \<Rightarrow>
                         (case md_get_mem mdp (remaining - SMB2SIGOFF - SMB2SIGLEN) of
                            (Inl e, _) \<Rightarrow> e
                          | (Inr b, _) \<Rightarrow>
                              cc_cmp_safe SMB2SIGLEN signature
                                (cchmac_sha256 lib mackey (a @ replicate SMB2SIGLEN 0 @ b)))))"

section \<open>SMB 3\<close>

text \<open>The nonce of a GMAC: the message id and the flags, as they are stored.\<close>

definition smb3_init_gmac_iv :: "u64 \<Rightarrow> u16 \<Rightarrow> bool \<Rightarrow> byte list" where
  "smb3_init_gmac_iv message_id command is_response =
     le64 message_id @
     le32 ((if is_response then SMB2_GMAC_IV_IS_RESPONSE else 0) OR
           (if command = SMB2_CANCEL then SMB2_GMAC_IV_IS_CANCEL else 0))"

definition smb3_get_signature_one_shot ::
  "crypto_lib \<Rightarrow> u16 \<Rightarrow> byte list \<Rightarrow> byte list \<Rightarrow> u64 \<Rightarrow> u16 \<Rightarrow> bool \<Rightarrow> errno + byte list" where
  "smb3_get_signature_one_shot lib algorithm key block message_id command is_response =
     (if algorithm = SMB2_SIGNING_AES_CMAC then Inr (cccmac lib key block)
      else if algorithm = SMB2_SIGNING_AES_GMAC
      then Inr (ccgcm_mac lib key (smb3_init_gmac_iv message_id command is_response) block)
      else Inl EINVAL)"

text \<open>
  What is digested of a reply: the first mbuf from the position on, then whole mbufs, cut off when
  \<open>packet_len\<close> bytes are done.
\<close>

fun reply_blocks :: "mbuf list \<Rightarrow> nat \<Rightarrow> nat \<Rightarrow> byte list" where
  "reply_blocks [] pos packet_len = []"
| "reply_blocks (mb # rest) pos packet_len =
     (let mb_len = m_len mb - pos;
          mb_len = (if packet_len > 0 \<and> packet_len < mb_len then packet_len else mb_len);
          block = take mb_len (drop pos (m_data mb))
      in if packet_len > 0 \<and> packet_len - mb_len = 0 then block
         else block @ reply_blocks rest 0 (packet_len - mb_len))"

text \<open>
  The signature field is zeros unless a signature can be computed. \<open>source\<close> is the input of
  \<^verbatim>\<open>smb3_get_signature_blocks\<close>, which a packet without bytes is not given to.
\<close>

definition smb3_get_signature ::
  "crypto_lib \<Rightarrow> u16 \<Rightarrow> smb_rq \<Rightarrow> byte list \<times> nat \<Rightarrow> nat \<Rightarrow> byte list \<Rightarrow> bool \<Rightarrow> byte list" where
  "smb3_get_signature lib algorithm rqp key packet_len source is_response =
     (if snd key < SMB3_KEY_LEN then replicate SMB2SIGLEN 0
      else if packet_len = 0 \<and> \<not> lib_malloc lib 0 then replicate SMB2SIGLEN 0
      else case smb3_get_signature_one_shot lib algorithm (fst key) (if packet_len = 0 then [] else source)
                  (sr_messageid rqp) (sr_command rqp) is_response of
             Inl _ \<Rightarrow> replicate SMB2SIGLEN 0
           | Inr mac \<Rightarrow> take SMB2SIGLEN mac)"

text \<open>The key of the channel once it is to be used, else the one of the session.\<close>

definition signing_key :: "smb_state \<Rightarrow> smb_session \<Rightarrow> smb_rq \<Rightarrow> byte list \<times> nat" where
  "signing_key st sessionp rqp =
     (case sr_iod rqp of
        None \<Rightarrow> (session_smb3_signing_key sessionp, session_smb3_signing_key_len sessionp)
      | Some i \<Rightarrow>
          if iod_flags (iods st i) AND SMBIOD_USE_CHANNEL_KEYS \<noteq> 0
          then (iod_smb3_signing_key (iods st i), iod_smb3_signing_key_len (iods st i))
          else (session_smb3_signing_key sessionp, session_smb3_signing_key_len sessionp))"

definition smb3_sign :: "crypto_lib \<Rightarrow> smb_state \<Rightarrow> smb_rq \<Rightarrow> smb_rq option" where
  "smb3_sign lib st rqp =
     (case sr_rqsig rqp of
        None \<Rightarrow> Some rqp
      | Some sig \<Rightarrow>
        do {
          sessionp \<leftarrow> sr_session rqp;
          if session_smb3_signing_key_len sessionp < SMB3_KEY_LEN then Some rqp
          else case sr_flagsp rqp of
                 None \<Rightarrow> None
               | Some flagsp \<Rightarrow>
                   let mbp = or_flags (mb_store (sr_rq rqp) sig (replicate SMB2SIGLEN 0)) flagsp SMB2_FLAGS_SIGNED;
                       request_len = sum_list (map m_len (mb_top mbp))
                   in Some (rqp\<lparr>sr_rq := mb_store mbp sig
                        (smb3_get_signature lib (session_smb3_signing_algorithm sessionp) rqp
                           (signing_key st sessionp rqp) request_len (chain_bytes (mb_top mbp)) False)\<rparr>)
        })"

text \<open>
  Zeroing the signature of a reply: the search for the mbuf it starts in, and the loop that clears
  16 bytes from there. It returns the changed mbufs and how many bytes it could not clear.
\<close>

fun sig_zero :: "mbuf list \<Rightarrow> nat \<Rightarrow> nat \<Rightarrow> mbuf list \<times> nat" where
  "sig_zero [] off remaining = ([], remaining)"
| "sig_zero (mb # rest) off remaining =
     (if remaining = 0 then (mb # rest, 0)
      else
        let n = min remaining (m_len mb - off);
            mb = mb\<lparr>m_data := mem_write off (replicate n 0) (m_data mb)\<rparr>;
            (rest, left) = sig_zero rest 0 (remaining - n)
        in (mb # rest, left))"

fun sig_find :: "mbuf list \<Rightarrow> nat \<Rightarrow> nat \<Rightarrow> (mbuf list \<times> nat) option" where
  "sig_find [] pos sig_offset = None"
| "sig_find (mb # rest) pos sig_offset =
     (let mb_len = m_len mb - pos
      in if mb_len > sig_offset then Some (sig_zero (mb # rest) (pos + sig_offset) SMB2SIGLEN)
         else map_option (apfst ((#) mb)) (sig_find rest 0 (sig_offset - mb_len)))"

definition smb3_verify ::
  "crypto_lib \<Rightarrow> smb_state \<Rightarrow> smb_session \<Rightarrow> smb_rq \<Rightarrow> mdchain \<Rightarrow> u32 \<Rightarrow> byte list \<Rightarrow> errno" where
  "smb3_verify lib st sessionp rqp mdp nextCmdOffset signature =
     (if session_smb3_signing_key_len sessionp < SMB3_KEY_LEN then EAUTH
      else case sig_find (drop (md_cur mdp) (md_top mdp)) (md_pos mdp) SMB2SIGOFF of
             None \<Rightarrow> EBADRPC
           | Some (mbs, sig_bytes_remaining) \<Rightarrow>
               if sig_bytes_remaining > 0 then EBADRPC
               else
                 let reply_len = (if nextCmdOffset \<noteq> 0 then unat nextCmdOffset else md_get_size mdp)
                 in cc_cmp_safe SMB2SIGLEN signature
                      (smb3_get_signature lib (session_smb3_signing_algorithm sessionp) rqp
                         (signing_key st sessionp rqp) reply_len
                         (reply_blocks mbs (md_pos mdp) reply_len) True))"

definition smb3_verify_session_setup ::
  "crypto_lib \<Rightarrow> smb_session \<Rightarrow> smbiod \<Rightarrow> byte list \<Rightarrow> errno" where
  "smb3_verify_session_setup lib sessionp iod sess_setup_reply =
     (if length sess_setup_reply < SMB2SIGOFF + SMB2SIGLEN + 1 then EAUTH
      else
        let key = (if iod_flags iod AND SMBIOD_USE_CHANNEL_KEYS \<noteq> 0
                   then (iod_smb3_signing_key iod, iod_smb3_signing_key_len iod)
                   else (session_smb3_signing_key sessionp, session_smb3_signing_key_len sessionp))
        in if snd key < SMB3_KEY_LEN then EAUTH
           else
             let signature = take SMB2SIGLEN (drop SMB2SIGOFF sess_setup_reply);
                 block = mem_write SMB2SIGOFF (replicate SMB2SIGLEN 0) sess_setup_reply
             in case smb3_get_signature_one_shot lib (session_smb3_signing_algorithm sessionp) (fst key) block
                       (iod_sess_setup_message_id iod) SMB2_SESSION_SETUP True of
                  Inl _ \<Rightarrow> EAUTH
                | Inr mac \<Rightarrow> if cc_cmp_safe SMB2SIGLEN signature mac \<noteq> 0 then EAUTH else 0)"

section \<open>Signing a request, verifying a reply\<close>

text \<open>The requests of a compound are a list, in the order of \<^verbatim>\<open>sr_next_rqp\<close>.\<close>

primrec sign_each :: "(smb_rq \<Rightarrow> smb_rq option) \<Rightarrow> smb_rq list \<Rightarrow> smb_rq list option" where
  "sign_each sign [] = Some []"
| "sign_each sign (rqp # rqps) =
     do { rqp \<leftarrow> sign rqp; rqps \<leftarrow> sign_each sign rqps; Some (rqp # rqps) }"

definition smb2_rq_sign :: "crypto_lib \<Rightarrow> smb_state \<Rightarrow> smb_rq list \<Rightarrow> (errno \<times> smb_rq list) option" where
  "smb2_rq_sign lib st rqps =
     (case rqps of
        [] \<Rightarrow> Some (EINVAL, [])
      | rqp # _ \<Rightarrow>
          (case sr_session rqp of
             None \<Rightarrow> Some (EINVAL, rqps)
           | Some sessionp \<Rightarrow>
               (case session_mackey sessionp of
                  None \<Rightarrow> Some (EINVAL, rqps)
                | Some mackey \<Rightarrow>
                    do {
                      rqps \<leftarrow> sign_each (if SMBV_SMB3_OR_LATER sessionp then smb3_sign lib st else smb2_sign lib) rqps;
                      Some (0, rqps)
                    })))"

definition smb2_rq_verify ::
  "crypto_lib \<Rightarrow> smb_state \<Rightarrow> smb_rq \<Rightarrow> mdchain \<Rightarrow> byte list \<Rightarrow> errno" where
  "smb2_rq_verify lib st rqp mdp signature =
     (case sr_session rqp of
        None \<Rightarrow> 0
      | Some sessionp \<Rightarrow>
          if session_hflags2 sessionp AND SMB_FLAGS2_SECURITY_SIGNATURE = 0 \<and> sr_flags rqp AND SMBR_SIGNED = 0
          then 0
          else case session_mackey sessionp of
                 None \<Rightarrow> 0
               | Some mackey \<Rightarrow>
                   if sr_command rqp = SMB2_OPLOCK_BREAK \<or> sr_command rqp = SMB2_NEGOTIATE \<or>
                      sr_command rqp = SMB2_SESSION_SETUP then 0
                   else if session_flags sessionp AND SMBV_ANONYMOUS_ACCESS = SMBV_ANONYMOUS_ACCESS then 0
                   else if (if SMBV_SMB3_OR_LATER sessionp
                            then smb3_verify lib st sessionp rqp mdp (sr_rspnextcmd rqp) signature
                            else smb2_verify lib mackey mdp (sr_rspnextcmd rqp) signature) \<noteq> 0
                   then EAUTH else 0)"

section \<open>The bytes a signature is computed over\<close>

text \<open>A message with its signature field cleared.\<close>

definition zeroed :: "byte list \<Rightarrow> byte list" where
  "zeroed bs = take 48 bs @ replicate 16 0 @ drop 64 bs"

lemma length_zeroed [simp]: "64 \<le> length bs \<Longrightarrow> length (zeroed bs) = length bs"
  by (simp add: zeroed_def)

lemma zeroed_idem: "64 \<le> length bs \<Longrightarrow> zeroed (zeroed bs) = zeroed bs"
  by (simp add: zeroed_def)

text \<open>Mbufs whose contents may change but whose lengths stay.\<close>

definition same_lens :: "mbuf list \<Rightarrow> mbuf list \<Rightarrow> bool" where
  "same_lens ms' ms \<longleftrightarrow> map m_len ms' = map m_len ms \<and> (\<forall>m \<in> set ms'. mbuf_wf m)"

lemma mbuf_bytes_zero:
  assumes "mbuf_wf mb" "off + n \<le> m_len mb"
  shows "mbuf_wf (mb\<lparr>m_data := mem_write off (replicate n 0) (m_data mb)\<rparr>)"
    and "mbuf_bytes (mb\<lparr>m_data := mem_write off (replicate n 0) (m_data mb)\<rparr>) =
           take off (mbuf_bytes mb) @ replicate n 0 @ drop (off + n) (mbuf_bytes mb)"
proof -
  have l: "off + n \<le> length (m_data mb)" "m_len mb \<le> length (m_data mb)"
    using assms by (simp_all add: mbuf_wf_def)
  then show "mbuf_wf (mb\<lparr>m_data := mem_write off (replicate n 0) (m_data mb)\<rparr>)"
    using assms(1) by (simp add: mbuf_wf_def mem_write_def)
  show "mbuf_bytes (mb\<lparr>m_data := mem_write off (replicate n 0) (m_data mb)\<rparr>) =
      take off (mbuf_bytes mb) @ replicate n 0 @ drop (off + n) (mbuf_bytes mb)"
    using l assms(2) by (simp add: mbuf_bytes_def mem_write_def drop_take min_absorb1)
qed

lemma sig_zero_spec:
  assumes "\<forall>m \<in> set ms. mbuf_wf m" "ms \<noteq> [] \<Longrightarrow> off \<le> m_len (hd ms)" "ms = [] \<Longrightarrow> off = 0"
    and "sig_zero ms off r = (ms', left)"
  shows "same_lens ms' ms \<and> left = r - length (drop off (chain_bytes ms)) \<and>
         chain_bytes ms' = take off (chain_bytes ms) @
           replicate (min r (length (drop off (chain_bytes ms)))) 0 @ drop (off + r) (chain_bytes ms)"
  using assms
proof (induction ms arbitrary: off r ms' left)
  case Nil
  then show ?case by (simp add: same_lens_def)
next
  case (Cons mb rest)
  show ?case
  proof (cases "r = 0")
    case True
    then show ?thesis using Cons.prems by (auto simp: same_lens_def)
  next
    case False
    define n where "n = min r (m_len mb - off)"
    obtain rest' left' where r': "sig_zero rest 0 (r - n) = (rest', left')" by fastforce
    have wf: "mbuf_wf mb" "\<forall>m \<in> set rest. mbuf_wf m" "off + n \<le> m_len mb"
      using Cons.prems by (auto simp: n_def)
    note z = mbuf_bytes_zero [OF wf(1,3)]
    have ih: "same_lens rest' rest \<and> left' = r - n - length (chain_bytes rest) \<and>
        chain_bytes rest' = replicate (min (r - n) (length (chain_bytes rest))) 0 @ drop (r - n) (chain_bytes rest)"
      using Cons.IH [OF wf(2) _ _ r'] by simp
    have len: "length (mbuf_bytes mb) = m_len mb" using wf(1) by simp
    have e: "ms' = mb\<lparr>m_data := mem_write off (replicate n 0) (m_data mb)\<rparr> # rest'" "left = left'"
      using Cons.prems(4) False r' by (simp_all add: Let_def n_def [symmetric])
    have full: "n < r \<Longrightarrow> off + n = m_len mb" using wf(3) by (auto simp: n_def)
    show ?thesis
    proof (cases "n < r")
      case True
      have l: "off + n = m_len mb" "off + r - m_len mb = r - n" using full [OF True] True by auto
      have "drop (off + r) (chain_bytes (mb # rest)) = drop (r - n) (chain_bytes rest)"
        "take off (chain_bytes (mb # rest)) = take off (mbuf_bytes mb)" "drop (off + n) (mbuf_bytes mb) = []"
        "min r (length (drop off (chain_bytes (mb # rest)))) = n + min (r - n) (length (chain_bytes rest))"
        "r - length (drop off (chain_bytes (mb # rest))) = r - n - length (chain_bytes rest)"
        using True len l(1) by (auto simp: l(2))
      then show ?thesis using ih z by (simp add: e same_lens_def replicate_add)
    next
      case False
      then have "r = n" by (simp add: n_def)
      then show ?thesis using ih z len wf(3) by (auto simp: e same_lens_def min_def)
    qed
  qed
qed

lemma same_lens_hd: "same_lens ms' ms \<Longrightarrow> ms \<noteq> [] \<Longrightarrow> ms' \<noteq> [] \<and> m_len (hd ms') = m_len (hd ms)"
  by (cases ms; cases ms') (auto simp: same_lens_def)

text \<open>The bytes from a position in the first mbuf on.\<close>

lemma sig_find_spec:
  assumes "\<forall>m \<in> set ms. mbuf_wf m" "ms \<noteq> [] \<Longrightarrow> pos \<le> m_len (hd ms)" "ms = [] \<Longrightarrow> pos = 0"
  shows "case sig_find ms pos off of
           None \<Rightarrow> length (drop pos (chain_bytes ms)) \<le> off
         | Some (ms', left) \<Rightarrow>
             same_lens ms' ms \<and> off < length (drop pos (chain_bytes ms)) \<and>
             left = 16 - (length (drop pos (chain_bytes ms)) - off) \<and>
             (left = 0 \<longrightarrow> chain_bytes ms' = take (pos + off) (chain_bytes ms) @ replicate 16 0 @ drop (pos + off + 16) (chain_bytes ms))"
  using assms
proof (induction ms arbitrary: pos off)
  case Nil
  then show ?case by simp
next
  case (Cons mb rest)
  have wf: "mbuf_wf mb" "\<forall>m \<in> set rest. mbuf_wf m" "pos \<le> m_len mb" using Cons.prems by auto
  have len: "length (mbuf_bytes mb) = m_len mb" using wf(1) by simp
  show ?case
  proof (cases "m_len mb - pos > off")
    case True
    obtain ms' left where z: "sig_zero (mb # rest) (pos + off) 16 = (ms', left)" by fastforce
    have "same_lens ms' (mb # rest) \<and> left = 16 - length (drop (pos + off) (chain_bytes (mb # rest))) \<and>
       chain_bytes ms' = take (pos + off) (chain_bytes (mb # rest)) @
           replicate (min 16 (length (drop (pos + off) (chain_bytes (mb # rest))))) 0 @
           drop (pos + off + 16) (chain_bytes (mb # rest))"
      by (rule sig_zero_spec [OF Cons.prems(1) _ _ z]) (use True in auto)
    moreover have "sig_find (mb # rest) pos off = Some (ms', left)"
      using True by (simp add: Let_def z del: sig_zero.simps)
    ultimately show ?thesis using True len by (auto simp: min_def simp del: sig_find.simps)
  next
    case False
    have ih: "case sig_find rest 0 (off - (m_len mb - pos)) of
           None \<Rightarrow> length (drop 0 (chain_bytes rest)) \<le> off - (m_len mb - pos)
         | Some (ms', left) \<Rightarrow>
             same_lens ms' rest \<and> off - (m_len mb - pos) < length (drop 0 (chain_bytes rest)) \<and>
             left = 16 - (length (drop 0 (chain_bytes rest)) - (off - (m_len mb - pos))) \<and>
             (left = 0 \<longrightarrow> chain_bytes ms' = take (0 + (off - (m_len mb - pos))) (chain_bytes rest) @ replicate 16 0 @
                drop (0 + (off - (m_len mb - pos)) + 16) (chain_bytes rest))"
      by (rule Cons.IH [OF wf(2)]) simp_all
    have o: "off - (m_len mb - pos) = off + pos - m_len mb" "pos + off - m_len mb = off + pos - m_len mb"
      "pos + off + 16 - m_len mb = off + pos - m_len mb + 16"
      using False wf(3) by auto
    show ?thesis
      using ih False len wf(1,3)
      by (auto simp: Let_def same_lens_def o split: option.splits)
  qed
qed

lemma reply_blocks_take:
  assumes "\<forall>m \<in> set ms. mbuf_wf m" "ms \<noteq> [] \<Longrightarrow> pos \<le> m_len (hd ms)" "ms = [] \<Longrightarrow> pos = 0" "0 < n"
  shows "reply_blocks ms pos n = take n (drop pos (chain_bytes ms))"
  using assms
proof (induction ms arbitrary: pos n)
  case Nil
  then show ?case by simp
next
  case (Cons mb rest)
  have wf: "mbuf_wf mb" "\<forall>m \<in> set rest. mbuf_wf m" "pos \<le> m_len mb" using Cons.prems by auto
  have len: "length (mbuf_bytes mb) = m_len mb" using wf(1) by simp
  have piece: "take l (drop pos (m_data mb)) = take l (drop pos (mbuf_bytes mb))" if "l \<le> m_len mb - pos" for l
    using that by (simp add: mbuf_bytes_def drop_take min_absorb1)
  show ?case
  proof (cases "n \<le> m_len mb - pos")
    case True
    then show ?thesis using Cons.prems(4) len piece [of n] piece [of "m_len mb - pos"] by (auto simp: Let_def)
  next
    case False
    have "reply_blocks rest 0 (n - (m_len mb - pos)) = take (n - (m_len mb - pos)) (chain_bytes rest)"
      using Cons.IH [OF wf(2), of 0 "n - (m_len mb - pos)"] False by simp
    then show ?thesis using False len wf(3) piece [of "m_len mb - pos"] by (auto simp: Let_def)
  qed
qed

section \<open>Verification as a function of the message\<close>

lemma md_rest_drop:
  assumes "md_inv mdp" "md_cur mdp < length (md_top mdp)"
  shows "md_rest mdp = drop (md_pos mdp) (chain_bytes (drop (md_cur mdp) (md_top mdp)))"
    and "drop (md_cur mdp) (md_top mdp) \<noteq> []" "md_pos mdp \<le> m_len (hd (drop (md_cur mdp) (md_top mdp)))"
    and "\<forall>m \<in> set (drop (md_cur mdp) (md_top mdp)). mbuf_wf m"
proof -
  have d: "drop (md_cur mdp) (md_top mdp) = md_top mdp ! md_cur mdp # drop (Suc (md_cur mdp)) (md_top mdp)"
    by (rule drop_eq_Cons_nth [OF assms(2)])
  have p: "md_pos mdp \<le> m_len (md_top mdp ! md_cur mdp)" "mbuf_wf (md_top mdp ! md_cur mdp)"
    using assms by (auto simp: md_inv_def pos_inv_def)
  then have "md_pos mdp \<le> length (mbuf_bytes (md_top mdp ! md_cur mdp))" by simp
  then show "md_rest mdp = drop (md_pos mdp) (chain_bytes (drop (md_cur mdp) (md_top mdp)))"
    using assms(2) by (simp add: md_rest_def rest_bytes_def d)
  show "drop (md_cur mdp) (md_top mdp) \<noteq> []" using d by simp
  show "md_pos mdp \<le> m_len (hd (drop (md_cur mdp) (md_top mdp)))" using p by (simp add: d)
  show "\<forall>m \<in> set (drop (md_cur mdp) (md_top mdp)). mbuf_wf m"
    using assms(1) by (auto simp: md_inv_def pos_inv_def dest: in_set_dropD)
qed

text \<open>How much of the chain is the reply: up to the next one of a compound, or all of it.\<close>

definition reply_len :: "u32 \<Rightarrow> byte list \<Rightarrow> nat" where
  "reply_len nextCmdOffset msg = (if nextCmdOffset \<noteq> 0 then unat nextCmdOffset else length msg)"

lemma smb3_verify_spec:
  assumes "md_inv mdp" "md_cur mdp < length (md_top mdp)"
  shows "smb3_verify lib st sessionp rqp mdp nextCmdOffset signature =
           (if session_smb3_signing_key_len sessionp < SMB3_KEY_LEN then EAUTH
            else if length (md_rest mdp) < 64 then EBADRPC
            else cc_cmp_safe SMB2SIGLEN signature
                   (smb3_get_signature lib (session_smb3_signing_algorithm sessionp) rqp (signing_key st sessionp rqp)
                      (reply_len nextCmdOffset (md_rest mdp))
                      (take (reply_len nextCmdOffset (md_rest mdp)) (zeroed (md_rest mdp))) True))"
proof -
  define ms pos n where d: "ms = drop (md_cur mdp) (md_top mdp)" "pos = md_pos mdp"
    "n = reply_len nextCmdOffset (md_rest mdp)"
  note r = md_rest_drop [OF assms, folded d(1,2)]
  have n: "(if nextCmdOffset \<noteq> 0 then unat nextCmdOffset else md_get_size mdp) = n"
    by (simp add: d(3) reply_len_def md_get_size_rest [OF assms(1)])
  note f = sig_find_spec [OF r(4,3), of 48] r(2)
  show ?thesis
  proof (cases "session_smb3_signing_key_len sessionp < SMB3_KEY_LEN")
    case True
    then show ?thesis by (simp add: smb3_verify_def)
  next
    case key: False
    show ?thesis
    proof (cases "sig_find ms pos 48")
      case None
      then have "length (md_rest mdp) \<le> 48" using f r(1) by auto
      then show ?thesis using None key by (simp add: smb3_verify_def d(1,2) [symmetric])
    next
      case (Some a)
      then obtain ms' left where s: "sig_find ms pos 48 = Some (ms', left)" by (cases a) auto
      have post: "same_lens ms' ms" "48 < length (md_rest mdp)" "left = 16 - (length (md_rest mdp) - 48)"
        "left = 0 \<Longrightarrow> chain_bytes ms' = take (pos + 48) (chain_bytes ms) @ replicate 16 0 @ drop (pos + 48 + 16) (chain_bytes ms)"
        using f s r(1) by auto
      have hd': "ms' \<noteq> []" "pos \<le> m_len (hd ms')" "\<forall>m \<in> set ms'. mbuf_wf m"
        using same_lens_hd [OF post(1) r(2)] r(3) post(1) by (auto simp: same_lens_def)
      have z: "drop pos (chain_bytes ms') = zeroed (md_rest mdp)" if "left = 0"
      proof -
        have "pos + 64 \<le> length (chain_bytes ms)" using that post(2,3) r(1) by simp
        then show ?thesis
          using post(4) [OF that] r(1) by (simp add: zeroed_def add.commute drop_take)
      qed
      have npos: "0 < n" using post(2) by (auto simp: d(3) reply_len_def unat_gt_0)
      have b: "reply_blocks ms' pos n = take n (zeroed (md_rest mdp))" if "left = 0"
        using reply_blocks_take [OF hd'(3) _ _ npos, of pos] hd'(1,2) z [OF that] by auto
      show ?thesis
      proof (cases "left = 0")
        case True
        then have "64 \<le> length (md_rest mdp)" using post(2,3) by simp
        then show ?thesis
          unfolding smb3_verify_def d(1,2) [symmetric] s n d(3) [symmetric]
          using key True b by (simp add: Let_def n)
      next
        case False
        then show ?thesis
          using key post(2,3) unfolding smb3_verify_def d(1,2) [symmetric] s by simp
      qed
    qed
  qed
qed

lemma smb2_verify_spec:
  assumes "md_inv mdp" "lib_malloc lib 32"
  shows "smb2_verify lib mackey mdp nextCmdOffset signature =
           (let n = reply_len nextCmdOffset (md_rest mdp)
            in if n < 64 \<or> length (md_rest mdp) < n then EBADRPC
               else cc_cmp_safe SMB2SIGLEN signature (cchmac_sha256 lib mackey (take n (zeroed (md_rest mdp)))))"
proof -
  define n where "n = reply_len nextCmdOffset (md_rest mdp)"
  have n: "(if nextCmdOffset \<noteq> 0 then unat nextCmdOffset else md_get_size mdp) = n"
    by (simp add: n_def reply_len_def md_get_size_rest [OF assms(1)])
  have get: "md_inv md \<Longrightarrow> \<exists>md'. md_get_mem md k =
      (if k \<le> length (md_rest md) then Inr (take k (md_rest md)) else Inl EBADRPC, md') \<and> md_inv md' \<and>
      md_rest md' = drop k (md_rest md)" for md k
    using md_get_mem_spec(1-3) [of md k] by (cases "md_get_mem md k") auto
  obtain m1 where m1: "md_get_mem mdp 48 =
      (if 48 \<le> length (md_rest mdp) then Inr (take 48 (md_rest mdp)) else Inl EBADRPC, m1)" "md_inv m1"
    "md_rest m1 = drop 48 (md_rest mdp)" using get [OF assms(1)] by blast
  obtain m2 where m2: "md_get_mem m1 16 =
      (if 16 \<le> length (md_rest m1) then Inr (take 16 (md_rest m1)) else Inl EBADRPC, m2)" "md_inv m2"
    "md_rest m2 = drop 16 (md_rest m1)" using get [OF m1(2)] by blast
  obtain m3 where m3: "md_get_mem m2 (n - 64) =
      (if n - 64 \<le> length (md_rest m2) then Inr (take (n - 64) (md_rest m2)) else Inl EBADRPC, m3)"
    using get [OF m2(2)] by blast
  have z: "take n (zeroed (md_rest mdp)) = take 48 (md_rest mdp) @ replicate 16 0 @ take (n - 64) (drop 64 (md_rest mdp))"
    if "64 \<le> n" "n \<le> length (md_rest mdp)"
    using that by (simp add: zeroed_def)
  show ?thesis
    using assms(2) z m2(3) m1(3)
    by (auto simp: smb2_verify_def n n_def [symmetric] Let_def m1(1) m2(1) m3)
qed

section \<open>The signature of a message\<close>

definition lib_wf :: "crypto_lib \<Rightarrow> bool" where
  "lib_wf lib \<longleftrightarrow>
     (\<forall>k m. 16 \<le> length (cchmac_sha256 lib k m)) \<and> (\<forall>k m. 16 \<le> length (cccmac lib k m)) \<and>
     (\<forall>k iv m. 16 \<le> length (ccgcm_mac lib k iv m)) \<and> (\<forall>m. 16 \<le> length (MD5 lib m)) \<and> lib_malloc lib 32"

text \<open>The signature that belongs to a message whose signature field is zero.\<close>

definition expected_signature ::
  "crypto_lib \<Rightarrow> smb_state \<Rightarrow> smb_session \<Rightarrow> smb_rq \<Rightarrow> bool \<Rightarrow> byte list \<Rightarrow> byte list" where
  "expected_signature lib st sessionp rqp is_response msg =
     take 16
       (if \<not> SMBV_SMB3_OR_LATER sessionp then cchmac_sha256 lib (the (session_mackey sessionp)) msg
        else if session_smb3_signing_algorithm sessionp = SMB2_SIGNING_AES_CMAC
        then cccmac lib (fst (signing_key st sessionp rqp)) msg
        else ccgcm_mac lib (fst (signing_key st sessionp rqp))
               (smb3_init_gmac_iv (sr_messageid rqp) (sr_command rqp) is_response) msg)"

text \<open>Sessions that can sign: with keys of the right length and one of the two algorithms.\<close>

definition can_sign :: "smb_state \<Rightarrow> smb_session \<Rightarrow> smb_rq \<Rightarrow> bool" where
  "can_sign st sessionp rqp \<longleftrightarrow>
     sr_session rqp = Some sessionp \<and> session_mackey sessionp \<noteq> None \<and>
     (SMBV_SMB3_OR_LATER sessionp \<longrightarrow>
        16 \<le> session_smb3_signing_key_len sessionp \<and> 16 \<le> snd (signing_key st sessionp rqp) \<and>
        (session_smb3_signing_algorithm sessionp = SMB2_SIGNING_AES_CMAC \<or>
         session_smb3_signing_algorithm sessionp = SMB2_SIGNING_AES_GMAC))"

lemma get_signature_expected:
  assumes "can_sign st sessionp rqp" "SMBV_SMB3_OR_LATER sessionp" "0 < n"
  shows "smb3_get_signature lib (session_smb3_signing_algorithm sessionp) rqp (signing_key st sessionp rqp) n source dir =
           expected_signature lib st sessionp rqp dir source"
  using assms by (auto simp: smb3_get_signature_def smb3_get_signature_one_shot_def expected_signature_def can_sign_def)

lemma length_expected: "lib_wf lib \<Longrightarrow> length (expected_signature lib st sessionp rqp dir msg) = 16"
  by (simp add: expected_signature_def lib_wf_def)

lemma implements_sig:
  assumes "implements rqp h body" "sr_rqsig rqp = Some p" "length xs = 16"
  shows "implements (rqp\<lparr>sr_rq := mb_store (sr_rq rqp) p xs\<rparr>) (h\<lparr>h_signature := xs\<rparr>) body"
proof -
  from assms(1) obtain charge credits flags nextcmd mid sig where wf: "hdr_wf h" and
    ptr: "sr_creditchargep rqp = Some charge" "sr_creditreqp rqp = Some credits"
      "sr_flagsp rqp = Some flags" "sr_nextcmdp rqp = Some nextcmd"
      "sr_messageidp rqp = Some mid" "sr_rqsig rqp = Some sig" and
    b: "built (sr_rq rqp) (hdr_enc h @ body)
          [(sig, 48, 16), (mid, 24, 8), (nextcmd, 20, 4), (flags, 16, 4), (credits, 14, 2), (charge, 6, 2)]"
    unfolding implements_def by blast
  have e: "take 48 (hdr_enc h @ body) @ xs @ drop 64 (hdr_enc h @ body) = hdr_enc (h\<lparr>h_signature := xs\<rparr>) @ body"
    using wf assms(3) by (simp add: hdr_enc_def hdr_wf_def SMB2_SIGNATURE_def)
  have "built (mb_store (sr_rq rqp) sig xs) (hdr_enc (h\<lparr>h_signature := xs\<rparr>) @ body)
      [(sig, 48, 16), (mid, 24, 8), (nextcmd, 20, 4), (flags, 16, 4), (credits, 14, 2), (charge, 6, 2)]"
    using built_store [OF b, of sig 48 xs] e assms(3) by (simp del: take_append drop_append)
  moreover have "hdr_wf (h\<lparr>h_signature := xs\<rparr>)" using wf assms(3) by (simp add: hdr_wf_def)
  ultimately show ?thesis using ptr assms(2) by (simp add: implements_def del: split_paired_Ex)
qed

text \<open>A header made ready for signing, and signed.\<close>

definition unsigned_hdr :: "smb2_hdr \<Rightarrow> smb2_hdr" where
  "unsigned_hdr h = h\<lparr>h_signature := replicate 16 0, h_flags := h_flags h OR SMB2_FLAGS_SIGNED\<rparr>"

definition signed_hdr :: "crypto_lib \<Rightarrow> smb_state \<Rightarrow> smb_session \<Rightarrow> smb_rq \<Rightarrow> smb2_hdr \<Rightarrow> byte list \<Rightarrow> smb2_hdr" where
  "signed_hdr lib st sessionp rqp h body =
     (unsigned_hdr h)\<lparr>h_signature := expected_signature lib st sessionp rqp False (hdr_enc (unsigned_hdr h) @ body)\<rparr>"

lemma implements_bytes: "implements rqp h body \<Longrightarrow> chain_bytes (mb_top (sr_rq rqp)) = hdr_enc h @ body"
  by (auto simp: implements_def built_def mb_bytes_def)

lemma implements_wf: "implements rqp h body \<Longrightarrow> \<forall>m \<in> set (mb_top (sr_rq rqp)). mbuf_wf m"
  by (auto simp: implements_def built_def mb_inv_def put_inv_def)

lemma sign_one:
  assumes "lib_wf lib" "can_sign st sessionp rqp" "implements rqp h body"
  shows "\<exists>rqp'. (if SMBV_SMB3_OR_LATER sessionp then smb3_sign lib st rqp else smb2_sign lib rqp) = Some rqp' \<and>
           implements rqp' (signed_hdr lib st sessionp rqp h body) body"
proof -
  from assms(3) obtain sig fp where p: "sr_rqsig rqp = Some sig" "sr_flagsp rqp = Some fp"
    by (auto simp: implements_def)
  define r1 where "r1 = rqp\<lparr>sr_rq := or_flags (mb_store (sr_rq rqp) sig (replicate 16 0)) fp SMB2_FLAGS_SIGNED\<rparr>"
  have z: "implements (rqp\<lparr>sr_rq := mb_store (sr_rq rqp) sig (replicate 16 0)\<rparr>) (h\<lparr>h_signature := replicate 16 0\<rparr>) body"
    by (rule implements_sig [OF assms(3) p(1)]) simp
  have i1: "implements r1 (unsigned_hdr h) body"
    using or_flags_header [OF z, of fp SMB2_FLAGS_SIGNED] p(2) by (simp add: r1_def unsigned_hdr_def)
  define s where "s = expected_signature lib st sessionp rqp False (hdr_enc (unsigned_hdr h) @ body)"
  have i2: "implements (r1\<lparr>sr_rq := mb_store (sr_rq r1) sig s\<rparr>) (signed_hdr lib st sessionp rqp h body) body"
    unfolding signed_hdr_def s_def [symmetric]
    by (rule implements_sig [OF i1]) (use p(1) length_expected [OF assms(1)] in \<open>simp_all add: r1_def s_def\<close>)
  have wfh: "hdr_wf (unsigned_hdr h)" using i1 by (simp add: implements_def)
  have len: "sum_list (map m_len (mb_top (sr_rq r1))) = 64 + length body"
    using length_chain_bytes [OF implements_wf [OF i1]] implements_bytes [OF i1] wfh by simp
  show ?thesis
  proof (cases "SMBV_SMB3_OR_LATER sessionp")
    case True
    have "smb3_sign lib st rqp = Some (r1\<lparr>sr_rq := mb_store (sr_rq r1) sig s\<rparr>)"
      using assms(2) p True len implements_bytes [OF i1]
        get_signature_expected [OF assms(2) True, of "64 + length body" lib "hdr_enc (unsigned_hdr h) @ body" False]
      by (simp add: smb3_sign_def can_sign_def Let_def r1_def s_def)
    then show ?thesis using i2 True by auto
  next
    case False
    have "smb2_sign lib rqp = Some (r1\<lparr>sr_rq := mb_store (sr_rq r1) sig s\<rparr>)"
      using assms(1,2) p False implements_bytes [OF i1]
      by (auto simp: smb2_sign_def can_sign_def Let_def r1_def s_def lib_wf_def expected_signature_def)
    then show ?thesis using i2 False by auto
  qed
qed

lemma reply_rq_crypto [simp]:
  "sr_session (reply_rq rqp msg) = sr_session rqp" "sr_messageid (reply_rq rqp msg) = sr_messageid rqp"
  "sr_iod (reply_rq rqp msg) = sr_iod rqp"
  by (simp_all add: reply_rq_def Let_def)

lemma cc_cmp_safe_0: "cc_cmp_safe n a b = 0 \<longleftrightarrow> take n a = take n b"
  by (simp add: cc_cmp_safe_def)

text \<open>Commands and sessions whose replies are verified.\<close>

definition verified_reply :: "smb_session \<Rightarrow> smb_rq \<Rightarrow> bool" where
  "verified_reply sessionp rqp \<longleftrightarrow>
     (session_hflags2 sessionp AND SMB_FLAGS2_SECURITY_SIGNATURE \<noteq> 0 \<or> sr_flags rqp AND SMBR_SIGNED \<noteq> 0) \<and>
     sr_command rqp \<notin> {SMB2_OPLOCK_BREAK, SMB2_NEGOTIATE, SMB2_SESSION_SETUP} \<and>
     session_flags sessionp AND SMBV_ANONYMOUS_ACCESS \<noteq> SMBV_ANONYMOUS_ACCESS"

lemma smb2_rq_verify_spec:
  assumes "md_inv mdp" "md_rest mdp \<noteq> []" "lib_wf lib" "can_sign st sessionp rqp" "verified_reply sessionp rqp"
  shows "smb2_rq_verify lib st rqp mdp signature = 0 \<longleftrightarrow>
           (let n = reply_len (sr_rspnextcmd rqp) (md_rest mdp)
            in 64 \<le> length (md_rest mdp) \<and> (\<not> SMBV_SMB3_OR_LATER sessionp \<longrightarrow> 64 \<le> n \<and> n \<le> length (md_rest mdp)) \<and>
               take 16 signature = expected_signature lib st sessionp rqp True (take n (zeroed (md_rest mdp))))"
proof -
  define n where "n = reply_len (sr_rspnextcmd rqp) (md_rest mdp)"
  have cur: "md_cur mdp < length (md_top mdp)"
    using assms(2) by (auto simp: md_rest_def rest_bytes_def split: if_splits)
  have npos: "0 < n" using assms(2) by (auto simp: n_def reply_len_def unat_gt_0)
  have e: "take 16 (expected_signature lib st sessionp rqp True m) = expected_signature lib st sessionp rqp True m" for m
    using length_expected [OF assms(3)] by simp
  have v: "smb2_rq_verify lib st rqp mdp signature =
      (if (if SMBV_SMB3_OR_LATER sessionp
           then smb3_verify lib st sessionp rqp mdp (sr_rspnextcmd rqp) signature
           else smb2_verify lib (the (session_mackey sessionp)) mdp (sr_rspnextcmd rqp) signature) \<noteq> 0
       then EAUTH else 0)"
    using assms(4,5) by (auto simp: smb2_rq_verify_def can_sign_def verified_reply_def)
  show ?thesis
  proof (cases "SMBV_SMB3_OR_LATER sessionp")
    case True
    have k: "\<not> session_smb3_signing_key_len sessionp < 16" using assms(4) True by (simp add: can_sign_def)
    show ?thesis
      using True k get_signature_expected [OF assms(4) True npos, of lib] e
      by (simp add: v smb3_verify_spec [OF assms(1) cur] n_def [symmetric] Let_def cc_cmp_safe_0)
  next
    case False
    have m: "lib_malloc lib 32" using assms(3) by (simp add: lib_wf_def)
    show ?thesis
      using False
      by (auto simp: v smb2_verify_spec [OF assms(1) m] n_def [symmetric] Let_def cc_cmp_safe_0 expected_signature_def)
  qed
qed

text \<open>C9: Replies of a session that signs are authentic. When the parser of reply headers, with the
  verification of this session, accepts a reply that is not encrypted, to a command whose replies are
  signed, then the message is a complete header of the right size, and the signature in it is
  the MAC, under the key of the session or of the channel, of the reply with the signature field cleared. With GMAC the
  message id of the request is part of it. This holds for every chain of mbufs, however the bytes of the header lie in it.\<close>

theorem accepted_reply_authentic:
  fixes rqp mdp
  defines "chain \<equiv> if sr_extflags rqp AND SMB2_RESPONSE \<noteq> 0 then sr_rp rqp else mdp"
  defines "msg \<equiv> md_rest chain"
  assumes "md_inv chain" and "lib_wf lib" and "can_sign st sessionp rqp" and "verified_reply sessionp rqp"
    and "\<not> encryption_on sessionp rqp"
    and "smb2_rq_parse_header (smb2_rq_verify lib st) reconnect st sessionp rqp mdp False = (0, rqp', mdp', st')"
  shows "64 \<le> length msg \<and> (of_nat (fld msg 4 2) :: u16) = 64 \<and>
         take 16 (drop 48 msg) =
           expected_signature lib st sessionp rqp True (take (reply_len (of_nat (fld msg 20 4)) msg) (zeroed msg)) \<and>
         smb_ntstatus_to_errno (of_nat (fld msg 8 4)) = 0"
proof -
  have f: "64 \<le> length msg \<and> (of_nat (fld msg 4 2) :: u16) = 64 \<and>
         smb2_rq_verify lib st (reply_rq rqp msg) chain (take 16 (drop 48 msg)) = 0 \<and>
         smb_ntstatus_to_errno (of_nat (fld msg 8 4)) = 0"
    using forged_reply_rejected [of rqp mdp sessionp "smb2_rq_verify lib st" reconnect st rqp' mdp' st'] assms
    by (auto simp: verified_reply_def)
  have c: "can_sign st sessionp (reply_rq rqp msg)" "verified_reply sessionp (reply_rq rqp msg)"
    using assms(5,6) by (simp_all add: can_sign_def verified_reply_def signing_key_def)
  have ne: "md_rest chain \<noteq> []" using f by (auto simp: msg_def)
  have "expected_signature lib st sessionp (reply_rq rqp msg) True m = expected_signature lib st sessionp rqp True m" for m
    by (simp add: expected_signature_def signing_key_def)
  then show ?thesis
    using f smb2_rq_verify_spec [OF assms(3) ne assms(4) c] by (simp add: Let_def msg_def [symmetric])
qed

text \<open>A library whose MACs are sums of bytes, and a session with a key for it under which the
  signature of \<^const>\<open>wit_reply\<close> is zero.\<close>

definition sum_mac :: "byte list \<Rightarrow> byte list \<Rightarrow> byte list" where
  "sum_mac k m = replicate 16 (sum_list k + sum_list m)"

definition sum_lib :: crypto_lib where
  "sum_lib = \<lparr>MD5 = sum_mac [], cchmac_sha256 = sum_mac, cccmac = sum_mac, ccgcm_mac = (\<lambda>k iv. sum_mac (k @ iv)),
     SHA512 = (\<lambda>m. concat (replicate 4 (sum_mac [] m))), ccnistkdf_ctr_hmac = (\<lambda>k l c n. Inr (take n (sum_mac k (l @ c)))),
     lib_malloc = (\<lambda>_. True)\<rparr>"

lemma sum_lib_wf: "lib_wf sum_lib"
  by (simp add: lib_wf_def sum_lib_def sum_mac_def)

definition sign_session :: smb_session where
  "sign_session = wit_session\<lparr>session_mackey := Some (210 # replicate 15 0),
     session_smb3_signing_key := 210 # replicate 15 0\<rparr>"

lemma sign_session_simps:
  "SMBV_SMB3_OR_LATER sign_session" "session_mackey sign_session = Some (210 # replicate 15 0)"
  "session_smb3_signing_key sign_session = 210 # replicate 15 0" "session_smb3_signing_key_len sign_session = 16"
  "session_smb3_signing_algorithm sign_session = 1" "session_hflags2 sign_session = 4"
  "session_flags sign_session = 0x21000" "sv_sessflags sign_session = 0"
  by (simp_all add: sign_session_def wit_session_def SMBV_SMB3_OR_LATER_def)

definition sign_read :: smb_rq where
  "sign_read = wit_read\<lparr>sr_session := Some sign_session\<rparr>"

lemma sign_read_simps:
  "sr_session sign_read = Some sign_session" "sr_iod sign_read = Some 0" "sr_command sign_read = 8"
  "sr_share sign_read = None" "sr_flags sign_read = 0" "sr_extflags sign_read AND SMB2_RESPONSE = 0"
  by (simp_all add: sign_read_def wit_read_def wit_rq_def)

lemma sign_read_can_sign:
  "can_sign wit_st sign_session sign_read" "verified_reply sign_session sign_read"
  "signing_key wit_st sign_session sign_read = (210 # replicate 15 0, 16)"
  by (simp_all add: can_sign_def verified_reply_def signing_key_def sign_read_simps sign_session_simps wit_st_def wit_iod_def)

theorem accepted_reply_authentic_witness:
  "\<exists>rqp' mdp' st'. smb2_rq_parse_header (smb2_rq_verify sum_lib wit_st) (\<lambda>_. id) wit_st sign_session sign_read wit_reply
       False = (0, rqp', mdp', st') \<and> 64 \<le> length (md_rest wit_reply) \<and>
     take 16 (drop 48 (md_rest wit_reply)) =
       expected_signature sum_lib wit_st sign_session sign_read True
         (take (reply_len (of_nat (fld (md_rest wit_reply) 20 4)) (md_rest wit_reply)) (zeroed (md_rest wit_reply)))"
proof -
  let ?v = "smb2_rq_verify sum_lib wit_st" and ?msg = "md_rest wit_reply"
  have ok: "reply_ok sign_read ?msg" using wit_reply_fld(1) by (simp add: reply_ok_def sign_read_def)
  have nxt: "fld ?msg 20 4 = 0" by (simp add: wit_reply_ok(2) fld_def le_dec_zero)
  have z: "zeroed ?msg = ?msg" "length ?msg = 64"
    by (simp_all add: wit_reply_ok(2) zeroed_def replicate_add [symmetric])
  have c: "can_sign wit_st sign_session (reply_rq sign_read ?msg)" "verified_reply sign_session (reply_rq sign_read ?msg)"
    using sign_read_can_sign(1,2) by (simp_all add: can_sign_def verified_reply_def signing_key_def)
  have ne: "?msg \<noteq> []" by (simp add: wit_reply_ok(2))
  have s: "take 16 (drop 48 ?msg) = replicate 16 0" "sum_list ?msg = 46"
    by (simp_all add: wit_reply_ok(2) sum_list_replicate)
  have "signing_key wit_st sign_session (reply_rq sign_read ?msg) = (210 # replicate 15 0, 16)"
    using sign_read_can_sign(3) by (simp add: signing_key_def)
  then have "expected_signature sum_lib wit_st sign_session (reply_rq sign_read ?msg) True ?msg = replicate 16 0"
    using s(2) by (simp add: expected_signature_def sign_session_simps sum_lib_def sum_mac_def sum_list_replicate)
  then have v: "?v (reply_rq sign_read ?msg) wit_reply (take 16 (drop 48 ?msg)) = 0"
    using smb2_rq_verify_spec [OF wit_reply_ok(1) ne sum_lib_wf c] z s(1) by (simp add: Let_def reply_len_def nxt)
  have "parse_post ?v (\<lambda>_. id) wit_st sign_session sign_read wit_reply
      (parse_header_fields ?v (\<lambda>_. id) wit_st sign_session sign_read wit_reply False)"
    by (rule parse_header_fields_spec [OF wit_reply_ok(1)])
  then obtain m where m: "parse_header_fields ?v (\<lambda>_. id) wit_st sign_session sign_read wit_reply False =
      parse_header_status ?v (\<lambda>_. id) (reply_credits wit_st sign_read ?msg) sign_session (reply_rq sign_read ?msg)
        wit_reply (take 16 (drop 48 ?msg)) m"
    using ok unfolding parse_post_def by auto
  have "fst (parse_header_status ?v (\<lambda>_. id) (reply_credits wit_st sign_read ?msg) sign_session (reply_rq sign_read ?msg)
        wit_reply (take 16 (drop 48 ?msg)) m) = 0"
    unfolding parse_header_status_def v
    by (simp add: wit_reply_fld(2) sign_read_simps Let_def smb_ntstatus_to_errno_def)
  then have "fst (smb2_rq_parse_header ?v (\<lambda>_. id) wit_st sign_session sign_read wit_reply False) = 0"
    using sign_read_simps(6) by (simp add: smb2_rq_parse_header_def m split: prod.split)
  then obtain rqp' mdp' st' where
    r: "smb2_rq_parse_header ?v (\<lambda>_. id) wit_st sign_session sign_read wit_reply False = (0, rqp', mdp', st')"
    by (cases "smb2_rq_parse_header ?v (\<lambda>_. id) wit_st sign_session sign_read wit_reply False") auto
  have "\<not> encryption_on sign_session sign_read"
    by (simp add: encryption_on_def sign_session_simps sign_read_simps)
  with accepted_reply_authentic [OF _ sum_lib_wf sign_read_can_sign(1,2) _ r] wit_reply_ok(1) sign_read_simps(6) r
  show ?thesis by auto
qed
lemma sign_each_all:
  assumes "length rqps = length ms"
    and "\<And>rqp m. (rqp, m) \<in> set (zip rqps ms) \<Longrightarrow> \<exists>rqp'. sign rqp = Some rqp' \<and> P rqp m rqp'"
  shows "\<exists>rqps'. sign_each sign rqps = Some rqps' \<and> length rqps' = length rqps \<and>
           (\<forall>i < length rqps. P (rqps ! i) (ms ! i) (rqps' ! i))"
  using assms
proof (induction rqps ms rule: list_induct2)
  case Nil
  then show ?case by simp
next
  case (Cons rqp rqps m ms)
  obtain rqp' where h: "sign rqp = Some rqp'" "P rqp m rqp'" using Cons.prems by auto
  obtain rqps' where t: "sign_each sign rqps = Some rqps'" "length rqps' = length rqps"
    "\<forall>i < length rqps. P (rqps ! i) (ms ! i) (rqps' ! i)" using Cons.IH Cons.prems by fastforce
  then have "\<forall>i < length (rqp # rqps). P ((rqp # rqps) ! i) ((m # ms) ! i) ((rqp' # rqps') ! i)"
    using h(2) by (auto simp: less_Suc_eq_0_disj)
  then show ?case using h t by (intro exI [of _ "rqp' # rqps'"]) simp
qed

lemma hdr_signature:
  assumes "hdr_wf h"
  shows "take 16 (drop 48 (hdr_enc h @ body)) = h_signature h"
    "zeroed (hdr_enc h @ body) = hdr_enc (h\<lparr>h_signature := replicate 16 0\<rparr>) @ body"
  using assms by (simp_all add: hdr_enc_def hdr_wf_def SMB2_SIGNATURE_def zeroed_def)

lemma signed_hdr_facts:
  assumes "lib_wf lib" "implements rqp' (signed_hdr lib st sessionp rqp h body) body"
  shows "h_flags (signed_hdr lib st sessionp rqp h body) AND SMB2_FLAGS_SIGNED \<noteq> 0"
    and "take 16 (drop 48 (chain_bytes (mb_top (sr_rq rqp')))) =
           expected_signature lib st sessionp rqp False (zeroed (chain_bytes (mb_top (sr_rq rqp'))))"
proof -
  have wf: "hdr_wf (signed_hdr lib st sessionp rqp h body)" using assms(2) by (simp add: implements_def)
  have "(h_flags h OR SMB2_FLAGS_SIGNED) AND SMB2_FLAGS_SIGNED = SMB2_FLAGS_SIGNED"
    by (simp add: bit_eq_iff bit_simps)
  then show "h_flags (signed_hdr lib st sessionp rqp h body) AND SMB2_FLAGS_SIGNED \<noteq> 0"
    by (simp add: signed_hdr_def unsigned_hdr_def)
  have "(signed_hdr lib st sessionp rqp h body)\<lparr>h_signature := replicate 16 0\<rparr> = unsigned_hdr h"
    by (simp add: signed_hdr_def unsigned_hdr_def)
  then show "take 16 (drop 48 (chain_bytes (mb_top (sr_rq rqp')))) =
           expected_signature lib st sessionp rqp False (zeroed (chain_bytes (mb_top (sr_rq rqp'))))"
    using implements_bytes [OF assms(2)] hdr_signature [OF wf, of body] by (simp add: signed_hdr_def)
qed

text \<open>C12: Signing a request, or every request of a compound, puts into each of them the signed flag and
  the MAC of the message with a zero signature, at the right place of the chain, and changes nothing
  else; it does so for each request when all have the session and can sign. The receiver who clears the
  sixteen bytes and computes the MAC finds the same.\<close>

theorem sign_requests:
  assumes "lib_wf lib" "rqps \<noteq> []" "length rqps = length ms"
    and "\<forall>(rqp, h, body) \<in> set (zip rqps ms). can_sign st sessionp rqp \<and> implements rqp h body"
  shows "\<exists>rqps'. smb2_rq_sign lib st rqps = Some (0, rqps') \<and> length rqps' = length rqps \<and>
           (\<forall>i < length rqps. case ms ! i of (h, body) \<Rightarrow>
              let h' = signed_hdr lib st sessionp (rqps ! i) h body; msg = chain_bytes (mb_top (sr_rq (rqps' ! i)))
              in implements (rqps' ! i) h' body \<and> h_flags h' AND SMB2_FLAGS_SIGNED \<noteq> 0 \<and>
                 take 16 (drop 48 msg) = expected_signature lib st sessionp (rqps ! i) False (zeroed msg))"
proof -
  define sign where "sign = (if SMBV_SMB3_OR_LATER sessionp then smb3_sign lib st else smb2_sign lib)"
  define good where "good = (\<lambda>rqp m rqp'. implements rqp' (signed_hdr lib st sessionp rqp (fst m) (snd m)) (snd m))"
  have one: "\<exists>rqp'. sign rqp = Some rqp' \<and> good rqp m rqp'" if "(rqp, m) \<in> set (zip rqps ms)" for rqp m
  proof -
    have c: "can_sign st sessionp rqp" "implements rqp (fst m) (snd m)"
      using bspec [OF assms(4) that] by (simp_all add: case_prod_beta)
    show ?thesis using sign_one [OF assms(1) c] by (simp add: sign_def good_def if_distrib [of "\<lambda>f. f rqp"])
  qed
  obtain rqps' where r: "sign_each sign rqps = Some rqps'" "length rqps' = length rqps"
    "\<And>i. i < length rqps \<Longrightarrow> good (rqps ! i) (ms ! i) (rqps' ! i)"
    using sign_each_all [where P = good and sign = sign, OF assms(3) one] by blast
  have s: "smb2_rq_sign lib st rqps = Some (0, rqps')"
  proof -
    obtain rqp rest where d: "rqps = rqp # rest" using assms(2) by (cases rqps) auto
    then have "(rqp, ms ! 0) \<in> set (zip rqps ms)" using assms(3) by (cases ms) auto
    from bspec [OF assms(4) this] obtain k where "sr_session rqp = Some sessionp" "session_mackey sessionp = Some k"
      by (auto simp: can_sign_def)
    then show ?thesis using r(1) d unfolding sign_def by (simp add: smb2_rq_sign_def del: sign_each.simps)
  qed
  show ?thesis
    using s r(2,3) signed_hdr_facts [OF assms(1) r(3) [unfolded good_def]]
    by (intro exI [of _ rqps']) (simp add: good_def Let_def case_prod_beta)
qed

theorem sign_requests_witness:
  "\<exists>rqp rqp'. implements rqp (new_hdr wit_rq) [] \<and> smb2_rq_sign sum_lib wit_st [rqp] = Some (0, [rqp']) \<and>
     implements rqp' (signed_hdr sum_lib wit_st sign_session rqp (new_hdr wit_rq) []) []"
proof -
  have nf: "\<not> getm_fails (smb_mbuf_getm wit_kpi)"
    using wit_kpi_wf(2) smb_mbuf_getm_fails [OF wit_kpi_wf(1)] by blast
  from kernel_mbufs.rq_new_implements [OF wit_kpi_wf(1) nf refl wit_mbuf_ok(1,3,2,1), of wit_rq]
  obtain r where r: "implements r (new_hdr wit_rq) []" by (auto simp: new_post_def)
  define rqp where "rqp = r\<lparr>sr_session := Some sign_session, sr_iod := Some 0\<rparr>"
  have i: "implements rqp (new_hdr wit_rq) []" using r by (simp add: implements_def rqp_def)
  have "can_sign wit_st sign_session rqp"
    by (simp add: can_sign_def signing_key_def sign_session_simps rqp_def wit_st_def wit_iod_def)
  with i have "\<forall>(q, h, body) \<in> set (zip [rqp] [(new_hdr wit_rq, [])]). can_sign wit_st sign_session q \<and> implements q h body"
    by simp
  from sign_requests [OF sum_lib_wf _ _ this] obtain rqps' where s: "smb2_rq_sign sum_lib wit_st [rqp] = Some (0, rqps')"
    "length rqps' = 1" "implements (rqps' ! 0) (signed_hdr sum_lib wit_st sign_session rqp (new_hdr wit_rq) []) []"
    by (auto simp: Let_def)
  moreover obtain rqp' where "rqps' = [rqp']" using s(2) by (cases rqps') auto
  ultimately show ?thesis using i by auto
qed

text \<open>The nonces of GMAC: two messages have the same nonce only when they have the same message id, are
  both requests or both replies, and are both a cancel or both something else. A cancel has the message
  id of the request it cancels, and it gets a nonce of its own.\<close>

lemma smb3_init_gmac_iv_inj:
  "smb3_init_gmac_iv message_id command is_response = smb3_init_gmac_iv message_id' command' is_response' \<longleftrightarrow>
     message_id = message_id' \<and> (command = SMB2_CANCEL \<longleftrightarrow> command' = SMB2_CANCEL) \<and> is_response = is_response'"
proof -
  have "inj le32" "inj le64" by (metis injI word_decode(2), metis injI word_decode(3))
  then show ?thesis
    by (auto simp: smb3_init_gmac_iv_def inj_eq split: if_splits)
qed

text \<open>C39: With a channel that is to use its own keys and has none yet, any reply whose signature field
  is zero passes the verification of SMB 3, whatever else is in it: only the length of the key of the session
  is looked at, and without a key of the channel the expected signature stays zero.\<close>

theorem zero_signature_accepted:
  assumes "md_inv mdp" "64 \<le> length (md_rest mdp)" "sr_session rqp = Some sessionp"
    and "16 \<le> session_smb3_signing_key_len sessionp" "SMBV_SMB3_OR_LATER sessionp"
    and "sr_iod rqp = Some i" "iod_flags (iods st i) AND SMBIOD_USE_CHANNEL_KEYS \<noteq> 0"
    and "iod_smb3_signing_key_len (iods st i) < 16"
  shows "smb2_rq_verify lib st rqp mdp (replicate 16 0) = 0"
proof -
  have cur: "md_cur mdp < length (md_top mdp)"
    using assms(2) by (auto simp: md_rest_def rest_bytes_def split: if_splits)
  have "smb3_verify lib st sessionp rqp mdp (sr_rspnextcmd rqp) (replicate 16 0) = 0"
    using assms(2,4,6-8)
    by (simp add: smb3_verify_spec [OF assms(1) cur] smb3_get_signature_def signing_key_def cc_cmp_safe_def)
  then show ?thesis using assms(3,5) by (simp add: smb2_rq_verify_def split: option.split)
qed

theorem zero_signature_accepted_witness:
  "smb2_rq_verify sum_lib (wit_st\<lparr>iods := (\<lambda>_. wit_iod\<lparr>iod_flags := SMBIOD_USE_CHANNEL_KEYS\<rparr>)\<rparr>) sign_read wit_reply
     (replicate 16 0) = 0"
  by (rule zero_signature_accepted [where sessionp = sign_session and i = 0])
    (simp_all add: wit_reply_ok sign_read_simps sign_session_simps wit_iod_def)

end
