(* ===== verification/Encrypt.thy ===== *)
theory Encrypt
  imports Sign
begin

text \<open>
  The keys of SMB 3 and encryption (\<^verbatim>\<open>src/kernel/netsmb/smb_crypt.c\<close>): the nonce and the keys of a session
  and of a further channel, the hash over the messages before authentication, the transform header with
  the encrypted request behind it, and the decryption of a message, in place or through a buffer.

  AES-GCM and AES-CCM are a parameter with the streaming interface the code uses: a context is made from
  key, nonce and additional data, is updated with one piece of the message after the other, and gives a tag.
  The operations of the kernel on chains that the code needs here are a parameter too.
\<close>

abbreviation (input) SMB2_ENCRYPTION_AES_128_CCM :: u16 where "SMB2_ENCRYPTION_AES_128_CCM \<equiv> 1"
abbreviation (input) SMB2_ENCRYPTION_AES_128_GCM :: u16 where "SMB2_ENCRYPTION_AES_128_GCM \<equiv> 2"
abbreviation (input) SMB2_ENCRYPTION_AES_256_CCM :: u16 where "SMB2_ENCRYPTION_AES_256_CCM \<equiv> 3"
abbreviation (input) SMB2_ENCRYPTION_AES_256_GCM :: u16 where "SMB2_ENCRYPTION_AES_256_GCM \<equiv> 4"
abbreviation (input) SMB3_256BIT_KEY_LEN :: nat where "SMB3_256BIT_KEY_LEN \<equiv> 32"
abbreviation (input) SMB3_AES_TF_HDR_LEN :: nat where "SMB3_AES_TF_HDR_LEN \<equiv> 52"
abbreviation (input) SMB3_AES_AUTHDATA_OFF :: nat where "SMB3_AES_AUTHDATA_OFF \<equiv> 20"
abbreviation (input) SMB3_AES_AUTHDATA_LEN :: nat where "SMB3_AES_AUTHDATA_LEN \<equiv> 32"
abbreviation (input) SMB3_AES_TF_SIG_LEN :: nat where "SMB3_AES_TF_SIG_LEN \<equiv> 16"
abbreviation (input) SMB3_CCM_NONCE_LEN :: nat where "SMB3_CCM_NONCE_LEN \<equiv> 11"
abbreviation (input) SMB3_GCM_NONCE_LEN :: nat where "SMB3_GCM_NONCE_LEN \<equiv> 12"

declare kDefaultMaxIOSize_def [simp]

definition SMB3_AES_TF_PROTO_STR :: "byte list" where
  "SMB3_AES_TF_PROTO_STR = [0xFD, 0x53, 0x4D, 0x42]"

section \<open>Keys\<close>

definition smb3_init_nonce :: "crypto_lib \<Rightarrow> u64 \<Rightarrow> smb_session \<Rightarrow> smb_session" where
  "smb3_init_nonce lib nsec sessionp =
     (let digest = MD5 lib ((case session_mackey sessionp of None \<Rightarrow> [] | Some k \<Rightarrow> k) @ le64 nsec @
                            le64 (session_session_id sessionp))
      in sessionp\<lparr>session_smb3_nonce_high := of_nat (le_dec (take 8 digest)),
                  session_smb3_nonce_low := of_nat (le_dec (take 8 (drop 8 digest)))\<rparr>)"

definition smb_kdf_hmac_sha256 ::
  "crypto_lib \<Rightarrow> byte list \<Rightarrow> byte list \<Rightarrow> byte list \<Rightarrow> nat \<Rightarrow> errno + byte list" where
  "smb_kdf_hmac_sha256 lib input_key label ctx output_key_len = ccnistkdf_ctr_hmac lib input_key label ctx output_key_len"

text \<open>A label or context with the terminating zero that is part of it.\<close>

definition cstring :: "string \<Rightarrow> byte list" where
  "cstring s = map (\<lambda>c. of_nat (of_char c)) s @ [0]"

definition SHA512_DIGEST_LENGTH :: nat where "SHA512_DIGEST_LENGTH = 64"

text \<open>Whether the cipher has keys of 256 bits.\<close>

definition is_256 :: "smb_session \<Rightarrow> bool" where
  "is_256 sessionp \<longleftrightarrow>
     session_smb3_encrypt_ciper sessionp = SMB2_ENCRYPTION_AES_256_CCM \<or>
     session_smb3_encrypt_ciper sessionp = SMB2_ENCRYPTION_AES_256_GCM"

definition derive_signing_key :: "crypto_lib \<Rightarrow> smb_session \<Rightarrow> smbiod \<Rightarrow> byte list \<Rightarrow> errno + byte list" where
  "derive_signing_key lib sessionp iod mackey =
     (if session_flags sessionp AND SMBV_SMB311 \<noteq> 0
      then smb_kdf_hmac_sha256 lib mackey (cstring ''SMBSigningKey'')
             (take SHA512_DIGEST_LENGTH (iod_pre_auth_int_hash iod)) SMB3_KEY_LEN
      else smb_kdf_hmac_sha256 lib mackey (cstring ''SMB2AESCMAC'') (cstring ''SmbSign'') SMB3_KEY_LEN)"

definition derive_cipher_key ::
  "crypto_lib \<Rightarrow> smb_session \<Rightarrow> smbiod \<Rightarrow> byte list \<Rightarrow> string \<Rightarrow> string \<Rightarrow> nat \<times> (errno + byte list)" where
  "derive_cipher_key lib sessionp iod mackey label311 context30 =
     (if session_flags sessionp AND SMBV_SMB311 \<noteq> 0
      then
        let (key, key_len) = (if is_256 sessionp
                              then (case full_session_mackey sessionp of None \<Rightarrow> [] | Some k \<Rightarrow> k, SMB3_256BIT_KEY_LEN)
                              else (mackey, SMB3_KEY_LEN))
        in (key_len, smb_kdf_hmac_sha256 lib key (cstring label311)
                       (take SHA512_DIGEST_LENGTH (iod_pre_auth_int_hash iod)) key_len)
      else (SMB3_KEY_LEN, smb_kdf_hmac_sha256 lib mackey (cstring ''SMB2AESCCM'') (cstring context30) SMB3_KEY_LEN))"

text \<open>The error is the one of the last of the three derivations.\<close>

definition smb3_derive_keys ::
  "crypto_lib \<Rightarrow> u64 \<Rightarrow> smb_session \<Rightarrow> smbiod option \<Rightarrow> errno \<times> smb_session" where
  "smb3_derive_keys lib nsec sessionp iodp =
     (case iodp of
        None \<Rightarrow> (EINVAL, sessionp)
      | Some iod \<Rightarrow>
          let sessionp = sessionp\<lparr>session_smb3_signing_key_len := 0, session_smb3_encrypt_key_len := 0,
                                  session_smb3_decrypt_key_len := 0\<rparr>;
              sessionp = smb3_init_nonce lib nsec sessionp
          in case session_mackey sessionp of
               None \<Rightarrow> (EINVAL, sessionp)
             | Some mackey \<Rightarrow>
                 let sessionp = (case derive_signing_key lib sessionp iod mackey of
                                   Inl err \<Rightarrow> sessionp
                                 | Inr key \<Rightarrow> sessionp\<lparr>session_smb3_signing_key := key,
                                                       session_smb3_signing_key_len := SMB3_KEY_LEN\<rparr>);
                     sessionp = (case derive_cipher_key lib sessionp iod mackey ''SMBC2SCipherKey'' ''ServerIn '' of
                                   (key_len, Inl err) \<Rightarrow> sessionp
                                 | (key_len, Inr key) \<Rightarrow> sessionp\<lparr>session_smb3_encrypt_key := key,
                                                                  session_smb3_encrypt_key_len := key_len\<rparr>)
                 in case derive_cipher_key lib sessionp iod mackey ''SMBS2CCipherKey'' ''ServerOut'' of
                      (key_len, Inl err) \<Rightarrow> (err, sessionp)
                    | (key_len, Inr key) \<Rightarrow> (0, sessionp\<lparr>session_smb3_decrypt_key := key,
                                                          session_smb3_decrypt_key_len := key_len\<rparr>))"

definition smb3_derive_channel_keys :: "crypto_lib \<Rightarrow> smb_session \<Rightarrow> smbiod option \<Rightarrow> errno \<times> smbiod option" where
  "smb3_derive_channel_keys lib sessionp iodp =
     (case iodp of
        None \<Rightarrow> (EINVAL, None)
      | Some iod \<Rightarrow>
          (case iod_mackey iod of
             None \<Rightarrow> (EINVAL, Some iod)
           | Some mackey \<Rightarrow>
               (case derive_signing_key lib sessionp iod mackey of
                  Inl err \<Rightarrow> (err, Some (iod\<lparr>iod_smb3_signing_key_len := 0\<rparr>))
                | Inr key \<Rightarrow> (0, Some (iod\<lparr>iod_smb3_signing_key := key, iod_smb3_signing_key_len := SMB3_KEY_LEN\<rparr>)))))"

definition smb311_pre_auth_integrity_hash_init ::
  "crypto_lib \<Rightarrow> smbiod option \<Rightarrow> u16 \<Rightarrow> mbuf list \<Rightarrow> errno \<times> smbiod option" where
  "smb311_pre_auth_integrity_hash_init lib iodp command m0 =
     (case iodp of
        None \<Rightarrow> (EINVAL, None)
      | Some iod \<Rightarrow>
          let start = (if command = SMB2_NEGOTIATE then replicate 64 0
                       else take SHA512_DIGEST_LENGTH (iod_pre_auth_int_hash_neg iod))
          in (0, Some (iod\<lparr>iod_pre_auth_int_hash := SHA512 lib (start @ chain_bytes m0)\<rparr>)))"

definition smb311_pre_auth_integrity_hash_update ::
  "crypto_lib \<Rightarrow> smbiod option \<Rightarrow> mbuf list \<Rightarrow> errno \<times> smbiod option" where
  "smb311_pre_auth_integrity_hash_update lib iodp m0 =
     (case iodp of
        None \<Rightarrow> (EINVAL, None)
      | Some iod \<Rightarrow>
          (0, Some (iod\<lparr>iod_pre_auth_int_hash :=
             SHA512 lib (take SHA512_DIGEST_LENGTH (iod_pre_auth_int_hash iod) @ chain_bytes m0)\<rparr>)))"

section \<open>The ciphers and the chains\<close>

record 'c aead_lib =
  ccgcm_start :: "bool \<Rightarrow> byte list \<Rightarrow> byte list \<Rightarrow> byte list \<Rightarrow> 'c"
  ccgcm_update :: "'c \<Rightarrow> byte list \<Rightarrow> 'c \<times> byte list"
  ccgcm_finalize :: "'c \<Rightarrow> byte list"
  ccccm_start :: "bool \<Rightarrow> byte list \<Rightarrow> byte list \<Rightarrow> nat \<Rightarrow> nat \<Rightarrow> byte list \<Rightarrow> 'c"
  ccccm_update :: "'c \<Rightarrow> byte list \<Rightarrow> 'c \<times> byte list"
  ccccm_finalize :: "'c \<Rightarrow> byte list"

record mbuf_ops =
  mbuf_concatenate :: "mbuf list \<Rightarrow> mbuf list \<Rightarrow> mbuf list"
  mbuf_split :: "mbuf list \<Rightarrow> nat \<Rightarrow> (mbuf list \<times> mbuf list) option"
  mbuf_pullup :: "mbuf list \<Rightarrow> nat \<Rightarrow> mbuf list option"

definition is_gcm :: "u16 \<Rightarrow> bool" where
  "is_gcm cipher \<longleftrightarrow> cipher = SMB2_ENCRYPTION_AES_128_GCM \<or> cipher = SMB2_ENCRYPTION_AES_256_GCM"

definition known_cipher :: "smb_session \<Rightarrow> smb_session" where
  "known_cipher sessionp =
     (if session_smb3_encrypt_ciper sessionp \<in>
           {SMB2_ENCRYPTION_AES_128_CCM, SMB2_ENCRYPTION_AES_128_GCM, SMB2_ENCRYPTION_AES_256_CCM, SMB2_ENCRYPTION_AES_256_GCM}
      then sessionp else sessionp\<lparr>session_smb3_encrypt_ciper := SMB2_ENCRYPTION_AES_128_CCM\<rparr>)"

text \<open>
  The context of a cipher for one message: \<open>encrypting\<close> is the mode, \<open>tf\<close> the transform header, whose
  nonce starts where the authenticated data does.
\<close>

definition cipher_start :: "'c aead_lib \<Rightarrow> bool \<Rightarrow> u16 \<Rightarrow> byte list \<Rightarrow> byte list \<Rightarrow> nat \<Rightarrow> 'c" where
  "cipher_start aead encrypting cipher key tf msglen =
     (let authdata = take SMB3_AES_AUTHDATA_LEN (drop SMB3_AES_AUTHDATA_OFF tf)
      in if is_gcm cipher then ccgcm_start aead encrypting key (take SMB3_GCM_NONCE_LEN authdata) authdata
         else ccccm_start aead encrypting key (take SMB3_CCM_NONCE_LEN authdata) SMB3_AES_TF_SIG_LEN msglen authdata)"

definition cipher_update :: "'c aead_lib \<Rightarrow> u16 \<Rightarrow> 'c \<Rightarrow> byte list \<Rightarrow> 'c \<times> byte list" where
  "cipher_update aead cipher = (if is_gcm cipher then ccgcm_update aead else ccccm_update aead)"

definition cipher_finalize :: "'c aead_lib \<Rightarrow> u16 \<Rightarrow> 'c \<Rightarrow> byte list" where
  "cipher_finalize aead cipher = (if is_gcm cipher then ccgcm_finalize aead else ccccm_finalize aead)"

text \<open>The loop that encrypts or decrypts in place, one mbuf after the other.\<close>

fun crypt_mbufs :: "('c \<Rightarrow> byte list \<Rightarrow> 'c \<times> byte list) \<Rightarrow> 'c \<Rightarrow> mbuf list \<Rightarrow> 'c \<times> mbuf list" where
  "crypt_mbufs update c [] = (c, [])"
| "crypt_mbufs update c (mb # rest) =
     (let (c, mb) = (if m_len mb \<noteq> 0
                     then let (c, out) = update c (mbuf_bytes mb) in (c, mb\<lparr>m_data := mem_write 0 out (m_data mb)\<rparr>)
                     else (c, mb));
          (c, rest) = crypt_mbufs update c rest
      in (c, mb # rest))"

section \<open>Encryption of a request\<close>

text \<open>The nonce of a session is a counter; for one message all but 12 or 11 bytes of it are cleared.\<close>

definition next_nonce :: "smb_session \<Rightarrow> smb_session" where
  "next_nonce sessionp =
     (let low = session_smb3_nonce_low sessionp + 1
      in if low = 0
         then sessionp\<lparr>session_smb3_nonce_low := low + 1, session_smb3_nonce_high := session_smb3_nonce_high sessionp + 1\<rparr>
         else sessionp\<lparr>session_smb3_nonce_low := low\<rparr>)"

definition nonce_bytes :: "smb_session \<Rightarrow> byte list" where
  "nonce_bytes sessionp =
     (let nonce = le64 (session_smb3_nonce_high sessionp) @ le64 (session_smb3_nonce_low sessionp)
      in if is_gcm (session_smb3_encrypt_ciper sessionp) then mem_write 12 (replicate 4 0) nonce
         else mem_write 11 (replicate 5 0) nonce)"

text \<open>The transform header with the signature field still zero. The algorithm, or the flags, is 1.\<close>

definition tf_header :: "byte list \<Rightarrow> byte list \<Rightarrow> u32 \<Rightarrow> u64 \<Rightarrow> byte list" where
  "tf_header sig nonce msglen sessid =
     SMB3_AES_TF_PROTO_STR @ sig @ nonce @ le32 msglen @ le16 0 @ le16 1 @ le64 sessid"

text \<open>
  The chain that is encrypted, taken out of the request: all requests of a compound, one behind the other, the
  compressed write or the request. The second part is whether the chain goes back to
  \<^verbatim>\<open>sr_rq_compressed\<close>.
\<close>

fun detach_all :: "mbuf_ops \<Rightarrow> mbuf list \<Rightarrow> smb_rq list \<Rightarrow> mbuf list \<times> smb_rq list" where
  "detach_all ops mb [] = (mb, [])"
| "detach_all ops mb (tmp_rqp # rest) =
     (let (m2, mbp) = mb_detach (sr_rq tmp_rqp);
          (mb, rest) = detach_all ops (mbuf_concatenate ops mb m2) rest
      in (mb, tmp_rqp\<lparr>sr_rq := mbp\<rparr> # rest))"

definition take_chain :: "mbuf_ops \<Rightarrow> smb_rq \<Rightarrow> smb_rq list \<Rightarrow> mbuf list \<times> bool \<times> smb_rq \<times> smb_rq list" where
  "take_chain ops rqp rest =
     (if sr_flags rqp AND SMBR_COMPOUND_RQ \<noteq> 0
      then
        let (mb, mbp) = mb_detach (sr_rq rqp);
            (mb, rest) = detach_all ops mb rest
        in (snd (m_fixhdr mb), False, rqp\<lparr>sr_rq := mbp\<rparr>, rest)
      else if sr_flags rqp AND SMBR_COMPRESSED \<noteq> 0 \<and> sr_command rqp = SMB2_WRITE \<and>
              fst (mb_detach (sr_rq_compressed rqp)) \<noteq> []
      then
        let (mb, mbp) = mb_detach (sr_rq_compressed rqp)
        in (mb, True, rqp\<lparr>sr_rq_compressed := mbp\<rparr>, rest)
      else
        let (mb, mbp) = mb_detach (sr_rq rqp)
        in (mb, False, rqp\<lparr>sr_rq := mbp\<rparr>, rest))"

definition put_chain :: "bool \<Rightarrow> mbuf list \<Rightarrow> smb_rq \<Rightarrow> smb_rq" where
  "put_chain compressed mb rqp =
     (if compressed then rqp\<lparr>sr_rq_compressed := mb_initm mb\<rparr> else rqp\<lparr>sr_rq := mb_initm mb\<rparr>)"

text \<open>\<open>hdr\<close> is what \<^verbatim>\<open>mbuf_gethdr\<close> gives, \<open>rest\<close> the requests behind \<open>rqp\<close> in a compound.\<close>

definition smb3_rq_encrypt ::
  "mbuf_ops \<Rightarrow> 'c aead_lib \<Rightarrow> mbuf option \<Rightarrow> smb_session \<Rightarrow> smb_rq \<Rightarrow> smb_rq list \<Rightarrow>
     errno \<times> smb_session \<times> smb_rq \<times> smb_rq list" where
  "smb3_rq_encrypt ops aead hdr sessionp rqp rest =
     (let sessionp = known_cipher sessionp;
          (mb, compressed, rqp, rest) = take_chain ops rqp rest
      in if session_smb3_encrypt_key_len sessionp = 0 then (EINVAL, sessionp, rqp, rest)
         else case hdr of
                None \<Rightarrow> (ENOBUFS, sessionp, rqp, rest)
              | Some mb_hdr \<Rightarrow>
                  let sessionp = next_nonce sessionp;
                      nonce = nonce_bytes sessionp;
                      len = mbuf_get_chain_len mb
                  in if len > 0xffffffff then (EAUTH, sessionp, rqp, rest)
                     else
                       let tf = tf_header (replicate 16 0) nonce (of_nat len) (sr_rqsessionid rqp);
                           cipher = session_smb3_encrypt_ciper sessionp;
                           c = cipher_start aead True cipher
                                 (take (session_smb3_encrypt_key_len sessionp) (session_smb3_encrypt_key sessionp)) tf len;
                           (c, mb) = crypt_mbufs (cipher_update aead cipher) c mb;
                           sig = take SMB3_AES_TF_SIG_LEN (cipher_finalize aead cipher c);
                           tf = tf_header sig nonce (of_nat len) (sr_rqsessionid rqp);
                           mb_hdr = mb_hdr\<lparr>m_data := mem_write 0 tf (m_data mb_hdr), m_len := SMB3_AES_TF_HDR_LEN\<rparr>;
                           mb = snd (m_fixhdr (mbuf_concatenate ops [mb_hdr] mb))
                       in (0, sessionp, put_chain compressed mb rqp, rest))"

section \<open>Decryption of a message\<close>

text \<open>Copying the chain into the buffer and back. A buffer that is too short is an error.\<close>

fun copy_in :: "mbuf list \<Rightarrow> nat \<Rightarrow> byte list \<Rightarrow> byte list option" where
  "copy_in [] ncopy_bytes buf = Some buf"
| "copy_in (mb # rest) ncopy_bytes buf =
     (let nbytes = m_len mb
      in if nbytes \<noteq> 0
         then if ncopy_bytes + nbytes \<le> length buf
              then copy_in rest (ncopy_bytes + nbytes) (mem_write ncopy_bytes (mbuf_bytes mb) buf)
              else None
         else copy_in rest ncopy_bytes buf)"

fun copy_out :: "mbuf list \<Rightarrow> nat \<Rightarrow> byte list \<Rightarrow> mbuf list option" where
  "copy_out [] ncopy_bytes buf = Some []"
| "copy_out (mb # rest) ncopy_bytes buf =
     (let nbytes = m_len mb
      in if nbytes \<noteq> 0
         then if ncopy_bytes + nbytes \<le> length buf
              then map_option
                     ((#) (mb\<lparr>m_data := mem_write 0 (take nbytes (drop ncopy_bytes buf)) (m_data mb)\<rparr>))
                     (copy_out rest (ncopy_bytes + nbytes) buf)
              else None
         else map_option ((#) mb) (copy_out rest ncopy_bytes buf))"

text \<open>The buffer of the session, a new one when there is none or it is too short. \<open>None\<close>: no memory.\<close>

definition decrypt_buffer :: "(nat \<Rightarrow> byte list option) \<Rightarrow> smb_session \<Rightarrow> nat \<Rightarrow> smb_session" where
  "decrypt_buffer alloc sessionp msglen =
     (case decrypt_bufferp sessionp of
        None \<Rightarrow> sessionp\<lparr>decrypt_bufferp := alloc msglen\<rparr>
      | Some buf \<Rightarrow> if msglen > length buf then sessionp\<lparr>decrypt_bufferp := alloc msglen\<rparr> else sessionp)"

text \<open>Decrypting the payload: the new context, the chain and the session with its buffer, or an error.\<close>

definition decrypt_payload ::
  "'c aead_lib \<Rightarrow> (nat \<Rightarrow> byte list option) \<Rightarrow> smb_session \<Rightarrow> 'c \<Rightarrow> nat \<Rightarrow> mbuf list \<Rightarrow>
     (errno + 'c \<times> mbuf list) \<times> smb_session" where
  "decrypt_payload aead alloc sessionp c msglen payload =
     (let update = cipher_update aead (session_smb3_encrypt_ciper sessionp)
      in if msglen > 64 * 1024
         then
           let sessionp = decrypt_buffer alloc sessionp msglen
           in case decrypt_bufferp sessionp of
                None \<Rightarrow> (Inl EAUTH, sessionp)
              | Some buf \<Rightarrow>
                  (case copy_in payload 0 buf of
                     None \<Rightarrow> (Inl EAUTH, sessionp)
                   | Some buf \<Rightarrow>
                       let (c, out) = update c (take msglen buf);
                           buf = mem_write 0 out buf;
                           sessionp = sessionp\<lparr>decrypt_bufferp := Some buf\<rparr>
                       in case copy_out payload 0 buf of
                            None \<Rightarrow> (Inl EAUTH, sessionp)
                          | Some payload \<Rightarrow> (Inr (c, payload), sessionp))
         else (Inr (crypt_mbufs update c payload), sessionp))"

text \<open>Pulling up the header makes it lie in the first mbuf. \<open>alloc\<close> gives memory with whatever is in it.\<close>

definition smb3_msg_decrypt ::
  "mbuf_ops \<Rightarrow> 'c aead_lib \<Rightarrow> (nat \<Rightarrow> byte list option) \<Rightarrow> smb_session \<Rightarrow> mbuf list \<Rightarrow>
     (errno + mbuf list) \<times> smb_session" where
  "smb3_msg_decrypt ops aead alloc sessionp mb =
     (let sessionp = known_cipher sessionp
      in if session_smb3_decrypt_key_len sessionp = 0 then (Inl EAUTH, sessionp)
         else case mbuf_split ops mb SMB3_AES_TF_HDR_LEN of
                None \<Rightarrow> (Inl EBADRPC, sessionp)
              | Some (mb_hdr, mbuf_payload) \<Rightarrow>
                  (case mbuf_pullup ops mb_hdr SMB3_AES_TF_HDR_LEN of
                     None \<Rightarrow> (Inl EBADRPC, sessionp)
                   | Some mb_hdr \<Rightarrow>
                       let tf = take SMB3_AES_TF_HDR_LEN (m_data (hd mb_hdr));
                           msglen = fld tf 36 4
                       in if take 4 tf \<noteq> SMB3_AES_TF_PROTO_STR then (Inl EBADRPC, sessionp)
                          else if fld tf 42 2 \<noteq> 1 then (Inl EAUTH, sessionp)
                          else if of_nat (fld tf 44 8) \<noteq> session_session_id sessionp then (Inl EAUTH, sessionp)
                          else if msglen > kDefaultMaxIOSize then (Inl EIO, sessionp)
                          else
                            let cipher = session_smb3_encrypt_ciper sessionp;
                                c = cipher_start aead False cipher
                                      (take (session_smb3_decrypt_key_len sessionp) (session_smb3_decrypt_key sessionp)) tf msglen
                            in case decrypt_payload aead alloc sessionp c msglen mbuf_payload of
                                 (Inl e, sessionp) \<Rightarrow> (Inl e, sessionp)
                               | (Inr (c, mbuf_payload), sessionp) \<Rightarrow>
                                   if cc_cmp_safe SMB3_AES_TF_SIG_LEN (cipher_finalize aead cipher c)
                                        (take SMB3_AES_TF_SIG_LEN (drop 4 tf)) \<noteq> 0
                                   then (Inl EAUTH, sessionp)
                                   else (Inr mbuf_payload, sessionp)))"

section \<open>What the ciphers and the kernel promise\<close>

text \<open>A stream: a message may be given in pieces, and no byte is added or lost.\<close>

definition streaming :: "('c \<Rightarrow> byte list \<Rightarrow> 'c \<times> byte list) \<Rightarrow> bool" where
  "streaming update \<longleftrightarrow>
     (\<forall>c. update c [] = (c, [])) \<and> (\<forall>c m. length (snd (update c m)) = length m) \<and>
     (\<forall>c a b. update c (a @ b) =
        (let (c, x) = update c a; (c, y) = update c b in (c, x @ y)))"

text \<open>Decryption with the same key, nonce and data inverts encryption and finds the same tag.\<close>

definition inverts :: "('c \<Rightarrow> byte list \<Rightarrow> 'c \<times> byte list) \<Rightarrow> ('c \<Rightarrow> byte list) \<Rightarrow> 'c \<Rightarrow> 'c \<Rightarrow> byte list \<Rightarrow> bool" where
  "inverts update final enc dec m \<longleftrightarrow>
     (let (c, ct) = update enc m; (d, pt) = update dec ct in pt = m \<and> final d = final c)"

definition aead_wf :: "'c aead_lib \<Rightarrow> bool" where
  "aead_wf aead \<longleftrightarrow>
     streaming (ccgcm_update aead) \<and> streaming (ccccm_update aead) \<and>
     (\<forall>c. length (ccgcm_finalize aead c) = 16) \<and> (\<forall>c. length (ccccm_finalize aead c) = 16) \<and>
     (\<forall>k n a m. inverts (ccgcm_update aead) (ccgcm_finalize aead)
        (ccgcm_start aead True k n a) (ccgcm_start aead False k n a) m) \<and>
     (\<forall>k n a m. inverts (ccccm_update aead) (ccccm_finalize aead)
        (ccccm_start aead True k n 16 (length m) a) (ccccm_start aead False k n 16 (length m) a) m)"

abbreviation (input) chain_wf :: "mbuf list \<Rightarrow> bool" where
  "chain_wf ms \<equiv> \<forall>m \<in> set ms. mbuf_wf m"

definition mbuf_ops_wf :: "mbuf_ops \<Rightarrow> bool" where
  "mbuf_ops_wf ops \<longleftrightarrow>
     (\<forall>a b. chain_wf a \<and> chain_wf b \<longrightarrow>
        chain_wf (mbuf_concatenate ops a b) \<and> chain_bytes (mbuf_concatenate ops a b) = chain_bytes a @ chain_bytes b) \<and>
     (\<forall>ms n a b. chain_wf ms \<and> mbuf_split ops ms n = Some (a, b) \<longrightarrow>
        chain_wf a \<and> chain_wf b \<and> n \<le> length (chain_bytes ms) \<and>
        chain_bytes a = take n (chain_bytes ms) \<and> chain_bytes b = drop n (chain_bytes ms)) \<and>
     (\<forall>ms n ms'. chain_wf ms \<and> mbuf_pullup ops ms n = Some ms' \<longrightarrow>
        chain_wf ms' \<and> ms' \<noteq> [] \<and> n \<le> m_len (hd ms') \<and> chain_bytes ms' = chain_bytes ms)"

definition mbuf_ops_succeed :: "mbuf_ops \<Rightarrow> bool" where
  "mbuf_ops_succeed ops \<longleftrightarrow>
     (\<forall>ms n. chain_wf ms \<and> n \<le> length (chain_bytes ms) \<longrightarrow>
        mbuf_split ops ms n \<noteq> None \<and> mbuf_pullup ops ms n \<noteq> None)"

lemma streaming_cipher: "aead_wf aead \<Longrightarrow> streaming (cipher_update aead cipher)"
  by (simp add: aead_wf_def cipher_update_def)

lemma cipher_inverts:
  assumes "aead_wf aead"
  shows "inverts (cipher_update aead cipher) (cipher_finalize aead cipher)
           (cipher_start aead True cipher key tf (length m)) (cipher_start aead False cipher key tf (length m)) m"
  using assms by (simp add: aead_wf_def cipher_update_def cipher_finalize_def cipher_start_def Let_def)

lemma length_finalize: "aead_wf aead \<Longrightarrow> length (cipher_finalize aead cipher c) = 16"
  by (simp add: aead_wf_def cipher_finalize_def)

lemma streaming_length: "streaming update \<Longrightarrow> update c m = (c', out) \<Longrightarrow> length out = length m"
  unfolding streaming_def by (metis snd_conv)

section \<open>The loops over the chain\<close>

lemma mbuf_overwrite:
  assumes "mbuf_wf mb" "length out = m_len mb"
  shows "mbuf_wf (mb\<lparr>m_data := mem_write 0 out (m_data mb)\<rparr>)"
    "mbuf_bytes (mb\<lparr>m_data := mem_write 0 out (m_data mb)\<rparr>) = out"
  using assms by (simp_all add: mbuf_wf_def mbuf_bytes_def mem_write_def)

lemma crypt_mbufs_spec:
  assumes "streaming update" "chain_wf ms" "crypt_mbufs update c ms = (c', ms')"
  shows "update c (chain_bytes ms) = (c', chain_bytes ms') \<and> same_lens ms' ms"
  using assms(2,3)
proof (induction ms arbitrary: c c' ms')
  case Nil
  then show ?case using assms(1) by (simp add: streaming_def same_lens_def)
next
  case (Cons mb rest)
  have wf: "mbuf_wf mb" "chain_wf rest" using Cons.prems(1) by auto
  have app: "update c (a @ b) = (let (c, x) = update c a; (c, y) = update c b in (c, x @ y))" for c a b
    using assms(1) unfolding streaming_def by blast
  show ?case
  proof (cases "m_len mb = 0")
    case True
    obtain c2 rest' where r: "crypt_mbufs update c rest = (c2, rest')" by fastforce
    have "mbuf_bytes mb = []" using True by (simp add: mbuf_bytes_def)
    then show ?thesis using Cons.prems(2) Cons.IH [OF wf(2) r] True r wf(1) by (auto simp: Let_def same_lens_def)
  next
    case False
    obtain c1 out where o: "update c (mbuf_bytes mb) = (c1, out)" by fastforce
    obtain c2 rest' where r: "crypt_mbufs update c1 rest = (c2, rest')" by fastforce
    have "length out = m_len mb" using streaming_length [OF assms(1) o] wf(1) by simp
    note w = mbuf_overwrite [OF wf(1) this]
    have e: "c' = c2" "ms' = mb\<lparr>m_data := mem_write 0 out (m_data mb)\<rparr> # rest'"
      using Cons.prems(2) False o r by (simp_all add: Let_def)
    show ?thesis using Cons.IH [OF wf(2) r] w by (simp add: e app o same_lens_def)
  qed
qed

lemma copy_in_spec:
  assumes "chain_wf ms" "k \<le> length buf"
  shows "copy_in ms k buf =
           (if k + length (chain_bytes ms) \<le> length buf then Some (mem_write k (chain_bytes ms) buf) else None)"
  using assms
proof (induction ms arbitrary: k buf)
  case Nil
  then show ?case by (simp add: mem_write_def)
next
  case (Cons mb rest)
  have wf: "mbuf_wf mb" "chain_wf rest" "length (mbuf_bytes mb) = m_len mb" using Cons.prems(1) by auto
  show ?case
  proof (cases "m_len mb \<noteq> 0 \<and> k + m_len mb \<le> length buf")
    case True
    let ?buf = "mem_write k (mbuf_bytes mb) buf"
    have l: "length ?buf = length buf" using True wf(3) by simp
    have m: "mem_write (k + m_len mb) xs ?buf = mem_write k (mbuf_bytes mb @ xs) buf" for xs
      using True wf(3) Cons.prems(2) by (simp add: mem_write_def ac_simps)
    show ?thesis using True Cons.IH [OF wf(2), of "k + m_len mb" ?buf] wf(3) by (simp add: l m add.assoc)
  next
    case False
    then show ?thesis using Cons.IH [OF wf(2) Cons.prems(2)] Cons.prems(2) wf(3) by (auto simp: Let_def)
  qed
qed

lemma copy_out_spec:
  assumes "chain_wf ms" "k \<le> length buf"
  shows "if k + length (chain_bytes ms) \<le> length buf
         then \<exists>ms'. copy_out ms k buf = Some ms' \<and> same_lens ms' ms \<and>
                chain_bytes ms' = take (length (chain_bytes ms)) (drop k buf)
         else copy_out ms k buf = None"
  using assms
proof (induction ms arbitrary: k)
  case Nil
  then show ?case by (simp add: same_lens_def)
next
  case (Cons mb rest)
  have wf: "mbuf_wf mb" "chain_wf rest" "length (mbuf_bytes mb) = m_len mb" using Cons.prems(1) by auto
  show ?case
  proof (cases "m_len mb \<noteq> 0 \<and> k + m_len mb \<le> length buf")
    case True
    have "length (take (m_len mb) (drop k buf)) = m_len mb" using True by auto
    note w = mbuf_overwrite [OF wf(1) this]
    have "drop (k + m_len mb) buf = drop (m_len mb) (drop k buf)" by (simp add: add.commute)
    then show ?thesis
      using True Cons.IH [OF wf(2), of "k + m_len mb"] wf(3) w
      by (auto simp: same_lens_def add.assoc take_add split: if_splits)
  next
    case False
    have "mbuf_bytes mb = []" if "m_len mb = 0" using that by (simp add: mbuf_bytes_def)
    then show ?thesis using False Cons.IH [OF wf(2) Cons.prems(2)] Cons.prems(2) wf(1,3) by (auto simp: same_lens_def Let_def split: if_splits)
  qed
qed

section \<open>Decryption as a function of the message\<close>

definition alloc_wf :: "(nat \<Rightarrow> byte list option) \<Rightarrow> bool" where
  "alloc_wf alloc \<longleftrightarrow> (\<forall>n buf. alloc n = Some buf \<longrightarrow> length buf = n)"

text \<open>
  What is decrypted: up to 64 KB the payload. Above it as many bytes as the header says, from a buffer
  that starts with the payload and has \<open>fill\<close> behind it.
\<close>

definition cipher_text :: "nat \<Rightarrow> byte list \<Rightarrow> byte list \<Rightarrow> byte list" where
  "cipher_text msglen payload fill = (if msglen > 65536 then take msglen (payload @ fill) else payload)"

text \<open>What the caller gets: the decrypted bytes and, when they are fewer, the rest of the payload.\<close>

definition plain_text :: "byte list \<Rightarrow> nat \<Rightarrow> byte list \<Rightarrow> byte list" where
  "plain_text out msglen payload = take (length payload) (out @ drop msglen payload)"

lemma decrypt_buffer_length:
  assumes "alloc_wf alloc" "decrypt_bufferp (decrypt_buffer alloc sessionp msglen) = Some buf"
  shows "msglen \<le> length buf"
  using assms by (auto simp: decrypt_buffer_def alloc_wf_def split: option.splits if_splits)

lemma decrypt_buffer_cipher [simp]:
  "session_smb3_encrypt_ciper (decrypt_buffer alloc sessionp msglen) = session_smb3_encrypt_ciper sessionp"
  by (simp add: decrypt_buffer_def split: option.split)

text \<open>The fill of the buffer: what an earlier message or the allocator left behind the payload.\<close>

definition buffer_fill :: "(nat \<Rightarrow> byte list option) \<Rightarrow> smb_session \<Rightarrow> nat \<Rightarrow> nat \<Rightarrow> byte list" where
  "buffer_fill alloc sessionp msglen n =
     (case decrypt_bufferp (decrypt_buffer alloc sessionp msglen) of None \<Rightarrow> [] | Some buf \<Rightarrow> drop n buf)"

definition buffer_ok :: "(nat \<Rightarrow> byte list option) \<Rightarrow> smb_session \<Rightarrow> nat \<Rightarrow> nat \<Rightarrow> bool" where
  "buffer_ok alloc sessionp msglen n \<longleftrightarrow>
     msglen \<le> 65536 \<or>
     (case decrypt_bufferp (decrypt_buffer alloc sessionp msglen) of None \<Rightarrow> False | Some buf \<Rightarrow> n \<le> length buf)"

lemma decrypt_payload_spec:
  fixes payload
  defines "ct \<equiv> chain_bytes payload"
  assumes "aead_wf aead" "alloc_wf alloc" "chain_wf payload"
  shows "if buffer_ok alloc sessionp msglen (length ct)
         then \<exists>c' pl sessionp' out. decrypt_payload aead alloc sessionp c msglen payload = (Inr (c', pl), sessionp') \<and>
           same_lens pl payload \<and> chain_bytes pl = plain_text out msglen ct \<and>
           cipher_update aead (session_smb3_encrypt_ciper sessionp) c
             (cipher_text msglen ct (buffer_fill alloc sessionp msglen (length ct))) = (c', out)
         else \<exists>sessionp'. decrypt_payload aead alloc sessionp c msglen payload = (Inl EAUTH, sessionp')"
proof -
  let ?u = "cipher_update aead (session_smb3_encrypt_ciper sessionp)"
  note st = streaming_cipher [OF assms(2)]
  show ?thesis
  proof (cases "msglen > 65536")
    case False
    obtain c' pl where r: "crypt_mbufs ?u c payload = (c', pl)" by fastforce
    note s = crypt_mbufs_spec [OF st assms(4) r]
    have "length (chain_bytes pl) = length ct"
      using s streaming_length [OF st] unfolding ct_def by blast
    then show ?thesis using s r False
      by (auto simp: decrypt_payload_def cipher_text_def plain_text_def buffer_ok_def ct_def Let_def)
  next
    case True
    show ?thesis
    proof (cases "decrypt_bufferp (decrypt_buffer alloc sessionp msglen)")
      case None
      then show ?thesis using True by (simp add: decrypt_payload_def buffer_ok_def)
    next
      case (Some buf)
      have n: "msglen \<le> length buf" by (rule decrypt_buffer_length [OF assms(3) Some])
      show ?thesis
      proof (cases "length ct \<le> length buf")
        case False
        then show ?thesis
          using True Some copy_in_spec [OF assms(4), of 0 buf] by (simp add: decrypt_payload_def buffer_ok_def ct_def)
      next
        case fits: True
        define b where "b = mem_write 0 ct buf"
        obtain c' out where o: "?u c (take msglen b) = (c', out)" by fastforce
        have b: "length b = length buf" "b = ct @ drop (length ct) buf" using fits by (simp_all add: b_def mem_write_def)
        have l: "length out = msglen" using streaming_length [OF st o] n b(1) by simp
        define b' where "b' = mem_write 0 out b"
        have b': "length b' = length buf" "b' = out @ drop msglen b" using l n b(1) by (simp_all add: b'_def mem_write_def)
        obtain pl where p: "copy_out payload 0 b' = Some pl" "same_lens pl payload" "chain_bytes pl = take (length ct) b'"
          using copy_out_spec [OF assms(4), of 0 b'] fits b'(1) by (auto simp: ct_def)
        have "take (length ct) b' = plain_text out msglen ct"
          unfolding b'(2) b(2) plain_text_def using l by simp
        moreover have "buffer_fill alloc sessionp msglen (length ct) = drop (length ct) buf"
          using Some by (simp add: buffer_fill_def)
        ultimately show ?thesis
          using True Some copy_in_spec [OF assms(4), of 0 buf] fits o p
          by (simp add: decrypt_payload_def buffer_ok_def ct_def [symmetric] cipher_text_def Let_def b_def [symmetric]
              b'_def [symmetric] b(2) [symmetric])
      qed
    qed
  qed
qed

text \<open>A transform header the session can take, and the decrypted message when the tag is right.\<close>

definition tf_ok :: "smb_session \<Rightarrow> byte list \<Rightarrow> bool" where
  "tf_ok sessionp msg \<longleftrightarrow>
     52 \<le> length msg \<and> take 4 msg = SMB3_AES_TF_PROTO_STR \<and> fld msg 42 2 = 1 \<and>
     of_nat (fld msg 44 8) = session_session_id sessionp \<and> fld msg 36 4 \<le> kDefaultMaxIOSize"

definition decrypt_start :: "'c aead_lib \<Rightarrow> smb_session \<Rightarrow> byte list \<Rightarrow> 'c" where
  "decrypt_start aead sessionp msg =
     cipher_start aead False (session_smb3_encrypt_ciper sessionp)
       (take (session_smb3_decrypt_key_len sessionp) (session_smb3_decrypt_key sessionp)) (take 52 msg) (fld msg 36 4)"

definition decrypted ::
  "'c aead_lib \<Rightarrow> (nat \<Rightarrow> byte list option) \<Rightarrow> smb_session \<Rightarrow> byte list \<Rightarrow> byte list option" where
  "decrypted aead alloc sessionp msg =
     (let sessionp = known_cipher sessionp; cipher = session_smb3_encrypt_ciper sessionp;
          payload = drop 52 msg; msglen = fld msg 36 4;
          (c, out) = cipher_update aead cipher (decrypt_start aead sessionp msg)
                       (cipher_text msglen payload (buffer_fill alloc sessionp msglen (length payload)))
      in if tf_ok sessionp msg \<and> buffer_ok alloc sessionp msglen (length payload) \<and>
            cipher_finalize aead cipher c = take 16 (drop 4 msg)
         then Some (plain_text out msglen payload) else None)"

lemma fld_take: "off + n \<le> k \<Longrightarrow> fld (take k msg) off n = fld msg off n"
  by (simp add: fld_def drop_take min_absorb1)

lemma header_pulled_up:
  assumes "mbuf_ops_wf ops" "chain_wf mb" "mbuf_split ops mb 52 = Some (h, p)" "mbuf_pullup ops h 52 = Some h'"
  shows "52 \<le> length (chain_bytes mb)" "take 52 (m_data (hd h')) = take 52 (chain_bytes mb)"
    "chain_wf p" "chain_bytes p = drop 52 (chain_bytes mb)"
proof -
  have s: "chain_wf h \<and> chain_wf p \<and> 52 \<le> length (chain_bytes mb) \<and> chain_bytes h = take 52 (chain_bytes mb) \<and>
      chain_bytes p = drop 52 (chain_bytes mb)"
    using assms(1-3) unfolding mbuf_ops_wf_def by blast
  then show "52 \<le> length (chain_bytes mb)" "chain_wf p" "chain_bytes p = drop 52 (chain_bytes mb)" by auto
  have u: "chain_wf h' \<and> h' \<noteq> [] \<and> 52 \<le> m_len (hd h') \<and> chain_bytes h' = chain_bytes h"
    using assms(1,4) s unfolding mbuf_ops_wf_def by blast
  then obtain a t where h': "h' = a # t" by (cases h') auto
  have "52 \<le> length (mbuf_bytes a)" using u h' by simp
  then have "take 52 (chain_bytes h') = take 52 (mbuf_bytes a)" by (simp add: h')
  moreover have "take 52 (mbuf_bytes a) = take 52 (m_data a)" using u h' by (simp add: mbuf_bytes_def min_absorb1)
  moreover have "take 52 (chain_bytes h') = take 52 (chain_bytes mb)" using u s by (simp add: min_absorb1)
  moreover have "hd h' = a" by (simp add: h')
  ultimately show "take 52 (m_data (hd h')) = take 52 (chain_bytes mb)" by metis
qed

lemma msg_decrypt_refines:
  assumes "mbuf_ops_wf ops" "aead_wf aead" "alloc_wf alloc" "chain_wf mb"
    and "smb3_msg_decrypt ops aead alloc sessionp mb = (r, sessionp')"
  shows "case r of
           Inr pl \<Rightarrow> session_smb3_decrypt_key_len (known_cipher sessionp) \<noteq> 0 \<and> chain_wf pl \<and>
                     decrypted aead alloc sessionp (chain_bytes mb) = Some (chain_bytes pl)
         | Inl e \<Rightarrow> session_smb3_decrypt_key_len (known_cipher sessionp) \<noteq> 0 \<and> mbuf_ops_succeed ops \<longrightarrow>
                     decrypted aead alloc sessionp (chain_bytes mb) = None"
proof -
  define s msg where d: "s = known_cipher sessionp" "msg = chain_bytes mb"
  show ?thesis
  proof (cases "session_smb3_decrypt_key_len s = 0")
    case True
    then show ?thesis using assms(5) by (auto simp: smb3_msg_decrypt_def d)
  next
    case key: False
    show ?thesis
    proof (cases "\<exists>h p h'. mbuf_split ops mb 52 = Some (h, p) \<and> mbuf_pullup ops h 52 = Some h'")
      case False
      then have "\<exists>e. r = Inl e" using assms(5) key
        by (cases "mbuf_split ops mb 52") (auto simp: smb3_msg_decrypt_def d Let_def split: option.splits)
      moreover have "length msg < 52" if ok: "mbuf_ops_succeed ops"
      proof (rule ccontr)
        assume "\<not> length msg < 52"
        then obtain h p where s: "mbuf_split ops mb 52 = Some (h, p)"
          using ok assms(4) unfolding mbuf_ops_succeed_def d by (metis not_le option.exhaust surj_pair)
        have "chain_wf h \<and> 52 \<le> length (chain_bytes h)"
          using assms(1,4) s \<open>\<not> length msg < 52\<close> unfolding mbuf_ops_wf_def d(2)
          by (metis length_take min_absorb2 not_le order_refl)
        then show False using ok s False unfolding mbuf_ops_succeed_def by (metis option.exhaust)
      qed
      ultimately show ?thesis by (auto simp: decrypted_def tf_ok_def d Let_def split: prod.split)
    next
      case True
      then obtain h p h' where sp: "mbuf_split ops mb 52 = Some (h, p)" "mbuf_pullup ops h 52 = Some h'" by blast
      note hp = header_pulled_up [OF assms(1,4) sp, folded d(2)]
      have tf: "take 52 (m_data (hd h')) = take 52 msg" by (rule hp(2))
      have f: "fld (take 52 msg) 36 4 = fld msg 36 4" "fld (take 52 msg) 42 2 = fld msg 42 2"
        "fld (take 52 msg) 44 8 = fld msg 44 8" by (simp_all add: fld_take)
      have t: "take 4 (take 52 msg) = take 4 msg" "take 16 (drop 4 (take 52 msg)) = take 16 (drop 4 msg)"
        by (simp_all add: drop_take min_absorb1)
      define c where "c = decrypt_start aead s msg"
      have e: "smb3_msg_decrypt ops aead alloc sessionp mb =
          (if \<not> tf_ok s msg then (Inl (if take 4 msg \<noteq> SMB3_AES_TF_PROTO_STR then EBADRPC
              else if fld msg 42 2 \<noteq> 1 \<or> of_nat (fld msg 44 8) \<noteq> session_session_id s then EAUTH else EIO), s)
           else case decrypt_payload aead alloc s c (fld msg 36 4) p of
                  (Inl e, s) \<Rightarrow> (Inl e, s)
                | (Inr (c, p), s') \<Rightarrow>
                    if cc_cmp_safe 16 (cipher_finalize aead (session_smb3_encrypt_ciper s) c) (take 16 (drop 4 msg)) \<noteq> 0
                    then (Inl EAUTH, s') else (Inr p, s'))"
        using key hp(1)
        by (auto simp: smb3_msg_decrypt_def d(1) [symmetric] sp tf f t Let_def tf_ok_def c_def decrypt_start_def
            split: sum.split prod.split)
      note pl = decrypt_payload_spec [OF assms(2,3) hp(3), of s "fld msg 36 4" c, unfolded hp(4)]
      have l: "length (cipher_finalize aead cipher x) = 16" for cipher x by (rule length_finalize [OF assms(2)])
      show ?thesis
        using assms(5) pl key l unfolding e decrypted_def d [symmetric] Let_def c_def [symmetric]
        by (auto simp: cc_cmp_safe_0 same_lens_def hp(4) split: if_splits sum.splits)
    qed
  qed
qed

section \<open>Encryption as a function of the message\<close>

text \<open>The bytes that are sent: of all requests of a compound, of the compressed write, or of the request.\<close>

definition sends_compressed :: "smb_rq \<Rightarrow> bool" where
  "sends_compressed rqp \<longleftrightarrow>
     sr_flags rqp AND SMBR_COMPOUND_RQ = 0 \<and> sr_flags rqp AND SMBR_COMPRESSED \<noteq> 0 \<and> sr_command rqp = SMB2_WRITE \<and>
     mb_top (sr_rq_compressed rqp) \<noteq> []"

definition rq_message :: "smb_rq \<Rightarrow> smb_rq list \<Rightarrow> byte list" where
  "rq_message rqp rest =
     (if sr_flags rqp AND SMBR_COMPOUND_RQ \<noteq> 0 then concat (map (mb_bytes \<circ> sr_rq) (rqp # rest))
      else if sends_compressed rqp then mb_bytes (sr_rq_compressed rqp) else mb_bytes (sr_rq rqp))"

definition sent_chain :: "bool \<Rightarrow> smb_rq \<Rightarrow> mbuf list" where
  "sent_chain compressed rqp = mb_top (if compressed then sr_rq_compressed rqp else sr_rq rqp)"

abbreviation (input) rq_wf :: "smb_rq \<Rightarrow> bool" where
  "rq_wf rqp \<equiv> chain_wf (mb_top (sr_rq rqp)) \<and> chain_wf (mb_top (sr_rq_compressed rqp))"

lemma fst_mb_detach [simp]: "fst (mb_detach mbp) = mb_top mbp"
  by (simp add: mb_detach_def)

lemma mb_detach_top: "mb_detach mbp = (ms, mbp') \<Longrightarrow> ms = mb_top mbp"
  using fst_mb_detach [of mbp] by simp

lemma concatenate_bytes:
  assumes "mbuf_ops_wf ops" "chain_wf a" "chain_wf b"
  shows "chain_wf (mbuf_concatenate ops a b)" "chain_bytes (mbuf_concatenate ops a b) = chain_bytes a @ chain_bytes b"
  using assms unfolding mbuf_ops_wf_def by blast+

lemma detach_all_bytes:
  assumes "mbuf_ops_wf ops" "chain_wf mb" "\<forall>r \<in> set rest. rq_wf r" "detach_all ops mb rest = (mb', rest')"
  shows "chain_wf mb' \<and> chain_bytes mb' = chain_bytes mb @ concat (map (mb_bytes \<circ> sr_rq) rest)"
  using assms(2-4)
proof (induction rest arbitrary: mb mb' rest')
  case Nil
  then show ?case by simp
next
  case (Cons r rest)
  obtain m2 mbp where d: "mb_detach (sr_rq r) = (m2, mbp)" by fastforce
  note m2 = mb_detach_top [OF d]
  have w: "chain_wf m2" "\<forall>r \<in> set rest. rq_wf r" using Cons.prems(2) m2 by auto
  note c = concatenate_bytes [OF assms(1) Cons.prems(1) w(1)]
  obtain mb2 rest2 where r: "detach_all ops (mbuf_concatenate ops mb m2) rest = (mb2, rest2)" by fastforce
  show ?case using Cons.IH [OF c(1) w(2) r] Cons.prems(3) c(2) d r m2 by (auto simp: mb_bytes_def)
qed

lemma take_chain_bytes:
  assumes "mbuf_ops_wf ops" "rq_wf rqp" "\<forall>r \<in> set rest. rq_wf r" "take_chain ops rqp rest = (mb, compressed, rqp', rest')"
  shows "chain_wf mb \<and> chain_bytes mb = rq_message rqp rest \<and> compressed = sends_compressed rqp \<and>
         sr_rqsessionid rqp' = sr_rqsessionid rqp"
proof (cases "sr_flags rqp AND SMBR_COMPOUND_RQ = 0")
  case True
  then show ?thesis
    using assms(2,4)
    by (auto simp: take_chain_def rq_message_def sends_compressed_def mb_bytes_def Let_def
        split: prod.splits if_splits dest!: mb_detach_top)
next
  case False
  obtain m mbp where d: "mb_detach (sr_rq rqp) = (m, mbp)" by fastforce
  note m = mb_detach_top [OF d]
  obtain mb2 rest2 where r: "detach_all ops m rest = (mb2, rest2)" by fastforce
  have w: "chain_wf m" using assms(2) m by simp
  note s = detach_all_bytes [OF assms(1) w assms(3) r]
  show ?thesis
    using s False assms(4) d r m m_fixhdr_wf [of mb2]
    by (auto simp: take_chain_def rq_message_def sends_compressed_def mb_bytes_def)
qed

lemma sent_put_chain [simp]: "sent_chain compressed (put_chain compressed mb rqp) = mb"
  by (simp add: sent_chain_def put_chain_def mb_initm_def)

lemma length_tf_header: "length sig = 16 \<Longrightarrow> length nonce = 16 \<Longrightarrow> length (tf_header sig nonce n sid) = 52"
  by (simp add: tf_header_def SMB3_AES_TF_PROTO_STR_def)

lemma length_nonce_bytes [simp]: "length (nonce_bytes sessionp) = 16"
  by (simp add: nonce_bytes_def mem_write_def Let_def)

lemma tf_header_tail:
  assumes "length sig = 16"
  shows "drop 20 (tf_header sig nonce n sid) = nonce @ le32 n @ le16 0 @ le16 1 @ le64 sid"
  using assms by (simp add: tf_header_def SMB3_AES_TF_PROTO_STR_def)

lemma cipher_start_tail:
  assumes "drop 20 tf = drop 20 tf'"
  shows "cipher_start aead e cipher key tf n = cipher_start aead e cipher key tf' n"
  using assms by (simp add: cipher_start_def)

definition encrypt_key :: "smb_session \<Rightarrow> byte list" where
  "encrypt_key sessionp = take (session_smb3_encrypt_key_len sessionp) (session_smb3_encrypt_key sessionp)"

lemma next_nonce_keeps [simp]:
  "session_smb3_encrypt_ciper (next_nonce sessionp) = session_smb3_encrypt_ciper sessionp"
  "session_smb3_encrypt_key (next_nonce sessionp) = session_smb3_encrypt_key sessionp"
  "session_smb3_encrypt_key_len (next_nonce sessionp) = session_smb3_encrypt_key_len sessionp"
  by (simp_all add: next_nonce_def Let_def)

lemma known_cipher_keeps [simp]:
  "session_smb3_encrypt_key (known_cipher sessionp) = session_smb3_encrypt_key sessionp"
  "session_smb3_encrypt_key_len (known_cipher sessionp) = session_smb3_encrypt_key_len sessionp"
  "session_smb3_decrypt_key (known_cipher sessionp) = session_smb3_decrypt_key sessionp"
  "session_smb3_decrypt_key_len (known_cipher sessionp) = session_smb3_decrypt_key_len sessionp"
  "session_session_id (known_cipher sessionp) = session_session_id sessionp"
  "session_smb3_nonce_low (known_cipher sessionp) = session_smb3_nonce_low sessionp"
  "session_smb3_nonce_high (known_cipher sessionp) = session_smb3_nonce_high sessionp"
  "decrypt_bufferp (known_cipher sessionp) = decrypt_bufferp sessionp"
  by (simp_all add: known_cipher_def)

lemma rq_encrypt_spec:
  fixes rqp rest sessionp
  defines "m \<equiv> rq_message rqp rest" and "s \<equiv> next_nonce (known_cipher sessionp)"
  assumes "mbuf_ops_wf ops" "aead_wf aead" "rq_wf rqp" "\<forall>r \<in> set rest. rq_wf r" "length m < 2 ^ 32"
    and "session_smb3_encrypt_key_len sessionp \<noteq> 0" "mbuf_wf hdr" "52 \<le> length (m_data hdr)"
  shows "\<exists>rqp' rest' c ct. smb3_rq_encrypt ops aead (Some hdr) sessionp rqp rest = (0, s, rqp', rest') \<and>
           chain_wf (sent_chain (sends_compressed rqp) rqp') \<and>
           chain_bytes (sent_chain (sends_compressed rqp) rqp') =
             tf_header (cipher_finalize aead (session_smb3_encrypt_ciper s) c) (nonce_bytes s)
               (of_nat (length m)) (sr_rqsessionid rqp) @ ct \<and>
           cipher_update aead (session_smb3_encrypt_ciper s)
             (cipher_start aead True (session_smb3_encrypt_ciper s) (encrypt_key s)
               (tf_header (replicate 16 0) (nonce_bytes s) (of_nat (length m)) (sr_rqsessionid rqp)) (length m)) m = (c, ct)"
proof -
  obtain mb compressed rqp1 rest1 where t: "take_chain ops rqp rest = (mb, compressed, rqp1, rest1)" by (metis prod_cases4)
  from take_chain_bytes [OF assms(3,5,6) t] have mb: "chain_wf mb" "chain_bytes mb = m" "compressed = sends_compressed rqp"
    "sr_rqsessionid rqp1 = sr_rqsessionid rqp" by (simp_all add: m_def)
  have len: "mbuf_get_chain_len mb = length m"
    using length_chain_bytes [OF mb(1)] mb(2) by (simp add: mbuf_get_chain_len_def)
  define cipher where "cipher = session_smb3_encrypt_ciper s"
  define start where "start = cipher_start aead True cipher (encrypt_key s)
    (tf_header (replicate 16 0) (nonce_bytes s) (of_nat (length m)) (sr_rqsessionid rqp)) (length m)"
  obtain c mb1 where cm: "crypt_mbufs (cipher_update aead cipher) start mb = (c, mb1)" by fastforce
  note sp = crypt_mbufs_spec [OF streaming_cipher [OF assms(4)] mb(1) cm]
  define tf where "tf = tf_header (cipher_finalize aead cipher c) (nonce_bytes s) (of_nat (length m)) (sr_rqsessionid rqp)"
  have ltf: "length tf = 52" by (simp add: tf_def length_tf_header length_finalize [OF assms(4)])
  define h where "h = hdr\<lparr>m_data := mem_write 0 tf (m_data hdr), m_len := 52\<rparr>"
  have h: "mbuf_wf h" "mbuf_bytes h = tf"
    using assms(10) ltf by (simp_all add: h_def mbuf_wf_def mbuf_bytes_def mem_write_def)
  have w: "chain_wf [h]" "chain_wf mb1" using h(1) sp by (auto simp: same_lens_def)
  note cat = concatenate_bytes [OF assms(3) w]
  define out where "out = snd (m_fixhdr (mbuf_concatenate ops [h] mb1))"
  have out: "chain_wf out" "chain_bytes out = tf @ chain_bytes mb1"
    using cat h(2) m_fixhdr_wf [OF cat(1)] by (simp_all add: out_def)
  have k: "take (session_smb3_encrypt_key_len s) (session_smb3_encrypt_key s) = encrypt_key s" by (simp add: encrypt_key_def)
  have sig: "take 16 (cipher_finalize aead cipher c) = cipher_finalize aead cipher c"
    using length_finalize [OF assms(4)] by simp
  have big: "\<not> 0xffffffff < length m" using assms(7) by simp
  have e: "smb3_rq_encrypt ops aead (Some hdr) sessionp rqp rest = (0, s, put_chain compressed out rqp1, rest1)"
    unfolding smb3_rq_encrypt_def Let_def t prod.case option.case known_cipher_keeps s_def [symmetric] len mb(4)
      cipher_def [symmetric] k start_def [symmetric] cm sig tf_def [symmetric] h_def [symmetric] out_def [symmetric]
    using assms(8) big by simp
  show ?thesis
    using e out sp by (intro exI [of _ "put_chain compressed out rqp1"] exI [of _ rest1] exI [of _ c] exI [of _ "chain_bytes mb1"])
      (simp add: mb(2,3) cipher_def start_def tf_def)
qed

lemma tf_header_fields:
  assumes "length sig = 16" "length nonce = 16"
  shows "take 4 (tf_header sig nonce n sid @ ct) = SMB3_AES_TF_PROTO_STR"
    "fld (tf_header sig nonce n sid @ ct) 36 4 = unat n" "fld (tf_header sig nonce n sid @ ct) 42 2 = 1"
    "of_nat (fld (tf_header sig nonce n sid @ ct) 44 8) = sid"
    "take 16 (drop 4 (tf_header sig nonce n sid @ ct)) = sig"
    "take 52 (tf_header sig nonce n sid @ ct) = tf_header sig nonce n sid"
    "drop 52 (tf_header sig nonce n sid @ ct) = ct"
proof -
  have l: "le_dec (le32 n) = unat n" "le_dec (le16 1) = 1"
    using unsigned_less [of n, where 'a = nat] by (simp_all add: le32_def le16_def le_dec_enc)
  show "take 4 (tf_header sig nonce n sid @ ct) = SMB3_AES_TF_PROTO_STR"
    "fld (tf_header sig nonce n sid @ ct) 36 4 = unat n" "fld (tf_header sig nonce n sid @ ct) 42 2 = 1"
    "of_nat (fld (tf_header sig nonce n sid @ ct) 44 8) = sid"
    "take 16 (drop 4 (tf_header sig nonce n sid @ ct)) = sig"
    "take 52 (tf_header sig nonce n sid @ ct) = tf_header sig nonce n sid"
    "drop 52 (tf_header sig nonce n sid @ ct) = ct"
    using assms l by (simp_all add: tf_header_def SMB3_AES_TF_PROTO_STR_def fld_def word_decode)
qed

lemma buffer_ok_alloc:
  assumes "alloc_wf alloc" "\<forall>n. alloc n \<noteq> None"
  shows "buffer_ok alloc sessionp n n"
proof -
  have "decrypt_bufferp (decrypt_buffer alloc sessionp n) \<noteq> None"
    using assms(2) by (auto simp: decrypt_buffer_def split: option.split)
  then show ?thesis using decrypt_buffer_length [OF assms(1), of sessionp n] by (auto simp: buffer_ok_def)
qed

text \<open>Encryption and decryption are inverse. A request, a compressed write or a whole compound, in
  any chain of mbufs, is encrypted into a transform header and a payload; whoever has the key, the
  cipher and the session id gets from \<^verbatim>\<open>smb3_msg_decrypt\<close> exactly the bytes that were in the requests. This is
  so for messages up to the limit of 8 MB, on the path in place and on the one through the buffer, which may be
  longer and hold an earlier message.\<close>

lemma encrypt_decrypt:
  assumes "mbuf_ops_wf ops" "mbuf_ops_succeed ops" "aead_wf aead" "alloc_wf alloc" "\<forall>n. alloc n \<noteq> None"
    and "rq_wf rqp" "\<forall>r \<in> set rest. rq_wf r" "length (rq_message rqp rest) \<le> kDefaultMaxIOSize"
    and "session_smb3_encrypt_key_len sessionp \<noteq> 0" "mbuf_wf hdr" "52 \<le> length (m_data hdr)"
    and "session_smb3_decrypt_key peer = session_smb3_encrypt_key sessionp"
    and "session_smb3_decrypt_key_len peer = session_smb3_encrypt_key_len sessionp"
    and "session_smb3_encrypt_ciper peer = session_smb3_encrypt_ciper sessionp"
    and "session_session_id peer = sr_rqsessionid rqp"
  shows "\<exists>s rqp' rest' pl peer'. smb3_rq_encrypt ops aead (Some hdr) sessionp rqp rest = (0, s, rqp', rest') \<and>
           smb3_msg_decrypt ops aead alloc peer (sent_chain (sends_compressed rqp) rqp') = (Inr pl, peer') \<and>
           chain_bytes pl = rq_message rqp rest"
proof -
  let ?m = "rq_message rqp rest"
  define s where "s = next_nonce (known_cipher sessionp)"
  define cipher where "cipher = session_smb3_encrypt_ciper s"
  have "length ?m < 2 ^ 32" using assms(8) by simp
  from rq_encrypt_spec [OF assms(1,3,6,7) this assms(9-11)] obtain rqp' rest' c ct where
    enc: "smb3_rq_encrypt ops aead (Some hdr) sessionp rqp rest = (0, s, rqp', rest')"
      "chain_wf (sent_chain (sends_compressed rqp) rqp')" and
    sent: "chain_bytes (sent_chain (sends_compressed rqp) rqp') =
      tf_header (cipher_finalize aead cipher c) (nonce_bytes s) (of_nat (length ?m)) (sr_rqsessionid rqp) @ ct" and
    upd: "cipher_update aead cipher (cipher_start aead True cipher (encrypt_key s)
            (tf_header (replicate 16 0) (nonce_bytes s) (of_nat (length ?m)) (sr_rqsessionid rqp)) (length ?m)) ?m = (c, ct)"
    unfolding s_def cipher_def by metis
  note f = tf_header_fields [OF length_finalize [OF assms(3)] length_nonce_bytes, of cipher c s "of_nat (length ?m)"
      "sr_rqsessionid rqp" ct]
  have n: "unat (of_nat (length ?m) :: u32) = length ?m" using assms(8) by (simp add: unat_of_nat)
  have lct: "length ct = length ?m" using streaming_length [OF streaming_cipher [OF assms(3)] upd] .
  define p where "p = known_cipher peer"
  have p: "session_smb3_encrypt_ciper p = cipher" "session_session_id p = sr_rqsessionid rqp"
    "take (session_smb3_decrypt_key_len p) (session_smb3_decrypt_key p) = encrypt_key s"
    using assms(12-15) by (simp_all add: p_def cipher_def s_def encrypt_key_def known_cipher_def)
  have dt: "drop 20 (tf_header (cipher_finalize aead cipher c) (nonce_bytes s) (of_nat (length ?m)) (sr_rqsessionid rqp)) =
      drop 20 (tf_header (replicate 16 0) (nonce_bytes s) (of_nat (length ?m)) (sr_rqsessionid rqp))"
    using length_finalize [OF assms(3)] by (simp add: tf_header_tail)
  have ds: "decrypt_start aead p (chain_bytes (sent_chain (sends_compressed rqp) rqp')) = cipher_start aead False cipher (encrypt_key s)
      (tf_header (replicate 16 0) (nonce_bytes s) (of_nat (length ?m)) (sr_rqsessionid rqp)) (length ?m)"
    unfolding decrypt_start_def sent f p n by (rule cipher_start_tail [OF dt])
  obtain d where d: "cipher_update aead cipher (cipher_start aead False cipher (encrypt_key s)
      (tf_header (replicate 16 0) (nonce_bytes s) (of_nat (length ?m)) (sr_rqsessionid rqp)) (length ?m)) ct = (d, ?m)"
    "cipher_finalize aead cipher d = cipher_finalize aead cipher c"
    using cipher_inverts [OF assms(3), of cipher "encrypt_key s"
        "tf_header (replicate 16 0) (nonce_bytes s) (of_nat (length ?m)) (sr_rqsessionid rqp)" ?m]
    by (auto simp: inverts_def upd split: prod.splits)
  have "tf_ok p (chain_bytes (sent_chain (sends_compressed rqp) rqp'))"
    unfolding tf_ok_def sent f n p using assms(8) length_finalize [OF assms(3)] by (simp add: length_tf_header)
  then have dec: "decrypted aead alloc peer (chain_bytes (sent_chain (sends_compressed rqp) rqp')) = Some ?m"
    unfolding decrypted_def p_def [symmetric] Let_def p ds unfolding sent f n lct
    using buffer_ok_alloc [OF assms(4,5)] d lct by (simp add: cipher_text_def plain_text_def)
  obtain r peer' where r: "smb3_msg_decrypt ops aead alloc peer (sent_chain (sends_compressed rqp) rqp') = (r, peer')"
    by fastforce
  have "session_smb3_decrypt_key_len (known_cipher peer) \<noteq> 0" using assms(9,13) by simp
  with msg_decrypt_refines [OF assms(1,3,4) enc(2) r] dec assms(2)
  obtain pl where "r = Inr pl" "chain_bytes pl = ?m" by (cases r) auto
  then show ?thesis using enc(1) r by auto
qed

text \<open>A cipher that adds a byte made from key, nonce and data, with a sum over the encrypted bytes as tag, and
  operations on chains that put everything into one mbuf.\<close>

type_synonym toy_ctx = "byte \<times> byte \<times> bool"

definition toy_update :: "toy_ctx \<Rightarrow> byte list \<Rightarrow> toy_ctx \<times> byte list" where
  "toy_update c m =
     (case c of (k, a, e) \<Rightarrow>
        if e then ((k, a + sum_list (map (\<lambda>x. x + k) m), e), map (\<lambda>x. x + k) m)
        else ((k, a + sum_list m, e), map (\<lambda>x. x - k) m))"

definition toy_aead :: "toy_ctx aead_lib" where
  "toy_aead = \<lparr>ccgcm_start = (\<lambda>e k n a. (sum_list (k @ n @ a), 0, e)), ccgcm_update = toy_update,
     ccgcm_finalize = (\<lambda>(k, a, e). replicate 16 a),
     ccccm_start = (\<lambda>e k n t l a. (sum_list (k @ n @ a), of_nat l, e)), ccccm_update = toy_update,
     ccccm_finalize = (\<lambda>(k, a, e). replicate 16 a)\<rparr>"

lemma toy_aead_wf: "aead_wf toy_aead"
proof -
  have "streaming toy_update"
    by (auto simp: streaming_def toy_update_def split: prod.split)
  moreover have "map ((\<lambda>x. x - k) \<circ> (\<lambda>x. x + k)) m = m" for k :: byte and m
    by (simp add: comp_def)
  ultimately show ?thesis
    by (auto simp: aead_wf_def toy_aead_def inverts_def toy_update_def split: prod.split)
qed

definition flat_mbuf :: "byte list \<Rightarrow> mbuf" where
  "flat_mbuf bs = \<lparr>m_flags = 2, m_data = bs, m_len = length bs, m_pkthdr_len = length bs\<rparr>"

lemma flat_mbuf_bytes [simp]: "mbuf_bytes (flat_mbuf bs) = bs" "mbuf_wf (flat_mbuf bs)"
  "m_len (flat_mbuf bs) = length bs" "m_data (flat_mbuf bs) = bs"
  by (simp_all add: flat_mbuf_def mbuf_bytes_def mbuf_wf_def)

definition flat_ops :: mbuf_ops where
  "flat_ops = \<lparr>mbuf_concatenate = (@),
     mbuf_split = (\<lambda>ms n. if n \<le> length (chain_bytes ms)
                          then Some ([flat_mbuf (take n (chain_bytes ms))], [flat_mbuf (drop n (chain_bytes ms))]) else None),
     mbuf_pullup = (\<lambda>ms n. if n \<le> length (chain_bytes ms) then Some [flat_mbuf (chain_bytes ms)] else None)\<rparr>"

lemma flat_ops_wf: "mbuf_ops_wf flat_ops" "mbuf_ops_succeed flat_ops"
  by (auto simp: mbuf_ops_wf_def mbuf_ops_succeed_def flat_ops_def split: if_splits)

definition wit_alloc :: "nat \<Rightarrow> byte list option" where
  "wit_alloc n = Some (replicate n 1)"

lemma wit_alloc_wf: "alloc_wf wit_alloc" "\<forall>n. wit_alloc n \<noteq> None"
  by (simp_all add: alloc_wf_def wit_alloc_def)

definition tf_mbuf :: mbuf where
  "tf_mbuf = fresh_mbuf (replicate 100 9)"

lemma tf_mbuf_ok: "mbuf_wf tf_mbuf" "52 \<le> length (m_data tf_mbuf)"
  by (simp_all add: tf_mbuf_def fresh_mbuf_def mbuf_wf_def)

text \<open>C11: What decryption accepts is authenticated. When \<^verbatim>\<open>smb3_msg_decrypt\<close> accepts a chain, the message
  starts with a complete transform header for this session, with a message length within the limit, and
  the tag in it is the tag of the authenticated data of the header and the bytes that were decrypted, under the key
  of the session. For a message up to 64 KB, and for a longer one with as much payload as its header says, these
  bytes are the whole payload, and the caller gets exactly their decryption.\<close>

theorem decrypted_authentic:
  fixes mb
  defines "msg \<equiv> chain_bytes mb"
  defines "payload \<equiv> drop 52 msg" and "msglen \<equiv> fld msg 36 4"
  assumes "mbuf_ops_wf ops" "aead_wf aead" "alloc_wf alloc" "chain_wf mb"
    and "smb3_msg_decrypt ops aead alloc sessionp mb = (Inr pl, sessionp')"
  shows "tf_ok sessionp msg \<and> length (chain_bytes pl) = length payload \<and>
         (\<exists>ct c out. cipher_update aead (session_smb3_encrypt_ciper (known_cipher sessionp))
              (decrypt_start aead (known_cipher sessionp) msg) ct = (c, out) \<and>
            cipher_finalize aead (session_smb3_encrypt_ciper (known_cipher sessionp)) c = take 16 (drop 4 msg) \<and>
            (if msglen \<le> 65536 \<or> msglen = length payload then ct = payload \<and> chain_bytes pl = out
             else length ct = msglen))"
proof -
  define s where "s = known_cipher sessionp"
  define ct where "ct = cipher_text msglen payload (buffer_fill alloc s msglen (length payload))"
  obtain c out where u: "cipher_update aead (session_smb3_encrypt_ciper s) (decrypt_start aead s msg) ct = (c, out)"
    by fastforce
  have d: "decrypted aead alloc sessionp msg = Some (chain_bytes pl)"
    using msg_decrypt_refines [OF assms(4-8)] by (simp add: msg_def)
  then have ok: "tf_ok s msg" "buffer_ok alloc s msglen (length payload)"
    "cipher_finalize aead (session_smb3_encrypt_ciper s) c = take 16 (drop 4 msg)"
    "chain_bytes pl = plain_text out msglen payload"
    using u unfolding decrypted_def s_def [symmetric] payload_def [symmetric] msglen_def [symmetric] Let_def ct_def
    by (auto split: if_splits)
  have lo: "length out = length ct" by (rule streaming_length [OF streaming_cipher [OF assms(5)] u])
  have fill: "length (buffer_fill alloc s msglen (length payload)) \<ge> msglen - length payload" if "msglen > 65536"
    using that ok(2) decrypt_buffer_length [OF assms(6), of s msglen]
    by (fastforce simp: buffer_ok_def buffer_fill_def split: option.splits)
  have lct: "length ct = (if msglen > 65536 then msglen else length payload)"
    using fill by (auto simp: ct_def cipher_text_def)
  have "tf_ok sessionp msg" using ok(1) by (simp add: tf_ok_def s_def)
  moreover have "length (chain_bytes pl) = length payload"
    unfolding ok(4) plain_text_def using lo lct by (auto split: if_splits)
  moreover have "ct = payload \<and> chain_bytes pl = out" if "msglen \<le> 65536 \<or> msglen = length payload"
    using that lo lct unfolding ok(4) by (auto simp: ct_def cipher_text_def plain_text_def)
  ultimately show ?thesis
    using u ok(3) lct unfolding s_def by (intro conjI exI [of _ ct] exI [of _ c] exI [of _ out]) auto
qed

text \<open>C36: The limit of it: a message of more than 64 KB that the client accepts can be made longer by anyone, with any
  bytes behind it, as long as the buffer of the session is long enough, which it is after a longer
  message. The longer message is accepted too, and the added bytes are handed to the caller behind the decrypted
  ones, without having been decrypted or authenticated.\<close>

theorem unauthenticated_tail:
  assumes "mbuf_ops_wf ops" "mbuf_ops_succeed ops" "aead_wf aead" "alloc_wf alloc" "chain_wf mb" "chain_wf mb2"
    and "smb3_msg_decrypt ops aead alloc sessionp mb = (Inr pl, sessionp')"
    and "chain_bytes mb2 = chain_bytes mb @ tail" "65536 < fld (chain_bytes mb) 36 4"
    and "length (chain_bytes mb) = 52 + fld (chain_bytes mb) 36 4"
    and "decrypt_bufferp sessionp = Some buf" "fld (chain_bytes mb) 36 4 + length tail \<le> length buf"
  shows "\<exists>pl2 sessionp2. smb3_msg_decrypt ops aead alloc sessionp mb2 = (Inr pl2, sessionp2) \<and>
           chain_bytes pl2 = chain_bytes pl @ tail"
proof -
  define s msg n payload where d: "s = known_cipher sessionp" "msg = chain_bytes mb" "n = fld msg 36 4" "payload = drop 52 msg"
  have key: "session_smb3_decrypt_key_len (known_cipher sessionp) \<noteq> 0"
    and dec: "decrypted aead alloc sessionp msg = Some (chain_bytes pl)"
    using msg_decrypt_refines [OF assms(1,3-5,7)] by (simp_all add: d(2))
  have len: "52 \<le> length msg" "length payload = n" "65536 < n" using assms(9,10) by (simp_all add: d)
  have fa: "fld (msg @ tail) off k = fld msg off k" if "off + k \<le> 52" for off k
    using that len(1) by (simp add: fld_def)
  have buf: "decrypt_bufferp (decrypt_buffer alloc s n) = Some buf"
    using assms(11,12) by (simp add: decrypt_buffer_def d)
  have ct: "cipher_text n payload x = payload" "cipher_text n (payload @ tail) x = payload" for x
    using len by (simp_all add: cipher_text_def)
  obtain c out where u: "cipher_update aead (session_smb3_encrypt_ciper s) (decrypt_start aead s msg) payload = (c, out)"
    by fastforce
  have lo: "length out = n" using streaming_length [OF streaming_cipher [OF assms(3)] u] len(2) by simp
  have t: "tf_ok s (msg @ tail) = tf_ok s msg" "decrypt_start aead s (msg @ tail) = decrypt_start aead s msg"
    "take 16 (drop 4 (msg @ tail)) = take 16 (drop 4 msg)" "drop 52 (msg @ tail) = payload @ tail"
    using len(1) by (simp_all add: tf_ok_def fa decrypt_start_def d(4))
  have b: "buffer_ok alloc s n (length (payload @ tail))"
    using buf assms(12) len(2) by (simp add: buffer_ok_def d(2,3))
  have "tf_ok s msg" "cipher_finalize aead (session_smb3_encrypt_ciper s) c = take 16 (drop 4 msg)" "chain_bytes pl = out"
    using dec u lo len(2) unfolding decrypted_def d(1,3,4) [symmetric] Let_def ct
    by (auto simp: plain_text_def split: if_splits)
  then have "decrypted aead alloc sessionp (msg @ tail) = Some (chain_bytes pl @ tail)"
    unfolding decrypted_def d(1) [symmetric] Let_def t fa [of 36 4, simplified] d(3) [symmetric] ct u
    using b lo len(2) by (simp add: plain_text_def)
  moreover obtain r s2 where "smb3_msg_decrypt ops aead alloc sessionp mb2 = (r, s2)" by fastforce
  ultimately show ?thesis
    using msg_decrypt_refines [OF assms(1,3,4,6)] key assms(2,8) by (cases r) (fastforce simp: d(2))+
qed

text \<open>A message for the cipher above, with any payload, that is accepted.\<close>

definition toy_message :: "byte list \<Rightarrow> byte list" where
  "toy_message ct = tf_header (replicate 16 (of_nat (length ct) + sum_list ct)) (replicate 16 0) (of_nat (length ct)) 7 @ ct"

lemma toy_message_fields:
  assumes "length ct \<le> 8388608"
  shows "fld (toy_message ct) 36 4 = length ct" "length (toy_message ct) = 52 + length ct" "drop 52 (toy_message ct) = ct"
    "tf_ok wit_session (toy_message ct)" "take 16 (drop 4 (toy_message ct)) = replicate 16 (of_nat (length ct) + sum_list ct)"
proof -
  have n: "unat (of_nat (length ct) :: u32) = length ct" using assms by (simp add: unat_of_nat)
  note f = tf_header_fields [OF length_replicate length_replicate, of "of_nat (length ct) + sum_list ct" 0
      "of_nat (length ct)" 7 ct, folded toy_message_def, unfolded n]
  show "fld (toy_message ct) 36 4 = length ct" "drop 52 (toy_message ct) = ct"
    "take 16 (drop 4 (toy_message ct)) = replicate 16 (of_nat (length ct) + sum_list ct)" by (rule f)+
  show l: "length (toy_message ct) = 52 + length ct" by (simp add: toy_message_def length_tf_header)
  show "tf_ok wit_session (toy_message ct)"
    using f assms by (simp add: tf_ok_def l wit_session_def)
qed

lemma toy_decrypted:
  assumes "length ct \<le> 8388608" "sessionp = wit_session\<lparr>decrypt_bufferp := b\<rparr>"
  shows "decrypted toy_aead wit_alloc sessionp (toy_message ct) \<noteq> None"
proof -
  note f = toy_message_fields [OF assms(1)]
  have k: "known_cipher sessionp = sessionp" "session_smb3_encrypt_ciper sessionp = 1"
    by (simp_all add: assms(2) known_cipher_def wit_session_def)
  have ok: "tf_ok sessionp (toy_message ct)" using f(4) by (simp add: tf_ok_def assms(2))
  have c: "cipher_text (length ct) ct x = ct" for x by (simp add: cipher_text_def)
  show ?thesis
    unfolding decrypted_def k Let_def f c
    using ok buffer_ok_alloc [OF wit_alloc_wf]
    by (simp add: f decrypt_start_def cipher_start_def cipher_update_def cipher_finalize_def is_gcm_def k toy_aead_def
        toy_update_def Let_def)
qed

lemma toy_accepted:
  assumes "length ct \<le> 8388608" "chain_wf mb" "chain_bytes mb = toy_message ct"
  shows "\<exists>pl s. smb3_msg_decrypt flat_ops toy_aead wit_alloc (wit_session\<lparr>decrypt_bufferp := b\<rparr>) mb = (Inr pl, s)"
proof -
  obtain r s where r: "smb3_msg_decrypt flat_ops toy_aead wit_alloc (wit_session\<lparr>decrypt_bufferp := b\<rparr>) mb = (r, s)" by fastforce
  have "session_smb3_decrypt_key_len (known_cipher (wit_session\<lparr>decrypt_bufferp := b\<rparr>)) \<noteq> 0" by (simp add: wit_session_def)
  then show ?thesis
    using msg_decrypt_refines [OF flat_ops_wf(1) toy_aead_wf wit_alloc_wf(1) assms(2) r] flat_ops_wf(2)
      toy_decrypted [OF assms(1) refl, of b] assms(3) r
    by (cases r) auto
qed

theorem decrypted_authentic_witness:
  "\<exists>pl s. smb3_msg_decrypt flat_ops toy_aead wit_alloc (wit_session\<lparr>decrypt_bufferp := None\<rparr>) [flat_mbuf (toy_message [5, 6])] =
       (Inr pl, s) \<and> length (chain_bytes pl) = length (drop 52 (chain_bytes [flat_mbuf (toy_message [5, 6])]))"
proof -
  obtain pl s where "smb3_msg_decrypt flat_ops toy_aead wit_alloc (wit_session\<lparr>decrypt_bufferp := None\<rparr>)
      [flat_mbuf (toy_message [5, 6])] = (Inr pl, s)"
    using toy_accepted [of "[5, 6]" "[flat_mbuf (toy_message [5, 6])]" None] by auto
  with decrypted_authentic [OF flat_ops_wf(1) toy_aead_wf wit_alloc_wf(1) _ this] show ?thesis by auto
qed

theorem unauthenticated_tail_witness:
  "\<exists>pl s pl2 s2. smb3_msg_decrypt flat_ops toy_aead wit_alloc (wit_session\<lparr>decrypt_bufferp := Some (replicate 70000 0)\<rparr>)
       [flat_mbuf (toy_message (replicate 65537 3))] = (Inr pl, s) \<and>
     smb3_msg_decrypt flat_ops toy_aead wit_alloc (wit_session\<lparr>decrypt_bufferp := Some (replicate 70000 0)\<rparr>)
       [flat_mbuf (toy_message (replicate 65537 3) @ [1, 2, 3])] = (Inr pl2, s2) \<and>
     chain_bytes pl2 = chain_bytes pl @ [1, 2, 3]"
proof -
  let ?s = "wit_session\<lparr>decrypt_bufferp := Some (replicate 70000 0)\<rparr>" and ?m = "toy_message (replicate 65537 3)"
  have l: "length (replicate 65537 3 :: byte list) \<le> 8388608" by simp
  note f = toy_message_fields [OF l, simplified]
  obtain pl s where a: "smb3_msg_decrypt flat_ops toy_aead wit_alloc ?s [flat_mbuf ?m] = (Inr pl, s)"
    using toy_accepted [OF l, of "[flat_mbuf ?m]" "Some (replicate 70000 0)"] by auto
  have "\<exists>pl2 s2. smb3_msg_decrypt flat_ops toy_aead wit_alloc ?s [flat_mbuf (?m @ [1, 2, 3])] = (Inr pl2, s2) \<and>
      chain_bytes pl2 = chain_bytes pl @ [1, 2, 3]"
    by (rule unauthenticated_tail [OF flat_ops_wf toy_aead_wf wit_alloc_wf(1) _ _ a, where buf = "replicate 70000 0"])
      (simp_all add: f)
  with a show ?thesis by auto
qed

section \<open>Nonces\<close>

lemma next_nonce_iter:
  assumes "unat (session_smb3_nonce_low sessionp) + k < 2 ^ 64"
  shows "(next_nonce ^^ k) sessionp =
           sessionp\<lparr>session_smb3_nonce_low := session_smb3_nonce_low sessionp + of_nat k\<rparr>"
  using assms
proof (induction k)
  case 0
  then show ?case by simp
next
  case (Suc k)
  have "unat (session_smb3_nonce_low sessionp + of_nat k + 1) = unat (session_smb3_nonce_low sessionp) + Suc k"
    using Suc.prems by (simp add: unat_word_ariths unat_of_nat add.assoc)
  then have "session_smb3_nonce_low sessionp + of_nat k + 1 \<noteq> 0" by (metis add_is_0 nat.distinct(1) unat_0)
  then show ?case using Suc by (simp add: next_nonce_def ac_simps)
qed

lemma take_le64: "n \<le> 8 \<Longrightarrow> take n (le64 x) = le_enc n (unat x)"
proof -
  have "take n (le_enc (n + k) y) = le_enc n y" for k y
    by (induction n arbitrary: y) simp_all
  from this [of "8 - n" "unat x"] show "n \<le> 8 \<Longrightarrow> take n (le64 x) = le_enc n (unat x)" by (simp add: le64_def)
qed

lemma nonce_bytes_eq:
  "nonce_bytes sessionp =
     le64 (session_smb3_nonce_high sessionp) @
     (if is_gcm (session_smb3_encrypt_ciper sessionp) then le_enc 4 (unat (session_smb3_nonce_low sessionp)) @ replicate 4 0
      else le_enc 3 (unat (session_smb3_nonce_low sessionp)) @ replicate 5 0)"
  by (simp add: nonce_bytes_def mem_write_def Let_def take_le64)

lemma le_enc_eq_iff: "le_enc n x = le_enc n y \<longleftrightarrow> x mod 256 ^ n = y mod 256 ^ n"
proof
  show "le_enc n x = le_enc n y \<Longrightarrow> x mod 256 ^ n = y mod 256 ^ n" by (metis le_dec_enc)
  have l: "length (le_enc n z) = n" for z by (induction n arbitrary: z) simp_all
  assume "x mod 256 ^ n = y mod 256 ^ n"
  then have "le_dec (le_enc n x) = le_dec (le_enc n y)" by (simp add: le_dec_enc)
  then show "le_enc n x = le_enc n y" using le_enc_dec [of "le_enc n x"] le_enc_dec [of "le_enc n y"] by (simp add: l)
qed

text \<open>C37: How long a nonce is not used again: after \<open>k\<close> further messages the nonce in the transform header
  is the same exactly when \<open>k\<close> is a multiple of \<open>2 ^ 32\<close> for AES-GCM and of \<open>2 ^ 24\<close> for AES-CCM. The nonces of
  that many messages in a row are all different, and the next one repeats the first with the same
  key, because only the low half of the counter goes up and most of its bytes are cleared.\<close>

theorem nonce_repeats:
  assumes "unat (session_smb3_nonce_low sessionp) + k < 2 ^ 64"
  shows "nonce_bytes ((next_nonce ^^ k) sessionp) = nonce_bytes sessionp \<longleftrightarrow>
           (if is_gcm (session_smb3_encrypt_ciper sessionp) then 2 ^ 32 dvd k else 2 ^ 24 dvd k)"
proof -
  let ?l = "unat (session_smb3_nonce_low sessionp)"
  have u: "unat (session_smb3_nonce_low sessionp + of_nat k) = ?l + k"
    using assms by (simp add: unat_word_ariths unat_of_nat)
  have m: "(?l + k) mod n = ?l mod n \<longleftrightarrow> n dvd k" for n
    by (metis add_diff_cancel_left' le_add1 mod_eq_dvd_iff_nat)
  show ?thesis
    unfolding next_nonce_iter [OF assms] nonce_bytes_eq by (simp add: u le_enc_eq_iff m)
qed

theorem nonce_repeats_witness:
  "nonce_bytes ((next_nonce ^^ (2 ^ 24)) wit_session) = nonce_bytes wit_session \<and>
   nonce_bytes ((next_nonce ^^ 5) wit_session) \<noteq> nonce_bytes wit_session"
proof -
  have l: "session_smb3_nonce_low wit_session = 0" "\<not> is_gcm (session_smb3_encrypt_ciper wit_session)"
    by (simp_all add: wit_session_def is_gcm_def)
  show ?thesis using nonce_repeats [of wit_session "2 ^ 24"] nonce_repeats [of wit_session 5] l by simp
qed

text \<open>
  Two channels have a thread each, and each thread encrypts under the lock of its own channel. The counter is
  changed under the lock of the session, but it is read after that has been released.
\<close>

datatype encrypt_pc = Waiting | Counted | Encrypts "byte list"

inductive encrypt_step ::
  "smb_session \<times> (nat \<Rightarrow> encrypt_pc) \<Rightarrow> smb_session \<times> (nat \<Rightarrow> encrypt_pc) \<Rightarrow> bool" where
  count: "pc i = Waiting \<Longrightarrow> encrypt_step (sessionp, pc) (next_nonce sessionp, pc(i := Counted))"
| read: "pc i = Counted \<Longrightarrow> encrypt_step (sessionp, pc) (sessionp, pc(i := Encrypts (nonce_bytes sessionp)))"

inductive_cases encrypt_stepE: "encrypt_step (sessionp, pc) st"


end
