(* ===== verification/Send.thy ===== *)
theory Send
  imports Compress Encrypt
begin

text \<open>
  What happens to a request right before it is sent (\<^verbatim>\<open>smb_iod_rq_sign\<close> of \<^verbatim>\<open>src/kernel/netsmb/smb_iod.c\<close>): message ids,
  signing, compression and encryption, composed of the operations of the other theories.
\<close>

definition do_encrypt :: "smb_session \<Rightarrow> smb_rq \<Rightarrow> bool" where
  "do_encrypt sessionp rqp =
     (if SMBV_SMB3_OR_LATER sessionp then
        if sv_sessflags sessionp AND SMB2_SESSION_FLAG_ENCRYPT_DATA \<noteq> 0 then
          sr_command rqp \<noteq> SMB2_NEGOTIATE \<and> sr_command rqp \<noteq> SMB2_SESSION_SETUP
        else
          (case sr_share rqp of
             None \<Rightarrow> False
           | Some sh \<Rightarrow>
               sr_command rqp \<noteq> SMB2_NEGOTIATE \<and> sr_command rqp \<noteq> SMB2_SESSION_SETUP \<and>
               sr_command rqp \<noteq> SMB2_TREE_CONNECT \<and> ss_share_flags sh AND SMB2_SHAREFLAG_ENCRYPT_DATA \<noteq> 0)
      else False)"

text \<open>Session setups are signed on further channels only, negotiates never. A missing channel is \<open>None\<close>.\<close>

definition sign_request ::
  "crypto_lib \<Rightarrow> smb_state \<Rightarrow> smb_session \<Rightarrow> smb_rq \<Rightarrow> smb_rq list \<Rightarrow> (smb_rq \<times> smb_rq list) option" where
  "sign_request lib st sessionp rqp rest =
     (if \<not> do_encrypt sessionp rqp \<and>
         (session_hflags2 sessionp AND SMB_FLAGS2_SECURITY_SIGNATURE \<noteq> 0 \<or> sr_flags rqp AND SMBR_SIGNED \<noteq> 0)
      then
        do {
          i \<leftarrow> sr_iod rqp;
          if (iod_flags (iods st i) AND SMBIOD_ALTERNATE_CHANNEL \<noteq> 0 \<or> sr_command rqp \<noteq> SMB2_SESSION_SETUP) \<and>
             sr_command rqp \<noteq> SMB2_NEGOTIATE
          then do { (_, rqps) \<leftarrow> smb2_rq_sign lib st (rqp # rest); Some (hd rqps, tl rqps) }
          else Some (rqp, rest)
        }
      else Some (rqp, rest))"

definition compressible :: "smb_session \<Rightarrow> smb_rq \<Rightarrow> bool" where
  "compressible sessionp rqp \<longleftrightarrow>
     SMBV_SMB3_OR_LATER sessionp \<and> server_compression_algorithms_map sessionp \<noteq> 0 \<and>
     sr_flags rqp AND SMBR_COMPOUND_RQ = 0 \<and> sr_command rqp = SMB2_WRITE \<and>
     sr_extflags rqp AND SMB2_NO_COMPRESS_WRITE = 0"

text \<open>
  \<open>rest\<close> are the requests behind \<open>rqp\<close> in a compound, \<open>hdr\<close> the mbuf for the transform header. The
  results of setting the message ids and of signing are not looked at.
\<close>

definition smb_iod_rq_sign ::
  "crypto_lib \<Rightarrow> crypt_env \<Rightarrow> mbuf_ops \<Rightarrow> 'c aead_lib \<Rightarrow> mbuf option \<Rightarrow> smb_state \<Rightarrow> smb_rq \<Rightarrow> smb_rq list \<Rightarrow>
     (errno \<times> smb_state \<times> smb_rq \<times> smb_rq list) option" where
  "smb_iod_rq_sign lib env ops aead hdr st rqp rest =
     do {
       sessionp \<leftarrow> sr_session rqp;
       (_, rqp, rest, st) \<leftarrow> smb2_rq_message_id_increment st (rqp\<lparr>sr_rq := snd (mb_fixhdr (sr_rq rqp))\<rparr>) rest;
       (rqp, rest) \<leftarrow> sign_request lib st sessionp rqp rest;
       (error, rqp) \<leftarrow> (if compressible sessionp rqp then smb2_rq_compress_write env rqp else Some (0, rqp));
       if error \<noteq> 0 then Some (error, st, rqp, rest)
       else if do_encrypt sessionp rqp then
         (case smb3_rq_encrypt ops aead hdr (the (sr_session rqp)) rqp rest of
            (error, sessionp, rqp, rest) \<Rightarrow> Some (error, st, rqp\<lparr>sr_session := Some sessionp\<rparr>, rest))
       else Some (0, st, rqp, rest)
     }"

section \<open>What the parts keep\<close>

lemma fixhdr_nth:
  assumes "i < length ms"
  shows "m_data (snd (m_fixhdr ms) ! i) = m_data (ms ! i)" "m_len (snd (m_fixhdr ms) ! i) = m_len (ms ! i)"
  using assms by (cases ms; cases i; simp add: m_fixhdr_def Let_def mbuf_pkthdr_setlen_def)+

lemma length_fixhdr [simp]: "length (snd (m_fixhdr ms)) = length ms"
  by (cases ms) (simp_all add: m_fixhdr_def Let_def)

lemma fixhdr_take: "chain_bytes (take k (snd (m_fixhdr ms))) = chain_bytes (take k ms)"
proof -
  have "map mbuf_bytes (snd (m_fixhdr ms)) = map mbuf_bytes ms"
    by (rule nth_equalityI) (simp_all add: mbuf_bytes_def fixhdr_nth)
  then show ?thesis unfolding chain_bytes_def take_map [symmetric] by simp
qed

lemma put_inv_fixhdr:
  assumes "put_inv ms m mleft"
  shows "put_inv (snd (m_fixhdr ms)) m mleft"
proof -
  have "m_len b = 0" if b: "b \<in> set (drop (Suc m) (snd (m_fixhdr ms)))" for b
  proof -
    from b obtain j where j: "j < length ms - Suc m" "b = snd (m_fixhdr ms) ! (Suc m + j)"
      by (auto simp: in_set_conv_nth)
    then have "ms ! (Suc m + j) \<in> set (drop (Suc m) ms)" by (auto simp: in_set_conv_nth)
    then show ?thesis using assms j fixhdr_nth(2) [of "Suc m + j" ms] by (simp add: put_inv_def)
  qed
  moreover have "\<forall>b \<in> set (snd (m_fixhdr ms)). mbuf_wf b"
    by (rule m_fixhdr_wf) (use assms in \<open>simp add: put_inv_def\<close>)
  ultimately show ?thesis using assms fixhdr_nth [of m ms] by (simp add: put_inv_def mbuf_trailingspace_def)
qed

lemma built_fixhdr:
  assumes "built mbp bs ps"
  shows "built (snd (mb_fixhdr mbp)) bs ps"
proof -
  have e: "snd (mb_fixhdr mbp) = mbp\<lparr>mb_top := snd (m_fixhdr (mb_top mbp))\<rparr>" by (simp add: mb_fixhdr_def case_prod_beta)
  have inv: "put_inv (mb_top mbp) (mb_cur mbp) (mb_mleft mbp)" using assms by (simp add: built_def mb_inv_def)
  have "mb_place (mbp\<lparr>mb_top := snd (m_fixhdr (mb_top mbp))\<rparr>) p off k" if "mb_place mbp p off k" for p off k
    using that inv fixhdr_nth(2) [of "fst p" "mb_top mbp"] by (simp add: mb_place_def fixhdr_take put_inv_def)
  then show ?thesis
    using assms put_inv_fixhdr [OF inv] by (auto simp: built_def e mb_inv_def mb_bytes_def list_all_iff)
qed

lemma implements_fixhdr:
  "implements rqp h body \<Longrightarrow> implements (rqp\<lparr>sr_rq := snd (mb_fixhdr (sr_rq rqp))\<rparr>) h body"
  unfolding implements_def by (simp del: split_paired_Ex) (blast intro: built_fixhdr)

text \<open>Message ids change the id and the chain of a request only.\<close>

definition only_id :: "smb_rq \<Rightarrow> smb_rq \<Rightarrow> bool" where
  "only_id rqp rqp' \<longleftrightarrow> rqp' = rqp\<lparr>sr_messageid := sr_messageid rqp', sr_rq := sr_rq rqp'\<rparr>"

lemma only_id_fields:
  assumes "only_id rqp rqp'"
  shows "sr_session rqp' = sr_session rqp" "sr_flags rqp' = sr_flags rqp" "sr_command rqp' = sr_command rqp"
    "sr_iod rqp' = sr_iod rqp" "sr_share rqp' = sr_share rqp" "sr_rqsessionid rqp' = sr_rqsessionid rqp"
    "sr_extflags rqp' = sr_extflags rqp" "sr_rq_compressed rqp' = sr_rq_compressed rqp"
proof -
  show "sr_session rqp' = sr_session rqp" "sr_flags rqp' = sr_flags rqp" "sr_command rqp' = sr_command rqp"
    "sr_iod rqp' = sr_iod rqp" "sr_share rqp' = sr_share rqp" "sr_rqsessionid rqp' = sr_rqsessionid rqp"
    "sr_extflags rqp' = sr_extflags rqp" "sr_rq_compressed rqp' = sr_rq_compressed rqp"
    using arg_cong [OF assms [unfolded only_id_def], of sr_session] arg_cong [OF assms [unfolded only_id_def], of sr_flags]
      arg_cong [OF assms [unfolded only_id_def], of sr_command] arg_cong [OF assms [unfolded only_id_def], of sr_iod]
      arg_cong [OF assms [unfolded only_id_def], of sr_share] arg_cong [OF assms [unfolded only_id_def], of sr_rqsessionid]
      arg_cong [OF assms [unfolded only_id_def], of sr_extflags] arg_cong [OF assms [unfolded only_id_def], of sr_rq_compressed]
    by simp_all
qed

lemma set_message_id_only: "set_message_id st rqp step = Some (rqp', st') \<Longrightarrow> only_id rqp rqp'"
  by (auto simp: set_message_id_def only_id_def Let_def split: option.splits prod.splits)

lemma set_message_ids_only: "set_message_ids st rqps = Some (rqps', st') \<Longrightarrow> list_all2 only_id rqps rqps'"
  by (induction rqps arbitrary: st rqps' st')
    (auto split: Option.bind_splits prod.splits dest: set_message_id_only)

section \<open>Requests with their message ids\<close>

text \<open>A request that stands for a header and a body, on channel \<open>i\<close>.\<close>

definition stands_for :: "nat \<Rightarrow> smb_rq \<Rightarrow> smb2_hdr \<times> byte list \<Rightarrow> bool" where
  "stands_for i rqp m \<longleftrightarrow> sr_iod rqp = Some i \<and> implements rqp (fst m) (snd m)"

definition with_id :: "smb2_hdr \<times> byte list \<Rightarrow> u64 \<Rightarrow> smb2_hdr \<times> byte list" where
  "with_id m mid = ((fst m)\<lparr>h_messageid := mid\<rparr>, snd m)"

definition msg_bytes :: "smb2_hdr \<times> byte list \<Rightarrow> byte list" where
  "msg_bytes m = hdr_enc (fst m) @ snd m"

lemma stands_for_chain:
  assumes "stands_for i rqp m"
  shows "chain_wf (mb_top (sr_rq rqp))" "mb_bytes (sr_rq rqp) = msg_bytes m"
  using implements_wf [of rqp "fst m" "snd m"] implements_bytes [of rqp "fst m" "snd m"] assms
  by (simp_all add: stands_for_def msg_bytes_def mb_bytes_def)

lemma set_message_ids_stand:
  assumes "list_all2 (stands_for i) rqps ms" "set_message_ids st rqps = Some (rqps', st')"
    "list_all2 has_message_id rqps rqps'" "map sr_messageid rqps' = ids" "list_all2 only_id rqps rqps'"
  shows "list_all2 (stands_for i) rqps' (map2 with_id ms ids)"
proof -
  have len: "length rqps = length ms" "length rqps' = length rqps" "length ids = length rqps'"
    using assms(1,3,4) by (auto dest: list_all2_lengthD)
  have "stands_for i (rqps' ! k) (with_id (ms ! k) (ids ! k))" if k: "k < length rqps" for k
  proof -
    have s: "stands_for i (rqps ! k) (ms ! k)" "has_message_id (rqps ! k) (rqps' ! k)" "only_id (rqps ! k) (rqps' ! k)"
      using assms(1,3,5) k by (simp_all add: list_all2_nthD)
    have "ids ! k = sr_messageid (rqps' ! k)" using assms(4) k len by auto
    then show ?thesis
      using s only_id_fields(4) [OF s(3)] by (auto simp: stands_for_def has_message_id_def with_id_def)
  qed
  then show ?thesis using len by (simp add: list_all2_conv_all_nth)
qed

text \<open>The step that sets the ids, for a single request or a compound.\<close>

definition one_or_compound :: "smb_rq \<Rightarrow> smb_rq list \<Rightarrow> bool" where
  "one_or_compound rqp rest \<longleftrightarrow>
     sr_command rqp \<noteq> SMB2_NEGOTIATE \<and> (sr_flags rqp AND SMBR_COMPOUND_RQ \<noteq> 0 \<or> rest = [])"

lemma ids_set:
  fixes st i rqp rest
  defines "ids \<equiv> msg_ids (iod_message_id (iods st i)) (map sr_creditcharge (rqp # rest))"
  assumes "sr_session rqp \<noteq> None" "one_or_compound rqp rest" "list_all2 (stands_for i) (rqp # rest) ms"
  shows "\<exists>rqp1 rest1 st1. smb2_rq_message_id_increment st (rqp\<lparr>sr_rq := snd (mb_fixhdr (sr_rq rqp))\<rparr>) rest =
             Some (0, rqp1, rest1, st1) \<and>
           list_all2 (stands_for i) (rqp1 # rest1) (map2 with_id ms ids) \<and>
           only_id rqp rqp1 \<and> list_all2 only_id rest rest1"
proof -
  define r where "r = rqp\<lparr>sr_rq := snd (mb_fixhdr (sr_rq rqp))\<rparr>"
  obtain m ms' where ms: "ms = m # ms'" "stands_for i rqp m" "list_all2 (stands_for i) rest ms'"
    using assms(4) by (auto simp: list_all2_Cons1)
  have "stands_for i r m" using ms(2) implements_fixhdr by (auto simp: stands_for_def r_def)
  then have s: "list_all2 (stands_for i) (r # rest) ms" using ms(1,3) by simp
  have "ready i q" if "stands_for i q m" for q m using that by (auto simp: ready_def stands_for_def)
  then have "list_all (ready i) (r # rest)"
    using s by (metis (mono_tags, lifting) list_all2_conv_all_nth list_all_length)
  from set_message_ids_spec [OF this, of st] obtain rqps' st1 where
    q: "set_message_ids st (r # rest) = Some (rqps', st1)" "list_all2 has_message_id (r # rest) rqps'"
      "map sr_messageid rqps' = msg_ids (iod_message_id (iods st i)) (map sr_creditcharge (r # rest))" by blast
  note o = set_message_ids_only [OF q(1)]
  obtain rqp1 rest1 where rr: "rqps' = rqp1 # rest1" using o by (auto simp: list_all2_Cons1)
  have cs: "msg_ids (iod_message_id (iods st i)) (map sr_creditcharge (r # rest)) = ids" by (simp add: ids_def r_def)
  have "list_all2 (stands_for i) (rqp1 # rest1) (map2 with_id ms ids)"
    using set_message_ids_stand [OF s q o] unfolding rr cs .
  moreover have "smb2_rq_message_id_increment st r rest = Some (0, rqp1, rest1, st1)"
    using message_id_increment_compound [of r rest st] assms(2,3) q(1)
    by (simp add: rr one_or_compound_def r_def del: set_message_ids.simps)
  moreover have "only_id rqp rqp1" "list_all2 only_id rest rest1" using o by (auto simp: rr only_id_def r_def)
  ultimately show ?thesis unfolding r_def by blast
qed

section \<open>What leaves the client\<close>

text \<open>The parameters of encryption and decryption when nothing fails, and a peer that has the keys.\<close>

definition cipher_env :: "mbuf_ops \<Rightarrow> 'c aead_lib \<Rightarrow> (nat \<Rightarrow> byte list option) \<Rightarrow> mbuf \<Rightarrow> bool" where
  "cipher_env ops aead alloc hdr \<longleftrightarrow>
     mbuf_ops_wf ops \<and> mbuf_ops_succeed ops \<and> aead_wf aead \<and> alloc_wf alloc \<and> (\<forall>n. alloc n \<noteq> None) \<and>
     mbuf_wf hdr \<and> 52 \<le> length (m_data hdr)"

definition has_keys :: "smb_session \<Rightarrow> smb_session \<Rightarrow> u64 \<Rightarrow> bool" where
  "has_keys peer sessionp sid \<longleftrightarrow>
     session_smb3_decrypt_key peer = session_smb3_encrypt_key sessionp \<and>
     session_smb3_decrypt_key_len peer = session_smb3_encrypt_key_len sessionp \<and>
     session_smb3_encrypt_ciper peer = session_smb3_encrypt_ciper sessionp \<and> session_session_id peer = sid"

lemma do_encrypt_only: "only_id rqp rqp' \<Longrightarrow> do_encrypt s rqp' = do_encrypt s rqp"
  by (simp add: do_encrypt_def only_id_fields split: option.split)

lemma compressible_only: "only_id rqp rqp' \<Longrightarrow> compressible s rqp' = compressible s rqp"
  by (simp add: compressible_def only_id_fields)

lemma concat_bytes:
  "list_all2 (stands_for i) rqps ms \<Longrightarrow> concat (map (mb_bytes \<circ> sr_rq) rqps) = concat (map msg_bytes ms)"
  by (induction rule: list_all2_induct) (simp_all add: stands_for_chain)

lemma length_msg_bytes_with_id: "length (concat (map msg_bytes (map2 with_id ms ids))) \<le> length (concat (map msg_bytes ms))"
proof (induction ms arbitrary: ids)
  case (Cons m ms)
  then show ?case by (cases ids) (simp_all add: msg_bytes_def with_id_def hdr_enc_def)
qed simp

lemma ids_chains:
  assumes "list_all2 (stands_for i) (rqp1 # rest1) ms" "only_id rqp rqp1" "list_all2 only_id rest rest1"
    and "\<forall>r \<in> set (rqp # rest). chain_wf (mb_top (sr_rq_compressed r))"
  shows "rq_wf rqp1" "\<forall>r \<in> set rest1. rq_wf r"
proof -
  show "rq_wf rqp1"
    using assms(1,4) only_id_fields(8) [OF assms(2)] stands_for_chain(1) by (auto simp: list_all2_Cons1)
  have "rq_wf (rest1 ! k)" if k: "k < length rest1" for k
  proof -
    have "stands_for i (rest1 ! k) (ms ! Suc k)" using list_all2_nthD [OF assms(1), of "Suc k"] k by simp
    moreover have "k < length rest" "only_id (rest ! k) (rest1 ! k)"
      using assms(3) k by (auto simp: list_all2_conv_all_nth)
    ultimately show ?thesis using assms(4) stands_for_chain(1) only_id_fields(8) by auto
  qed
  then show "\<forall>r \<in> set rest1. rq_wf r" unfolding all_set_conv_all_nth by blast
qed

text \<open>C10: On a session or share that encrypts, what leaves the client is the encrypted message and nothing
  else: a request, or all the requests of a compound, get their message ids and are encrypted into one
  message, and the peer who has the keys decrypts it to the headers, with
  consecutive ids, and the bodies of the requests in their order. Nothing is signed. This is for requests that are not
  to be compressed.\<close>

theorem encrypted_requests_received:
  fixes st i rqp rest
  defines "ids \<equiv> msg_ids (iod_message_id (iods st i)) (map sr_creditcharge (rqp # rest))"
  assumes "cipher_env ops aead alloc hdr" "sr_session rqp = Some sessionp" "one_or_compound rqp rest"
    and "list_all2 (stands_for i) (rqp # rest) ms" "length (concat (map msg_bytes ms)) \<le> kDefaultMaxIOSize"
    and "do_encrypt sessionp rqp" "\<not> compressible sessionp rqp" "sr_flags rqp AND SMBR_COMPRESSED = 0"
    and "\<forall>r \<in> set (rqp # rest). chain_wf (mb_top (sr_rq_compressed r))"
    and "session_smb3_encrypt_key_len sessionp \<noteq> 0" "has_keys peer sessionp (sr_rqsessionid rqp)"
  shows "\<exists>st' rqp' rest' pl peer'. smb_iod_rq_sign lib env ops aead (Some hdr) st rqp rest = Some (0, st', rqp', rest') \<and>
           smb3_msg_decrypt ops aead alloc peer (mb_top (sr_rq rqp')) = (Inr pl, peer') \<and>
           chain_bytes pl = concat (map msg_bytes (map2 with_id ms ids))"
proof -
  have "sr_session rqp \<noteq> None" using assms(3) by simp
  from ids_set [OF this assms(4,5), of st] obtain rqp1 rest1 st1 where
    inc: "smb2_rq_message_id_increment st (rqp\<lparr>sr_rq := snd (mb_fixhdr (sr_rq rqp))\<rparr>) rest = Some (0, rqp1, rest1, st1)" and
    s: "list_all2 (stands_for i) (rqp1 # rest1) (map2 with_id ms ids)" and
    o: "only_id rqp rqp1" "list_all2 only_id rest rest1" unfolding ids_def by blast
  note f = only_id_fields [OF o(1)]
  have nc: "\<not> sends_compressed rqp1" using assms(9) f by (simp add: sends_compressed_def)
  have m: "rq_message rqp1 rest1 = concat (map msg_bytes (map2 with_id ms ids))"
  proof (cases "sr_flags rqp AND SMBR_COMPOUND_RQ = 0")
    case True
    then have "rest1 = []" using assms(4) o(2) by (auto simp: one_or_compound_def)
    then show ?thesis using True f nc concat_bytes [OF s] by (simp add: rq_message_def)
  next
    case False
    then show ?thesis using f concat_bytes [OF s] by (simp add: rq_message_def)
  qed
  have len: "length (rq_message rqp1 rest1) \<le> kDefaultMaxIOSize"
    using length_msg_bytes_with_id [of ms ids] assms(6) unfolding m by linarith
  note wf = ids_chains [OF s o assms(10)]
  from assms(2) have ce: "mbuf_ops_wf ops" "mbuf_ops_succeed ops" "aead_wf aead" "alloc_wf alloc" "\<forall>n. alloc n \<noteq> None"
    "mbuf_wf hdr" "52 \<le> length (m_data hdr)" by (simp_all add: cipher_env_def)
  from assms(12) have hk: "session_smb3_decrypt_key peer = session_smb3_encrypt_key sessionp"
    "session_smb3_decrypt_key_len peer = session_smb3_encrypt_key_len sessionp"
    "session_smb3_encrypt_ciper peer = session_smb3_encrypt_ciper sessionp" "session_session_id peer = sr_rqsessionid rqp"
    by (simp_all add: has_keys_def)
  obtain s2 rqp2 rest2 pl peer' where
    e: "smb3_rq_encrypt ops aead (Some hdr) sessionp rqp1 rest1 = (0, s2, rqp2, rest2)" and
    d: "smb3_msg_decrypt ops aead alloc peer (sent_chain (sends_compressed rqp1) rqp2) = (Inr pl, peer')"
      "chain_bytes pl = rq_message rqp1 rest1"
    using encrypt_decrypt [OF ce(1-5) wf len assms(11) ce(6,7) hk(1-3), unfolded f(6), OF hk(4)] by blast
  have "smb_iod_rq_sign lib env ops aead (Some hdr) st rqp rest = Some (0, st1, rqp2\<lparr>sr_session := Some s2\<rparr>, rest2)"
    using inc assms(3,7,8) e f(1)
    by (simp add: smb_iod_rq_sign_def sign_request_def do_encrypt_only [OF o(1)] compressible_only [OF o(1)])
  then show ?thesis using d nc unfolding m by (simp add: sent_chain_def)
qed

text \<open>A session that encrypts everything, and a read on it.\<close>

definition seal_session :: smb_session where
  "seal_session = wit_session\<lparr>sv_sessflags := SMB2_SESSION_FLAG_ENCRYPT_DATA\<rparr>"

lemma seal_session_simps:
  "SMBV_SMB3_OR_LATER seal_session" "sv_sessflags seal_session = 4" "session_smb3_encrypt_key_len seal_session = 16"
  "session_smb3_encrypt_key seal_session = replicate 16 7" "session_smb3_decrypt_key seal_session = replicate 16 7"
  "session_smb3_decrypt_key_len seal_session = 16" "session_smb3_encrypt_ciper seal_session = 1"
  by (simp_all add: seal_session_def wit_session_def SMBV_SMB3_OR_LATER_def)

theorem encrypted_requests_received_witness:
  "\<exists>rqp st' rqp' rest' pl peer'. implements rqp (new_hdr wit_rq) [] \<and>
     smb_iod_rq_sign sum_lib wit_env flat_ops toy_aead (Some tf_mbuf) wit_st rqp [] = Some (0, st', rqp', rest') \<and>
     smb3_msg_decrypt flat_ops toy_aead wit_alloc (seal_session\<lparr>session_session_id := sr_rqsessionid rqp\<rparr>)
       (mb_top (sr_rq rqp')) = (Inr pl, peer') \<and>
     chain_bytes pl = hdr_enc ((new_hdr wit_rq)\<lparr>h_messageid := 100\<rparr>)"
proof -
  have nf: "\<not> getm_fails (smb_mbuf_getm wit_kpi)"
    using wit_kpi_wf(2) smb_mbuf_getm_fails [OF wit_kpi_wf(1)] by blast
  from kernel_mbufs.rq_new_implements [OF wit_kpi_wf(1) nf refl wit_mbuf_ok(1,3,2,1), of wit_rq]
  obtain r where r: "implements r (new_hdr wit_rq) []" by (auto simp: new_post_def)
  define rqp where "rqp = r\<lparr>sr_session := Some seal_session, sr_iod := Some 0, sr_command := 8, sr_flags := 0,
    sr_rq_compressed := mb_initm []\<rparr>"
  have i: "implements rqp (new_hdr wit_rq) []" using r by (simp add: implements_def rqp_def)
  have env: "cipher_env flat_ops toy_aead wit_alloc tf_mbuf"
    using flat_ops_wf toy_aead_wf wit_alloc_wf tf_mbuf_ok by (simp add: cipher_env_def)
  have st: "list_all2 (stands_for 0) (rqp # []) [(new_hdr wit_rq, [])]" using i by (simp add: stands_for_def rqp_def)
  have len: "length (concat (map msg_bytes [(new_hdr wit_rq, [])])) \<le> kDefaultMaxIOSize"
    using i by (simp add: msg_bytes_def implements_def)
  have ids: "msg_ids (iod_message_id (iods wit_st 0)) (map sr_creditcharge (rqp # [])) = [100]"
    by (simp add: wit_st_def wit_iod_def)
  have "\<exists>st' rqp' rest' pl peer'. smb_iod_rq_sign sum_lib wit_env flat_ops toy_aead (Some tf_mbuf) wit_st rqp [] =
      Some (0, st', rqp', rest') \<and>
     smb3_msg_decrypt flat_ops toy_aead wit_alloc (seal_session\<lparr>session_session_id := sr_rqsessionid rqp\<rparr>)
       (mb_top (sr_rq rqp')) = (Inr pl, peer') \<and>
     chain_bytes pl = concat (map msg_bytes (map2 with_id [(new_hdr wit_rq, [])] [100]))"
    unfolding ids [symmetric]
    by (rule encrypted_requests_received [OF env _ _ st len, where sessionp = seal_session])
      (simp_all add: rqp_def one_or_compound_def do_encrypt_def compressible_def seal_session_simps has_keys_def mb_initm_def)
  then show ?thesis using i by (auto simp: msg_bytes_def with_id_def)
qed

end
