(* ===== verification/Tran.thy ===== *)
theory Tran
  imports Encrypt
begin

text \<open>
  The transport (\<^verbatim>\<open>src/kernel/netsmb/smb_trantcp.c\<close>): the four byte header in front of every message, its
  reassembly from what the socket delivers, NetBIOS names, and the decision whether a message is encrypted.

  The socket is the sequence of results of the calls that receive from it; when there are no more, the caller
  waits for ever, which is \<open>None\<close>. Timeouts are part of the result of a call.
\<close>

abbreviation (input) EINTR :: errno where "EINTR \<equiv> 4"
abbreviation (input) ERESTART :: errno where "ERESTART \<equiv> -1"
abbreviation (input) ENOTCONN :: errno where "ENOTCONN \<equiv> 57"
abbreviation (input) EHOSTDOWN :: errno where "EHOSTDOWN \<equiv> 64"
abbreviation (input) EADDRNOTAVAIL :: errno where "EADDRNOTAVAIL \<equiv> 49"
abbreviation (input) NBF_LOCADDR :: u32 where "NBF_LOCADDR \<equiv> 0x1"
abbreviation (input) NBF_CONNECTED :: u32 where "NBF_CONNECTED \<equiv> 0x2"
abbreviation (input) NBF_NETBIOS :: u32 where "NBF_NETBIOS \<equiv> 0x20"
abbreviation (input) NBF_SOCK_OPENED :: u32 where "NBF_SOCK_OPENED \<equiv> 0x80"
abbreviation (input) NB_SSN_MESSAGE :: byte where "NB_SSN_MESSAGE \<equiv> 0"
abbreviation (input) NB_SSN_REQUEST :: byte where "NB_SSN_REQUEST \<equiv> 0x81"
abbreviation (input) NB_SSN_POSRESP :: byte where "NB_SSN_POSRESP \<equiv> 0x82"
abbreviation (input) NB_SSN_NEGRESP :: byte where "NB_SSN_NEGRESP \<equiv> 0x83"
abbreviation (input) NB_SSN_RTGRESP :: byte where "NB_SSN_RTGRESP \<equiv> 0x84"
abbreviation (input) NB_SSN_KEEPALIVE :: byte where "NB_SSN_KEEPALIVE \<equiv> 0x85"
abbreviation (input) SMB_MAXPKTLEN :: u32 where "SMB_MAXPKTLEN \<equiv> 0x1FFFF"
abbreviation (input) SMB_LARGE_MAXPKTLEN :: u32 where "SMB_LARGE_MAXPKTLEN \<equiv> 0xFFFFFF"

datatype nbstate = NBST_CLOSED | NBST_RQSENT | NBST_SESSION | NBST_RETARGET | NBST_REFUSED

text \<open>
  The names are the encoded names of the addresses, \<open>nbp_tso\<close> says whether there is a socket, the timeout is in
  nanoseconds, and the two pointers are numbers.
\<close>

record nbpcb =
  nbp_flags :: u32
  nbp_state :: nbstate
  nbp_laddr :: "byte list option"
  nbp_paddr :: "byte list option"
  nbp_tso :: bool
  nbp_timo :: nat
  nbp_sndbuf :: u32
  nbp_rcvbuf :: u32
  nbp_rcvchunk :: u32
  nbp_selectid :: u64
  nbp_upcall :: u64
  nbp_qos :: u32
  nbp_sock_addr :: "byte list"
  nbp_if_idx :: u32

section \<open>Names\<close>

definition sizeof_snb_name :: nat where "sizeof_snb_name = 34"

text \<open>\<open>None\<close>: a byte outside of the name is read. The sum of the lengths is a \<^verbatim>\<open>uint8_t\<close>.\<close>

function validate_name :: "byte list \<Rightarrow> nat \<Rightarrow> byte \<Rightarrow> errno option" where
  "validate_name name cp total_bytes =
     (if cp \<ge> length name then None
      else if name ! cp = 0 then Some 0
      else
        let seglen = name ! cp + 1;
            total_bytes = total_bytes + seglen
        in if seglen = 0 \<or> unat total_bytes > sizeof_snb_name then Some EINVAL
           else validate_name name (cp + unat seglen) total_bytes)"
  by pat_completeness auto
termination
proof (relation "measure (\<lambda>(name, cp, _). length name - cp)")
  fix name :: "byte list" and cp :: nat and seglen total_bytes total :: byte
  assume a: "\<not> length name \<le> cp" "\<not> (seglen = 0 \<or> sizeof_snb_name < unat total)"
  then have "0 < unat seglen" by (simp add: unat_gt_0)
  then show "((name, cp + unat seglen, total), name, cp, total_bytes) \<in> measure (\<lambda>(name, cp, _). length name - cp)"
    using a(1) by simp
qed simp

declare validate_name.simps [simp del]

definition nb_validate_name :: "byte list option \<Rightarrow> errno option" where
  "nb_validate_name snb =
     (case snb of
        None \<Rightarrow> Some EINVAL
      | Some name \<Rightarrow>
          if name = [] then None else if name ! 0 = 0 then Some EINVAL else validate_name name 0 0)"

text \<open>Putting the segments into the message. A segment outside of the name is \<open>None\<close>, one of 256 bytes makes no progress.\<close>

partial_function (option) put_name :: "getm \<Rightarrow> byte list \<Rightarrow> nat \<Rightarrow> mbchain \<Rightarrow> (errno \<times> mbchain) option" where
  "put_name getm name cp mbp =
     (if cp \<ge> length name then None
      else
        let seglen = name ! cp + 1
        in if cp + unat seglen > length name then None
           else do {
             (error, mbp) \<leftarrow> put_field getm mbp (Mem (take (unat seglen) (drop cp name)));
             if error \<noteq> 0 then Some (error, mbp)
             else if seglen = 1 then Some (0, mbp)
             else put_name getm name (cp + unat seglen) mbp
           })"

definition nb_put_name :: "getm \<Rightarrow> mbchain \<Rightarrow> byte list option \<Rightarrow> (errno \<times> mbchain) option" where
  "nb_put_name getm mbp snb =
     do {
       error \<leftarrow> nb_validate_name snb;
       if error \<noteq> 0 then Some (error, mbp) else put_name getm (the snb) 0 mbp
     }"

section \<open>The header of a message\<close>

definition nb_sethdr :: "nbpcb \<Rightarrow> byte \<Rightarrow> u32 \<Rightarrow> mbuf list \<Rightarrow> mbuf list" where
  "nb_sethdr nbp type len m =
     (case m of
        [] \<Rightarrow> []
      | mb # rest \<Rightarrow>
          let field = (if nbp_flags nbp AND NBF_NETBIOS \<noteq> 0 then len AND SMB_MAXPKTLEN else len AND SMB_LARGE_MAXPKTLEN)
          in mb\<lparr>m_data := mem_write 0 (be32 (field OR push_bit 24 (ucast type))) (m_data mb)\<rparr> # rest)"

text \<open>
  The result of a call that receives: data in mbufs, or an error, together with whether the socket is
  still connected and whether the wait for data has taken too long.
\<close>

datatype sock_result = SData "mbuf list" | SErr errno bool bool

definition closed :: "nbpcb \<Rightarrow> nbpcb" where
  "closed nbp = nbp\<lparr>nbp_state := NBST_CLOSED\<rparr>"

fun recvhdr_bytes ::
  "nbpcb \<Rightarrow> nat \<Rightarrow> byte list \<Rightarrow> bool \<Rightarrow> sock_result list \<Rightarrow> ((errno + byte list) \<times> nbpcb \<times> sock_result list) option" where
  "recvhdr_bytes nbp resid hdr wait_time [] = None"
| "recvhdr_bytes nbp resid hdr wait_time (SData tm # evs) =
     (let recvdlen = length (chain_bytes tm)
      in if recvdlen = 0 then Some (Inl EPIPE, closed nbp, evs)
         else if recvdlen > resid then Some (Inl EPIPE, nbp, evs)
         else if resid - recvdlen = 0 then Some (Inr (hdr @ chain_bytes tm), nbp, evs)
         else recvhdr_bytes nbp (resid - recvdlen) (hdr @ chain_bytes tm) wait_time evs)"
| "recvhdr_bytes nbp resid hdr wait_time (SErr error connected late # evs) =
     (if error = EWOULDBLOCK \<and> wait_time then recvhdr_bytes nbp resid hdr False evs
      else if nbp_flags nbp AND NBF_SOCK_OPENED = 0 \<or> \<not> connected then Some (Inl EPIPE, closed nbp, evs)
      else Some (Inl error, nbp, evs))"

definition nbssn_recvhdr ::
  "nbpcb \<Rightarrow> bool \<Rightarrow> sock_result list \<Rightarrow> ((errno + nat \<times> byte) \<times> nbpcb \<times> sock_result list) option" where
  "nbssn_recvhdr nbp wait_time evs =
     do {
       (r, nbp, evs) \<leftarrow> recvhdr_bytes nbp 4 [] wait_time evs;
       case r of
         Inl e \<Rightarrow> Some (Inl e, nbp, evs)
       | Inr hdr \<Rightarrow>
           let len = (of_nat (be_dec hdr) :: u32);
               rpcode = (ucast (drop_bit 24 len) :: byte);
               netbios = nbp_flags nbp AND NBF_NETBIOS \<noteq> 0
           in if netbios \<and> drop_bit 16 len AND 0xFE \<noteq> 0 then Some (Inl EPIPE, nbp, evs)
              else
                let len = (if netbios then len AND SMB_MAXPKTLEN else len AND SMB_LARGE_MAXPKTLEN)
                in if rpcode = NB_SSN_MESSAGE \<or> rpcode = NB_SSN_KEEPALIVE \<or>
                      rpcode \<in> {NB_SSN_REQUEST, NB_SSN_POSRESP, NB_SSN_NEGRESP, NB_SSN_RTGRESP} \<and> netbios
                   then Some (Inr (unat len, rpcode), nbp, evs)
                   else Some (Inl EPIPE, nbp, evs)
     }"

text \<open>The data behind the header, in the pieces the socket gives.\<close>

fun recv_body :: "nat \<Rightarrow> mbuf list \<Rightarrow> sock_result list \<Rightarrow> ((errno + mbuf list) \<times> sock_result list) option" where
  "recv_body resid m evs =
     (if resid = 0 then Some (Inr m, evs)
      else case evs of
             [] \<Rightarrow> None
           | SData tm # evs \<Rightarrow>
               let recvdlen = length (chain_bytes tm)
               in if recvdlen = 0 \<or> recvdlen > resid then Some (Inl EPIPE, evs)
                  else recv_body (resid - recvdlen) (if m = [] then tm else mbuf_cat_internal m tm) evs
           | SErr error connected late # evs \<Rightarrow>
               if error = EAGAIN then (if late then Some (Inl EPIPE, evs) else recv_body resid m evs)
               else if error = EINTR \<or> error = ERESTART then recv_body resid m evs
               else Some (Inl error, evs))"

declare recv_body.simps [simp del]

partial_function (option) recv_loop ::
  "nbpcb \<Rightarrow> bool \<Rightarrow> sock_result list \<Rightarrow> ((errno + mbuf list \<times> nat \<times> byte) \<times> nbpcb \<times> sock_result list) option" where
  "recv_loop nbp wait_time evs =
     do {
       (h, nbp, evs) \<leftarrow> nbssn_recvhdr nbp wait_time evs;
       case h of
         Inl e \<Rightarrow> Some (Inl e, nbp, evs)
       | Inr (len, rpcode) \<Rightarrow>
           do {
             (b, evs) \<leftarrow> recv_body len [] evs;
             case b of
               Inl e \<Rightarrow> Some (Inl e, nbp, evs)
             | Inr m \<Rightarrow>
                 if rpcode = NB_SSN_KEEPALIVE then recv_loop nbp wait_time evs
                 else if nbp_state nbp \<noteq> NBST_SESSION then Some (Inr (m, len, rpcode), nbp, evs)
                 else if rpcode = NB_SSN_MESSAGE then
                   if m = [] then recv_loop nbp wait_time evs else Some (Inr (m, len, rpcode), nbp, evs)
                 else recv_loop nbp wait_time evs
           }
     }"

definition nbssn_recv ::
  "nbpcb \<Rightarrow> bool \<Rightarrow> sock_result list \<Rightarrow> ((errno + mbuf list \<times> nat \<times> byte) \<times> nbpcb \<times> sock_result list) option" where
  "nbssn_recv nbp wait_time evs =
     (if nbp_flags nbp AND NBF_CONNECTED = 0 then Some (Inl ENOTCONN, nbp, evs) else recv_loop nbp wait_time evs)"

section \<open>The interface of the transport\<close>

text \<open>The sizes are the settings of the system.\<close>

definition smb_nbst_create :: "u32 \<Rightarrow> u32 \<Rightarrow> nbpcb" where
  "smb_nbst_create smb_tcpsndbuf smb_tcprcvbuf =
     \<lparr>nbp_flags = 0, nbp_state = NBST_CLOSED, nbp_laddr = None, nbp_paddr = None, nbp_tso = False,
      nbp_timo = 15 * 10 ^ 9, nbp_sndbuf = smb_tcpsndbuf, nbp_rcvbuf = smb_tcprcvbuf, nbp_rcvchunk = 0, nbp_selectid = 0,
      nbp_upcall = 0, nbp_qos = 0, nbp_sock_addr = replicate 128 0, nbp_if_idx = 0\<rparr>"

text \<open>\<open>sap\<close> is the length and the name of an address, or NULL.\<close>

definition smb_nbst_bind :: "nat \<Rightarrow> nbpcb \<Rightarrow> (nat \<times> byte list) option \<Rightarrow> bool \<Rightarrow> errno \<times> nbpcb" where
  "smb_nbst_bind minlen nbp sap memory =
     (if nbp_flags nbp AND NBF_LOCADDR \<noteq> 0 then (EINVAL, nbp)
      else case sap of
             None \<Rightarrow> (EINVAL, nbp)
           | Some (slen, name) \<Rightarrow>
               if slen < minlen then (EINVAL, nbp)
               else if \<not> memory then (ENOMEM, nbp)
               else (0, nbp\<lparr>nbp_laddr := Some name, nbp_flags := nbp_flags nbp OR NBF_LOCADDR\<rparr>))"

definition disconnected :: "nbpcb \<Rightarrow> nbpcb" where
  "disconnected nbp =
     (let nbp = (if nbp_tso nbp then nbp\<lparr>nbp_flags := nbp_flags nbp AND NOT NBF_CONNECTED AND NOT NBF_SOCK_OPENED\<rparr> else nbp)
      in if nbp_state nbp \<noteq> NBST_RETARGET then closed nbp else nbp)"

definition smb_nbst_disconnect :: "nbpcb option \<Rightarrow> errno \<times> nbpcb option" where
  "smb_nbst_disconnect nbpp =
     (case nbpp of None \<Rightarrow> (ENOTCONN, None) | Some nbp \<Rightarrow> (0, Some (disconnected nbp)))"

text \<open>\<open>prepend\<close> is \<^verbatim>\<open>mbuf_prepend\<close>; the message handed to the socket is part of the result.\<close>

definition smb_nbst_send ::
  "(mbuf list \<Rightarrow> nat \<Rightarrow> mbuf list option) \<Rightarrow> (mbuf list \<Rightarrow> errno) \<Rightarrow> nbpcb option \<Rightarrow> mbuf list \<Rightarrow> errno \<times> mbuf list" where
  "smb_nbst_send prepend sock_sendmbuf nbpp m0 =
     (case nbpp of
        None \<Rightarrow> (ENOTCONN, [])
      | Some nbp \<Rightarrow>
          if nbp_state nbp \<noteq> NBST_SESSION then (ENOTCONN, [])
          else case prepend m0 4 of
                 None \<Rightarrow> (ENOBUFS, [])
               | Some m0 \<Rightarrow>
                   let (len, m0) = m_fixhdr m0;
                       m0 = nb_sethdr nbp NB_SSN_MESSAGE (of_nat (len - 4)) m0
                   in (sock_sendmbuf m0, m0))"

definition smb_nbst_recv ::
  "mbuf_ops \<Rightarrow> 'c aead_lib \<Rightarrow> (nat \<Rightarrow> byte list option) \<Rightarrow> smb_session \<Rightarrow> nbpcb option \<Rightarrow> sock_result list \<Rightarrow>
     ((errno + mbuf list) \<times> smb_session \<times> nbpcb option \<times> sock_result list) option" where
  "smb_nbst_recv ops aead alloc sessionp nbpp evs =
     (case nbpp of
        None \<Rightarrow> Some (Inl ENOTCONN, sessionp, None, evs)
      | Some nbp \<Rightarrow>
          do {
            (r, nbp, evs) \<leftarrow> nbssn_recv nbp False evs;
            case r of
              Inl e \<Rightarrow> Some (Inl e, sessionp, Some nbp, evs)
            | Inr (m, _, _) \<Rightarrow>
                (case mbuf_pullup ops m 1 of
                   None \<Rightarrow> Some (Inl ENOMEM, sessionp, Some nbp, evs)
                 | Some m \<Rightarrow>
                     if m_data (hd m) ! 0 = 0xFD
                     then case smb3_msg_decrypt ops aead alloc sessionp m of
                            (r, sessionp) \<Rightarrow> Some (r, sessionp, Some nbp, evs)
                     else Some (Inr m, sessionp, Some nbp, evs))
          })"

definition smb_nbst_fatal :: "nbpcb option \<Rightarrow> errno \<Rightarrow> bool \<Rightarrow> bool" where
  "smb_nbst_fatal nbpp error connected \<longleftrightarrow>
     error \<in> {EHOSTDOWN, ENETUNREACH, ENOTCONN, ENETRESET, ECONNABORTED, EPIPE, EADDRNOTAVAIL} \<or>
     (case nbpp of
        None \<Rightarrow> True
      | Some nbp \<Rightarrow> \<not> nbp_tso nbp \<or> nbp_flags nbp AND NBF_SOCK_OPENED = 0 \<or> \<not> connected)"

section \<open>Reassembly\<close>

text \<open>Data as a socket may deliver it: in pieces, with calls in between that have to be repeated.\<close>

definition deliver :: "(errno list \<times> mbuf list) list \<Rightarrow> sock_result list" where
  "deliver ps = concat (map (\<lambda>(es, tm). map (\<lambda>e. SErr e True False) es @ [SData tm]) ps)"

definition pieces :: "(errno list \<times> mbuf list) list \<Rightarrow> byte list \<Rightarrow> bool" where
  "pieces ps bs \<longleftrightarrow>
     (\<forall>(es, tm) \<in> set ps. set es \<subseteq> {EAGAIN, EINTR, ERESTART} \<and> chain_bytes tm \<noteq> [] \<and> chain_wf tm) \<and>
     concat (map (chain_bytes \<circ> snd) ps) = bs"

lemma recv_body_retry:
  assumes "0 < resid" "set es \<subseteq> {EAGAIN, EINTR, ERESTART}"
  shows "recv_body resid m (map (\<lambda>e. SErr e True False) es @ evs) = recv_body resid m evs"
  using assms(2)
proof (induction es)
  case (Cons e es)
  then have "recv_body resid m (map (\<lambda>e. SErr e True False) (e # es) @ evs) =
      recv_body resid m (map (\<lambda>e. SErr e True False) es @ evs)"
    using assms(1) by (subst recv_body.simps) auto
  then show ?case using Cons by simp
qed simp

lemma recv_body_pieces:
  assumes "pieces ps bs" "chain_wf m"
  shows "\<exists>m'. recv_body (length bs) m (deliver ps @ evs) = Some (Inr m', evs) \<and> chain_wf m' \<and>
           chain_bytes m' = chain_bytes m @ bs"
  using assms
proof (induction ps arbitrary: m bs)
  case Nil
  then show ?case by (simp add: pieces_def deliver_def recv_body.simps [of 0])
next
  case (Cons p ps)
  obtain es tm where p: "p = (es, tm)" by fastforce
  define bs' where "bs' = concat (map (chain_bytes \<circ> snd) ps)"
  have b: "set es \<subseteq> {EAGAIN, EINTR, ERESTART}" "chain_bytes tm \<noteq> []" "chain_wf tm" "bs = chain_bytes tm @ bs'" "pieces ps bs'"
    using Cons.prems(1) by (auto simp: pieces_def p bs'_def)
  define m2 where "m2 = (if m = [] then tm else mbuf_cat_internal m tm)"
  have m2: "chain_wf m2" "chain_bytes m2 = chain_bytes m @ chain_bytes tm"
    using Cons.prems(2) b(3) by (auto simp: m2_def mbuf_cat_internal_def)
  have "recv_body (length bs) m (deliver (p # ps) @ evs) =
      recv_body (length bs) m (map (\<lambda>e. SErr e True False) es @ SData tm # deliver ps @ evs)"
    by (simp add: deliver_def p)
  also have "\<dots> = recv_body (length bs) m (SData tm # deliver ps @ evs)"
    by (rule recv_body_retry) (use b in auto)
  also have "\<dots> = recv_body (length bs') m2 (deliver ps @ evs)"
    using b(2,4) by (subst recv_body.simps) (simp add: Let_def m2_def)
  finally show ?case using Cons.IH [OF b(5) m2(1)] m2(2) b(4) by simp
qed

lemma recvhdr_pieces:
  assumes "\<forall>tm \<in> set tms. chain_bytes tm \<noteq> []" "concat (map chain_bytes tms) = bs" "bs \<noteq> []"
  shows "recvhdr_bytes nbp (length bs) acc w (map SData tms @ evs) = Some (Inr (acc @ bs), nbp, evs)"
  using assms
proof (induction tms arbitrary: bs acc)
  case (Cons tm tms)
  define bs' where "bs' = concat (map chain_bytes tms)"
  have b: "bs = chain_bytes tm @ bs'" "chain_bytes tm \<noteq> []" using Cons.prems by (auto simp: bs'_def)
  show ?case
  proof (cases "bs' = []")
    case True
    then have "tms = []" using Cons.prems(1) by (cases tms) (auto simp: bs'_def)
    then show ?thesis using b True by (simp add: Let_def)
  next
    case False
    then show ?thesis using b Cons.IH [of bs'] Cons.prems(1) by (simp add: Let_def bs'_def)
  qed
qed simp

section \<open>Frames\<close>

definition frame_limit :: "nbpcb \<Rightarrow> nat" where
  "frame_limit nbp = (if nbp_flags nbp AND NBF_NETBIOS \<noteq> 0 then 0x1FFFF else 0xFFFFFF)"

definition frame_hdr :: "byte \<Rightarrow> nat \<Rightarrow> byte list" where
  "frame_hdr type n = be32 (of_nat n OR push_bit 24 (ucast type))"

lemma high_bits:
  assumes "unat (x :: 'a::len word) < 2 ^ k" "k \<le> n"
  shows "\<not> bit x n"
proof
  assume "bit x n"
  then have "n < LENGTH('a)" by (rule bit_imp_le_length)
  with \<open>bit x n\<close> have "bit (unat x) n" by (simp add: bit_unsigned_iff)
  then have "odd (unat x div 2 ^ n)" by (rule iffD1 [OF bit_iff_odd])
  moreover have "unat x < 2 ^ n" using assms by (meson le_trans not_le one_le_numeral power_increasing)
  ultimately show False by simp
qed

lemma length_field:
  fixes x :: u32 and type :: byte
  assumes "x < 2 ^ 24"
  shows "(x OR push_bit 24 (ucast type)) AND 0xFFFFFF = x" "(ucast (drop_bit 24 (x OR push_bit 24 (ucast type))) :: byte) = type"
    "x < 2 ^ 17 \<Longrightarrow> (x OR push_bit 24 (ucast type)) AND 0x1FFFF = x"
    "x < 2 ^ 17 \<Longrightarrow> drop_bit 16 (x OR push_bit 24 (ucast type)) AND 0xFE = 0"
proof -
  have hi: "n < 24" if "bit x n" for n
    using high_bits [of x 24 n] assms that by (auto simp: word_less_nat_alt not_le [symmetric])
  have hi17: "n < 17" if "bit x n" "x < 2 ^ 17" for n
    using high_bits [of x 17 n] that by (auto simp: word_less_nat_alt not_le [symmetric])
  have m: "(0xFFFFFF :: u32) = mask 24" "(0x1FFFF :: u32) = mask 17" by (simp_all add: mask_eq_exp_minus_1)
  show "(x OR push_bit 24 (ucast type)) AND 0xFFFFFF = x"
    unfolding m by (rule bit_word_eqI) (use hi in \<open>fastforce simp: bit_simps\<close>)
  show "(ucast (drop_bit 24 (x OR push_bit 24 (ucast type))) :: byte) = type"
    by (rule bit_word_eqI) (use hi in \<open>fastforce simp: bit_simps\<close>)
  show "x < 2 ^ 17 \<Longrightarrow> (x OR push_bit 24 (ucast type)) AND 0x1FFFF = x"
    unfolding m by (rule bit_word_eqI) (use hi17 in \<open>fastforce simp: bit_simps\<close>)
  have f: "(0xFE :: u32) = mask 8 AND NOT (mask 1)" by (simp add: mask_eq_exp_minus_1)
  show "drop_bit 16 (x OR push_bit 24 (ucast type)) AND 0xFE = 0" if x: "x < 2 ^ 17"
    unfolding f by (rule bit_word_eqI) (auto simp: bit_simps dest: hi17 [OF _ x])
qed

text \<open>A frame as it may be delivered: the header in pieces, then the data in pieces.\<close>

definition delivers_frame :: "byte \<Rightarrow> byte list \<Rightarrow> sock_result list \<Rightarrow> bool" where
  "delivers_frame type bs evs \<longleftrightarrow>
     (\<exists>tms ps. evs = map SData tms @ deliver ps \<and> (\<forall>tm \<in> set tms. chain_bytes tm \<noteq> []) \<and>
        concat (map chain_bytes tms) = frame_hdr type (length bs) \<and> pieces ps bs)"

lemma recvhdr_frame:
  assumes "\<forall>tm \<in> set tms. chain_bytes tm \<noteq> []" "concat (map chain_bytes tms) = frame_hdr type n" "n \<le> frame_limit nbp"
    and "type = NB_SSN_MESSAGE \<or> type = NB_SSN_KEEPALIVE"
  shows "nbssn_recvhdr nbp w (map SData tms @ evs) = Some (Inr (n, type), nbp, evs)"
proof -
  define x where "x = (of_nat n :: u32)"
  have lim: "n < 2 ^ 24" using assms(3) by (simp add: frame_limit_def split: if_splits)
  have u: "unat x = n" using lim by (simp add: x_def unat_of_nat)
  have x: "x < 2 ^ 24" using lim u by (simp add: word_less_nat_alt)
  have x17: "x < 2 ^ 17" if "nbp_flags nbp AND NBF_NETBIOS \<noteq> 0"
    using assms(3) that u by (simp add: word_less_nat_alt frame_limit_def)
  have l: "frame_hdr type n \<noteq> []" "length (frame_hdr type n) = 4" by (auto simp: frame_hdr_def simp flip: length_0_conv)
  have b: "recvhdr_bytes nbp 4 [] w (map SData tms @ evs) = Some (Inr (frame_hdr type n), nbp, evs)"
    using recvhdr_pieces [OF assms(1,2) l(1), of nbp "[]" w evs] l(2) by simp
  have d: "(of_nat (be_dec (frame_hdr type n)) :: u32) = x OR push_bit 24 (ucast type)"
    by (simp add: frame_hdr_def word_decode x_def)
  show ?thesis
    using assms(4) length_field [OF x, of type] x17 u
    unfolding nbssn_recvhdr_def b by (auto simp: Let_def d)
qed

lemma recv_loop_frame:
  assumes "delivers_frame type bs evs" "length bs \<le> frame_limit nbp" "nbp_state nbp = NBST_SESSION"
  shows "type = NB_SSN_KEEPALIVE \<Longrightarrow> recv_loop nbp w (evs @ rest) = recv_loop nbp w rest"
    and "type = NB_SSN_MESSAGE \<Longrightarrow> bs \<noteq> [] \<Longrightarrow>
           \<exists>m. recv_loop nbp w (evs @ rest) = Some (Inr (m, length bs, type), nbp, rest) \<and> chain_wf m \<and> chain_bytes m = bs"
proof -
  from assms(1) obtain tms ps where e: "evs = map SData tms @ deliver ps" "\<forall>tm \<in> set tms. chain_bytes tm \<noteq> []"
    "concat (map chain_bytes tms) = frame_hdr type (length bs)" "pieces ps bs" unfolding delivers_frame_def by blast
  obtain m where m: "recv_body (length bs) [] (deliver ps @ rest) = Some (Inr m, rest)" "chain_wf m" "chain_bytes m = bs"
    using recv_body_pieces [OF e(4), of "[]" rest] by auto
  note h = recvhdr_frame [OF e(2,3) assms(2)]
  show "recv_loop nbp w (evs @ rest) = recv_loop nbp w rest" if "type = NB_SSN_KEEPALIVE"
    using h [OF disjI2 [OF that], of w "deliver ps @ rest"] m that by (subst recv_loop.simps) (simp add: e(1))
  show "\<exists>m. recv_loop nbp w (evs @ rest) = Some (Inr (m, length bs, type), nbp, rest) \<and> chain_wf m \<and> chain_bytes m = bs"
    if t: "type = NB_SSN_MESSAGE" and "bs \<noteq> []"
  proof -
    have "m \<noteq> []" using m(3) that(2) by auto
    then show ?thesis
      using h [OF disjI1 [OF t], of w "deliver ps @ rest"] m t assms(3) by (subst recv_loop.simps) (simp add: e(1))
  qed
qed

text \<open>What \<^verbatim>\<open>mbuf_prepend\<close> promises when it does not fail: room in front, in the first mbuf.\<close>

definition prepend_wf :: "(mbuf list \<Rightarrow> nat \<Rightarrow> mbuf list option) \<Rightarrow> bool" where
  "prepend_wf prepend \<longleftrightarrow>
     (\<forall>ms n. chain_wf ms \<longrightarrow> (\<exists>ms' room. prepend ms n = Some ms' \<and> chain_wf ms' \<and> ms' \<noteq> [] \<and> n \<le> m_len (hd ms') \<and>
        length room = n \<and> chain_bytes ms' = room @ chain_bytes ms))"

lemma nbst_send_bytes:
  assumes "prepend_wf prepend" "chain_wf m0" "nbp_state nbp = NBST_SESSION" "length (chain_bytes m0) \<le> frame_limit nbp"
  shows "\<exists>out. smb_nbst_send prepend sosend (Some nbp) m0 = (sosend out, out) \<and>
           chain_bytes out = frame_hdr NB_SSN_MESSAGE (length (chain_bytes m0)) @ chain_bytes m0"
proof -
  obtain ms room where p: "prepend m0 4 = Some ms" "chain_wf ms" "ms \<noteq> []" "4 \<le> m_len (hd ms)" "length room = 4"
    "chain_bytes ms = room @ chain_bytes m0" using assms(1,2) unfolding prepend_wf_def by blast
  define n where "n = length (chain_bytes m0)"
  obtain a t where f: "m_fixhdr ms = (4 + n, a # t)" "mbuf_wf a" "m_len a = m_len (hd ms)" "chain_bytes (a # t) = chain_bytes ms"
  proof -
    obtain a0 t0 where ms: "ms = a0 # t0" using p(3) by (cases ms) auto
    have "fst (m_fixhdr ms) = 4 + n"
      using length_chain_bytes [OF p(2)] p(5,6) by (simp add: m_fixhdr_def n_def Let_def)
    then show ?thesis
      using that m_fixhdr_wf [OF p(2)] m_fixhdr_bytes [of ms]
      by (auto simp: ms m_fixhdr_def Let_def mbuf_pkthdr_setlen_def split: if_splits)
  qed
  define w where "w = frame_hdr NB_SSN_MESSAGE n"
  have nlim: "n < 2 ^ 24" "nbp_flags nbp AND NBF_NETBIOS \<noteq> 0 \<Longrightarrow> n < 2 ^ 17"
    using assms(4) by (auto simp: n_def frame_limit_def split: if_splits)
  have u: "unat (of_nat n :: u32) = n" using nlim by (simp add: unat_of_nat)
  have field: "(of_nat n :: u32) AND SMB_LARGE_MAXPKTLEN = of_nat n"
    "nbp_flags nbp AND NBF_NETBIOS \<noteq> 0 \<Longrightarrow> (of_nat n :: u32) AND SMB_MAXPKTLEN = of_nat n"
    using length_field(1,3) [of "of_nat n" 0] nlim u by (simp_all add: word_less_nat_alt)
  have lw: "length w = 4" by (simp add: w_def frame_hdr_def)
  define out where "out = a\<lparr>m_data := mem_write 0 w (m_data a)\<rparr> # t"
  have s: "nb_sethdr nbp NB_SSN_MESSAGE (of_nat n) (a # t) = out"
    using field by (simp add: nb_sethdr_def out_def w_def frame_hdr_def Let_def)
  have "4 \<le> length (mbuf_bytes a)" "mbuf_bytes (a\<lparr>m_data := mem_write 0 w (m_data a)\<rparr>) = w @ drop 4 (mbuf_bytes a)"
    using f(2,3) p(4) lw by (auto simp: mbuf_wf_def mbuf_bytes_def mem_write_def drop_take)
  then have "chain_bytes out = w @ drop 4 (chain_bytes (a # t))" by (simp add: out_def)
  moreover have "drop 4 (chain_bytes (a # t)) = chain_bytes m0" unfolding f(4) p(6) using p(5) by simp
  ultimately have "chain_bytes out = w @ chain_bytes m0" by simp
  then show ?thesis
    using assms(3) p(1) f(1) s by (simp add: smb_nbst_send_def w_def n_def)
qed

lemma length_frame_hdr [simp]: "length (frame_hdr type n) = 4"
  by (simp add: frame_hdr_def)

definition keepalives :: "sock_result list list \<Rightarrow> bool" where
  "keepalives ks \<longleftrightarrow> (\<forall>k \<in> set ks. delivers_frame NB_SSN_KEEPALIVE [] k)"

lemma recv_loop_keepalives:
  "keepalives ks \<Longrightarrow> nbp_state nbp = NBST_SESSION \<Longrightarrow> recv_loop nbp w (concat ks @ evs) = recv_loop nbp w evs"
proof (induction ks)
  case (Cons k ks)
  then show ?case using recv_loop_frame(1) [of NB_SSN_KEEPALIVE "[]" k nbp w "concat ks @ evs"] by (simp add: keepalives_def)
qed simp

text \<open>C13: What is sent is received. A message handed to \<^verbatim>\<open>smb_nbst_send\<close> on an open session, no longer than the
  header can say, goes to the socket as the bytes of a header and the message. However the peer's socket cuts these bytes,
  provided no piece spans the end of the header, whatever calls in between have to be repeated, and however many keepalive
  frames come before, \<^verbatim>\<open>nbssn_recv\<close> returns one chain with exactly the bytes of the message, and takes nothing
  of what follows on the socket.\<close>

theorem nb_frame_roundtrip:
  assumes "prepend_wf prepend" "chain_wf m0" "chain_bytes m0 \<noteq> []" "length (chain_bytes m0) \<le> frame_limit nbp"
    and "nbp_state nbp = NBST_SESSION" "nbp_state peer = NBST_SESSION" "nbp_flags peer AND NBF_CONNECTED \<noteq> 0"
    and "nbp_flags peer AND NBF_NETBIOS = nbp_flags nbp AND NBF_NETBIOS"
    and "keepalives ks"
  shows "\<exists>out. smb_nbst_send prepend sosend (Some nbp) m0 = (sosend out, out) \<and>
           (\<forall>tms ps rest. (\<forall>tm \<in> set tms. chain_bytes tm \<noteq> []) \<longrightarrow> pieces ps (drop 4 (chain_bytes out)) \<longrightarrow>
              concat (map chain_bytes tms) = take 4 (chain_bytes out) \<longrightarrow>
              (\<exists>m. nbssn_recv peer w (concat ks @ map SData tms @ deliver ps @ rest) =
                     Some (Inr (m, length (chain_bytes m0), NB_SSN_MESSAGE), peer, rest) \<and>
                   chain_wf m \<and> chain_bytes m = chain_bytes m0))"
proof -
  obtain out where out: "smb_nbst_send prepend sosend (Some nbp) m0 = (sosend out, out)"
    "chain_bytes out = frame_hdr NB_SSN_MESSAGE (length (chain_bytes m0)) @ chain_bytes m0"
    using nbst_send_bytes [OF assms(1,2,5,4), of sosend] by blast
  have lim: "length (chain_bytes m0) \<le> frame_limit peer" using assms(4,8) by (simp add: frame_limit_def)
  have "\<exists>m. nbssn_recv peer w (concat ks @ map SData tms @ deliver ps @ rest) =
          Some (Inr (m, length (chain_bytes m0), NB_SSN_MESSAGE), peer, rest) \<and> chain_wf m \<and> chain_bytes m = chain_bytes m0"
    if a: "\<forall>tm \<in> set tms. chain_bytes tm \<noteq> []" "pieces ps (drop 4 (chain_bytes out))"
      "concat (map chain_bytes tms) = take 4 (chain_bytes out)" for tms ps rest
  proof -
    have "delivers_frame NB_SSN_MESSAGE (chain_bytes m0) (map SData tms @ deliver ps)"
      unfolding delivers_frame_def using a by (intro exI [of _ tms] exI [of _ ps]) (simp add: out(2))
    from recv_loop_frame(2) [OF this lim assms(6) refl assms(3), of w rest]
    show ?thesis using assms(7) recv_loop_keepalives [OF assms(9,6)] by (simp add: nbssn_recv_def)
  qed
  then show ?thesis using out(1) by blast
qed

lemma be32_bytes:
  "be32 x = [of_nat (unat x div 16777216 mod 256), of_nat (unat x div 65536 mod 256), of_nat (unat x div 256 mod 256),
     of_nat (unat x mod 256)]"
proof -
  have 4: "(4 :: nat) = Suc (Suc (Suc (Suc 0)))" by simp
  have d: "k div 256 div 256 = k div 65536" "k div 65536 div 256 = k div 16777216" for k :: nat
    by (simp_all flip: div_mult2_eq)
  show ?thesis unfolding be32_def be_enc_def 4 le_enc.simps d by simp
qed

definition front_mbuf :: "mbuf list \<Rightarrow> nat \<Rightarrow> mbuf list option" where
  "front_mbuf ms n = Some (flat_mbuf (replicate n 7) # ms)"

lemma front_mbuf_wf: "prepend_wf front_mbuf"
  by (auto simp: prepend_wf_def front_mbuf_def)

definition open_nbpcb :: nbpcb where
  "open_nbpcb = (smb_nbst_create 0x40000 0x40000)\<lparr>nbp_flags := NBF_CONNECTED, nbp_state := NBST_SESSION\<rparr>"

theorem nb_frame_roundtrip_witness:
  "\<exists>m. nbssn_recv open_nbpcb True ([SData [flat_mbuf [0x85, 0, 0, 0]]] @ [SData [flat_mbuf [0, 0]], SData [flat_mbuf [0, 3]],
          SData [flat_mbuf [254, 83]], SErr EINTR True False, SData [flat_mbuf [77]]]) =
        Some (Inr (m, 3, NB_SSN_MESSAGE), open_nbpcb, []) \<and> chain_bytes m = [254, 83, 77]"
proof -
  let ?tms = "[[flat_mbuf [0, 0]], [flat_mbuf [0, 3]]]" and ?ps = "[([], [flat_mbuf [254, 83]]), ([EINTR], [flat_mbuf [77]])]"
  have k: "keepalives [[SData [flat_mbuf [0x85, 0, 0, 0]]]]"
    unfolding keepalives_def delivers_frame_def
    by (simp, rule exI [of _ "[[flat_mbuf [0x85, 0, 0, 0]]]"], rule exI [of _ "[]"])
      (simp add: deliver_def pieces_def frame_hdr_def be32_bytes)
  have l: "length (chain_bytes [flat_mbuf [254, 83, 77]]) \<le> frame_limit open_nbpcb" by (simp add: frame_limit_def)
  have o: "nbp_state open_nbpcb = NBST_SESSION" "nbp_flags open_nbpcb AND NBF_CONNECTED \<noteq> 0"
    by (simp_all add: open_nbpcb_def)
  obtain out where out: "smb_nbst_send front_mbuf (\<lambda>_. 0) (Some open_nbpcb) [flat_mbuf [254, 83, 77]] = (0, out)"
    and r: "\<And>tms ps rest. \<forall>tm \<in> set tms. chain_bytes tm \<noteq> [] \<Longrightarrow> pieces ps (drop 4 (chain_bytes out)) \<Longrightarrow>
      concat (map chain_bytes tms) = take 4 (chain_bytes out) \<Longrightarrow>
      \<exists>m. nbssn_recv open_nbpcb True (concat [[SData [flat_mbuf [0x85, 0, 0, 0]]]] @ map SData tms @ deliver ps @ rest) =
        Some (Inr (m, length (chain_bytes [flat_mbuf [254, 83, 77]]), NB_SSN_MESSAGE), open_nbpcb, rest) \<and> chain_wf m \<and>
        chain_bytes m = chain_bytes [flat_mbuf [254, 83, 77]]"
    using nb_frame_roundtrip [OF front_mbuf_wf _ _ l o(1,1,2) refl k, of "\<lambda>_. 0" True] by auto
  have c: "chain_bytes out = [0, 0, 0, 3, 254, 83, 77]"
    using nbst_send_bytes [OF front_mbuf_wf _ o(1) l, of "\<lambda>_. 0"] out by (auto simp: frame_hdr_def be32_bytes)
  show ?thesis using r [of ?tms ?ps "[]"] by (auto simp: c pieces_def deliver_def numeral_3_eq_3)
qed

section \<open>What the transport lets through\<close>

text \<open>C35: A reply in the clear is accepted where encryption is required. On a session or share whose traffic is
  encrypted, a message that does not start with the protocol id of a transform header is handed up by
  \<^verbatim>\<open>smb_nbst_recv\<close> as it is, and \<^verbatim>\<open>smb2_rq_parse_header\<close>, which does not look at the signature because
  encryption is on, accepts it, whatever the verification of its signature would say.\<close>

theorem plaintext_reply_accepted:
  assumes "mbuf_ops_wf ops" "mbuf_ops_succeed ops"
    and "nbssn_recv nbp False evs = Some (Inr (m, n, c), nbp', evs')" "chain_wf m" "chain_bytes m = msg"
    and "msg ! 0 \<noteq> 0xFD" "reply_ok q msg" "fld msg 8 4 = 0"
    and "encryption_on sessionp q" "sr_extflags q AND SMB2_RESPONSE = 0"
  shows "\<exists>m' q' mdp' st'. smb_nbst_recv ops aead alloc sessionp (Some nbp) evs = Some (Inr m', sessionp, Some nbp', evs') \<and>
           smb2_rq_parse_header verify reconnect st sessionp q (md_initm m' []) False = (0, q', mdp', st') \<and>
           md_rest mdp' = drop 64 msg"
proof -
  have l: "64 \<le> length msg" using assms(7) by (simp add: reply_ok_def)
  obtain m' where p: "mbuf_pullup ops m 1 = Some m'"
    using assms(2,4,5) l unfolding mbuf_ops_succeed_def by (metis One_nat_def Suc_leI le_trans not_None_eq one_le_numeral)
  then have m': "chain_wf m'" "m' \<noteq> []" "1 \<le> m_len (hd m')" "chain_bytes m' = msg"
    using assms(1,4,5) unfolding mbuf_ops_wf_def by blast+
  have "m_data (hd m') ! 0 = msg ! 0"
    using m' by (cases m') (auto simp: mbuf_wf_def mbuf_bytes_def nth_append)
  then have r: "smb_nbst_recv ops aead alloc sessionp (Some nbp) evs = Some (Inr m', sessionp, Some nbp', evs')"
    using assms(3,6) p by (simp add: smb_nbst_recv_def)
  note i = md_initm_inv [OF m'(1), of "[]", unfolded m'(4)]
  have "parse_post verify reconnect st sessionp q (md_initm m' [])
      (parse_header_fields verify reconnect st sessionp q (md_initm m' []) False)"
    by (rule parse_header_fields_spec [OF i(1)])
  then obtain k where "parse_header_fields verify reconnect st sessionp q (md_initm m' []) False =
      parse_header_status verify reconnect (reply_credits st q msg) sessionp (reply_rq q msg) (md_initm m' [])
        (take 16 (drop 48 msg)) k" "md_rest k = drop 64 msg"
    using assms(7) by (auto simp: parse_post_def i(2))
  moreover have "smb_ntstatus_to_errno 0 = 0" by (simp add: smb_ntstatus_to_errno_def)
  ultimately show ?thesis
    using r assms(8-10) by (auto simp: smb2_rq_parse_header_def parse_header_status_def Let_def split: option.split)
qed

text \<open>A session of SMB 3 all of whose traffic is encrypted.\<close>

definition encrypted_session :: smb_session where
  "encrypted_session = wit_session\<lparr>session_flags := SMBV_SMB30, sv_sessflags := SMB2_SESSION_FLAG_ENCRYPT_DATA\<rparr>"

definition clear_reply :: "byte list" where
  "clear_reply = [0xFE, 0x53, 0x4D, 0x42, 64, 0, 1, 0, 0, 0, 0, 0, 8, 0, 5, 0] @ replicate 48 0"

theorem plaintext_reply_accepted_witness:
  "\<exists>m' q' mdp' st'. smb_nbst_recv flat_ops toy_aead wit_alloc encrypted_session (Some open_nbpcb)
       [SData [flat_mbuf [0, 0, 0, 64]], SData [flat_mbuf clear_reply]] = Some (Inr m', encrypted_session, Some open_nbpcb, []) \<and>
     smb2_rq_parse_header (\<lambda>_ _ _. EAUTH) (\<lambda>_. id) wit_st encrypted_session wit_read (md_initm m' []) False =
       (0, q', mdp', st') \<and> md_rest mdp' = []"
proof -
  have b: "clear_reply = md_rest wit_reply" by (simp add: clear_reply_def wit_reply_ok(2))
  have l: "length clear_reply = 64" "clear_reply \<noteq> []" "clear_reply ! 0 \<noteq> 0xFD" by (simp_all add: clear_reply_def)
  have "delivers_frame NB_SSN_MESSAGE clear_reply ([SData [flat_mbuf [0, 0, 0, 64]], SData [flat_mbuf clear_reply]])"
    unfolding delivers_frame_def using l
    by (intro exI [of _ "[[flat_mbuf [0, 0, 0, 64]]]"] exI [of _ "[([], [flat_mbuf clear_reply])]"])
      (simp add: deliver_def pieces_def frame_hdr_def be32_bytes)
  from recv_loop_frame(2) [OF this, of open_nbpcb False "[]"] obtain m where
    m: "nbssn_recv open_nbpcb False [SData [flat_mbuf [0, 0, 0, 64]], SData [flat_mbuf clear_reply]] =
      Some (Inr (m, length clear_reply, 0), open_nbpcb, [])" "chain_wf m" "chain_bytes m = clear_reply"
    using l by (auto simp: frame_limit_def open_nbpcb_def nbssn_recv_def)
  have q: "encryption_on encrypted_session wit_read" "sr_extflags wit_read AND SMB2_RESPONSE = 0"
    by (simp_all add: encryption_on_def encrypted_session_def wit_read_def wit_rq_def)
  show ?thesis
    using plaintext_reply_accepted [OF flat_ops_wf m l(3) _ _ q, unfolded b, OF wit_reply_fld(1,2),
        of toy_aead wit_alloc "\<lambda>_ _ _. EAUTH" "\<lambda>_. id" wit_st] l(1)
    by (auto simp: b [symmetric])
qed

text \<open>A name can pass the check and still be read past its end. A name whose first segments have the lengths
  1 and 253 makes the sum of the lengths, kept in eight bits, wrap around to zero, so the check goes on to
  the byte 256 of the name: \<^verbatim>\<open>nb_validate_name\<close> reads outside of every name that short, and of the
  34 bytes of \<^verbatim>\<open>snb_name\<close> in particular.\<close>

lemma nb_name_overread:
  assumes "length name \<le> 256" "3 \<le> length name" "name ! 0 = 1" "name ! 2 = 253"
  shows "nb_validate_name (Some name) = None"
proof -
  have wrap: "(256 :: byte) = 0" by (simp add: word_eq_iff_unsigned)
  have "validate_name name 0 0 = validate_name name 2 2"
    using assms by (subst validate_name.simps) (auto simp: Let_def sizeof_snb_name_def simp flip: numeral_2_eq_2)
  also have "\<dots> = validate_name name 256 0"
    using assms by (subst validate_name.simps) (auto simp: Let_def sizeof_snb_name_def wrap)
  also have "\<dots> = None" using assms(1) by (subst validate_name.simps) simp
  finally show ?thesis using assms by (auto simp: nb_validate_name_def)
qed

end
