(* ===== verification/TranConn.thy ===== *)
theory TranConn
  imports Tran
begin

text \<open>
  The life of a connection (\<^verbatim>\<open>src/kernel/netsmb/smb_trantcp.c\<close>): opening the socket, the NetBIOS session
  request with its retargeting, the parameters of a transport, and the invariant of its control block.

  What the socket layer answers during one connection is a record, one for each connection that is tried.
\<close>

abbreviation (input) EINPROGRESS :: errno where "EINPROGRESS \<equiv> 36"
abbreviation (input) NBF_BOUND_IF :: u32 where "NBF_BOUND_IF \<equiv> 0x40"
abbreviation (input) NB_SORECEIVE_CHUNK :: u32 where "NB_SORECEIVE_CHUNK \<equiv> 8 * 1024"

section \<open>Opening the socket\<close>

datatype sockopt = SO_SNDTIMEO | BOUND_IF | SO_KEEPALIVE | TCP_NODELAY | SO_NOADDRERR | TCP_CONNECTIONTIMEOUT

text \<open>The family of an address and its bytes.\<close>

type_synonym inaddr = "nat \<times> byte list"

text \<open>
  \<open>w_wait\<close>: each wait for the connection, with what \<^verbatim>\<open>smb_iod_nb_intr\<close> says after it and whether the channel
  is shut down or its trial aborted. \<open>w_hdr\<close> is the mbuf for the session request, if there is memory.
\<close>

record tcp_world =
  w_socket :: "inaddr \<Rightarrow> errno"
  w_setsockopt :: "sockopt \<Rightarrow> errno"
  w_nointerrupt :: errno
  w_connect :: "inaddr \<Rightarrow> errno"
  w_wait :: "(errno \<times> errno \<times> bool \<times> bool) list"
  w_hdr :: "mbuf option"
  w_send :: "mbuf list \<Rightarrow> errno"
  w_events :: "sock_result list"

fun connect_wait :: "(errno \<times> errno \<times> bool \<times> bool) list \<Rightarrow> errno option" where
  "connect_wait [] = None"
| "connect_wait ((error, intr, shutdown, abort) # ws) =
     (if error \<noteq> EINPROGRESS then Some error
      else if intr \<noteq> 0 then Some intr
      else if shutdown \<or> abort then Some EINTR
      else connect_wait ws)"

fun set_options :: "tcp_world \<Rightarrow> sockopt list \<Rightarrow> errno" where
  "set_options w [] = 0"
| "set_options w (x # xs) = (if w_setsockopt w x \<noteq> 0 then w_setsockopt w x else set_options w xs)"

definition tcp_connect :: "tcp_world \<Rightarrow> nbpcb \<Rightarrow> inaddr \<Rightarrow> nat \<Rightarrow> (errno \<times> nbpcb) option" where
  "tcp_connect w nbp to timeout =
     (if w_socket w to \<noteq> 0 then Some (w_socket w to, nbp)
      else
        let nbp = nbp\<lparr>nbp_flags := nbp_flags nbp OR NBF_SOCK_OPENED, nbp_tso := True\<rparr>;
            error = set_options w ([SO_SNDTIMEO] @ (if nbp_flags nbp AND NBF_BOUND_IF \<noteq> 0 then [BOUND_IF] else []))
        in if error \<noteq> 0 then Some (error, disconnected nbp)
           else
             let nbp = nbp\<lparr>nbp_rcvchunk := (if nbp_rcvbuf nbp < NB_SORECEIVE_CHUNK then NB_SORECEIVE_CHUNK else nbp_rcvbuf nbp)\<rparr>;
                 error = set_options w ([SO_KEEPALIVE, TCP_NODELAY, SO_NOADDRERR] @
                           (if timeout \<noteq> 0 then [TCP_CONNECTIONTIMEOUT] else []))
             in if error \<noteq> 0 then Some (error, disconnected nbp)
                else if w_nointerrupt w \<noteq> 0 then Some (w_nointerrupt w, disconnected nbp)
                else if w_connect w to \<noteq> 0 \<and> w_connect w to \<noteq> EINPROGRESS then Some (w_connect w to, disconnected nbp)
                else do {
                  error \<leftarrow> connect_wait (w_wait w);
                  if error = 0 then Some (0, nbp) else Some (error, disconnected nbp)
                })"

section \<open>The session request\<close>

text \<open>The request with the names of the peer and of the client. The result has the chain that is sent, if there is one.\<close>

definition session_request ::
  "getm \<Rightarrow> mbuf option \<Rightarrow> nbpcb \<Rightarrow> (errno + mbuf list) option" where
  "session_request getm hdr nbp =
     (case mb_init hdr of
        Inl e \<Rightarrow> Some (Inl e)
      | Inr mbp \<Rightarrow>
          do {
            (_, mbp) \<leftarrow> mb_put_uint32le getm mbp 0;
            (error, mbp) \<leftarrow> nb_put_name getm mbp (nbp_paddr nbp);
            if error \<noteq> 0 then Some (Inl error)
            else do {
              (error, mbp) \<leftarrow> nb_put_name getm mbp (nbp_laddr nbp);
              if error \<noteq> 0 then Some (Inl error)
              else let (len, mbp) = mb_fixhdr mbp
                   in Some (Inr (nb_sethdr nbp NB_SSN_REQUEST (of_nat len - 4) (mb_top mbp)))
            }
          })"

text \<open>
  \<open>fam\<close> is what happens to be in the family of the address that a retargeting fills in only partly. The result has the
  requests sent and what the socket in use still has to give.
\<close>

fun nbssn_rq_request ::
  "getm \<Rightarrow> nat \<Rightarrow> nat \<Rightarrow> tcp_world \<Rightarrow> tcp_world list \<Rightarrow> nbpcb \<Rightarrow>
     (errno \<times> nbpcb \<times> mbuf list list \<times> sock_result list) option" where
  "nbssn_rq_request getm fam timeout w ws nbp =
     do {
       r \<leftarrow> session_request getm (w_hdr w) nbp;
       case r of
         Inl e \<Rightarrow> Some (e, nbp, [], w_events w)
       | Inr m \<Rightarrow>
           if w_send w m \<noteq> 0 then Some (w_send w m, nbp, [m], w_events w)
           else do {
             (r, nbp, evs) \<leftarrow> nbssn_recv (nbp\<lparr>nbp_state := NBST_RQSENT\<rparr>) True (w_events w);
             case r of
               Inl e \<Rightarrow> Some (if e = EWOULDBLOCK then ETIMEDOUT else e, nbp, [m], evs)
             | Inr (m0, rplen, rpcode) \<Rightarrow>
                 if rpcode = NB_SSN_POSRESP
                 then Some (0, nbp\<lparr>nbp_state := NBST_SESSION, nbp_flags := nbp_flags nbp OR NBF_CONNECTED\<rparr>, [m], evs)
                 else if rpcode \<noteq> NB_SSN_RTGRESP \<or> rplen \<noteq> 6 then Some (ECONNABORTED, nbp, [m], evs)
                 else
                   let sin = (fam, take 6 (chain_bytes m0));
                       nbp = disconnected (nbp\<lparr>nbp_state := NBST_RETARGET\<rparr>)
                   in (case ws of
                         [] \<Rightarrow> None
                       | w' # ws \<Rightarrow>
                           do {
                             (error, nbp) \<leftarrow> tcp_connect w' nbp sin timeout;
                             if error \<noteq> 0 then Some (error, disconnected nbp, [m], evs)
                             else do {
                               (error, nbp, sent, evs) \<leftarrow> nbssn_rq_request getm fam timeout w' ws nbp;
                               Some (error, if error \<noteq> 0 then disconnected nbp else nbp, m # sent, evs)
                             }
                           })
           }
     }"

declare nbssn_rq_request.simps [simp del]

section \<open>Connecting\<close>

datatype tran_addr = AF_NETBIOS nat "byte list" inaddr | AF_INET inaddr

text \<open>
  \<open>memory\<close>: whether the address can be copied; \<open>elapsed\<close>: the nanoseconds that opening the socket takes; \<open>name\<close>: what
  \<^verbatim>\<open>sock_getsockname\<close> says.
\<close>

definition smb_nbst_connect ::
  "getm \<Rightarrow> nat \<Rightarrow> nat \<Rightarrow> tcp_world list \<Rightarrow> nat \<Rightarrow> bool \<Rightarrow> nat \<Rightarrow> errno \<times> byte list \<Rightarrow> nbpcb option \<Rightarrow> tran_addr \<Rightarrow>
     (errno \<times> nbpcb option \<times> sock_result list) option" where
  "smb_nbst_connect getm fam minlen worlds timeout memory elapsed name nbpp sap =
     (case nbpp of
        None \<Rightarrow> Some (EINVAL, None, [])
      | Some nbp \<Rightarrow>
          if nbp_flags nbp AND NBF_CONNECTED \<noteq> 0 then Some (EISCONN, Some nbp, [])
          else
            let (error, nbp, so) =
                  (case sap of
                     AF_INET so \<Rightarrow> (0, nbp, so)
                   | AF_NETBIOS slen pname so \<Rightarrow>
                       if nbp_laddr nbp = None \<or> slen < minlen then (EINVAL, nbp, so)
                       else if \<not> memory then (ENOMEM, nbp\<lparr>nbp_paddr := None\<rparr>, so)
                       else (0, nbp\<lparr>nbp_paddr := Some pname\<rparr>, so))
            in if error \<noteq> 0 then Some (error, Some nbp, [])
               else case worlds of
                      [] \<Rightarrow> None
                    | w # ws \<Rightarrow>
                        do {
                          (error, nbp) \<leftarrow> tcp_connect w nbp so timeout;
                          if error \<noteq> 0 then Some (error, Some nbp, [])
                          else do {
                            let nbp = nbp\<lparr>nbp_flags := nbp_flags nbp OR NBF_CONNECTED, nbp_timo := max (4 * elapsed) (nbp_timo nbp)\<rparr>;
                            (error, nbp, evs) \<leftarrow>
                              (case sap of
                                 AF_INET _ \<Rightarrow> Some (0, nbp\<lparr>nbp_state := NBST_SESSION\<rparr>, w_events w)
                               | AF_NETBIOS _ _ _ \<Rightarrow>
                                   do {
                                     (error, nbp, _, evs) \<leftarrow> nbssn_rq_request getm fam timeout w ws
                                                              (nbp\<lparr>nbp_flags := nbp_flags nbp OR NBF_NETBIOS\<rparr>);
                                     Some (error, if error \<noteq> 0 then disconnected nbp else nbp, evs)
                                   });
                            if error \<noteq> 0 then Some (error, Some nbp, evs)
                            else Some (fst name, Some (nbp\<lparr>nbp_sock_addr := snd name\<rparr>), evs)
                          }
                        })"

definition smb_nbst_done :: "nbpcb option \<Rightarrow> errno \<times> nbpcb option" where
  "smb_nbst_done nbpp = (case nbpp of None \<Rightarrow> (ENOTCONN, None) | Some nbp \<Rightarrow> (0, None))"

section \<open>Parameters\<close>

datatype tran_param = SMBTP_SNDSZ | SMBTP_RCVSZ | SMBTP_TIMEOUT | SMBTP_SELECTID | SMBTP_UPCALL | SMBTP_QOS | SMBTP_IP_ADDR | SMBTP_BOUND_IF

datatype tran_value = PNum u32 | PTime nat | PPtr u64 | PAddr "byte list"

definition smb_nbst_getparam :: "nbpcb option \<Rightarrow> tran_param \<Rightarrow> errno + tran_value" where
  "smb_nbst_getparam nbpp param =
     (case nbpp of
        None \<Rightarrow> Inl ENOTCONN
      | Some nbp \<Rightarrow>
          (case param of
             SMBTP_SNDSZ \<Rightarrow> Inr (PNum (nbp_sndbuf nbp))
           | SMBTP_RCVSZ \<Rightarrow> Inr (PNum (nbp_rcvbuf nbp))
           | SMBTP_TIMEOUT \<Rightarrow> Inr (PTime (nbp_timo nbp))
           | SMBTP_SELECTID \<Rightarrow> Inr (PPtr (nbp_selectid nbp))
           | SMBTP_UPCALL \<Rightarrow> Inr (PPtr (nbp_upcall nbp))
           | SMBTP_QOS \<Rightarrow> Inr (PNum (nbp_qos nbp))
           | SMBTP_IP_ADDR \<Rightarrow> Inr (PAddr (nbp_sock_addr nbp))
           | SMBTP_BOUND_IF \<Rightarrow> Inl EINVAL))"

text \<open>The value is read as what the parameter has; \<open>tclass\<close> is what \<^verbatim>\<open>sock_settclassopt\<close> answers.\<close>

definition smb_nbst_setparam :: "errno \<Rightarrow> nbpcb option \<Rightarrow> tran_param \<Rightarrow> u64 \<Rightarrow> errno \<times> nbpcb option" where
  "smb_nbst_setparam tclass nbpp param data =
     (case nbpp of
        None \<Rightarrow> (ENOTCONN, None)
      | Some nbp \<Rightarrow>
          (case param of
             SMBTP_SELECTID \<Rightarrow> (0, Some (nbp\<lparr>nbp_selectid := data\<rparr>))
           | SMBTP_UPCALL \<Rightarrow> (0, Some (nbp\<lparr>nbp_upcall := data\<rparr>))
           | SMBTP_QOS \<Rightarrow> (0, Some (if tclass \<noteq> 0 then nbp else nbp\<lparr>nbp_qos := ucast data\<rparr>))
           | SMBTP_BOUND_IF \<Rightarrow> (0, Some (nbp\<lparr>nbp_if_idx := ucast data, nbp_flags := nbp_flags nbp OR NBF_BOUND_IF\<rparr>))
           | _ \<Rightarrow> (EINVAL, Some nbp)))"

section \<open>The invariant of the control block\<close>

lemma nbf_bits:
  "x AND 0x1 \<noteq> 0 \<longleftrightarrow> bit x 0" "x AND 0x2 \<noteq> 0 \<longleftrightarrow> bit x 1" "x AND 0x20 \<noteq> 0 \<longleftrightarrow> bit x 5" "x AND 0x40 \<noteq> 0 \<longleftrightarrow> bit x 6"
  "x AND 0x80 \<noteq> 0 \<longleftrightarrow> bit x 7" for x :: u32
  using and_exp_eq_0_iff_not_bit [of x 0] and_exp_eq_0_iff_not_bit [of x 1] and_exp_eq_0_iff_not_bit [of x 5]
    and_exp_eq_0_iff_not_bit [of x 6] and_exp_eq_0_iff_not_bit [of x 7]
  by (simp_all add: and_one_eq odd_iff_mod_2_eq_one)

lemmas nbf_zero = nbf_bits [THEN arg_cong [of _ _ Not], unfolded not_not]

text \<open>
  An established session is connected, a connection has an open socket, an open socket is one that was
  created, and the local name is there exactly when the flag says so.
\<close>

definition tran_inv :: "nbpcb \<Rightarrow> bool" where
  "tran_inv nbp \<longleftrightarrow>
     (nbp_state nbp = NBST_SESSION \<longrightarrow> bit (nbp_flags nbp) 1) \<and>
     (bit (nbp_flags nbp) 1 \<longrightarrow> bit (nbp_flags nbp) 7) \<and>
     (bit (nbp_flags nbp) 7 \<longrightarrow> nbp_tso nbp) \<and>
     (bit (nbp_flags nbp) 0 \<longleftrightarrow> nbp_laddr nbp \<noteq> None)"

lemma create_inv: "tran_inv (smb_nbst_create sndbuf rcvbuf)"
  by (simp add: tran_inv_def smb_nbst_create_def)

lemma closed_inv: "tran_inv nbp \<Longrightarrow> tran_inv (closed nbp)"
  by (simp add: tran_inv_def closed_def)

lemma bind_inv: "tran_inv nbp \<Longrightarrow> smb_nbst_bind minlen nbp sap memory = (e, nbp') \<Longrightarrow> tran_inv nbp'"
  by (auto simp: tran_inv_def smb_nbst_bind_def bit_simps split: option.splits if_splits)

lemma bit_130: "bit (130 :: u32) i \<longleftrightarrow> i = 1 \<or> i = 7"
proof -
  have "(130 :: u32) = 2 ^ 1 OR 2 ^ 7" by simp
  then show ?thesis by (simp only: bit_or_iff bit_exp_iff) auto
qed

lemma disconnected_flags:
  "bit (nbp_flags (disconnected nbp)) i \<longleftrightarrow> bit (nbp_flags nbp) i \<and> (nbp_tso nbp \<longrightarrow> i \<noteq> 1 \<and> i \<noteq> 7)"
  "nbp_tso (disconnected nbp) = nbp_tso nbp" "nbp_laddr (disconnected nbp) = nbp_laddr nbp"
  "nbp_state (disconnected nbp) = (if nbp_state nbp = NBST_RETARGET then NBST_RETARGET else NBST_CLOSED)"
  using bit_imp_le_length [of "nbp_flags nbp" i] bit_130 [of i]
  by (auto simp: disconnected_def closed_def Let_def bit_simps)

lemma disconnected_inv: "tran_inv nbp \<Longrightarrow> tran_inv (disconnected nbp)"
  by (simp add: tran_inv_def disconnected_flags)

lemma recvhdr_bytes_nbp: "recvhdr_bytes nbp resid hdr w evs = Some (r, nbp', evs') \<Longrightarrow> nbp' = nbp \<or> nbp' = closed nbp"
  by (induction nbp resid hdr w evs rule: recvhdr_bytes.induct) (auto simp: Let_def split: if_splits)

lemma nbssn_recvhdr_nbp:
  assumes "nbssn_recvhdr nbp w evs = Some (r, nbp', evs')"
  shows "nbp' = nbp \<or> nbp' = closed nbp"
proof -
  from assms obtain r0 n0 e0 where b: "recvhdr_bytes nbp 4 [] w evs = Some (r0, n0, e0)"
    by (cases "recvhdr_bytes nbp 4 [] w evs") (auto simp: nbssn_recvhdr_def)
  then have "n0 = nbp'" using assms
    by (cases r0) (simp_all add: nbssn_recvhdr_def Let_def split: if_splits)
  then show ?thesis using recvhdr_bytes_nbp [OF b] by simp
qed

lemma closed_closed [simp]: "closed (closed nbp) = closed nbp"
  by (simp add: closed_def)

text \<open>Receiving changes nothing but the state, and that only to closed.\<close>

lemma recv_loop_nbp: "recv_loop nbp w evs = Some (r, nbp', evs') \<Longrightarrow> nbp' = nbp \<or> nbp' = closed nbp"
proof -
  let ?P = "\<lambda>nbp y :: (errno + mbuf list \<times> nat \<times> byte) \<times> nbpcb \<times> sock_result list.
    fst (snd y) = nbp \<or> fst (snd y) = closed nbp"
  have "?P nbp y" if "recv_loop nbp w evs = Some y" for y
  proof (rule recv_loop.raw_induct [where P = "\<lambda>nbp w evs y. ?P nbp y", OF _ that])
    fix loop :: "nbpcb \<Rightarrow> bool \<Rightarrow> sock_result list \<Rightarrow> ((errno + mbuf list \<times> nat \<times> byte) \<times> nbpcb \<times> sock_result list) option"
      and nbp w evs y
    assume IH: "\<And>nbp w evs y. loop nbp w evs = Some y \<Longrightarrow> ?P nbp y"
    assume step: "do {
         (h, nbp, evs) \<leftarrow> nbssn_recvhdr nbp w evs;
         case h of
           Inl e \<Rightarrow> Some (Inl e, nbp, evs)
         | Inr (len, rpcode) \<Rightarrow>
             do {
               (b, evs) \<leftarrow> recv_body len [] evs;
               case b of
                 Inl e \<Rightarrow> Some (Inl e, nbp, evs)
               | Inr m \<Rightarrow>
                   if rpcode = NB_SSN_KEEPALIVE then loop nbp w evs
                   else if nbp_state nbp \<noteq> NBST_SESSION then Some (Inr (m, len, rpcode), nbp, evs)
                   else if rpcode = NB_SSN_MESSAGE then
                     if m = [] then loop nbp w evs else Some (Inr (m, len, rpcode), nbp, evs)
                   else loop nbp w evs
             }
       } = Some y"
    then obtain h n e where h: "nbssn_recvhdr nbp w evs = Some (h, n, e)" by (auto simp: bind_eq_Some_conv)
    have "?P n y"
    proof (cases h)
      case (Inr lr)
      obtain len rp where lr: "lr = (len, rp)" by fastforce
      obtain b e2 where b: "recv_body len [] e = Some (b, e2)" using step h Inr lr by (auto simp: bind_eq_Some_conv)
      then show ?thesis using step h Inr lr IH by (cases b) (auto split: if_splits)
    qed (use step h in auto)
    then show "?P nbp y" using nbssn_recvhdr_nbp [OF h] by auto
  qed
  then show "recv_loop nbp w evs = Some (r, nbp', evs') \<Longrightarrow> nbp' = nbp \<or> nbp' = closed nbp" by fastforce
qed

lemma nbssn_recv_nbp: "nbssn_recv nbp w evs = Some (r, nbp', evs') \<Longrightarrow> nbp' = nbp \<or> nbp' = closed nbp"
  by (auto simp: nbssn_recv_def dest: recv_loop_nbp split: if_splits)

section \<open>Connecting keeps the invariant\<close>

lemma tcp_connect_spec:
  assumes "tcp_connect w nbp to timeout = Some (error, nbp')" "tran_inv nbp"
  shows "tran_inv nbp'" "error = 0 \<Longrightarrow> bit (nbp_flags nbp') 7 \<and> nbp_tso nbp' \<and> nbp_state nbp' = nbp_state nbp"
    "error = 0 \<Longrightarrow> bit (nbp_flags nbp') 1 \<longleftrightarrow> bit (nbp_flags nbp) 1" "error = 0 \<Longrightarrow> nbp_laddr nbp' = nbp_laddr nbp"
    "nbp_tso nbp \<Longrightarrow> nbp_tso nbp'" "nbp_state nbp \<noteq> NBST_SESSION \<Longrightarrow> nbp_state nbp' \<noteq> NBST_SESSION"
proof -
  define p where "p = nbp\<lparr>nbp_flags := nbp_flags nbp OR NBF_SOCK_OPENED, nbp_tso := True\<rparr>"
  define q where "q = p\<lparr>nbp_rcvchunk := (if nbp_rcvbuf p < NB_SORECEIVE_CHUNK then NB_SORECEIVE_CHUNK else nbp_rcvbuf p)\<rparr>"
  have p: "tran_inv p" "tran_inv q" using assms(2) by (simp_all add: tran_inv_def p_def q_def bit_simps)
  have c: "nbp' = nbp \<and> error \<noteq> 0 \<or> nbp' = disconnected p \<and> error \<noteq> 0 \<or> nbp' = disconnected q \<and> error \<noteq> 0 \<or> nbp' = q \<and> error = 0"
    using assms(1) unfolding tcp_connect_def Let_def p_def [symmetric] q_def [symmetric]
    by (auto simp: bind_eq_Some_conv split: if_splits)
  show "tran_inv nbp'" using c p assms(2) disconnected_inv by auto
  show "bit (nbp_flags nbp') 7 \<and> nbp_tso nbp' \<and> nbp_state nbp' = nbp_state nbp" "bit (nbp_flags nbp') 1 \<longleftrightarrow> bit (nbp_flags nbp) 1"
    "nbp_laddr nbp' = nbp_laddr nbp" if "error = 0"
    using c that by (auto simp: q_def p_def bit_simps)
  show "nbp_tso nbp'" if "nbp_tso nbp" using c that by (auto simp: q_def p_def disconnected_flags)
  show "nbp_state nbp' \<noteq> NBST_SESSION" if "nbp_state nbp \<noteq> NBST_SESSION"
    using c that by (auto simp: q_def p_def disconnected_flags split: if_splits)
qed

lemma session_request_error: "session_request getm hdr nbp = Some (Inl e) \<Longrightarrow> e \<noteq> 0"
  by (auto simp: session_request_def mb_init_def bind_eq_Some_conv split: option.splits if_splits prod.splits)

text \<open>Without the connected flag the request fails: whatever is sent, nothing is received.\<close>

lemma rq_request_unconnected:
  assumes "nbssn_rq_request getm fam timeout w ws nbp = Some (error, nbp', sent, evs)" "\<not> bit (nbp_flags nbp) 1"
  shows "error \<noteq> 0 \<and> (nbp' = nbp \<or> nbp' = nbp\<lparr>nbp_state := NBST_RQSENT\<rparr>)"
    and "session_request getm (w_hdr w) nbp = Some (Inr m) \<Longrightarrow> w_send w m = 0 \<Longrightarrow> error = ENOTCONN"
proof -
  obtain r where r: "session_request getm (w_hdr w) nbp = Some r"
    using assms(1) by (cases "session_request getm (w_hdr w) nbp") (auto simp: nbssn_rq_request.simps [of _ _ _ w])
  have n: "nbssn_recv (nbp\<lparr>nbp_state := NBST_RQSENT\<rparr>) True (w_events w) =
      Some (Inl ENOTCONN, nbp\<lparr>nbp_state := NBST_RQSENT\<rparr>, w_events w)"
    using assms(2) nbf_zero(2) [of "nbp_flags nbp"] by (simp add: nbssn_recv_def)
  have e: "e \<noteq> 0" if "r = Inl e" for e using session_request_error [of getm "w_hdr w" nbp e] r that by simp
  show "error \<noteq> 0 \<and> (nbp' = nbp \<or> nbp' = nbp\<lparr>nbp_state := NBST_RQSENT\<rparr>)"
    using assms(1) r n e by (cases r) (auto simp: nbssn_rq_request.simps [of _ _ _ w] split: if_splits)
  show "error = ENOTCONN" if "session_request getm (w_hdr w) nbp = Some (Inr m)" "w_send w m = 0"
    using assms(1) n that by (simp add: nbssn_rq_request.simps [of _ _ _ w])
qed

text \<open>What a retargeting comes to: the second connection is not marked as connected.\<close>

lemma rq_request_retarget:
  assumes "session_request getm (w_hdr w) nbp = Some (Inr m)" "w_send w m = 0" "tran_inv nbp" "nbp_tso nbp"
    and "nbssn_recv (nbp\<lparr>nbp_state := NBST_RQSENT\<rparr>) True (w_events w) = Some (Inr (m0, 6, NB_SSN_RTGRESP), q, e)"
    and "nbssn_rq_request getm fam timeout w (w' # ws) nbp = Some (error, nbp', sent, evs)"
  shows "\<exists>e1 p1 p2. tcp_connect w' (disconnected (q\<lparr>nbp_state := NBST_RETARGET\<rparr>)) (fam, take 6 (chain_bytes m0)) timeout = Some (e1, p1) \<and>
           error \<noteq> 0 \<and> nbp' = disconnected p2 \<and> tran_inv p2 \<and> nbp_tso p2 \<and> nbp_state p2 \<noteq> NBST_SESSION \<and>
           (e1 = 0 \<longrightarrow> (\<forall>m'. session_request getm (w_hdr w') p1 = Some (Inr m') \<longrightarrow> w_send w' m' = 0 \<longrightarrow> error = ENOTCONN))"
proof -
  define p where "p = disconnected (q\<lparr>nbp_state := NBST_RETARGET\<rparr>)"
  have q: "nbp_flags q = nbp_flags nbp" "nbp_tso q" "nbp_laddr q = nbp_laddr nbp"
    using nbssn_recv_nbp [OF assms(5)] assms(4) by (auto simp: closed_def)
  have p: "tran_inv p" "nbp_tso p" "\<not> bit (nbp_flags p) 1" "nbp_state p = NBST_RETARGET"
    using assms(3) q by (auto simp: p_def tran_inv_def disconnected_flags)
  note run = assms(6) [unfolded nbssn_rq_request.simps [of _ _ _ w]]
  obtain e1 p1 where t: "tcp_connect w' p (fam, take 6 (chain_bytes m0)) timeout = Some (e1, p1)"
    using run assms(1,2,5) by (auto simp: p_def [symmetric] bind_eq_Some_conv)
  show ?thesis
  proof (cases "e1 = 0")
    case False
    then have "error = e1" "nbp' = disconnected p1" using run assms(1,2,5) t by (auto simp: p_def [symmetric])
    moreover have "nbp_tso p1" "nbp_state p1 \<noteq> NBST_SESSION" using tcp_connect_spec(5,6) [OF t p(1)] p(2,4) by auto
    ultimately show ?thesis using False t tcp_connect_spec(1) [OF t p(1)] unfolding p_def by blast
  next
    case True
    note s = tcp_connect_spec [OF t p(1)]
    obtain e2 p2 s2 v2 where r: "nbssn_rq_request getm fam timeout w' ws p1 = Some (e2, p2, s2, v2)"
      using run assms(1,2,5) t True by (auto simp: p_def [symmetric] bind_eq_Some_conv)
    have nc: "\<not> bit (nbp_flags p1) 1" using s(3) p(3) True by simp
    note u = rq_request_unconnected [OF r nc]
    have "error = e2" "nbp' = disconnected p2" using run assms(1,2,5) t True r u(1) by (auto simp: p_def [symmetric])
    moreover have "tran_inv p2" "nbp_tso p2" "nbp_state p2 \<noteq> NBST_SESSION"
      using u(1) s(1,2) p(4) True by (auto simp: tran_inv_def)
    ultimately show ?thesis using u t unfolding p_def by blast
  qed
qed

lemma rq_request_inv:
  assumes "nbssn_rq_request getm fam timeout w ws nbp = Some (error, nbp', sent, evs)" "tran_inv nbp"
    and "nbp_state nbp \<noteq> NBST_SESSION" "nbp_tso nbp"
  shows "tran_inv nbp'" "error \<noteq> 0 \<Longrightarrow> nbp_state nbp' \<noteq> NBST_SESSION"
proof -
  define p where "p = nbp\<lparr>nbp_state := NBST_RQSENT\<rparr>"
  note run = assms(1) [unfolded nbssn_rq_request.simps [of _ _ _ w], folded p_def]
  have p: "tran_inv p" "nbp_state p \<noteq> NBST_SESSION" using assms(2) by (simp_all add: tran_inv_def p_def)
  have "tran_inv nbp' \<and> (error \<noteq> 0 \<longrightarrow> nbp_state nbp' \<noteq> NBST_SESSION)"
  proof (cases "\<exists>m. session_request getm (w_hdr w) nbp = Some (Inr m) \<and> w_send w m = 0")
    case False
    obtain r where r: "session_request getm (w_hdr w) nbp = Some r"
      using run by (cases "session_request getm (w_hdr w) nbp") auto
    then have "nbp' = nbp" using run False by (cases r) (auto split: if_splits)
    then show ?thesis using assms(2,3) by simp
  next
    case True
    then obtain m where m: "session_request getm (w_hdr w) nbp = Some (Inr m)" "w_send w m = 0" by blast
    obtain b q e where b: "nbssn_recv p True (w_events w) = Some (b, q, e)"
      using run m by (cases "nbssn_recv p True (w_events w)") auto
    have q: "tran_inv q" "nbp_state q \<noteq> NBST_SESSION" "nbp_flags q = nbp_flags nbp" "nbp_tso q"
      using nbssn_recv_nbp [OF b] p closed_inv [OF p(1)] assms(4) by (auto simp: closed_def p_def)
    consider "nbp' = q" | l where "nbp' = q\<lparr>nbp_state := NBST_SESSION, nbp_flags := nbp_flags q OR NBF_CONNECTED\<rparr>" "b = Inr l" "error = 0"
      | m0 w' ws' where "b = Inr (m0, 6, NB_SSN_RTGRESP)" "ws = w' # ws'"
      using run m b by (cases b) (auto split: if_splits list.splits)
    then show ?thesis
    proof cases
      case 2
      have "bit (nbp_flags q) 1" using 2(2) b by (auto simp: nbssn_recv_def q(3) p_def nbf_zero split: if_splits)
      then show ?thesis using 2 q by (auto simp: tran_inv_def bit_simps)
    next
      case 3
      note r = rq_request_retarget [OF m assms(2,4) b [unfolded p_def 3(1)] assms(1) [unfolded 3(2)]]
      then show ?thesis using disconnected_inv by (auto simp: disconnected_flags split: if_splits)
    qed (use q in auto)
  qed
  then show "tran_inv nbp'" "error \<noteq> 0 \<Longrightarrow> nbp_state nbp' \<noteq> NBST_SESSION" by auto
qed

lemma connect_inv:
  assumes "smb_nbst_connect getm fam minlen worlds timeout memory elapsed name (Some nbp) sap = Some (error, Some nbp', evs)"
    and "tran_inv nbp"
  shows "tran_inv nbp'"
proof (cases "nbp_flags nbp AND NBF_CONNECTED \<noteq> 0")
  case True
  then show ?thesis using assms by (auto simp: smb_nbst_connect_def)
next
  case False
  define a where "a = (case sap of AF_INET so \<Rightarrow> (0 :: errno, nbp, so)
     | AF_NETBIOS slen pname so \<Rightarrow>
         if nbp_laddr nbp = None \<or> slen < minlen then (EINVAL, nbp, so)
         else if \<not> memory then (ENOMEM, nbp\<lparr>nbp_paddr := None\<rparr>, so)
         else (0, nbp\<lparr>nbp_paddr := Some pname\<rparr>, so))"
  obtain e0 n0 so where a: "a = (e0, n0, so)" by (metis prod_cases3)
  have n0: "tran_inv n0" "nbp_state n0 \<noteq> NBST_SESSION" "\<not> bit (nbp_flags n0) 1"
    using a assms(2) False nbf_zero(2) [of "nbp_flags nbp"] by (auto simp: a_def tran_inv_def split: tran_addr.splits if_splits)
  note run = assms(1) [unfolded smb_nbst_connect_def option.case a_def [symmetric] a]
  show ?thesis
  proof (cases "e0 = 0")
    case E: False
    then show ?thesis using run False n0(1) by (auto simp: Let_def)
  next
    case True
    then obtain w ws where w: "worlds = w # ws" using run False by (cases worlds) auto
    obtain e1 n1 where t: "tcp_connect w n0 so timeout = Some (e1, n1)"
      using run False True w by (cases "tcp_connect w n0 so timeout") auto
    note s = tcp_connect_spec [OF t n0(1)]
    show ?thesis
    proof (cases "e1 = 0")
      case F: False
      then show ?thesis using run False True w t s(1) by auto
    next
      case T: True
      define n2 where "n2 = n1\<lparr>nbp_flags := nbp_flags n1 OR NBF_CONNECTED, nbp_timo := max (4 * elapsed) (nbp_timo n1)\<rparr>"
      have n2: "tran_inv n2" "nbp_state n2 \<noteq> NBST_SESSION" "nbp_tso n2" "bit (nbp_flags n2) 1"
        using s T n0(2) by (auto simp: n2_def tran_inv_def bit_simps)
      show ?thesis
      proof (cases sap)
        case (AF_INET so')
        then have "nbp' = n2\<lparr>nbp_state := NBST_SESSION, nbp_sock_addr := snd name\<rparr>"
          using run False True w t T by (simp add: Let_def n2_def)
        then show ?thesis using n2 by (simp add: tran_inv_def)
      next
        case (AF_NETBIOS slen pname so')
        define n3 where "n3 = n2\<lparr>nbp_flags := nbp_flags n2 OR NBF_NETBIOS\<rparr>"
        have n3: "tran_inv n3" "nbp_state n3 \<noteq> NBST_SESSION" "nbp_tso n3"
          using n2 by (auto simp: n3_def tran_inv_def bit_simps)
        note run2 = run [unfolded w list.case AF_NETBIOS tran_addr.case]
        obtain e4 n4 s4 v4 where r: "nbssn_rq_request getm fam timeout w ws n3 = Some (e4, n4, s4, v4)"
          using run2 False True T t by (cases "nbssn_rq_request getm fam timeout w ws n3") (auto simp: Let_def n2_def n3_def)
        note i = rq_request_inv [OF r n3]
        have "nbp' = disconnected n4 \<or> nbp' = n4\<lparr>nbp_sock_addr := snd name\<rparr>"
          using run2 False True T t r by (auto simp: Let_def n2_def n3_def split: if_splits)
        then show ?thesis using i(1) disconnected_inv by (auto simp: tran_inv_def)
      qed
    qed
  qed
qed

text \<open>An open network: every call succeeds at once and nothing is received.\<close>

definition open_world :: tcp_world where
  "open_world = \<lparr>w_socket = (\<lambda>_. 0), w_setsockopt = (\<lambda>_. 0), w_nointerrupt = 0, w_connect = (\<lambda>_. EINPROGRESS),
     w_wait = [(0, 0, False, False)], w_hdr = Some (fresh_mbuf (replicate 100 0)), w_send = (\<lambda>_. 0), w_events = []\<rparr>"

section \<open>Every use of a transport\<close>

text \<open>
  The operations that change the control block, in any order: sending does not change it, and what
  \<^verbatim>\<open>smb_nbst_recv\<close> does to it is what \<^verbatim>\<open>nbssn_recv\<close> does.
\<close>

inductive tran_step :: "nbpcb \<Rightarrow> nbpcb \<Rightarrow> bool" where
  bind: "smb_nbst_bind minlen nbp sap memory = (e, nbp') \<Longrightarrow> tran_step nbp nbp'"
| connect: "smb_nbst_connect getm fam minlen worlds timeout memory elapsed name (Some nbp) sap = Some (e, Some nbp', evs) \<Longrightarrow>
    tran_step nbp nbp'"
| disconnect: "smb_nbst_disconnect (Some nbp) = (e, Some nbp') \<Longrightarrow> tran_step nbp nbp'"
| recv: "nbssn_recv nbp w evs = Some (r, nbp', evs') \<Longrightarrow> tran_step nbp nbp'"
| setparam: "smb_nbst_setparam tclass (Some nbp) param data = (e, Some nbp') \<Longrightarrow> tran_step nbp nbp'"

lemma recv_step:
  assumes "smb_nbst_recv ops aead alloc sessionp (Some nbp) evs = Some (r, sessionp', Some nbp', evs')"
  shows "tran_step nbp nbp'"
proof -
  obtain r0 n0 e0 where n: "nbssn_recv nbp False evs = Some (r0, n0, e0)"
    using assms by (cases "nbssn_recv nbp False evs") (auto simp: smb_nbst_recv_def)
  then have "n0 = nbp'" using assms by (cases r0) (auto simp: smb_nbst_recv_def split: option.splits if_splits prod.splits)
  then show ?thesis using n by (auto intro: tran_step.recv)
qed

lemma step_inv: "tran_step nbp nbp' \<Longrightarrow> tran_inv nbp \<Longrightarrow> tran_inv nbp'"
proof (induction rule: tran_step.induct)
  case (disconnect nbp e nbp')
  then show ?case using disconnected_inv by (auto simp: smb_nbst_disconnect_def)
next
  case (recv nbp w evs r nbp' evs')
  then show ?case using nbssn_recv_nbp closed_inv by blast
next
  case (setparam tclass nbp param data e nbp')
  then show ?case by (auto simp: smb_nbst_setparam_def tran_inv_def bit_simps split: tran_param.splits if_splits)
qed (blast intro: bind_inv connect_inv)+

interpretation transports: stepwise_invariant tran_step tran_inv
  by unfold_locales (rule step_inv)

text \<open>C14: The control block of a transport is well formed, however the transport is bound, connected, retargeted,
  disconnected, read from and configured, and whatever the sockets, the peer and the memory do: an established session is
  connected, a connection has an open socket, and the local name is there when the flag says so. So a
  message is handed to a socket only while the transport has one that is open.\<close>

theorem transport_wf:
  assumes "tran_step\<^sup>*\<^sup>* (smb_nbst_create sndbuf rcvbuf) nbp"
  shows "tran_inv nbp \<and>
         (smb_nbst_send prepend sosend (Some nbp) m0 = (0, out) \<longrightarrow>
            nbp_tso nbp \<and> nbp_flags nbp AND NBF_SOCK_OPENED \<noteq> 0 \<and> nbp_flags nbp AND NBF_CONNECTED \<noteq> 0)"
proof -
  have i: "tran_inv nbp" by (rule transports.kept_along [OF assms create_inv])
  moreover have "nbp_state nbp = NBST_SESSION" if "smb_nbst_send prepend sosend (Some nbp) m0 = (0, out)"
    using that by (auto simp: smb_nbst_send_def split: if_splits)
  ultimately show ?thesis by (auto simp: tran_inv_def nbf_bits)
qed

definition session_nbpcb :: nbpcb where
  "session_nbpcb = (smb_nbst_create 0x40000 0x40000)\<lparr>nbp_flags := 0x82, nbp_tso := True, nbp_rcvchunk := 0x40000,
     nbp_state := NBST_SESSION, nbp_sock_addr := [2, 0]\<rparr>"

theorem transport_wf_witness:
  "tran_step\<^sup>*\<^sup>* (smb_nbst_create 0x40000 0x40000) session_nbpcb \<and>
   smb_nbst_send front_mbuf (\<lambda>_. 0) (Some session_nbpcb) [flat_mbuf [1]] =
     (0, snd (smb_nbst_send front_mbuf (\<lambda>_. 0) (Some session_nbpcb) [flat_mbuf [1]])) \<and>
   tran_inv session_nbpcb \<and> nbp_tso session_nbpcb"
proof -
  have "smb_nbst_connect (\<lambda>_. Some None) 0 56 [open_world] 0 True 1 (0, [2, 0]) (Some (smb_nbst_create 0x40000 0x40000))
      (AF_INET (2, [])) = Some (0, Some session_nbpcb, [])"
    by (simp add: smb_nbst_connect_def tcp_connect_def open_world_def smb_nbst_create_def session_nbpcb_def Let_def)
  then have r: "tran_step\<^sup>*\<^sup>* (smb_nbst_create 0x40000 0x40000) session_nbpcb" by (auto intro: tran_step.connect)
  have s: "smb_nbst_send front_mbuf (\<lambda>_. 0) (Some session_nbpcb) [flat_mbuf [1]] =
      (0, snd (smb_nbst_send front_mbuf (\<lambda>_. 0) (Some session_nbpcb) [flat_mbuf [1]]))"
    by (simp add: smb_nbst_send_def session_nbpcb_def front_mbuf_def Let_def split: prod.split)
  show ?thesis using transport_wf [OF r] r s by blast
qed

text \<open>C40: A retargeted session is never established. When the peer answers a session request with a retarget response,
  the client closes the socket, which takes back the mark that it is connected, opens a socket to the new address and
  sends its request there; the mark is set only where the first connection is made, so the answer is not
  even read: when the request is sent the result is ENOTCONN, and in every other case it is an error too. The transport is
  left without a connection.\<close>

theorem retarget_never_connects:
  assumes "tran_inv nbp" "nbp_tso nbp" "session_request getm (w_hdr w) nbp = Some (Inr m)" "w_send w m = 0"
    and "nbssn_recv (nbp\<lparr>nbp_state := NBST_RQSENT\<rparr>) True (w_events w) = Some (Inr (m0, 6, NB_SSN_RTGRESP), q, e)"
    and "nbssn_rq_request getm fam timeout w (w' # ws) nbp = Some (error, nbp', sent, evs)"
  shows "error \<noteq> 0 \<and> nbp_flags nbp' AND NBF_CONNECTED = 0 \<and> nbp_state nbp' \<noteq> NBST_SESSION \<and>
         (\<forall>p m'. tcp_connect w' (disconnected (q\<lparr>nbp_state := NBST_RETARGET\<rparr>)) (fam, take 6 (chain_bytes m0)) timeout = Some (0, p) \<longrightarrow>
            session_request getm (w_hdr w') p = Some (Inr m') \<longrightarrow> w_send w' m' = 0 \<longrightarrow> error = ENOTCONN)"
proof -
  note r = rq_request_retarget [OF assms(3,4,1,2,5,6)]
  then obtain p2 where "nbp' = disconnected p2" "nbp_tso p2" "error \<noteq> 0" by blast
  moreover from this have "\<not> bit (nbp_flags nbp') 1" "nbp_state nbp' \<noteq> NBST_SESSION" by (auto simp: disconnected_flags)
  ultimately show ?thesis using r nbf_zero(2) [of "nbp_flags nbp'"] by auto
qed

section \<open>Encoded names\<close>

text \<open>The first level encoding: every segment after its length, and an empty segment at the end.\<close>

definition enc_name :: "byte list list \<Rightarrow> byte list" where
  "enc_name segs = concat (map (\<lambda>s. of_nat (length s) # s) segs) @ [0]"

definition segs_ok :: "byte list list \<Rightarrow> bool" where
  "segs_ok segs \<longleftrightarrow> segs \<noteq> [] \<and> (\<forall>s \<in> set segs. s \<noteq> []) \<and> sum_list (map (\<lambda>s. length s + 1) segs) \<le> sizeof_snb_name"

lemma enc_name_simps [simp]: "enc_name [] = [0]" "enc_name (s # segs) = of_nat (length s) # s @ enc_name segs"
  by (simp_all add: enc_name_def)

lemma seg_length: "length s < 255 \<Longrightarrow> unat (of_nat (length s) :: byte) = length s" "s \<noteq> [] \<Longrightarrow> length s < 255 \<Longrightarrow> of_nat (length s) \<noteq> (0 :: byte)"
  "length s < 255 \<Longrightarrow> unat (of_nat (length s) + 1 :: byte) = length s + 1"
proof -
  assume l: "length s < 255"
  have u: "unat (of_nat k :: byte) = k" if "k < 256" for k using that by (simp add: unat_of_nat)
  show "unat (of_nat (length s) :: byte) = length s" using u l by simp
  show "unat (of_nat (length s) + 1 :: byte) = length s + 1" using u [of "length s + 1"] l by (simp add: add.commute)
  show "of_nat (length s) \<noteq> (0 :: byte)" if "s \<noteq> []" using u [of "length s"] l that by (auto dest: arg_cong [of _ _ unat])
qed

lemma validate_enc:
  "\<forall>s \<in> set segs. s \<noteq> [] \<Longrightarrow> length pre + sum_list (map (\<lambda>s. length s + 1) segs) \<le> sizeof_snb_name \<Longrightarrow>
     validate_name (pre @ enc_name segs @ post) (length pre) (of_nat (length pre)) = Some 0"
proof (induction segs arbitrary: pre)
  case Nil
  then show ?case by (subst validate_name.simps) simp
next
  case (Cons s segs)
  have l: "length s < 255" "s \<noteq> []" "length pre + (length s + 1) \<le> 34" using Cons.prems by (auto simp: sizeof_snb_name_def)
  let ?p = "pre @ of_nat (length s) # s" and ?n = "pre @ enc_name (s # segs) @ post"
  have u: "unat (of_nat (length pre) + (of_nat (length s) + 1) :: byte) = length pre + (length s + 1)"
    using l(3) unat_of_nat [where 'a = 8, of "length pre + (length s + 1)"] by (simp add: add_ac)
  have "validate_name ?n (length pre) (of_nat (length pre)) = validate_name ?n (length ?p) (of_nat (length ?p))"
    using seg_length(1,3) [OF l(1)] seg_length(2) [OF l(2,1)] u l(3)
    by (subst validate_name.simps) (auto simp: Let_def nth_append sizeof_snb_name_def add_ac)
  then show ?case using Cons.IH [of ?p] Cons.prems by simp
qed

lemma nb_validate_enc: "segs_ok segs \<Longrightarrow> nb_validate_name (Some (enc_name segs @ post)) = Some 0"
  using validate_enc [of segs "[]" post] seg_length(2) [of "hd segs"]
  by (cases segs) (auto simp: segs_ok_def nb_validate_name_def sizeof_snb_name_def)

context mbuf_allocator
begin

lemma put_enc:
  assumes "wf" "\<not> getm_fails getm" "\<forall>s \<in> set segs. s \<noteq> [] \<and> length s < 255" "mb_inv mbp"
  shows "\<exists>mbp'. put_name getm (pre @ enc_name segs @ post) (length pre) mbp = Some (0, mbp') \<and> mb_inv mbp' \<and>
           mb_bytes mbp' = mb_bytes mbp @ enc_name segs"
  using assms(3,4)
proof (induction segs arbitrary: pre mbp)
  case Nil
  from put_fields_spec [OF assms(1) Nil(2), of "[Mem [0]]"] assms(2) obtain mbp' where
    "put_field getm mbp (Mem [0]) = Some (0, mbp')" "mb_inv mbp'" "mb_bytes mbp' = mb_bytes mbp @ [0]"
    by (auto split: option.splits prod.splits if_splits)
  then show ?case by (subst put_name.simps) (simp add: Let_def)
next
  case (Cons s segs)
  let ?seg = "of_nat (length s) # s" and ?n = "pre @ enc_name (s # segs) @ post"
  have l: "length s < 255" "s \<noteq> []" using Cons.prems by auto
  from put_fields_spec [OF assms(1) Cons.prems(2), of "[Mem ?seg]"] assms(2) obtain mbp1 where
    p: "put_field getm mbp (Mem ?seg) = Some (0, mbp1)" "mb_inv mbp1" "mb_bytes mbp1 = mb_bytes mbp @ ?seg"
    by (auto split: option.splits prod.splits if_splits)
  have n: "?n = (pre @ ?seg) @ enc_name segs @ post" by simp
  have "put_name getm ?n (length pre) mbp = put_name getm ?n (length (pre @ ?seg)) mbp1"
    using p(1) seg_length(1,3) [OF l(1)] seg_length(2) [OF l(2,1)] by (subst put_name.simps) (simp add: Let_def nth_append add_ac)
  then show ?case using Cons.IH [of mbp1 "pre @ ?seg"] Cons.prems(1) p(2,3) unfolding n by auto
qed

lemma session_request_built:
  assumes "wf" "\<not> getm_fails getm" "mbuf_wf hdr" "m_len hdr = 0" "0 < length (m_data hdr)"
    and "nbp_paddr nbp = Some (enc_name peer @ post1)" "nbp_laddr nbp = Some (enc_name me @ post2)" "segs_ok peer" "segs_ok me"
  shows "\<exists>m. session_request getm (Some hdr) nbp = Some (Inr m)"
proof -
  have inv: "mb_inv (mb_initm [hdr])" using assms(3) mb_initm_built [of hdr] assms(4) by (simp add: built_def)
  from put_fields_spec [OF assms(1) inv, of "[U32le 0]"] assms(2) obtain b1 where
    b1: "mb_put_uint32le getm (mb_initm [hdr]) 0 = Some (0, b1)" "mb_inv b1"
    by (auto split: option.splits prod.splits if_splits)
  have ok: "\<forall>s \<in> set segs. s \<noteq> [] \<and> length s < 255" if "segs_ok segs" for segs
    using that member_le_sum_list [of _ "map (\<lambda>s. length s + 1) segs"] by (fastforce simp: segs_ok_def sizeof_snb_name_def)
  obtain b2 where b2: "nb_put_name getm b1 (nbp_paddr nbp) = Some (0, b2)" "mb_inv b2"
    using put_enc [OF assms(1,2) ok [OF assms(8)] b1(2), of "[]" post1] nb_validate_enc [OF assms(8)]
    by (auto simp: nb_put_name_def assms(6))
  obtain b3 where b3: "nb_put_name getm b2 (nbp_laddr nbp) = Some (0, b3)"
    using put_enc [OF assms(1,2) ok [OF assms(9)] b2(2), of "[]" post2] nb_validate_enc [OF assms(9)]
    by (auto simp: nb_put_name_def assms(7))
  show ?thesis using b1 b2 b3 by (auto simp: session_request_def mb_init_def split: prod.split)
qed

end

definition retarget_world :: tcp_world where
  "retarget_world = open_world\<lparr>w_hdr := Some wit_mbuf,
     w_events := [SData [flat_mbuf [0x84, 0, 0, 6]], SData [flat_mbuf [10, 0, 0, 1, 0, 139]]]\<rparr>"

definition retarget_nbpcb :: nbpcb where
  "retarget_nbpcb = (smb_nbst_create 0x40000 0x40000)\<lparr>nbp_flags := 0xA3, nbp_tso := True,
     nbp_paddr := Some [1, 65, 0], nbp_laddr := Some [1, 66, 0]\<rparr>"

lemma retarget_request:
  assumes "nbp_paddr nbp = Some [1, 65, 0]" "nbp_laddr nbp = Some [1, 66, 0]"
  shows "\<exists>m. session_request (smb_mbuf_getm wit_kpi) (Some wit_mbuf) nbp = Some (Inr m)"
proof -
  have nf: "\<not> getm_fails (smb_mbuf_getm wit_kpi)"
    using wit_kpi_wf(2) smb_mbuf_getm_fails [OF wit_kpi_wf(1)] by blast
  show ?thesis
    by (rule kernel_mbufs.session_request_built [OF wit_kpi_wf(1) nf wit_mbuf_ok(2,1), where peer = "[[65]]" and me = "[[66]]" and ?post1.0 = "[]" and ?post2.0 = "[]"])
      (simp_all add: assms segs_ok_def sizeof_snb_name_def wit_mbuf_def fresh_mbuf_def)
qed

lemma retarget_response:
  "\<exists>m0. nbssn_recv (retarget_nbpcb\<lparr>nbp_state := NBST_RQSENT\<rparr>) True (w_events retarget_world) =
     Some (Inr (m0, 6, NB_SSN_RTGRESP), retarget_nbpcb\<lparr>nbp_state := NBST_RQSENT\<rparr>, [])"
proof -
  have h: "nbssn_recvhdr (retarget_nbpcb\<lparr>nbp_state := NBST_RQSENT\<rparr>) True (w_events retarget_world) =
      Some (Inr (6, NB_SSN_RTGRESP), retarget_nbpcb\<lparr>nbp_state := NBST_RQSENT\<rparr>, [SData [flat_mbuf [10, 0, 0, 1, 0, 139]]])"
    by (simp add: nbssn_recvhdr_def retarget_world_def retarget_nbpcb_def Let_def be_dec_def)
  have b: "recv_body 6 [] [SData [flat_mbuf [10, 0, 0, 1, 0, 139]]] = Some (Inr [flat_mbuf [10, 0, 0, 1, 0, 139]], [])"
    by (simp add: recv_body.simps Let_def)
  have c: "nbp_flags (retarget_nbpcb\<lparr>nbp_state := NBST_RQSENT\<rparr>) AND NBF_CONNECTED \<noteq> 0" by (simp add: retarget_nbpcb_def)
  show ?thesis using c by (simp add: nbssn_recv_def) (subst recv_loop.simps, simp add: h b)
qed

theorem retarget_never_connects_witness:
  "\<exists>nbp' sent evs. nbssn_rq_request (smb_mbuf_getm wit_kpi) 0 0 retarget_world [retarget_world] retarget_nbpcb =
     Some (ENOTCONN, nbp', sent, evs) \<and> nbp_flags nbp' AND NBF_CONNECTED = 0"
proof -
  let ?g = "smb_mbuf_getm wit_kpi" and ?w = retarget_world and ?n = retarget_nbpcb
  obtain m0 where v: "nbssn_recv (?n\<lparr>nbp_state := NBST_RQSENT\<rparr>) True (w_events ?w) =
      Some (Inr (m0, 6, NB_SSN_RTGRESP), ?n\<lparr>nbp_state := NBST_RQSENT\<rparr>, [])" using retarget_response by blast
  define d where "d = disconnected (?n\<lparr>nbp_state := NBST_RETARGET\<rparr>)"
  have f: "w_hdr ?w = Some wit_mbuf" "w_send ?w = (\<lambda>_. 0)" by (simp_all add: retarget_world_def open_world_def)
  have "\<exists>p. tcp_connect ?w d (0, take 6 (chain_bytes m0)) 0 = Some (0, p) \<and>
      nbp_paddr p = Some [1, 65, 0] \<and> nbp_laddr p = Some [1, 66, 0] \<and> \<not> bit (nbp_flags p) 1"
    by (simp add: tcp_connect_def retarget_world_def open_world_def Let_def d_def retarget_nbpcb_def disconnected_def
        smb_nbst_create_def)
  then obtain p where t: "tcp_connect ?w d (0, take 6 (chain_bytes m0)) 0 = Some (0, p)"
    and p: "nbp_paddr p = Some [1, 65, 0]" "nbp_laddr p = Some [1, 66, 0]" "\<not> bit (nbp_flags p) 1" by blast
  obtain m m' where m: "session_request ?g (Some wit_mbuf) ?n = Some (Inr m)" "session_request ?g (Some wit_mbuf) p = Some (Inr m')"
    using retarget_request [of ?n] retarget_request [of p] p by (auto simp: retarget_nbpcb_def)
  have u: "nbssn_recv (p\<lparr>nbp_state := NBST_RQSENT\<rparr>) True (w_events ?w) = Some (Inl ENOTCONN, p\<lparr>nbp_state := NBST_RQSENT\<rparr>, w_events ?w)"
    using p(3) nbf_zero(2) [of "nbp_flags p"] by (simp add: nbssn_recv_def)
  obtain e n' s' v' where r: "nbssn_rq_request ?g 0 0 ?w [?w] ?n = Some (e, n', s', v')"
    using m t u by (simp add: nbssn_rq_request.simps f v d_def [symmetric])
  have i: "tran_inv ?n" "nbp_tso ?n" by (simp_all add: tran_inv_def retarget_nbpcb_def smb_nbst_create_def)
  have "e = ENOTCONN \<and> nbp_flags n' AND NBF_CONNECTED = 0"
    using retarget_never_connects [OF i, of ?g ?w m, unfolded f, OF m(1) refl v r] t m(2) by (auto simp: d_def f)
  then show ?thesis using r by blast
qed

end
