(* ===== verification/Iod.thy ===== *)
theory Iod
  imports Send TranConn
begin

text \<open>
  The request queue of a channel (\<^verbatim>\<open>src/kernel/netsmb/smb_iod.c\<close>): requests are put into the queue with their message
  id, handed to the transport, matched with the replies that come in, and taken out by the threads
  that wait for them; a lost connection holds them back or gives them up.

  An entry of the queue is a request with the requests chained to it by \<^verbatim>\<open>sr_next_rqp\<close>. Every function of the model is
  what the source does under the lock of the queue; a thread that sleeps is a step that is not enabled.
\<close>

abbreviation (input) SMBR_REXMIT :: u32 where "SMBR_REXMIT \<equiv> 0x4"
abbreviation (input) SMBR_DEAD :: u32 where "SMBR_DEAD \<equiv> 0x20"
abbreviation (input) SMBR_MULTIPACKET :: u32 where "SMBR_MULTIPACKET \<equiv> 0x40"
abbreviation (input) SMBR_INTERNAL :: u32 where "SMBR_INTERNAL \<equiv> 0x80"
abbreviation (input) SMBR_NO_TIMEOUT :: u32 where "SMBR_NO_TIMEOUT \<equiv> 0x200"
abbreviation (input) SMBR_ALT_CH_DISCON :: u32 where "SMBR_ALT_CH_DISCON \<equiv> 0x10000"
abbreviation (input) SMBR_ENQUEUED :: u32 where "SMBR_ENQUEUED \<equiv> 0x20000"
abbreviation (input) SMB2_NON_IDEMPOTENT :: u32 where "SMB2_NON_IDEMPOTENT \<equiv> 0x8"
abbreviation (input) SMBIOD_RECONNECT :: u32 where "SMBIOD_RECONNECT \<equiv> 0x4"
abbreviation (input) SMBIOD_START_RECONNECT :: u32 where "SMBIOD_START_RECONNECT \<equiv> 0x8"
abbreviation (input) SMBIOD_READ_THREAD_STOP :: u32 where "SMBIOD_READ_THREAD_STOP \<equiv> 0x40"
abbreviation (input) SMBIOD_READ_THREAD_ERROR :: u32 where "SMBIOD_READ_THREAD_ERROR \<equiv> 0x80"
abbreviation (input) SMBV_NEG_SMB3_ENABLED :: u64 where "SMBV_NEG_SMB3_ENABLED \<equiv> 0x1000"
abbreviation (input) SMBV_NON_COMPOUND_REPLIES :: u64 where "SMBV_NON_COMPOUND_REPLIES \<equiv> 0x200"
abbreviation (input) SMBV_MULTICHANNEL_ON :: u32 where "SMBV_MULTICHANNEL_ON \<equiv> 0x10000000"
abbreviation (input) ENETDOWN :: errno where "ENETDOWN \<equiv> 50"
abbreviation (input) SMB2_CREATE :: u16 where "SMB2_CREATE \<equiv> 0x5"
abbreviation (input) SMB2_CLOSE :: u16 where "SMB2_CLOSE \<equiv> 0x6"
abbreviation (input) SMB2_LOCK :: u16 where "SMB2_LOCK \<equiv> 0xA"
abbreviation (input) SMB2_IOCTL :: u16 where "SMB2_IOCTL \<equiv> 0xB"
abbreviation (input) SMB2_SET_INFO :: u16 where "SMB2_SET_INFO \<equiv> 0x11"
abbreviation (input) SMB_COM_ECHO :: byte where "SMB_COM_ECHO \<equiv> 0x2B"
abbreviation (input) MAX_SR_RECONNECT_CNT :: nat where "MAX_SR_RECONNECT_CNT \<equiv> 5"

section \<open>Requests and channels\<close>

datatype smbrq_state = SMBRQ_NOTSENT | SMBRQ_SENT | SMBRQ_NOTIFIED | SMBRQ_RECONNECT

datatype smbiod_state =
  SMBIOD_ST_NOTCONN | SMBIOD_ST_CONNECT | SMBIOD_ST_TRANACTIVE | SMBIOD_ST_NEGOACTIVE | SMBIOD_ST_SSNSETUP |
  SMBIOD_ST_SESSION_ACTIVE | SMBIOD_ST_DEAD | SMBIOD_ST_RECONNECT_AGAIN | SMBIOD_ST_RECONNECT

text \<open>
  A request in a queue: \<open>q_id\<close> stands for its address, \<open>q_rq\<close> are the fields the other components use. \<open>q_tries\<close> is not in
  the source: it counts how often the message of the request was handed to the transport. Times are in nanoseconds.
\<close>

record queued =
  q_id :: nat
  q_rq :: smb_rq
  q_state :: smbrq_state
  q_rpgen :: int
  q_rplast :: int
  q_lerror :: errno
  q_timesent :: int
  q_credit_timesent :: int
  q_reconnect_cnt :: nat
  q_mid :: u16
  q_pidHigh :: u16
  q_pidLow :: u16
  q_tries :: nat

text \<open>
  A channel: the fields of its \<^verbatim>\<open>smbiod\<close> that the other components use are those of number \<open>c_iod\<close> in \<open>c_st\<close>. \<open>c_soft\<close> is
  the soft mount timer of a share, in seconds, and \<open>c_down\<close> whether its mount is marked as down. Calls out of the
  component are recorded: \<open>c_callbacks\<close> the requests whose callback was made, \<open>c_ups\<close> the shares that were told that the
  server answers again.
\<close>

record channel =
  c_iod :: nat
  c_st :: smb_state
  c_session :: smb_session
  c_state :: smbiod_state
  c_tdata :: "nbpcb option"
  c_rqlist :: "queued list list"
  c_muxcnt :: int
  c_muxwant :: int
  c_asynccnt :: int
  c_workflag :: bool
  c_lastrecv :: int
  c_lastrqsent :: int
  c_reconnect_start :: int
  c_sess_setup_reply :: "byte list option"
  c_tx_bytes :: u64
  c_tx_packets :: u64
  c_rx_bytes :: u64
  c_rx_packets :: u64
  c_soft :: "nat \<Rightarrow> nat"
  c_down :: "nat \<Rightarrow> bool"
  c_callbacks :: "nat list"
  c_ups :: "nat list"

abbreviation (input) q_flags :: "queued \<Rightarrow> u32" where "q_flags q \<equiv> sr_flags (q_rq q)"
abbreviation (input) q_extflags :: "queued \<Rightarrow> u32" where "q_extflags q \<equiv> sr_extflags (q_rq q)"
abbreviation (input) c_flags :: "channel \<Rightarrow> u32" where "c_flags c \<equiv> iod_flags (iods (c_st c) (c_iod c))"

definition upd_rq :: "(smb_rq \<Rightarrow> smb_rq) \<Rightarrow> queued \<Rightarrow> queued" where
  "upd_rq f q = q\<lparr>q_rq := f (q_rq q)\<rparr>"

definition or_qflags :: "u32 \<Rightarrow> queued \<Rightarrow> queued" where
  "or_qflags x = upd_rq (\<lambda>r. r\<lparr>sr_flags := sr_flags r OR x\<rparr>)"

definition clear_sent :: "queued \<Rightarrow> queued" where
  "clear_sent = upd_rq (\<lambda>r. r\<lparr>sr_extflags := sr_extflags r AND NOT SMB2_REQ_SENT\<rparr>)"

definition upd_ciod :: "(smbiod \<Rightarrow> smbiod) \<Rightarrow> channel \<Rightarrow> channel" where
  "upd_ciod f c = c\<lparr>c_st := upd_iod (c_iod c) f (c_st c)\<rparr>"

definition set_cflags :: "(u32 \<Rightarrow> u32) \<Rightarrow> channel \<Rightarrow> channel" where
  "set_cflags f = upd_ciod (\<lambda>i. i\<lparr>iod_flags := f (iod_flags i)\<rparr>)"

definition smb_iod_check_timeout :: "int \<Rightarrow> int \<Rightarrow> nat \<Rightarrow> bool" where
  "smb_iod_check_timeout now starttime secs \<longleftrightarrow> now > starttime + int secs * 10 ^ 9"

section \<open>Giving a request back\<close>

definition rqprocessed :: "errno \<Rightarrow> u32 \<Rightarrow> queued \<Rightarrow> queued" where
  "rqprocessed error flags q =
     (or_qflags flags q)\<lparr>q_lerror := error, q_rpgen := q_rpgen q + 1, q_state := SMBRQ_NOTIFIED\<rparr>"

definition callback :: "queued \<Rightarrow> channel \<Rightarrow> channel" where
  "callback q c = (if q_flags q AND SMBR_ASYNC \<noteq> 0 then c\<lparr>c_callbacks := c_callbacks c @ [q_id q]\<rparr> else c)"

text \<open>The request at the head of an entry is processed.\<close>

fun smb_iod_rqprocessed :: "errno \<Rightarrow> u32 \<Rightarrow> queued list \<Rightarrow> channel \<Rightarrow> queued list \<times> channel" where
  "smb_iod_rqprocessed error flags [] c = ([], c)"
| "smb_iod_rqprocessed error flags (q # qs) c = (rqprocessed error flags q # qs, callback (rqprocessed error flags q) c)"

text \<open>A loop over the entries; the entries that are done are kept apart from those to come.\<close>

fun each_rq :: "(queued list \<Rightarrow> channel \<Rightarrow> queued list \<times> channel) \<Rightarrow> queued list list \<Rightarrow> channel \<Rightarrow> queued list list \<times> channel" where
  "each_rq f [] c = ([], c)"
| "each_rq f (e # es) c = (let (e, c) = f e c; (es, c) = each_rq f es c in (e # es, c))"

definition over_rqlist :: "(queued list \<Rightarrow> channel \<Rightarrow> queued list \<times> channel) \<Rightarrow> channel \<Rightarrow> channel" where
  "over_rqlist f c = (let (es, c') = each_rq f (c_rqlist c) c in c'\<lparr>c_rqlist := es\<rparr>)"

definition smb_iod_invrq :: "channel \<Rightarrow> channel" where
  "smb_iod_invrq = over_rqlist (smb_iod_rqprocessed ENOTCONN SMBR_DEAD)"

text \<open>The read thread is told to stop, and has stopped when the transport is freed.\<close>

definition smb_iod_closetran :: "channel \<Rightarrow> channel" where
  "smb_iod_closetran c =
     (if c_tdata c = None then c
      else
        let c = set_cflags (\<lambda>f. f OR SMBIOD_READ_THREAD_STOP) c
        in c\<lparr>c_tdata := snd (smb_nbst_done (snd (smb_nbst_disconnect (c_tdata c))))\<rparr>)"

fun share_dead :: "queued list \<Rightarrow> channel \<Rightarrow> queued list \<times> channel" where
  "share_dead [] c = ([], c)"
| "share_dead (q # qs) c =
     (case sr_share (q_rq q) of
        None \<Rightarrow> (q # qs, c)
      | Some sh \<Rightarrow> (q # qs, if ss_dead sh then c\<lparr>c_st := (c_st c)\<lparr>dead := ss_id sh # dead (c_st c)\<rparr>\<rparr> else c))"

definition smb_iod_dead :: "channel \<Rightarrow> channel" where
  "smb_iod_dead c = over_rqlist share_dead (smb_iod_invrq (smb_iod_closetran (c\<lparr>c_state := SMBIOD_ST_DEAD\<rparr>)))"

definition smb_iod_errorout_share_request :: "nat \<Rightarrow> errno \<Rightarrow> channel \<Rightarrow> channel" where
  "smb_iod_errorout_share_request share error =
     over_rqlist (\<lambda>e c.
       case e of
         [] \<Rightarrow> (e, c)
       | q # _ \<Rightarrow>
           if map_option ss_id (sr_share (q_rq q)) = Some share \<and> q_state q \<noteq> SMBRQ_NOTIFIED
           then smb_iod_rqprocessed error 0 e c else (e, c))"

section \<open>A lost connection\<close>

text \<open>The requests of a channel whose work is taken over by another one are sent back to be built again.\<close>

fun failover_rq :: "queued list \<Rightarrow> channel \<Rightarrow> queued list \<times> channel" where
  "failover_rq [] c = ([], c)"
| "failover_rq (q # qs) c =
     (if q_flags q AND (SMBR_INTERNAL OR SMBR_ASYNC) \<noteq> 0
      then
        if q_flags q AND SMBR_ASYNC \<noteq> 0 then smb_iod_rqprocessed ETIMEDOUT 0 (clear_sent q # qs) c
        else smb_iod_rqprocessed ENOTCONN SMBR_DEAD (clear_sent q # qs) c
      else
        let q = or_qflags (SMBR_RECONNECTED OR SMBR_ALT_CH_DISCON) q
        in if q_state q \<noteq> SMBRQ_NOTIFIED
           then smb_iod_rqprocessed EAGAIN 0 (or_qflags SMBR_REXMIT (clear_sent q)\<lparr>q_state := SMBRQ_RECONNECT, q_lerror := 0\<rparr> # qs) c
           else (q # qs, c))"

definition smb_iod_alt_ch_failover :: "channel \<Rightarrow> channel" where
  "smb_iod_alt_ch_failover c = over_rqlist failover_rq (set_cflags (\<lambda>f. f OR SMBIOD_SHUTDOWN) c)"

text \<open>The requests of a channel that will be reconnected.\<close>

fun hold_rq :: "int \<Rightarrow> queued list \<Rightarrow> channel \<Rightarrow> queued list \<times> channel" where
  "hold_rq now [] c = ([], c)"
| "hold_rq now (q # qs) c =
     (if q_flags q AND (SMBR_INTERNAL OR SMBR_ASYNC) \<noteq> 0
      then
        if q_flags q AND SMBR_ASYNC \<noteq> 0 then smb_iod_rqprocessed ETIMEDOUT 0 (clear_sent q # qs) c
        else smb_iod_rqprocessed ENOTCONN SMBR_DEAD (clear_sent q # qs) c
      else if (case sr_share (q_rq q) of
                 None \<Rightarrow> False
               | Some sh \<Rightarrow> q_extflags q AND SMB2_REQUEST \<noteq> 0 \<and> c_soft c (ss_id sh) \<noteq> 0 \<and>
                   smb_iod_check_timeout now (c_reconnect_start c) (c_soft c (ss_id sh)))
      then smb_iod_rqprocessed ETIMEDOUT 0 (clear_sent q # qs) c
      else
        let q = or_qflags SMBR_RECONNECTED q
        in (if q_state q \<noteq> SMBRQ_NOTIFIED
            then (or_qflags SMBR_REXMIT (clear_sent q)\<lparr>q_state := SMBRQ_RECONNECT, q_lerror := 0\<rparr> # qs)
            else q # qs, c))"

definition dead_states :: "smbiod_state set" where
  "dead_states = {SMBIOD_ST_NOTCONN, SMBIOD_ST_CONNECT, SMBIOD_ST_TRANACTIVE, SMBIOD_ST_NEGOACTIVE, SMBIOD_ST_SSNSETUP, SMBIOD_ST_DEAD}"

text \<open>
  \<open>now\<close> and \<open>later\<close> are two readings of the clock; \<open>proclaimed\<close> says whether another channel of the session could be made
  the main one, by \<^verbatim>\<open>smb_iod_main_ch_failover\<close>. What is done to the table of connections and to the flags of the
  shares is not part of the queue.
\<close>

definition smb_iod_start_reconnect :: "int \<Rightarrow> int \<Rightarrow> bool \<Rightarrow> channel \<Rightarrow> channel" where
  "smb_iod_start_reconnect now later proclaimed c =
     (if c_flags c AND SMBIOD_START_RECONNECT \<noteq> 0 then c
      else
        let c = c\<lparr>c_reconnect_start := now\<rparr>
        in if c_state c \<in> dead_states \<and> c_flags c AND SMBIOD_RECONNECT = 0 then smb_iod_dead c
           else
             let c = set_cflags (\<lambda>f. f OR SMBIOD_START_RECONNECT) c;
                 multi = (session_flags (c_session c) AND SMBV_MULTICHANNEL_ON \<noteq> 0 \<and> c_flags c AND SMBIOD_RECONNECT = 0);
                 c = (if multi \<and> (c_flags c AND SMBIOD_ALTERNATE_CHANNEL \<noteq> 0 \<or> proclaimed) then smb_iod_alt_ch_failover c
                      else set_cflags (\<lambda>f. f OR SMBIOD_RECONNECT) (over_rqlist (hold_rq later) c))
             in set_cflags (\<lambda>f. f AND NOT SMBIOD_START_RECONNECT) (c\<lparr>c_state := SMBIOD_ST_RECONNECT\<rparr>))"

section \<open>Sending\<close>

text \<open>
  The outside world of a send: the digest for the hash of the negotiation, chaining of mbufs, the stamped, signed and copied
  message of an SMB 1 request, the transport, its verdict on an error, and the clock.
\<close>

record send_env =
  se_lib :: crypto_lib
  se_ops :: mbuf_ops
  se_smb1 :: "smb_rq \<Rightarrow> errno + mbuf list"
  se_send :: "mbuf list \<Rightarrow> errno"
  se_fatal :: "errno \<Rightarrow> bool"
  se_now :: int
  se_later :: int
  se_proclaimed :: bool
  se_shutdown :: bool
  se_resp_wait :: nat

text \<open>The chain of a compound: an empty one is not chained.\<close>

fun send_compound :: "mbuf_ops \<Rightarrow> mbuf list \<Rightarrow> smb_rq list \<Rightarrow> mbuf list \<times> smb_rq list" where
  "send_compound ops m [] = (m, [])"
| "send_compound ops m (tmp_rqp # rest) =
     (let (m2, mbp) = mb_detach (sr_rq tmp_rqp);
          (m, rest) = send_compound ops (if m2 \<noteq> [] then mbuf_concatenate ops m m2 else m) rest
      in (m, tmp_rqp\<lparr>sr_rq := mbp\<rparr> # rest))"

definition pre_auth_hash :: "crypto_lib \<Rightarrow> smb_rq \<Rightarrow> mbuf list \<Rightarrow> channel \<Rightarrow> channel" where
  "pre_auth_hash lib rqp m c =
     (let c = (if sr_command rqp = SMB2_NEGOTIATE \<and> session_misc_flags (c_session c) AND SMBV_NEG_SMB3_ENABLED \<noteq> 0
               then upd_ciod (\<lambda>i. the (snd (smb311_pre_auth_integrity_hash_init lib (Some i) SMB2_NEGOTIATE m))) c else c)
      in if sr_command rqp = SMB2_SESSION_SETUP \<and> session_flags (c_session c) AND SMBV_SMB311 \<noteq> 0
         then if sr_rqsessionid rqp = 0
              then upd_ciod (\<lambda>i. the (snd (smb311_pre_auth_integrity_hash_init lib (Some i) SMB2_SESSION_SETUP m))) c
              else upd_ciod (\<lambda>i. the (snd (smb311_pre_auth_integrity_hash_update lib (Some i) m))) c
         else c)"

text \<open>The chain of a request, the length that is counted, the requests after the chain was taken out of them.\<close>

definition send_chain :: "send_env \<Rightarrow> smb_rq list \<Rightarrow> channel \<Rightarrow> (errno + mbuf list) \<times> nat \<times> smb_rq list \<times> channel" where
  "send_chain env rqps c =
     (let rqp = hd rqps
      in if sr_extflags rqp AND SMB2_REQUEST \<noteq> 0
         then
           let (len, mbp) = mb_fixhdr (sr_rq rqp);
               (m, mbp) = mb_detach mbp;
               rqp = rqp\<lparr>sr_rq := mbp\<rparr>
           in if sr_flags rqp AND SMBR_COMPOUND_RQ \<noteq> 0
              then
                let (m, rest) = send_compound (se_ops env) m (tl rqps);
                    (len, m) = m_fixhdr m
                in (Inr m, len, rqp # rest, c)
              else
                let (m2, mbp2) = mb_detach (sr_rq_compressed rqp);
                    compressed = (sr_flags rqp AND SMBR_COMPRESSED \<noteq> 0 \<and> sr_command rqp = SMB2_WRITE);
                    rqp = (if compressed then rqp\<lparr>sr_rq_compressed := mbp2\<rparr> else rqp);
                    m = (if compressed \<and> m2 \<noteq> [] then m2 else m)
                in (Inr m, len, rqp # tl rqps, pre_auth_hash (se_lib env) rqp m c)
         else (se_smb1 env rqp, 0, rqps, c))"

definition mark_sent :: "queued list \<Rightarrow> queued list" where
  "mark_sent e =
     (let sent = upd_rq (\<lambda>r. r\<lparr>sr_extflags := sr_extflags r OR SMB2_REQ_SENT\<rparr>)
      in case e of
           [] \<Rightarrow> []
         | q # qs \<Rightarrow> sent q # (if q_flags q AND SMBR_COMPOUND_RQ \<noteq> 0 then map sent qs else qs))"

definition smb_iod_sendrq :: "send_env \<Rightarrow> queued list \<Rightarrow> channel \<Rightarrow> errno \<times> queued list \<times> channel" where
  "smb_iod_sendrq env e c =
     (if c_state c = SMBIOD_ST_NOTCONN \<or> c_state c = SMBIOD_ST_DEAD then (0, smb_iod_rqprocessed ENOTCONN 0 e c)
      else if c_state c = SMBIOD_ST_CONNECT then (0, e, c)
      else
        let (r, len, rqps, c) = send_chain env (map q_rq e) c;
            e = map2 (\<lambda>q r. q\<lparr>q_rq := r\<rparr>) e rqps;
            q = hd e;
            smb2 = (q_extflags q AND SMB2_REQUEST \<noteq> 0);
            (error, tries) = (case r of Inl err \<Rightarrow> (err, q_tries q) | Inr m \<Rightarrow> (se_send env m, q_tries q + 1));
            q = q\<lparr>q_lerror := error, q_tries := tries\<rparr>
        in if error = 0
           then (0, mark_sent (q\<lparr>q_timesent := se_now env, q_credit_timesent := se_now env, q_state := SMBRQ_SENT\<rparr> # tl e),
                 c\<lparr>c_lastrqsent := se_now env, c_tx_bytes := c_tx_bytes c + of_nat len, c_tx_packets := c_tx_packets c + 1\<rparr>)
           else if se_fatal env error then (ENOTCONN, q # tl e, c)
           else
             let (e, c) = smb_iod_rqprocessed EIO 0 (q # tl e) c
             in (if smb2 then ENOTCONN else EIO, e, c))"

section \<open>The queue\<close>

definition smb_iod_removerq :: "nat \<Rightarrow> channel \<Rightarrow> channel" where
  "smb_iod_removerq i c =
     (case find (\<lambda>e. e \<noteq> [] \<and> q_id (hd e) = i) (c_rqlist c) of
        None \<Rightarrow> c
      | Some e \<Rightarrow>
          let q = hd e;
              c = c\<lparr>c_rqlist := remove1 e (c_rqlist c)\<rparr>
          in if q_flags q AND SMBR_INTERNAL \<noteq> 0 then c
             else
               let c = (if q_flags q AND SMBR_ASYNC \<noteq> 0 then c\<lparr>c_asynccnt := c_asynccnt c - 1\<rparr> else c);
                   c = (if q_flags q AND SMBR_RECONNECTED = 0 then c\<lparr>c_muxcnt := c_muxcnt c - 1\<rparr> else c)
               in if q_extflags q AND SMB2_REQUEST = 0 \<and> c_muxwant c \<noteq> 0 then c\<lparr>c_muxwant := c_muxwant c - 1\<rparr> else c)"

text \<open>
  The end of a wait: \<open>None\<close> while the thread has to go on sleeping. The result is the error, and the request as the thread
  has it.
\<close>

definition smb_iod_waitrq :: "nat \<Rightarrow> channel \<Rightarrow> (errno \<times> queued \<times> channel) option" where
  "smb_iod_waitrq i c =
     do {
       e \<leftarrow> find (\<lambda>e. e \<noteq> [] \<and> q_id (hd e) = i) (c_rqlist c);
       let q = hd e;
       if q_flags q AND SMBR_INTERNAL \<noteq> 0
       then if q_rpgen q \<noteq> q_rplast q then Some (q_lerror q, q, smb_iod_removerq i c) else None
       else
         let lost = (q_rplast q \<noteq> 0 \<and> q_rpgen q = q_rplast q \<and>
               q_flags q AND (SMBR_MULTIPACKET OR SMBR_RECONNECTED OR SMBR_REXMIT) = SMBR_MULTIPACKET OR SMBR_RECONNECTED);
             error = (if lost then ETIMEDOUT else q_lerror q)
         in if error = 0 \<and> q_rpgen q = q_rplast q then None
            else
              let q = q\<lparr>q_rplast := q_rplast q + 1, q_lerror := error\<rparr>
              in Some (error, q,
                   if q_flags q AND SMBR_MULTIPACKET \<noteq> 0
                   then c\<lparr>c_rqlist := remove1 e (c_rqlist c) @ [q # tl e]\<rparr>
                   else smb_iod_removerq i c)
     }"

section \<open>Putting a request into the queue\<close>

text \<open>\<open>states\<close> are the states of the channel at the further attempts to send an internal request.\<close>

fun send_internal :: "send_env \<Rightarrow> smbiod_state list \<Rightarrow> queued list \<Rightarrow> channel \<Rightarrow> (errno \<times> queued list \<times> channel) option" where
  "send_internal env states e c =
     (let (error, e, c) = smb_iod_sendrq env e c
      in if error \<noteq> 0 \<or> q_state (hd e) \<noteq> SMBRQ_NOTSENT then Some (error, e, c)
         else case states of [] \<Rightarrow> None | s # states \<Rightarrow> send_internal env states e (c\<lparr>c_state := s\<rparr>))"

text \<open>Signing and encrypting: the session that the requests of the model carry is the one of the channel.\<close>

definition seal_entry ::
  "crypt_env \<Rightarrow> 'c aead_lib \<Rightarrow> mbuf option \<Rightarrow> send_env \<Rightarrow> queued list \<Rightarrow> channel \<Rightarrow> (errno \<times> queued list \<times> channel) option" where
  "seal_entry cenv aead hdr env e c =
     (if q_extflags (hd e) AND SMB2_REQUEST = 0 then Some (0, e, c)
      else do {
        (error, st, rqp, rest) \<leftarrow> smb_iod_rq_sign (se_lib env) cenv (se_ops env) aead hdr (c_st c)
                                   ((q_rq (hd e))\<lparr>sr_session := Some (c_session c)\<rparr>) (map q_rq (tl e));
        Some (error, map2 (\<lambda>q r. q\<lparr>q_rq := r\<rparr>) e (rqp # rest), c\<lparr>c_st := st, c_session := the (sr_session rqp)\<rparr>)
      })"

text \<open>The test for a request that has to wait for the end of a reconnect, on a soft mount.\<close>

definition soft_wait :: "int \<Rightarrow> queued list \<Rightarrow> channel \<Rightarrow> errno \<times> queued list" where
  "soft_wait now e c =
     (let q = hd e
      in case sr_share (q_rq q) of
           None \<Rightarrow> (0, e)
         | Some sh \<Rightarrow>
             if q_flags q AND SMBR_INTERNAL = 0 \<and> c_flags c AND SMBIOD_RECONNECT \<noteq> 0 \<and> c_soft c (ss_id sh) \<noteq> 0
             then
               if smb_iod_check_timeout now (c_reconnect_start c) (c_soft c (ss_id sh)) then (ETIMEDOUT, e)
               else if q_extflags q AND SMB2_REQUEST \<noteq> 0
               then (0, or_qflags (SMBR_RECONNECTED OR SMBR_REXMIT) q\<lparr>q_state := SMBRQ_RECONNECT\<rparr> # tl e)
               else (0, e)
             else (0, e))"

text \<open>Requests built for an earlier session of the server are marked.\<close>

definition stale :: "channel \<Rightarrow> queued \<Rightarrow> bool" where
  "stale c q \<longleftrightarrow> sr_rqsessionid (q_rq q) \<noteq> session_session_id (c_session c)"

definition insert_rq ::
  "crypt_env \<Rightarrow> 'c aead_lib \<Rightarrow> mbuf option \<Rightarrow> send_env \<Rightarrow> queued list \<Rightarrow> channel \<Rightarrow> (errno \<times> queued list \<times> channel) option" where
  "insert_rq cenv aead hdr env e c =
     (let c = (if q_flags (hd e) AND SMBR_ASYNC \<noteq> 0 then c\<lparr>c_asynccnt := c_asynccnt c + 1\<rparr> else c);
          c = c\<lparr>c_muxcnt := c_muxcnt c + 1\<rparr>
      in if c_flags c AND SMBIOD_SHUTDOWN \<noteq> 0 then Some (EAGAIN, e, c)
         else do {
           (error, e, c) \<leftarrow> seal_entry cenv aead hdr env e c;
           if error \<noteq> 0 then Some (error, e, c)
           else
             let e = or_qflags SMBR_ENQUEUED (hd e) # tl e
             in Some (0, e, c\<lparr>c_rqlist := c_rqlist c @ [e], c_workflag := True\<rparr>)
         })"

text \<open>
  The result is the error, the request as the caller has it and the channel. An SMB 1 request that finds the window full
  sleeps: \<open>None\<close>.
\<close>

definition smb_iod_rq_enqueue ::
  "crypt_env \<Rightarrow> 'c aead_lib \<Rightarrow> mbuf option \<Rightarrow> send_env \<Rightarrow> int \<Rightarrow> smbiod_state list \<Rightarrow> queued list \<Rightarrow> channel \<Rightarrow>
     (errno \<times> queued list \<times> channel) option" where
  "smb_iod_rq_enqueue cenv aead hdr env maxmux states e c =
     (if sr_context (q_rq (hd e)) = iod_context (iods (c_st c) (c_iod c))
      then
        do {
          let e = or_qflags SMBR_INTERNAL (hd e) # tl e;
          (error, e, c) \<leftarrow> seal_entry cenv aead hdr env e c;
          if error \<noteq> 0 then Some (error, e, c)
          else do {
            let e = or_qflags SMBR_ENQUEUED (hd e) # tl e;
            (error, e, c) \<leftarrow> send_internal env states e c;
            let c = c\<lparr>c_rqlist := e # c_rqlist c\<rparr>;
            let c = (if error \<noteq> 0 then smb_iod_start_reconnect (se_now env) (se_later env) (se_proclaimed env) c else c);
            let e = hd (c_rqlist c);
            let c = (if q_lerror (hd e) \<noteq> 0 then smb_iod_removerq (q_id (hd e)) c else c);
            Some (q_lerror (hd e), e, c)
          }
        }
      else if c_state c = SMBIOD_ST_DEAD then Some (ENOTCONN, e, snd (share_dead e c))
      else if c_state c = SMBIOD_ST_NOTCONN then Some (ENOTCONN, e, c)
      else
        let (error, e) = soft_wait (se_now env) e c
        in if error \<noteq> 0 then Some (error, e, c)
           else if q_extflags (hd e) AND SMB2_REQUEST = 0
           then
             if session_flags (c_session c) AND SMBV_SMB2 \<noteq> 0 then Some (ERPCMISMATCH, e, c)
             else if c_muxcnt c \<ge> maxmux then None
             else if q_flags (hd e) AND SMBR_ASYNC \<noteq> 0 \<and> c_asynccnt c \<ge> maxmux div 3 * 2 then Some (EWOULDBLOCK, e, c)
             else insert_rq cenv aead hdr env e c
           else
             let e' = map (\<lambda>q. if stale c q then or_qflags SMBR_RECONNECTED q else q) e
             in if list_ex (stale c) e then Some (EAGAIN, e', c) else insert_rq cenv aead hdr env e c)"

section \<open>The sweep over the queue\<close>

text \<open>What one sweep collects: an error that ends it, whether an echo is due, and the oldest request that waits for a reply.\<close>

record sweep =
  sw_herror :: errno
  sw_echo :: bool
  sw_oldest :: "(u64 \<times> int) option"

definition note_oldest :: "channel \<Rightarrow> queued \<Rightarrow> sweep \<Rightarrow> sweep" where
  "note_oldest c q sw =
     (if session_flags (c_session c) AND SMBV_SMB2 \<noteq> 0 \<and> q_flags q AND SMBR_ASYNC = 0
      then sw\<lparr>sw_oldest :=
             (case sw_oldest sw of
                None \<Rightarrow> Some (sr_messageid (q_rq q), q_credit_timesent q)
              | Some (i, t) \<Rightarrow>
                  if t > q_credit_timesent q then Some (sr_messageid (q_rq q), q_credit_timesent q) else Some (i, t))\<rparr>
      else sw)"

definition secs :: "nat \<Rightarrow> int" where
  "secs n = int n * 10 ^ 9"

text \<open>A request that has been sent and not answered.\<close>

definition sweep_sent :: "send_env \<Rightarrow> queued list \<Rightarrow> channel \<Rightarrow> sweep \<Rightarrow> queued list \<times> channel \<times> sweep" where
  "sweep_sent env e c sw =
     (let q = hd e;
          sw = note_oldest c q sw;
          now = se_now env
      in if q_flags q AND SMBR_ASYNC \<noteq> 0 \<or> q_flags q AND SMBR_NO_TIMEOUT \<noteq> 0 then (e, c, sw)
         else if sr_share (q_rq q) \<noteq> None \<and> now - secs (se_resp_wait env) > c_lastrecv c \<and>
                 now - secs (se_resp_wait env) > q_timesent q
         then (e, c, sw\<lparr>sw_herror := ENOTCONN\<rparr>)
         else if now > q_timesent q + secs (if se_shutdown env then 1 else 120)
         then
           let (e, c) = smb_iod_rqprocessed ETIMEDOUT 0
                 ((if q_extflags q AND SMB2_REQUEST \<noteq> 0 then clear_sent q else q) # tl e) c
           in (e, c, sw)
         else if sr_cmd (q_rq q) \<noteq> SMB_COM_ECHO \<and> now - secs 10 > q_timesent q then (e, c, sw\<lparr>sw_echo := True\<rparr>)
         else (e, c, sw))"

definition sweep_send :: "send_env \<Rightarrow> queued list \<Rightarrow> channel \<Rightarrow> sweep \<Rightarrow> queued list \<times> channel \<times> sweep" where
  "sweep_send env e c sw = (let (herror, e, c) = smb_iod_sendrq env e c in (e, c, sw\<lparr>sw_herror := herror\<rparr>))"

definition sweep_state :: "send_env \<Rightarrow> queued list \<Rightarrow> channel \<Rightarrow> sweep \<Rightarrow> queued list \<times> channel \<times> sweep" where
  "sweep_state env e c sw =
     (let q = hd e
      in case q_state q of
           SMBRQ_RECONNECT \<Rightarrow>
             if c_flags c AND SMBIOD_RECONNECT \<noteq> 0 then (e, c, sw)
             else
               let q = q\<lparr>q_state := SMBRQ_NOTSENT, q_reconnect_cnt := q_reconnect_cnt q + 1\<rparr>
               in if q_reconnect_cnt q > MAX_SR_RECONNECT_CNT
                  then let (e, c) = smb_iod_rqprocessed ETIMEDOUT 0 (q # tl e) (c\<lparr>c_state := SMBIOD_ST_DEAD\<rparr>) in (e, c, sw)
                  else if q_extflags q AND SMB2_REQUEST \<noteq> 0
                  then let (e, c) = smb_iod_rqprocessed EAGAIN 0 (q # tl e) c in (e, c, sw)
                  else sweep_send env (q # tl e) c sw
         | SMBRQ_NOTSENT \<Rightarrow> sweep_send env e c sw
         | SMBRQ_SENT \<Rightarrow> sweep_sent env e c sw
         | SMBRQ_NOTIFIED \<Rightarrow> (e, c, sw))"

definition sweep_rq :: "send_env \<Rightarrow> queued list \<Rightarrow> channel \<Rightarrow> sweep \<Rightarrow> queued list \<times> channel \<times> sweep" where
  "sweep_rq env e c sw =
     (let q = hd e;
          give_up = (\<lambda>q. let (e, c) = smb_iod_rqprocessed ETIMEDOUT 0 (q # tl e) c in (e, c, sw))
      in if c_state c = SMBIOD_ST_DEAD \<or> share_going_away (c_st c) (q_rq q) then give_up q
         else if c_flags c AND SMBIOD_RECONNECT \<noteq> 0 \<and> q_flags q AND SMBR_INTERNAL = 0
         then
           if (case sr_share (q_rq q) of
                 None \<Rightarrow> False
               | Some sh \<Rightarrow> q_extflags q AND SMB2_REQUEST \<noteq> 0 \<and>
                   sr_context (q_rq q) \<noteq> iod_context (iods (c_st c) (c_iod c)) \<and> c_soft c (ss_id sh) \<noteq> 0 \<and>
                   smb_iod_check_timeout (se_now env) (c_reconnect_start c) (c_soft c (ss_id sh)))
           then give_up (clear_sent q)
           else if q_flags q AND SMBR_ASYNC \<noteq> 0 then give_up q
           else
             let q = (if q_state q = SMBRQ_NOTSENT then (clear_sent q)\<lparr>q_state := SMBRQ_RECONNECT\<rparr> else q)
             in sweep_state env (or_qflags SMBR_RECONNECTED q # tl e) c sw
         else sweep_state env e c sw)"

fun sweep_all :: "send_env \<Rightarrow> queued list list \<Rightarrow> channel \<Rightarrow> sweep \<Rightarrow> queued list list \<times> channel \<times> sweep" where
  "sweep_all env [] c sw = ([], c, sw)"
| "sweep_all env (e # es) c sw =
     (let (e, c, sw) = sweep_rq env e c sw
      in if sw_herror sw \<noteq> 0 then (e # es, c, sw)
         else let (es, c, sw) = sweep_all env es c sw in (e # es, c, sw))"

text \<open>The oldest pending message id is kept for the send window; who waits for credits is woken when it changes.\<close>

definition note_pending :: "sweep \<Rightarrow> smbiod \<Rightarrow> smbiod" where
  "note_pending sw i =
     (let (pending, oldest) = (case sw_oldest sw of None \<Rightarrow> (0, 0) | Some (mid, _) \<Rightarrow> (1, mid));
          woken = (oldest \<noteq> iod_oldest_message_id i \<and> iod_credits_wait i \<noteq> 0)
      in i\<lparr>iod_req_pending := pending, iod_oldest_message_id := oldest,
           iod_credits_wait := (if woken then iod_credits_wait i - 1 else iod_credits_wait i)\<rparr>)"

text \<open>The flag of the result says whether an echo request is sent.\<close>

definition smb_iod_sendall :: "send_env \<Rightarrow> channel \<Rightarrow> bool \<times> channel" where
  "smb_iod_sendall env c =
     (let reconnect = smb_iod_start_reconnect (se_now env) (se_later env) (se_proclaimed env);
          c = (if c_flags c AND SMBIOD_READ_THREAD_ERROR \<noteq> 0 then reconnect c else c);
          (es, c', sw) = sweep_all env (c_rqlist c) c \<lparr>sw_herror = 0, sw_echo = False, sw_oldest = None\<rparr>;
          c = c'\<lparr>c_rqlist := es\<rparr>;
          now = se_now env;
          echo = (sw_herror sw \<noteq> ENOTCONN \<and> sw_echo sw \<and> c_flags c AND SMBIOD_RECONNECT = 0 \<and>
                  now - secs 10 > c_lastrecv c \<and> now - secs 10 > c_lastrqsent c);
          c = (if sw_herror sw = ENOTCONN then reconnect c else c)
      in (echo, if session_flags (c_session c) AND SMBV_SMB2 \<noteq> 0 then upd_ciod (note_pending sw) c else c))"

section \<open>Receiving\<close>

text \<open>The fields of a reply that are looked at before it is matched.\<close>

record reply_hdr =
  rh_command :: u16
  rh_status :: u32
  rh_credits :: u16
  rh_flags :: u32
  rh_nextcmd :: u32
  rh_messageid :: u64
  rh_asyncid :: u64
  rh_treeid :: u32

definition reply_hdr :: "byte list \<Rightarrow> reply_hdr" where
  "reply_hdr bs =
     \<lparr>rh_command = of_nat (fld bs 12 2), rh_status = of_nat (fld bs 8 4), rh_credits = of_nat (fld bs 14 2),
      rh_flags = of_nat (fld bs 16 4), rh_nextcmd = of_nat (fld bs 20 4), rh_messageid = of_nat (fld bs 24 8),
      rh_asyncid = of_nat (fld bs 32 8), rh_treeid = of_nat (fld bs 36 4)\<rparr>"

definition is_pending :: "reply_hdr \<Rightarrow> bool" where
  "is_pending h \<longleftrightarrow> rh_flags h AND SMBR_ASYNC \<noteq> 0 \<and> rh_status h = STATUS_PENDING"

primrec find_pos :: "('a \<Rightarrow> bool) \<Rightarrow> 'a list \<Rightarrow> nat option" where
  "find_pos P [] = None"
| "find_pos P (x # xs) = (if P x then Some 0 else map_option Suc (find_pos P xs))"

text \<open>
  The search in one entry: the place of the request the reply is for, and whether it is handled as a part of
  a compound.
\<close>

definition match_entry :: "smb_session \<Rightarrow> reply_hdr \<Rightarrow> queued list \<Rightarrow> (nat \<times> bool) option" where
  "match_entry sessionp h e =
     (case e of
        [] \<Rightarrow> None
      | q # qs \<Rightarrow>
          if sr_messageid (q_rq q) = rh_messageid h
          then Some (0, q_flags q AND SMBR_COMPOUND_RQ \<noteq> 0 \<and> rh_nextcmd h = 0 \<and> \<not> is_pending h)
          else if (q_flags q AND SMBR_COMPOUND_RQ = 0 \<or> session_misc_flags sessionp AND SMBV_NON_COMPOUND_REPLIES = 0) \<and>
                  \<not> is_pending h
          then None
          else map_option (\<lambda>i. (Suc i, True)) (find_pos (\<lambda>q. sr_messageid (q_rq q) = rh_messageid h) qs))"

primrec match_queue :: "smb_session \<Rightarrow> reply_hdr \<Rightarrow> queued list list \<Rightarrow> (nat \<times> nat \<times> bool) option" where
  "match_queue sessionp h [] = None"
| "match_queue sessionp h (e # es) =
     (case match_entry sessionp h e of
        Some (j, cmpd) \<Rightarrow> Some (0, j, cmpd)
      | None \<Rightarrow> map_option (\<lambda>(k, r). (Suc k, r)) (match_queue sessionp h es))"

text \<open>What a reply means for the hash of the negotiation and for the last reply of a session setup, by the command of its request.\<close>

definition save_setup_reply :: "bool \<Rightarrow> mbuf list \<Rightarrow> u64 \<Rightarrow> channel \<Rightarrow> channel" where
  "save_setup_reply memory m mid c =
     (let c = c\<lparr>c_sess_setup_reply := (if memory then Some (take (64 * 1024) (chain_bytes m)) else None)\<rparr>;
          c = (if c_flags c AND SMBIOD_ALTERNATE_CHANNEL \<noteq> 0 then set_cflags (\<lambda>f. f OR SMBIOD_USE_CHANNEL_KEYS) c else c)
      in upd_ciod (\<lambda>i. i\<lparr>iod_sess_setup_message_id := mid\<rparr>) c)"

definition reply_command :: "crypto_lib \<Rightarrow> bool \<Rightarrow> reply_hdr \<Rightarrow> mbuf list \<Rightarrow> smb_rq \<Rightarrow> channel \<Rightarrow> channel" where
  "reply_command lib memory h m rqp c =
     (let update = (\<lambda>i. the (snd (smb311_pre_auth_integrity_hash_update lib (Some i) m)))
      in if sr_command rqp = SMB2_NEGOTIATE
         then
           if iod_pre_auth_int_hash (iods (c_st c) (c_iod c)) \<noteq> replicate 64 0
           then upd_ciod (\<lambda>i. (update i)\<lparr>iod_pre_auth_int_hash_neg := iod_pre_auth_int_hash (update i)\<rparr>) c
           else c
         else if sr_command rqp = SMB2_SESSION_SETUP
         then
           if session_flags (c_session c) AND SMBV_SMB311 \<noteq> 0 \<and> rh_status h = STATUS_MORE_PROCESSING_REQUIRED
           then upd_ciod update c
           else if SMBV_SMB3_OR_LATER (c_session c) \<and> rh_status h = 0 \<and> rh_flags h AND SMB2_FLAGS_SIGNED \<noteq> 0
           then save_setup_reply memory m (sr_messageid rqp) c
           else c
         else c)"

definition share_up :: "smb_rq \<Rightarrow> channel \<Rightarrow> channel" where
  "share_up rqp c =
     (case sr_share rqp of
        None \<Rightarrow> c
      | Some sh \<Rightarrow> if c_down c (ss_id sh) then c\<lparr>c_ups := c_ups c @ [ss_id sh]\<rparr> else c)"

text \<open>The reply is put into the request; \<open>None\<close> when the request has one already.\<close>

definition put_reply :: "mbuf list \<Rightarrow> smb_rq \<Rightarrow> smb_rq option" where
  "put_reply m rqp =
     (if md_top (sr_rp rqp) = [] then Some (rqp\<lparr>sr_rp := md_initm m []\<rparr>)
      else if sr_flags rqp AND SMBR_MULTIPACKET \<noteq> 0 then Some (rqp\<lparr>sr_rp := md_append_record (sr_rp rqp) m\<rparr>)
      else None)"

definition take_credits :: "smb_rq \<Rightarrow> channel \<Rightarrow> smb_rq \<times> channel" where
  "take_credits rqp c =
     (let (rqp, st) = smb2_rq_credit_preprocess_reply (\<lambda>_ _ _. 0) (\<lambda>_. id) (c_st c) (c_session c) rqp
      in (rqp, c\<lparr>c_st := st\<rparr>))"

datatype recv_outcome =
  RIgnored | RDropped | RLease "mbuf list" | RPending nat | RDelivered nat | RDuplicate nat | RStored nat

text \<open>The request at position \<open>j\<close> of entry \<open>k\<close> gets the reply.\<close>

definition store_rq :: "nat \<Rightarrow> nat \<Rightarrow> queued \<Rightarrow> channel \<Rightarrow> channel" where
  "store_rq k j q c = c\<lparr>c_rqlist := (c_rqlist c)[k := (c_rqlist c ! k)[j := q]]\<rparr>"

definition finish_reply :: "nat \<Rightarrow> nat \<Rightarrow> bool \<Rightarrow> mbuf list \<Rightarrow> queued \<Rightarrow> channel \<Rightarrow> recv_outcome \<times> channel" where
  "finish_reply k j cmpd m q c =
     (case put_reply m (q_rq q) of
        None \<Rightarrow> (RDuplicate (q_id q), store_rq k j q c)
      | Some rqp \<Rightarrow>
          let (rqp, c) = take_credits rqp c;
              c = store_rq k j (q\<lparr>q_rq := rqp\<rparr>) c;
              e = c_rqlist c ! k
          in if session_misc_flags (c_session c) AND SMBV_NON_COMPOUND_REPLIES \<noteq> 0 \<and> cmpd \<and>
                list_ex (\<lambda>q. q_extflags q AND SMB2_RESPONSE = 0) e
             then (RStored (q_id q), c)
             else
               let (e, c) = smb_iod_rqprocessed 0 0 e c
               in (RDelivered (q_id (hd e)), c\<lparr>c_rqlist := (c_rqlist c)[k := e]\<rparr>))"

definition recv_smb2 ::
  "crypto_lib \<Rightarrow> bool \<Rightarrow> int \<Rightarrow> reply_hdr \<Rightarrow> mbuf list \<Rightarrow> channel \<Rightarrow> recv_outcome \<times> channel" where
  "recv_smb2 lib memory now h m c =
     (let c = c\<lparr>c_lastrecv := now\<rparr>
      in case match_queue (c_session c) h (c_rqlist c) of
           None \<Rightarrow>
             (if (ucast (rh_command h) :: byte) = ucast SMB2_OPLOCK_BREAK \<and> rh_messageid h = 0xffffffffffffffff \<and> rh_treeid h = 0
              then RLease m else RDropped, c)
         | Some (k, j, cmpd) \<Rightarrow>
             let q = c_rqlist c ! k ! j;
                 c = (if j = 0 \<and> cmpd
                      then c\<lparr>c_session := (c_session c)\<lparr>session_misc_flags := session_misc_flags (c_session c) OR SMBV_NON_COMPOUND_REPLIES\<rparr>\<rparr>
                      else c);
                 q = (if is_pending h then q else upd_rq (\<lambda>r. r\<lparr>sr_extflags := sr_extflags r OR SMB2_RESPONSE\<rparr>) q);
                 c = share_up (q_rq q) ((reply_command lib memory h m (q_rq q) c)\<lparr>c_workflag := True\<rparr>)
             in if is_pending h
                then
                  let rqp = (q_rq q)\<lparr>sr_rspasyncid := rh_asyncid h, sr_rspcreditsgranted := rh_credits h\<rparr>
                  in (RPending (q_id q),
                      store_rq k j (q\<lparr>q_rq := rqp, q_timesent := now\<rparr>) (c\<lparr>c_st := snd (smb2_rq_credit_increment (c_st c) rqp)\<rparr>))
                else finish_reply k j cmpd m q c)"

text \<open>A reply of SMB 1: command, process and multiplex id are compared.\<close>

definition recv_smb1 :: "int \<Rightarrow> byte list \<Rightarrow> mbuf list \<Rightarrow> channel \<Rightarrow> recv_outcome \<times> channel" where
  "recv_smb1 now hp m c =
     (let c = c\<lparr>c_lastrecv := now\<rparr>;
          hit = (\<lambda>e. e \<noteq> [] \<and> q_mid (hd e) = of_nat (fld hp 30 2) \<and> sr_cmd (q_rq (hd e)) = hp ! 4 \<and>
                   q_pidHigh (hd e) = of_nat (fld hp 12 2) \<and> q_pidLow (hd e) = of_nat (fld hp 26 2))
      in case find_pos hit (c_rqlist c) of
           None \<Rightarrow> (RDropped, c)
         | Some k \<Rightarrow>
             let q = hd (c_rqlist c ! k)
             in finish_reply k 0 False m q (share_up (q_rq q) (c\<lparr>c_workflag := True\<rparr>)))"

definition SMB_SIGNATURE :: "byte list" where "SMB_SIGNATURE = [0xFF, 0x53, 0x4D, 0x42]"

text \<open>
  One message: \<open>smb1_allowed\<close> is what the loop remembers from one to the next. \<open>None\<close>: decompression does not return or
  leaves its buffer.
\<close>

definition recv_message ::
  "crypto_lib \<Rightarrow> crypt_env \<Rightarrow> mbuf_ops \<Rightarrow> bool \<Rightarrow> int \<Rightarrow> bool \<Rightarrow> mbuf list \<Rightarrow> channel \<Rightarrow> (recv_outcome \<times> bool \<times> channel) option" where
  "recv_message lib cenv ops memory now smb1_allowed m c =
     (let c = c\<lparr>c_rx_bytes := c_rx_bytes c + of_nat (length (chain_bytes m)), c_rx_packets := c_rx_packets c + 1\<rparr>
      in case mbuf_pullup ops m 32 of
           None \<Rightarrow> Some (RIgnored, smb1_allowed, c)
         | Some m \<Rightarrow>
             if m_data (hd m) ! 0 = 0xFE \<or> m_data (hd m) ! 0 = 0xFC
             then (case mbuf_pullup ops m 64 of
                     None \<Rightarrow> Some (RIgnored, smb1_allowed, c)
                   | Some m \<Rightarrow>
                       let sig = take 4 (m_data (hd m))
                       in if sig \<noteq> SMB2_SIGNATURE \<and> sig \<noteq> SMB2_SIGNATURE_COMPRESSION then Some (RDropped, smb1_allowed, c)
                          else
                            (case (if SMBV_SMB3_OR_LATER (c_session c) \<and> server_compression_algorithms_map (c_session c) \<noteq> 0 \<and>
                                      sig = SMB2_SIGNATURE_COMPRESSION
                                   then smb2_rq_decompress_read cenv (c_session c) m else Some (Ret 0 (c_session c, m))) of
                               None \<Rightarrow> None
                             | Some Fault \<Rightarrow> None
                             | Some (Ret error (s, m)) \<Rightarrow>
                                 let c = c\<lparr>c_session := s\<rparr>
                                 in if error \<noteq> 0 then Some (RDropped, False, c)
                                    else
                                      let (r, c) = recv_smb2 lib memory now (reply_hdr (m_data (hd m))) m c
                                      in Some (r, False, c)))
             else if take 4 (m_data (hd m)) \<noteq> SMB_SIGNATURE \<or> \<not> smb1_allowed then Some (RDropped, smb1_allowed, c)
             else let (r, c) = recv_smb1 now (take 32 (m_data (hd m))) m c in Some (r, smb1_allowed, c))"

section \<open>Requests that cannot be repeated\<close>

definition unrepeatable :: "queued list \<Rightarrow> bool" where
  "unrepeatable e =
     (case e of
        [] \<Rightarrow> False
      | q # _ \<Rightarrow>
          if q_flags q AND SMBR_COMPOUND_RQ = 0 then q_extflags q AND SMB2_NON_IDEMPOTENT \<noteq> 0
          else
            let cmds = map (sr_command \<circ> q_rq) e;
                bad = (\<lambda>c. c = SMB2_LOCK \<or> c = SMB2_IOCTL \<or> c = SMB2_SET_INFO);
                seen = takeWhile (\<lambda>c. \<not> bad c) cmds
            in list_ex bad cmds \<or> (SMB2_CREATE \<in> set seen) \<noteq> (SMB2_CLOSE \<in> set seen))"

definition smb_iod_check_non_idempotent :: "channel \<Rightarrow> errno" where
  "smb_iod_check_non_idempotent c = (if list_ex unrepeatable (c_rqlist c) then ENETDOWN else 0)"

end
