(* ===== verification/IodProps.thy ===== *)
theory IodProps
  imports Iod
begin

text \<open>
  The invariant of the request queue of a channel, and that everything that can happen to a channel keeps it.
\<close>

section \<open>The invariant\<close>

text \<open>
  A request of SMB 2/3 is handed to the transport at most once, and not before it leaves the state in which it has not
  been sent. A request that does not stay in the queue for further replies has not been waited for yet, and once
  it is notified its generation says so.
\<close>

definition rq_inv :: "queued \<Rightarrow> bool" where
  "rq_inv q \<longleftrightarrow>
     (q_extflags q AND SMB2_REQUEST \<noteq> 0 \<longrightarrow> q_tries q \<le> 1 \<and> (q_state q = SMBRQ_NOTSENT \<longrightarrow> q_tries q = 0)) \<and>
     (q_flags q AND SMBR_MULTIPACKET = 0 \<longrightarrow> q_rplast q = 0 \<and> 0 \<le> q_rpgen q \<and> (q_state q = SMBRQ_NOTIFIED \<longrightarrow> 0 < q_rpgen q))"

definition entry_inv :: "queued list \<Rightarrow> bool" where
  "entry_inv e \<longleftrightarrow> e \<noteq> [] \<and> rq_inv (hd e)"

definition heads :: "channel \<Rightarrow> nat list" where
  "heads c = map (q_id \<circ> hd) (c_rqlist c)"

definition queue_inv :: "channel \<Rightarrow> bool" where
  "queue_inv c \<longleftrightarrow>
     (\<forall>e \<in> set (c_rqlist c). entry_inv e) \<and> distinct (heads c) \<and> c_flags c AND SMBIOD_START_RECONNECT = 0"

lemma or_bit_eq: "bit m i \<Longrightarrow> (x OR m) AND 2 ^ i \<noteq> 0" for x m :: "'a::len word"
  by (simp add: and_exp_eq_0_iff_not_bit bit_simps)

lemma upd_rq_simps [simp]:
  "q_id (upd_rq f q) = q_id q" "q_state (upd_rq f q) = q_state q" "q_rpgen (upd_rq f q) = q_rpgen q"
  "q_rplast (upd_rq f q) = q_rplast q" "q_tries (upd_rq f q) = q_tries q" "q_rq (upd_rq f q) = f (q_rq q)"
  "q_lerror (upd_rq f q) = q_lerror q" "q_timesent (upd_rq f q) = q_timesent q" "q_reconnect_cnt (upd_rq f q) = q_reconnect_cnt q"
  by (simp_all add: upd_rq_def)

lemma qflags_simps [simp]:
  "q_id (or_qflags x q) = q_id q" "q_state (or_qflags x q) = q_state q" "q_rpgen (or_qflags x q) = q_rpgen q"
  "q_rplast (or_qflags x q) = q_rplast q" "q_tries (or_qflags x q) = q_tries q"
  "q_rq (or_qflags x q) = (q_rq q)\<lparr>sr_flags := sr_flags (q_rq q) OR x\<rparr>"
  "q_reconnect_cnt (or_qflags x q) = q_reconnect_cnt q"
  "q_id (clear_sent q) = q_id q" "q_state (clear_sent q) = q_state q" "q_rpgen (clear_sent q) = q_rpgen q"
  "q_rplast (clear_sent q) = q_rplast q" "q_tries (clear_sent q) = q_tries q"
  "q_rq (clear_sent q) = (q_rq q)\<lparr>sr_extflags := sr_extflags (q_rq q) AND NOT SMB2_REQ_SENT\<rparr>"
  "q_reconnect_cnt (clear_sent q) = q_reconnect_cnt q"
  by (simp_all add: or_qflags_def clear_sent_def)

lemma clear_smb2 [simp]: "(x AND -5) AND 1 = x AND 1" for x :: u32
  by (simp add: and.assoc)

lemma rqprocessed_simps [simp]:
  "q_id (rqprocessed error flags q) = q_id q" "q_state (rqprocessed error flags q) = SMBRQ_NOTIFIED"
  "q_rpgen (rqprocessed error flags q) = q_rpgen q + 1" "q_rplast (rqprocessed error flags q) = q_rplast q"
  "q_tries (rqprocessed error flags q) = q_tries q" "q_lerror (rqprocessed error flags q) = error"
  "q_rq (rqprocessed error flags q) = (q_rq q)\<lparr>sr_flags := sr_flags (q_rq q) OR flags\<rparr>"
  by (simp_all add: rqprocessed_def)

lemma or_multi: "(x OR y) AND 64 = 0 \<Longrightarrow> x AND 64 = 0" for x y :: u32
  by (metis and_zero_eq bit.conj_disj_distrib2 or_eq_0_iff)

text \<open>Being processed keeps the invariant of a request that has been handed over at most once.\<close>

lemma rqprocessed_inv:
  assumes "q_extflags q AND SMB2_REQUEST \<noteq> 0 \<longrightarrow> q_tries q \<le> 1"
    and "q_flags q AND SMBR_MULTIPACKET = 0 \<longrightarrow> q_rplast q = 0 \<and> 0 \<le> q_rpgen q"
  shows "rq_inv (rqprocessed error flags q)"
  using assms or_multi [of "q_flags q" flags] by (auto simp: rq_inv_def)

section \<open>Loops over the queue\<close>

text \<open>What the calls out of the component leave alone.\<close>

definition same_channel :: "channel \<Rightarrow> channel \<Rightarrow> bool" where
  "same_channel c c' \<longleftrightarrow>
     c_iod c' = c_iod c \<and> iods (c_st c') = iods (c_st c) \<and> c_session c' = c_session c \<and> c_state c' = c_state c \<and>
     c_soft c' = c_soft c \<and> c_reconnect_start c' = c_reconnect_start c \<and> c_rqlist c' = c_rqlist c"

lemma same_channel_refl [simp]: "same_channel c c"
  by (simp add: same_channel_def)

lemma same_channel_trans: "same_channel a b \<Longrightarrow> same_channel b c \<Longrightarrow> same_channel a c"
  by (simp add: same_channel_def)

lemma callback_same [simp]: "same_channel c (callback q c)"
  by (simp add: same_channel_def callback_def)

lemma each_rq_all2:
  assumes "\<And>e c. e \<in> set es \<Longrightarrow> R e (fst (f e c))" "\<And>e c. same_channel c (snd (f e c))"
  shows "list_all2 R es (fst (each_rq f es c)) \<and> same_channel c (snd (each_rq f es c))"
  using assms(1)
proof (induction es arbitrary: c)
  case (Cons e es)
  obtain e' c1 where f: "f e c = (e', c1)" by fastforce
  obtain es' c2 where r: "each_rq f es c1 = (es', c2)" by fastforce
  have e: "R e e'" "same_channel c c1" using Cons.prems [of e c] assms(2) [of c e] f by simp_all
  have "list_all2 R es es' \<and> same_channel c1 c2" using Cons.IH [of c1] Cons.prems r by simp
  then show ?case using e f r by (auto intro: same_channel_trans)
qed simp

lemma over_rqlist_spec:
  assumes "\<And>e c. e \<in> set (c_rqlist c0) \<Longrightarrow> R e (fst (f e c))" "\<And>e c. same_channel c (snd (f e c))"
  shows "list_all2 R (c_rqlist c0) (c_rqlist (over_rqlist f c0))"
    "same_channel c0 ((over_rqlist f c0)\<lparr>c_rqlist := c_rqlist c0\<rparr>)"
proof -
  obtain es c' where r: "each_rq f (c_rqlist c0) c0 = (es, c')" by fastforce
  have a: "list_all2 R (c_rqlist c0) es" "same_channel c0 c'"
    using each_rq_all2 [of "c_rqlist c0" R f c0, OF assms] by (simp_all add: r)
  show "list_all2 R (c_rqlist c0) (c_rqlist (over_rqlist f c0))" using a(1) by (simp add: over_rqlist_def r)
  show "same_channel c0 ((over_rqlist f c0)\<lparr>c_rqlist := c_rqlist c0\<rparr>)"
    using a(2) by (simp add: over_rqlist_def r same_channel_def)
qed

lemma over_rqlist_fields:
  assumes "\<And>e c. same_channel c (snd (f e c))"
  shows "c_iod (over_rqlist f c) = c_iod c" "iods (c_st (over_rqlist f c)) = iods (c_st c)"
    "c_session (over_rqlist f c) = c_session c" "c_state (over_rqlist f c) = c_state c" "c_soft (over_rqlist f c) = c_soft c"
    "c_reconnect_start (over_rqlist f c) = c_reconnect_start c"
  using over_rqlist_spec(2) [of c "\<lambda>_ _. True" f, OF _ assms] by (simp_all add: same_channel_def)

text \<open>A step on an entry that keeps its invariant, its head and its place.\<close>

definition keeps :: "queued list \<Rightarrow> queued list \<Rightarrow> bool" where
  "keeps e e' \<longleftrightarrow> entry_inv e \<longrightarrow> entry_inv e' \<and> q_id (hd e') = q_id (hd e)"

lemma keeps_queue:
  assumes "list_all2 keeps es es'" "\<forall>e \<in> set es. entry_inv e"
  shows "(\<forall>e \<in> set es'. entry_inv e) \<and> map (q_id \<circ> hd) es' = map (q_id \<circ> hd) es"
  using assms by (induction rule: list_all2_induct) (auto simp: keeps_def)

lemma over_rqlist_inv:
  assumes "queue_inv c" "\<And>e c. keeps e (fst (f e c))" "\<And>e c. same_channel c (snd (f e c))"
  shows "queue_inv (over_rqlist f c)"
  using keeps_queue [OF over_rqlist_spec(1) [of c keeps f, OF assms(2,3)]] assms(1) over_rqlist_fields [of f c, OF assms(3)]
  by (auto simp: queue_inv_def heads_def)

lemma processed_same [simp]: "same_channel c (snd (smb_iod_rqprocessed error flags e c))"
  by (cases e) simp_all

lemma processed_keeps: "keeps e (fst (smb_iod_rqprocessed error flags e c))"
proof (cases e)
  case (Cons q qs)
  have "rq_inv (rqprocessed error flags q)" if "rq_inv q" by (rule rqprocessed_inv) (use that in \<open>auto simp: rq_inv_def\<close>)
  then show ?thesis by (simp add: Cons keeps_def entry_inv_def)
qed (simp add: keeps_def entry_inv_def)

lemma invrq_inv: "queue_inv c \<Longrightarrow> queue_inv (smb_iod_invrq c)"
  unfolding smb_iod_invrq_def by (rule over_rqlist_inv) (simp_all add: processed_keeps)

lemma share_dead_frame: "fst (share_dead e c) = e" "same_channel c (snd (share_dead e c))"
  by (cases e; simp add: same_channel_def split: option.split)+

lemma share_dead_inv: "queue_inv c \<Longrightarrow> queue_inv (over_rqlist share_dead c)"
  by (rule over_rqlist_inv) (simp_all add: share_dead_frame keeps_def)

lemma set_cflags_fields [simp]:
  "c_rqlist (set_cflags f c) = c_rqlist c" "c_iod (set_cflags f c) = c_iod c" "c_state (set_cflags f c) = c_state c"
  "c_session (set_cflags f c) = c_session c" "iod_flags (iods (c_st (set_cflags f c)) (c_iod c)) = f (c_flags c)" "c_soft (set_cflags f c) = c_soft c"
  "c_reconnect_start (set_cflags f c) = c_reconnect_start c"
  by (simp_all add: set_cflags_def upd_ciod_def upd_iod_def)

lemma closetran_fields:
  "c_rqlist (smb_iod_closetran c) = c_rqlist c" "c_iod (smb_iod_closetran c) = c_iod c" "c_state (smb_iod_closetran c) = c_state c"
  "iod_flags (iods (c_st (smb_iod_closetran c)) (c_iod c)) AND 8 = c_flags c AND 8"
  by (simp_all add: smb_iod_closetran_def Let_def bit.conj_disj_distrib2)

lemma dead_inv: "queue_inv c \<Longrightarrow> queue_inv (smb_iod_dead c)"
  unfolding smb_iod_dead_def
  by (rule share_dead_inv, rule invrq_inv)
    (use closetran_fields [of "c\<lparr>c_state := SMBIOD_ST_DEAD\<rparr>"] in \<open>simp add: queue_inv_def heads_def\<close>)

lemma errorout_inv: "queue_inv c \<Longrightarrow> queue_inv (smb_iod_errorout_share_request share error c)"
  unfolding smb_iod_errorout_share_request_def
proof (rule over_rqlist_inv)
  fix e and c :: channel
  let ?f = "\<lambda>e c. case e of [] \<Rightarrow> (e, c) | q # _ \<Rightarrow>
     if map_option ss_id (sr_share (q_rq q)) = Some share \<and> q_state q \<noteq> SMBRQ_NOTIFIED then smb_iod_rqprocessed error 0 e c else (e, c)"
  have f: "?f e c = smb_iod_rqprocessed error 0 e c \<or> ?f e c = (e, c)" by (cases e) (auto simp del: smb_iod_rqprocessed.simps)
  show "keeps e (fst (?f e c))" using f processed_keeps [of e error 0 c] by (auto simp: keeps_def)
  show "same_channel c (snd (?f e c))" using f processed_same [of c error 0 e] by auto
qed

section \<open>Starting a reconnect\<close>

text \<open>
  A request whose message could not be sent is still in the state of one that was not sent, until the reconnect
  that follows at once has held it back or given it up.
\<close>

definition rq_weak :: "queued \<Rightarrow> bool" where
  "rq_weak q \<longleftrightarrow>
     (q_extflags q AND SMB2_REQUEST \<noteq> 0 \<longrightarrow> q_tries q \<le> 1) \<and>
     (q_flags q AND SMBR_MULTIPACKET = 0 \<longrightarrow> q_rplast q = 0 \<and> 0 \<le> q_rpgen q \<and> (q_state q = SMBRQ_NOTIFIED \<longrightarrow> 0 < q_rpgen q))"

lemma rq_inv_weak: "rq_inv q \<Longrightarrow> rq_weak q"
  by (simp add: rq_inv_def rq_weak_def)

definition settled :: "queued list \<Rightarrow> bool" where
  "settled e \<longleftrightarrow> q_state (hd e) = SMBRQ_NOTIFIED \<or> q_state (hd e) = SMBRQ_RECONNECT"

definition settles :: "queued list \<Rightarrow> queued list \<Rightarrow> bool" where
  "settles e e' \<longleftrightarrow> e \<noteq> [] \<and> rq_weak (hd e) \<longrightarrow> entry_inv e' \<and> q_id (hd e') = q_id (hd e) \<and> settled e' \<and>
     q_extflags (hd e') AND SMB2_REQUEST = q_extflags (hd e) AND SMB2_REQUEST"

definition weak_inv :: "channel \<Rightarrow> bool" where
  "weak_inv c \<longleftrightarrow>
     (\<forall>e \<in> set (c_rqlist c). e \<noteq> [] \<and> rq_weak (hd e)) \<and> distinct (heads c) \<and> c_flags c AND SMBIOD_START_RECONNECT = 0"

lemma queue_inv_weak: "queue_inv c \<Longrightarrow> weak_inv c"
  by (auto simp: queue_inv_def weak_inv_def entry_inv_def rq_inv_weak)

lemma processed_settles: "settles e (fst (smb_iod_rqprocessed error flags e c))"
proof (cases e)
  case (Cons q qs)
  have "rq_inv (rqprocessed error flags q)" if "rq_weak q" by (rule rqprocessed_inv) (use that in \<open>auto simp: rq_weak_def\<close>)
  then show ?thesis by (simp add: Cons settles_def entry_inv_def settled_def)
qed (simp add: settles_def)

lemma clear_settles: "settles (clear_sent q # qs) e' \<Longrightarrow> settles (q # qs) e'"
  by (simp add: settles_def rq_weak_def)

lemma held_settles:
  assumes "\<forall>x \<in> {x1, x2}. x AND SMBR_MULTIPACKET = 0"
  shows "settles (q # qs) (or_qflags x1 (clear_sent (or_qflags x2 q))\<lparr>q_state := SMBRQ_RECONNECT, q_lerror := 0\<rparr> # qs)"
    "q_state q = SMBRQ_NOTIFIED \<Longrightarrow> settles (q # qs) (or_qflags x2 q # qs)"
  using assms by (auto simp: settles_def entry_inv_def settled_def rq_weak_def rq_inv_def bit.conj_disj_distrib2)

lemma hold_rq_settles: "settles e (fst (hold_rq now e c))" "same_channel c (snd (hold_rq now e c))"
proof -
  have "settles (q # qs) (fst (smb_iod_rqprocessed error flags (clear_sent q # qs) c))" for q qs error flags
    by (rule clear_settles [OF processed_settles])
  then show "settles e (fst (hold_rq now e c))"
    using held_settles [of SMBR_REXMIT SMBR_RECONNECTED] held_settles(2) [of SMBR_REXMIT SMBR_RECONNECTED]
    by (cases e) (auto simp: settles_def [of "[]"] Let_def simp del: smb_iod_rqprocessed.simps split: if_splits)
  show "same_channel c (snd (hold_rq now e c))"
    by (cases e) (auto simp: Let_def simp del: smb_iod_rqprocessed.simps)
qed

lemma failover_rq_settles: "settles e (fst (failover_rq e c))" "same_channel c (snd (failover_rq e c))"
proof -
  have c: "settles (q # qs) (fst (smb_iod_rqprocessed error flags (clear_sent q # qs) c))" for q qs error flags
    by (rule clear_settles [OF processed_settles])
  have "settles (q # qs) (fst (smb_iod_rqprocessed EAGAIN 0
      (or_qflags SMBR_REXMIT (clear_sent (or_qflags (SMBR_RECONNECTED OR SMBR_ALT_CH_DISCON) q))\<lparr>q_state := SMBRQ_RECONNECT, q_lerror := 0\<rparr> # qs) c))" for q qs
    using processed_settles [of "or_qflags SMBR_REXMIT (clear_sent (or_qflags (SMBR_RECONNECTED OR SMBR_ALT_CH_DISCON) q))
      \<lparr>q_state := SMBRQ_RECONNECT, q_lerror := 0\<rparr> # qs" EAGAIN 0 c] held_settles(1) [of SMBR_REXMIT "SMBR_RECONNECTED OR SMBR_ALT_CH_DISCON" q qs]
    unfolding settles_def entry_inv_def by (auto simp: rq_inv_weak simp del: smb_iod_rqprocessed.simps)
  then show "settles e (fst (failover_rq e c))"
    using c held_settles(2) [of SMBR_REXMIT "SMBR_RECONNECTED OR SMBR_ALT_CH_DISCON"]
    by (cases e) (auto simp: settles_def [of "[]"] Let_def simp del: smb_iod_rqprocessed.simps split: if_splits)
  show "same_channel c (snd (failover_rq e c))"
    by (cases e) (auto simp: Let_def simp del: smb_iod_rqprocessed.simps)
qed

lemma settles_queue:
  assumes "list_all2 settles es es'" "\<forall>e \<in> set es. e \<noteq> [] \<and> rq_weak (hd e)"
  shows "(\<forall>e \<in> set es'. entry_inv e \<and> settled e) \<and> map (q_id \<circ> hd) es' = map (q_id \<circ> hd) es"
  using assms by (induction rule: list_all2_induct) (auto simp: settles_def)

lemma over_rqlist_settles:
  assumes "weak_inv c" "\<And>e c. settles e (fst (f e c))" "\<And>e c. same_channel c (snd (f e c))"
  shows "queue_inv (over_rqlist f c) \<and> (\<forall>e \<in> set (c_rqlist (over_rqlist f c)). settled e)"
  using settles_queue [OF over_rqlist_spec(1) [of c settles f, OF assms(2,3)]] assms(1) over_rqlist_fields [of f c, OF assms(3)]
  by (auto simp: queue_inv_def weak_inv_def heads_def)

lemma set_cflags_inv:
  assumes "f (c_flags c) AND 8 = 0"
  shows "queue_inv c \<Longrightarrow> queue_inv (set_cflags f c)" "weak_inv c \<Longrightarrow> weak_inv (set_cflags f c)"
  using assms by (simp_all add: queue_inv_def weak_inv_def heads_def)

lemma dead_settles:
  assumes "weak_inv c"
  shows "queue_inv (smb_iod_dead c)" "\<forall>e \<in> set (c_rqlist (smb_iod_dead c)). q_state (hd e) = SMBRQ_NOTIFIED"
proof -
  let ?c = "smb_iod_closetran (c\<lparr>c_state := SMBIOD_ST_DEAD\<rparr>)"
  have w: "weak_inv ?c" using assms closetran_fields [of "c\<lparr>c_state := SMBIOD_ST_DEAD\<rparr>"] by (simp add: weak_inv_def heads_def)
  have i: "queue_inv (smb_iod_invrq ?c)" unfolding smb_iod_invrq_def
    using over_rqlist_settles [OF w, of "smb_iod_rqprocessed ENOTCONN SMBR_DEAD"] processed_settles by simp
  then show "queue_inv (smb_iod_dead c)" unfolding smb_iod_dead_def by (rule share_dead_inv)
  have "list_all2 (\<lambda>e e'. e \<noteq> [] \<longrightarrow> q_state (hd e') = SMBRQ_NOTIFIED) (c_rqlist ?c) (c_rqlist (smb_iod_invrq ?c))"
    unfolding smb_iod_invrq_def
    by (rule over_rqlist_spec(1)) (auto simp: neq_Nil_conv)
  then have n: "\<forall>e \<in> set (c_rqlist (smb_iod_invrq ?c)). q_state (hd e) = SMBRQ_NOTIFIED"
    using w unfolding weak_inv_def list_all2_conv_all_nth by (metis in_set_conv_nth)
  have "list_all2 (=) (c_rqlist (smb_iod_invrq ?c)) (c_rqlist (smb_iod_dead c))"
    unfolding smb_iod_dead_def by (rule over_rqlist_spec(1)) (simp_all add: share_dead_frame)
  then show "\<forall>e \<in> set (c_rqlist (smb_iod_dead c)). q_state (hd e) = SMBRQ_NOTIFIED"
    using n by (simp add: list.rel_eq)
qed

lemma over_rqlist_settles_flags:
  assumes "\<forall>e \<in> set (c_rqlist c). e \<noteq> [] \<and> rq_weak (hd e)" "distinct (heads c)"
    and "\<And>e c. settles e (fst (f e c))" "\<And>e c. same_channel c (snd (f e c))" "\<forall>x. g x AND 8 = 0"
  shows "queue_inv (set_cflags g ((over_rqlist f c)\<lparr>c_state := s\<rparr>)) \<and> (\<forall>e \<in> set (c_rqlist (over_rqlist f c)). settled e)"
  using settles_queue [OF over_rqlist_spec(1) [of c settles f, OF assms(3,4)]] assms(1,2,5)
    set_cflags_fields [of g "(over_rqlist f c)\<lparr>c_state := s\<rparr>"]
  by (auto simp: queue_inv_def heads_def simp del: set_cflags_fields)

lemma set_cflags_twice: "set_cflags f (set_cflags g c) = set_cflags (f \<circ> g) c"
  by (simp add: set_cflags_def upd_ciod_def upd_iod_def comp_def)

lemma set_cflags_state: "(set_cflags f c)\<lparr>c_state := s\<rparr> = set_cflags f (c\<lparr>c_state := s\<rparr>)"
  by (simp add: set_cflags_def upd_ciod_def)

lemma clear_start: "((x OR y) AND -9) AND 8 = 0" "(x AND -9) AND 8 = 0" for x y :: u32
  by (simp_all add: and.assoc)

lemma start_reconnect_settles:
  assumes "weak_inv c"
  shows "queue_inv (smb_iod_start_reconnect now later proclaimed c) \<and>
         (\<forall>e \<in> set (c_rqlist (smb_iod_start_reconnect now later proclaimed c)). settled e)"
proof -
  define d where "d = c\<lparr>c_reconnect_start := now\<rparr>"
  have st: "c_flags c AND SMBIOD_START_RECONNECT = 0" using assms by (simp add: weak_inv_def)
  have w: "weak_inv d" using assms by (simp add: weak_inv_def heads_def d_def)
  show ?thesis
  proof (cases "c_state d \<in> dead_states \<and> c_flags d AND SMBIOD_RECONNECT = 0")
    case True
    then have "smb_iod_start_reconnect now later proclaimed c = smb_iod_dead d"
      using st by (simp add: smb_iod_start_reconnect_def Let_def d_def)
    then show ?thesis using dead_settles [OF w] by (auto simp: settled_def)
  next
    case False
    define d' where "d' = set_cflags (\<lambda>f. f OR SMBIOD_START_RECONNECT) d"
    have w': "\<forall>e \<in> set (c_rqlist (set_cflags f d')). e \<noteq> [] \<and> rq_weak (hd e)" "distinct (heads (set_cflags f d'))"
      "\<forall>e \<in> set (c_rqlist d'). e \<noteq> [] \<and> rq_weak (hd e)" "distinct (heads d')" for f
      using w by (simp_all add: weak_inv_def heads_def d'_def)
    have no: "\<not> c_flags c AND SMBIOD_START_RECONNECT \<noteq> 0" using st by simp
    obtain P where r: "smb_iod_start_reconnect now later proclaimed c = set_cflags (\<lambda>f. f AND NOT SMBIOD_START_RECONNECT)
        ((if P then smb_iod_alt_ch_failover d' else set_cflags (\<lambda>f. f OR SMBIOD_RECONNECT) (over_rqlist (hold_rq later) d'))
         \<lparr>c_state := SMBIOD_ST_RECONNECT\<rparr>)"
      unfolding smb_iod_start_reconnect_def Let_def if_not_P [OF no] d_def [symmetric] if_not_P [OF False] d'_def [symmetric]
      by blast
    show ?thesis
    proof (cases P)
      case True
      then show ?thesis unfolding r smb_iod_alt_ch_failover_def if_P [OF True]
        using over_rqlist_settles_flags [OF w'(1,2) failover_rq_settles, of "\<lambda>f. f AND NOT SMBIOD_START_RECONNECT" SMBIOD_ST_RECONNECT]
        by (simp add: clear_start)
    next
      case False
      then show ?thesis unfolding r if_not_P [OF False] set_cflags_state set_cflags_twice
        using over_rqlist_settles_flags [OF w'(3,4), where f = "hold_rq later" and g = "(\<lambda>f. f AND NOT SMBIOD_START_RECONNECT) \<circ> (\<lambda>f. f OR SMBIOD_RECONNECT)"] by (simp add: hold_rq_settles clear_start)
    qed
  qed
qed

section \<open>Sending\<close>

text \<open>A send and a sweep leave the flags, the session and the queue of the channel as they are.\<close>

definition steady :: "channel \<Rightarrow> channel \<Rightarrow> bool" where
  "steady c c' \<longleftrightarrow>
     c_iod c' = c_iod c \<and> iod_flags (iods (c_st c') (c_iod c)) = c_flags c \<and> c_session c' = c_session c \<and> c_rqlist c' = c_rqlist c"

lemma steady_refl [simp]: "steady c c"
  by (simp add: steady_def)

lemma steady_trans: "steady a b \<Longrightarrow> steady b c \<Longrightarrow> steady a c"
  unfolding steady_def by metis

lemma same_channel_steady: "same_channel c c' \<Longrightarrow> steady c c'"
  by (simp add: same_channel_def steady_def)

lemma upd_ciod_steady:
  assumes "\<And>i. iod_flags (f i) = iod_flags i"
  shows "steady c (upd_ciod f c)"
  using assms by (simp add: steady_def upd_ciod_def upd_iod_def)

lemma pre_auth_hash_steady: "steady c (pre_auth_hash lib rqp m c)"
proof -
  have s: "steady c (upd_ciod (\<lambda>i. the (snd (smb311_pre_auth_integrity_hash_init lib (Some i) cmd m))) c)"
    "steady c (upd_ciod (\<lambda>i. the (snd (smb311_pre_auth_integrity_hash_update lib (Some i) m))) c)" for cmd c
    by (rule upd_ciod_steady, simp add: smb311_pre_auth_integrity_hash_init_def smb311_pre_auth_integrity_hash_update_def Let_def)+
  show ?thesis unfolding pre_auth_hash_def Let_def by (auto intro: s steady_trans [OF s(1)])
qed

lemma send_compound_length: "length (snd (send_compound ops m rest)) = length rest"
  by (induction rest arbitrary: m) (simp_all add: split_def Let_def)

lemma send_chain_frame:
  assumes "send_chain env rqps c = (r, len, rqps', c')" "rqps \<noteq> []"
  shows "length rqps' = length rqps \<and> sr_flags (hd rqps') = sr_flags (hd rqps) \<and> sr_extflags (hd rqps') = sr_extflags (hd rqps) \<and>
         steady c c'"
proof (cases rqps)
  case (Cons rqp rest)
  then show ?thesis using assms send_compound_length
    by (auto simp: send_chain_def Let_def split_def pre_auth_hash_steady split: if_splits)
qed (use assms in simp)

lemma mark_sent_head:
  "e \<noteq> [] \<Longrightarrow> mark_sent e \<noteq> [] \<and> hd (mark_sent e) = upd_rq (\<lambda>r. r\<lparr>sr_extflags := sr_extflags r OR SMB2_REQ_SENT\<rparr>) (hd e)"
  by (cases e) (simp_all add: mark_sent_def Let_def)

lemma sent_bit: "(x OR 4) AND 1 = x AND 1" for x :: u32
  by (simp add: bit.conj_disj_distrib2)

text \<open>A request that has not been sent, with the state of a request that is in order.\<close>

definition sendable :: "queued list \<Rightarrow> bool" where
  "sendable e \<longleftrightarrow> entry_inv e \<and> q_state (hd e) = SMBRQ_NOTSENT"

lemma sendrq_spec:
  assumes "sendable e" "smb_iod_sendrq env e c = (herror, e', c')"
  shows "e' \<noteq> [] \<and> q_id (hd e') = q_id (hd e) \<and> rq_weak (hd e') \<and> (herror = ENOTCONN \<or> rq_inv (hd e')) \<and> steady c c'"
proof -
  consider (dead) "c_state c = SMBIOD_ST_NOTCONN \<or> c_state c = SMBIOD_ST_DEAD"
    | (early) "c_state c = SMBIOD_ST_CONNECT"
    | (send) "\<not> (c_state c = SMBIOD_ST_NOTCONN \<or> c_state c = SMBIOD_ST_DEAD)" "c_state c \<noteq> SMBIOD_ST_CONNECT" by blast
  then show ?thesis
  proof cases
    case dead
    then show ?thesis
      using assms processed_keeps [of e ENOTCONN 0 c] processed_same [of c ENOTCONN 0 e]
      by (auto simp: smb_iod_sendrq_def sendable_def keeps_def entry_inv_def rq_inv_weak same_channel_steady
          simp del: smb_iod_rqprocessed.simps)
  next
    case early
    then show ?thesis using assms by (auto simp: smb_iod_sendrq_def sendable_def entry_inv_def rq_inv_weak)
  next
    case send
    obtain q qs where e: "e = q # qs" using assms(1) by (cases e) (auto simp: sendable_def entry_inv_def)
    obtain r len rqps d where ch: "send_chain env (map q_rq e) c = (r, len, rqps, d)" by (metis prod_cases4)
    have fr: "length rqps = Suc (length qs)" "sr_flags (hd rqps) = q_flags q" "sr_extflags (hd rqps) = q_extflags q" "steady c d"
      using send_chain_frame [OF ch] e by simp_all
    then obtain rqp rqps' where rq: "rqps = rqp # rqps'" by (cases rqps) auto
    define err where "err = (case r of Inl err \<Rightarrow> err | Inr m \<Rightarrow> se_send env m)"
    define q' where "q' = q\<lparr>q_rq := rqp, q_lerror := err, q_tries := (case r of Inl err \<Rightarrow> q_tries q | Inr m \<Rightarrow> q_tries q + 1)\<rparr>"
    have q: "rq_inv q" "q_state q = SMBRQ_NOTSENT" using assms(1) by (simp_all add: sendable_def entry_inv_def e)
    have w: "rq_weak q'" "q_id q' = q_id q" "q_rq q' = rqp"
      using q fr(2,3) by (auto simp: q'_def rq_weak_def rq_inv_def rq split: sum.splits)
    have sent: "rq_inv (q'\<lparr>q_timesent := t, q_credit_timesent := t', q_state := SMBRQ_SENT\<rparr>)" for t t'
      using w(1) by (auto simp: rq_weak_def rq_inv_def)
    have marked: "rq_inv (upd_rq (\<lambda>r. r\<lparr>sr_extflags := sr_extflags r OR SMB2_REQ_SENT\<rparr>) q'')" if "rq_inv q''" for q''
      using that by (simp add: rq_inv_def sent_bit)
    have "smb_iod_sendrq env e c =
      (if err = 0 then (0, mark_sent (q'\<lparr>q_timesent := se_now env, q_credit_timesent := se_now env, q_state := SMBRQ_SENT\<rparr> #
                          map2 (\<lambda>q r. q\<lparr>q_rq := r\<rparr>) qs rqps'),
                        d\<lparr>c_lastrqsent := se_now env, c_tx_bytes := c_tx_bytes d + of_nat len, c_tx_packets := c_tx_packets d + 1\<rparr>)
       else if se_fatal env err then (ENOTCONN, q' # map2 (\<lambda>q r. q\<lparr>q_rq := r\<rparr>) qs rqps', d)
       else (if sr_extflags rqp AND SMB2_REQUEST \<noteq> 0 then ENOTCONN else EIO,
             smb_iod_rqprocessed EIO 0 (q' # map2 (\<lambda>q r. q\<lparr>q_rq := r\<rparr>) qs rqps') d))"
      using send ch unfolding smb_iod_sendrq_def
      by (simp add: e rq Let_def q'_def err_def split: sum.split prod.split)
    moreover have "rq_inv (rqprocessed EIO 0 q')" by (rule rqprocessed_inv) (use w(1) in \<open>auto simp: rq_weak_def\<close>)
    moreover have "steady d (callback q'' d)" for q'' by (rule same_channel_steady) simp
    moreover have "steady d (d\<lparr>c_lastrqsent := t, c_tx_bytes := x, c_tx_packets := y\<rparr>)" for t x y by (simp add: steady_def)
    ultimately show ?thesis
      using assms(2) w sent marked fr(4) by (auto simp: e mark_sent_head rq_inv_weak intro: steady_trans split: if_splits)
  qed
qed

section \<open>The sweep\<close>

text \<open>
  A step of the sweep on an entry in order: the entry stays in order, unless the sweep ends with the error that starts
  a reconnect.
\<close>

definition swept :: "queued list \<Rightarrow> channel \<Rightarrow> queued list \<times> channel \<times> sweep \<Rightarrow> bool" where
  "swept e c r \<longleftrightarrow>
     (case r of (e', c', sw') \<Rightarrow>
        e' \<noteq> [] \<and> q_id (hd e') = q_id (hd e) \<and> rq_weak (hd e') \<and> (sw_herror sw' = ENOTCONN \<or> rq_inv (hd e')) \<and> steady c c')"

lemma processed_swept:
  assumes "rq_weak q" "steady c0 c"
  shows "swept (q # qs) c0 (case smb_iod_rqprocessed error flags (q # qs) c of (e, c) \<Rightarrow> (e, c, sw))"
proof -
  have "rq_inv (rqprocessed error flags q)" by (rule rqprocessed_inv) (use assms(1) in \<open>auto simp: rq_weak_def\<close>)
  then show ?thesis
    using steady_trans [OF assms(2) same_channel_steady [OF callback_same]] by (simp add: swept_def rq_inv_weak)
qed

lemma same_swept: "entry_inv e \<Longrightarrow> swept e c (e, c, sw)"
  by (simp add: swept_def entry_inv_def rq_inv_weak)

lemma swept_head: "q_id q = q_id (hd e) \<Longrightarrow> swept (q # qs) c r \<Longrightarrow> swept e c r"
  by (simp add: swept_def)

lemma cleared_inv: "rq_inv q \<Longrightarrow> rq_inv (clear_sent q)"
  by (simp add: rq_inv_def)

lemma sweep_sent_swept:
  assumes "entry_inv e"
  shows "swept e c (sweep_sent env e c sw)"
proof (cases e)
  case (Cons q qs)
  have i: "rq_weak (if q_extflags q AND SMB2_REQUEST \<noteq> 0 then clear_sent q else q)"
    using assms cleared_inv [of q] by (simp add: Cons entry_inv_def rq_inv_weak)
  show ?thesis
    unfolding sweep_sent_def Let_def Cons
    using same_swept [OF assms [unfolded Cons]] swept_head [OF _ processed_swept [OF i steady_refl], of "q # qs"]
    by (auto simp del: smb_iod_rqprocessed.simps)
qed (use assms in \<open>simp add: entry_inv_def\<close>)

lemma sweep_send_swept:
  assumes "sendable e"
  shows "swept e c (sweep_send env e c sw)"
proof -
  obtain herror e' c' where s: "smb_iod_sendrq env e c = (herror, e', c')" by (metis prod_cases3)
  show ?thesis using sendrq_spec [OF assms s] by (simp add: sweep_send_def s swept_def)
qed

lemma sweep_state_swept:
  assumes "entry_inv e"
  shows "swept e c (sweep_state env e c sw)"
proof (cases e)
  case (Cons q qs)
  have q: "rq_inv q" using assms by (simp add: Cons entry_inv_def)
  define q' where "q' = q\<lparr>q_state := SMBRQ_NOTSENT, q_reconnect_cnt := q_reconnect_cnt q + 1\<rparr>"
  have st: "steady c (c\<lparr>c_state := s\<rparr>)" for s by (simp add: steady_def)
  have w: "rq_weak q'" "q_id q' = q_id q" using q by (auto simp: q'_def rq_inv_def rq_weak_def)
  have "sendable (q' # qs)" if "q_extflags q' AND SMB2_REQUEST = 0"
    using q that by (auto simp: sendable_def entry_inv_def q'_def rq_inv_def)
  then have go: "swept e c (sweep_send env (q' # qs) c sw)" if "q_extflags q' AND SMB2_REQUEST = 0"
    using swept_head [OF _ sweep_send_swept, of q' e qs c env sw] w(2) that by (simp add: Cons)
  have pr: "swept e c (case smb_iod_rqprocessed error flags (q' # qs) c' of (e, c) \<Rightarrow> (e, c, sw))" if "steady c c'" for error flags c'
    using swept_head [OF _ processed_swept [OF w(1) that], of e] w(2) by (simp add: Cons)
  have "sweep_state env e c sw =
     (case q_state q of
        SMBRQ_RECONNECT \<Rightarrow>
          if c_flags c AND SMBIOD_RECONNECT \<noteq> 0 then (e, c, sw)
          else if q_reconnect_cnt q' > MAX_SR_RECONNECT_CNT
          then case smb_iod_rqprocessed ETIMEDOUT 0 (q' # qs) (c\<lparr>c_state := SMBIOD_ST_DEAD\<rparr>) of (e, c) \<Rightarrow> (e, c, sw)
          else if q_extflags q' AND SMB2_REQUEST \<noteq> 0 then case smb_iod_rqprocessed EAGAIN 0 (q' # qs) c of (e, c) \<Rightarrow> (e, c, sw)
          else sweep_send env (q' # qs) c sw
      | SMBRQ_NOTSENT \<Rightarrow> sweep_send env e c sw
      | SMBRQ_SENT \<Rightarrow> sweep_sent env e c sw
      | SMBRQ_NOTIFIED \<Rightarrow> (e, c, sw))"
    unfolding sweep_state_def Let_def q'_def by (simp add: Cons del: smb_iod_rqprocessed.simps split: smbrq_state.split)
  then show ?thesis
    using go pr [OF steady_refl] pr [OF st] same_swept [OF assms] sweep_sent_swept [OF assms]
      sweep_send_swept [of e c env sw] assms
    by (cases "q_state q") (simp_all add: sendable_def Cons del: smb_iod_rqprocessed.simps)
qed (use assms in \<open>simp add: entry_inv_def\<close>)

lemma sweep_rq_swept:
  assumes "entry_inv e"
  shows "swept e c (sweep_rq env e c sw)"
proof (cases e)
  case (Cons q qs)
  have q: "rq_inv q" using assms by (simp add: Cons entry_inv_def)
  define q' where "q' = or_qflags SMBR_RECONNECTED (if q_state q = SMBRQ_NOTSENT then (clear_sent q)\<lparr>q_state := SMBRQ_RECONNECT\<rparr> else q)"
  have q': "entry_inv (q' # qs)" "q_id q' = q_id q"
    using q by (auto simp: q'_def entry_inv_def rq_inv_def bit.conj_disj_distrib2)
  have st: "swept e c (sweep_state env (q' # qs) c sw)"
    using swept_head [OF _ sweep_state_swept [OF q'(1)], of e] q'(2) by (simp add: Cons)
  have pr: "swept e c (case smb_iod_rqprocessed error flags (q'' # qs) c of (e, c) \<Rightarrow> (e, c, sw))"
    if "q'' = q \<or> q'' = clear_sent q" for error flags q''
    using swept_head [OF _ processed_swept [OF rq_inv_weak steady_refl], of q'' e] that q cleared_inv [of q] by (auto simp: Cons)
  obtain A B C D where "sweep_rq env e c sw =
     (if A then case smb_iod_rqprocessed ETIMEDOUT 0 (q # qs) c of (e, c) \<Rightarrow> (e, c, sw)
      else if B
      then if C then case smb_iod_rqprocessed ETIMEDOUT 0 (clear_sent q # qs) c of (e, c) \<Rightarrow> (e, c, sw)
           else if D then case smb_iod_rqprocessed ETIMEDOUT 0 (q # qs) c of (e, c) \<Rightarrow> (e, c, sw)
           else sweep_state env (q' # qs) c sw
      else sweep_state env e c sw)"
    unfolding sweep_rq_def Let_def Cons list.sel q'_def by blast
  then show ?thesis
    using st pr sweep_state_swept [OF assms, of c env sw] by (simp del: smb_iod_rqprocessed.simps)
qed (use assms in \<open>simp add: entry_inv_def\<close>)

lemma sweep_all_swept:
  assumes "\<forall>e \<in> set es. entry_inv e" "sweep_all env es c sw = (es', c', sw')"
  shows "(\<forall>e \<in> set es'. e \<noteq> [] \<and> rq_weak (hd e)) \<and> (sw_herror sw' = ENOTCONN \<or> (\<forall>e \<in> set es'. entry_inv e)) \<and>
         map (q_id \<circ> hd) es' = map (q_id \<circ> hd) es \<and> steady c c'"
  using assms
proof (induction es arbitrary: c sw es' c' sw')
  case (Cons e es)
  obtain e1 c1 sw1 where r: "sweep_rq env e c sw = (e1, c1, sw1)" by (metis prod_cases3)
  have s: "e1 \<noteq> []" "q_id (hd e1) = q_id (hd e)" "rq_weak (hd e1)" "sw_herror sw1 = ENOTCONN \<or> rq_inv (hd e1)" "steady c c1"
    using sweep_rq_swept [of e c env sw] Cons.prems(1) by (simp_all add: r swept_def)
  show ?case
  proof (cases "sw_herror sw1 = 0")
    case True
    obtain es2 c2 sw2 where a: "sweep_all env es c1 sw1 = (es2, c2, sw2)" by (metis prod_cases3)
    have ih: "(\<forall>e \<in> set es2. e \<noteq> [] \<and> rq_weak (hd e)) \<and> (sw_herror sw2 = ENOTCONN \<or> (\<forall>e \<in> set es2. entry_inv e)) \<and>
        map (q_id \<circ> hd) es2 = map (q_id \<circ> hd) es \<and> steady c1 c2"
      using Cons.IH [OF _ a] Cons.prems(1) by (simp add: comp_def)
    have "entry_inv e1" using s(1,4) True by (simp add: entry_inv_def)
    moreover have "es' = e1 # es2" "c' = c2" "sw' = sw2" using Cons.prems(2) True by (simp_all add: r a)
    ultimately show ?thesis using ih s(1-3) steady_trans [OF s(5)] by (simp add: comp_def)
  next
    case False
    then have "es' = e1 # es" "c' = c1" "sw' = sw1" using Cons.prems(2) by (simp_all add: r)
    then show ?thesis using Cons.prems(1) s by (simp add: entry_inv_def rq_inv_weak)
  qed
qed simp

lemma steady_inv: "steady c c' \<Longrightarrow> queue_inv c \<Longrightarrow> queue_inv c'"
  unfolding queue_inv_def heads_def steady_def by (elim conjE) metis

lemma sendall_inv:
  assumes "queue_inv c" "smb_iod_sendall env c = (echo, c')"
  shows "queue_inv c'"
proof -
  let ?re = "smb_iod_start_reconnect (se_now env) (se_later env) (se_proclaimed env)"
  define d where "d = (if c_flags c AND SMBIOD_READ_THREAD_ERROR \<noteq> 0 then ?re c else c)"
  obtain es d' sw where s: "sweep_all env (c_rqlist d) d \<lparr>sw_herror = 0, sw_echo = False, sw_oldest = None\<rparr> = (es, d', sw)"
    by (metis prod_cases3)
  have d: "queue_inv d" using assms(1) start_reconnect_settles [OF queue_inv_weak] by (simp add: d_def)
  note sp = sweep_all_swept [OF _ s]
  have "c_flags d' AND SMBIOD_START_RECONNECT = 0" using d sp unfolding queue_inv_def steady_def by metis
  then have w: "weak_inv (d'\<lparr>c_rqlist := es\<rparr>)" "sw_herror sw = ENOTCONN \<or> queue_inv (d'\<lparr>c_rqlist := es\<rparr>)"
    using d sp by (auto simp: queue_inv_def weak_inv_def heads_def)
  define x where "x = (if sw_herror sw = ENOTCONN then ?re (d'\<lparr>c_rqlist := es\<rparr>) else d'\<lparr>c_rqlist := es\<rparr>)"
  have x: "queue_inv x" using w start_reconnect_settles [OF w(1)] by (auto simp: x_def)
  have "steady x (upd_ciod (note_pending sw) x)" by (rule upd_ciod_steady) (simp add: note_pending_def Let_def split: option.split prod.split)
  then have "queue_inv (upd_ciod (note_pending sw) x)" using x by (rule steady_inv)
  moreover have "c' = (if session_flags (c_session x) AND SMBV_SMB2 \<noteq> 0 then upd_ciod (note_pending sw) x else x)"
    using assms(2) s unfolding smb_iod_sendall_def d_def x_def Let_def by auto
  ultimately show ?thesis using x by simp
qed

section \<open>Into the queue and out of it\<close>

text \<open>What signing, compressing and encrypting leave of a request: whether it is one of SMB 2/3, and whether it stays for further replies.\<close>

definition same_kind :: "smb_rq \<Rightarrow> smb_rq \<Rightarrow> bool" where
  "same_kind r r' \<longleftrightarrow>
     sr_extflags r' AND SMB2_REQUEST = sr_extflags r AND SMB2_REQUEST \<and> sr_flags r' AND SMBR_MULTIPACKET = sr_flags r AND SMBR_MULTIPACKET"

lemma same_kind_refl [simp]: "same_kind r r"
  by (simp add: same_kind_def)

lemma same_kind_trans: "same_kind a b \<Longrightarrow> same_kind b c \<Longrightarrow> same_kind a c"
  by (simp add: same_kind_def)

lemma same_kind_upd:
  "sr_flags r' = sr_flags r \<Longrightarrow> sr_extflags r' = sr_extflags r \<Longrightarrow> same_kind r r'"
  by (simp add: same_kind_def)

lemma set_message_id_kind:
  assumes "set_message_id st rqp k = Some (rqp', st')"
  shows "same_kind rqp rqp' \<and> (\<forall>i. iod_flags (iods st' i) = iod_flags (iods st i))"
  using assms by (auto simp: set_message_id_def Let_def same_kind_def upd_iod_def split: option.splits)

lemma set_message_ids_flags:
  "set_message_ids st rqps = Some (rqps', st') \<Longrightarrow> \<forall>i. iod_flags (iods st' i) = iod_flags (iods st i)"
  by (induction rqps arbitrary: st rqps') (auto split: bind_splits dest!: set_message_id_kind)

lemma message_id_kind:
  assumes "smb2_rq_message_id_increment st rqp rest = Some (err, rqp', rest', st')"
  shows "same_kind rqp rqp' \<and> (\<forall>i. iod_flags (iods st' i) = iod_flags (iods st i))"
  using assms unfolding smb2_rq_message_id_increment_def
  by (auto split: bind_splits if_splits dest!: set_message_id_kind set_message_ids_flags)

lemma smb2_sign_kind: "smb2_sign lib rqp = Some rqp' \<Longrightarrow> same_kind rqp rqp'"
  by (auto simp: smb2_sign_def Let_def same_kind_def split: option.splits if_splits bind_splits)

lemma smb3_sign_kind: "smb3_sign lib st rqp = Some rqp' \<Longrightarrow> same_kind rqp rqp'"
  by (auto simp: smb3_sign_def Let_def same_kind_def split: option.splits if_splits bind_splits)

lemma sign_request_kind:
  assumes "sign_request lib st sessionp rqp rest = Some (rqp', rest')"
  shows "same_kind rqp rqp'"
proof -
  have "same_kind rqp (hd rqps)" if "smb2_rq_sign lib st (rqp # rest) = Some (e, rqps)" for e rqps
    using that smb2_sign_kind smb3_sign_kind by (auto simp: smb2_rq_sign_def split: option.splits bind_splits if_splits)
  then show ?thesis using assms by (auto simp: sign_request_def split: if_splits bind_splits)
qed

lemma compressed_kind: "same_kind rqp (not_smaller rqp)" "same_kind rqp (compressed rqp s mbp)"
  by (simp_all add: not_smaller_def compressed_def same_kind_def bit.conj_disj_distrib2)

lemma compress_chained_kind:
  assumes "compress_chained env rqp s alg hdr buf = Some (e, rqp')"
  shows "same_kind rqp rqp'"
proof -
  have "same_kind rqp (not_smaller (rqp\<lparr>sr_session := x, sr_rq_compressed := y\<rparr>))"
    "same_kind rqp (compressed (rqp\<lparr>sr_session := x, sr_rq_compressed := y\<rparr>) s' mbp)"
    "same_kind rqp (rqp\<lparr>sr_session := x, sr_rq_compressed := y\<rparr>)" for x y s' mbp
    using compressed_kind [of "rqp\<lparr>sr_session := x, sr_rq_compressed := y\<rparr>"] by (simp_all add: same_kind_def)
  then show ?thesis using assms by (auto simp: compress_chained_def Let_def split: bind_splits if_splits)
qed

lemma compress_request_kind:
  assumes "compress_request env rqp s alg chained = Some (e, rqp')"
  shows "same_kind rqp rqp'"
proof -
  have "same_kind rqp r" if "compress_unchained env rqp s alg hdr buf = Some (e, r)" for hdr buf r
    using that compressed_kind by (auto simp: compress_unchained_def split: sum.splits if_splits bind_splits)
  then show ?thesis using assms compress_chained_kind
    unfolding compress_request_def Let_def by (auto split: prod.splits sum.splits if_splits)
qed

lemma compress_write_kind:
  assumes "smb2_rq_compress_write env rqp = Some (e, rqp')"
  shows "same_kind rqp rqp'"
proof -
  have "same_kind rqp rqp'" if "compress_request env (rqp\<lparr>sr_session := s, sr_rq_compressed := m\<rparr>) s' alg ch = Some (e, rqp')" for s m s' alg ch
    using compress_request_kind [OF that] by (simp add: same_kind_def)
  then show ?thesis
    using assms unfolding smb2_rq_compress_write_def by (auto simp: same_kind_def [of _ "rqp\<lparr>sr_session := _\<rparr>"] split: option.splits if_splits sum.splits)
qed

lemma encrypt_kind:
  assumes "smb3_rq_encrypt ops aead hdr s rqp rest = (e, s', rqp', rest')"
  shows "same_kind rqp rqp'"
proof -
  obtain mb cm rqp1 rest1 where t: "take_chain ops rqp rest = (mb, cm, rqp1, rest1)" by (metis prod_cases4)
  have k: "same_kind rqp rqp1" using t by (auto simp: take_chain_def Let_def split_def same_kind_def split: if_splits)
  have p: "same_kind rqp (put_chain cm m rqp1)" for m using k by (simp add: put_chain_def same_kind_def)
  show ?thesis using assms k p by (auto simp: smb3_rq_encrypt_def t Let_def split: option.splits if_splits prod.splits)
qed

lemma rq_sign_kind:
  assumes "smb_iod_rq_sign lib env ops aead hdr st rqp rest = Some (e, st', rqp', rest')"
  shows "same_kind rqp rqp' \<and> (\<forall>i. iod_flags (iods st' i) = iod_flags (iods st i))"
proof -
  let ?rqp = "rqp\<lparr>sr_rq := snd (mb_fixhdr (sr_rq rqp))\<rparr>"
  obtain s where s: "sr_session rqp = Some s" using assms by (auto simp: smb_iod_rq_sign_def split: bind_splits)
  obtain err rqp1 rest1 where m: "smb2_rq_message_id_increment st ?rqp rest = Some (err, rqp1, rest1, st')"
    using assms by (auto simp: smb_iod_rq_sign_def s split: bind_splits if_splits prod.splits)
  obtain rqp2 rest2 where g: "sign_request lib st' s rqp1 rest1 = Some (rqp2, rest2)"
    using assms by (auto simp: smb_iod_rq_sign_def s m split: bind_splits)
  obtain err3 rqp3 where c: "(if compressible s rqp2 then smb2_rq_compress_write env rqp2 else Some (0, rqp2)) = Some (err3, rqp3)"
    using assms by (auto simp: smb_iod_rq_sign_def s m g split: bind_splits)
  have "same_kind rqp2 rqp3" using c compress_write_kind by (auto split: if_splits)
  moreover have "same_kind rqp1 rqp2" by (rule sign_request_kind [OF g])
  moreover have k: "same_kind ?rqp rqp1" "\<forall>i. iod_flags (iods st' i) = iod_flags (iods st i)" using message_id_kind [OF m] by simp_all
  ultimately have t: "same_kind rqp rqp3" by (simp add: same_kind_def)
  have u: "same_kind a (b\<lparr>sr_session := x\<rparr>) = same_kind a b" for a b x by (simp add: same_kind_def)
  have "same_kind rqp3 rqp'"
    using assms by (auto simp: smb_iod_rq_sign_def s m g c u split: if_splits prod.splits dest: encrypt_kind)
  then show ?thesis using same_kind_trans [OF t] k(2) by simp
qed

text \<open>A request that has just been made and is not in the queue.\<close>

definition fresh :: "queued list \<Rightarrow> channel \<Rightarrow> bool" where
  "fresh e c \<longleftrightarrow>
     e \<noteq> [] \<and> q_id (hd e) \<notin> set (heads c) \<and> q_tries (hd e) = 0 \<and> q_rpgen (hd e) = 0 \<and> q_rplast (hd e) = 0 \<and>
     q_state (hd e) \<noteq> SMBRQ_NOTIFIED"

lemma fresh_cons: "fresh (q # qs) c \<Longrightarrow> rq_inv q"
  by (simp add: fresh_def rq_inv_def)

lemma seal_entry_inv:
  assumes "seal_entry cenv aead hdr env e c = Some (err, e', c')" "queue_inv c" "fresh e c"
  shows "queue_inv c' \<and> fresh e' c' \<and> q_state (hd e') = q_state (hd e)"
proof (cases "q_extflags (hd e) AND SMB2_REQUEST = 0")
  case False
  obtain q qs where e: "e = q # qs" using assms(3) by (cases e) (auto simp: fresh_def)
  obtain st rqp rest where s: "smb_iod_rq_sign (se_lib env) cenv (se_ops env) aead hdr (c_st c)
      ((q_rq q)\<lparr>sr_session := Some (c_session c)\<rparr>) (map q_rq qs) = Some (err, st, rqp, rest)"
    "e' = map2 (\<lambda>q r. q\<lparr>q_rq := r\<rparr>) e (rqp # rest)" "c' = c\<lparr>c_st := st, c_session := the (sr_session rqp)\<rparr>"
    using assms(1) False by (auto simp: seal_entry_def e split: bind_splits)
  show ?thesis using rq_sign_kind [OF s(1)] assms(2,3) by (simp add: s(2,3) e fresh_def queue_inv_def heads_def)
qed (use assms in \<open>simp add: seal_entry_def\<close>)

lemma insert_inv:
  assumes "queue_inv c" "fresh e c" "c_rqlist c' = c_rqlist c @ [e] \<or> c_rqlist c' = e # c_rqlist c" "c_iod c' = c_iod c" "c_flags c' = c_flags c"
  shows "queue_inv c'"
proof -
  have "rq_inv (hd e)" using assms(2) fresh_cons by (cases e) (auto simp: fresh_def)
  then show ?thesis using assms by (auto simp: queue_inv_def heads_def entry_inv_def fresh_def)
qed

lemma insert_rq_inv:
  assumes "insert_rq cenv aead hdr env e c = Some (err, e', c')" "queue_inv c" "fresh e c"
  shows "queue_inv c'"
proof -
  define d where "d = (if q_flags (hd e) AND SMBR_ASYNC \<noteq> 0 then c\<lparr>c_asynccnt := c_asynccnt c + 1\<rparr> else c)\<lparr>c_muxcnt := c_muxcnt c + 1\<rparr>"
  have d: "queue_inv d" "fresh e d" using assms(2,3) by (auto simp: d_def queue_inv_def heads_def fresh_def)
  have r: "insert_rq cenv aead hdr env e c =
    (if c_flags d AND SMBIOD_SHUTDOWN \<noteq> 0 then Some (EAGAIN, e, d)
     else do {
       (error, e, d) \<leftarrow> seal_entry cenv aead hdr env e d;
       if error \<noteq> 0 then Some (error, e, d)
       else Some (0, or_qflags SMBR_ENQUEUED (hd e) # tl e,
                  d\<lparr>c_rqlist := c_rqlist d @ [or_qflags SMBR_ENQUEUED (hd e) # tl e], c_workflag := True\<rparr>)
     })"
    unfolding insert_rq_def Let_def d_def by simp
  show ?thesis
  proof (cases "c_flags d AND SMBIOD_SHUTDOWN \<noteq> 0")
    case True
    then show ?thesis using assms(1) d(1) by (simp add: r)
  next
    case False
    then obtain err1 e1 d1 where s: "seal_entry cenv aead hdr env e d = Some (err1, e1, d1)"
      using assms(1) by (auto simp: r split: bind_splits)
    have i: "queue_inv d1" "fresh e1 d1" using seal_entry_inv [OF s d] by simp_all
    then have "fresh (or_qflags SMBR_ENQUEUED (hd e1) # tl e1) d1" by (simp add: fresh_def)
    then have "queue_inv (d1\<lparr>c_rqlist := c_rqlist d1 @ [or_qflags SMBR_ENQUEUED (hd e1) # tl e1], c_workflag := True\<rparr>)"
      by (rule insert_inv [OF i(1)]) simp_all
    then show ?thesis using assms(1) False i(1) by (auto simp: r s split: if_splits)
  qed
qed

lemma distinct_map_remove1: "distinct (map f xs) \<Longrightarrow> distinct (map f (remove1 x xs))"
  by (induction xs) (auto dest: set_mp [OF set_remove1_subset])

lemma distinct_map_move: "distinct (map f xs) \<Longrightarrow> x \<in> set xs \<Longrightarrow> f y = f x \<Longrightarrow> distinct (map f (remove1 x xs @ [y]))"
  by (induction xs) (auto dest: set_mp [OF set_remove1_subset] intro: rev_image_eqI)

lemma removerq_fields:
  "c_iod (smb_iod_removerq i c) = c_iod c \<and> c_st (smb_iod_removerq i c) = c_st c \<and>
   (c_rqlist (smb_iod_removerq i c) = c_rqlist c \<or> (\<exists>e. c_rqlist (smb_iod_removerq i c) = remove1 e (c_rqlist c)))"
  by (auto simp: smb_iod_removerq_def Let_def split: option.split)

lemma removerq_inv: "queue_inv c \<Longrightarrow> queue_inv (smb_iod_removerq i c)"
  using removerq_fields [of i c] by (auto simp: queue_inv_def heads_def distinct_map_remove1 dest: set_mp [OF set_remove1_subset])

lemma waitrq_inv:
  assumes "queue_inv c" "smb_iod_waitrq i c = Some (err, q, c')"
  shows "queue_inv c'"
proof -
  obtain e where e: "find (\<lambda>e. e \<noteq> [] \<and> q_id (hd e) = i) (c_rqlist c) = Some e"
    using assms(2) by (auto simp: smb_iod_waitrq_def split: bind_splits)
  then have m: "e \<in> set (c_rqlist c)" by (auto simp: find_Some_iff in_set_conv_nth)
  have "distinct (map (q_id \<circ> hd) (remove1 e (c_rqlist c) @ [q' # tl e]))" if "q_id q' = q_id (hd e)" for q'
    using distinct_map_move [OF _ m, of "q_id \<circ> hd" "q' # tl e"] assms(1) that by (simp add: queue_inv_def heads_def)
  then have r: "queue_inv (c\<lparr>c_rqlist := remove1 e (c_rqlist c) @ [q' # tl e]\<rparr>)"
    if "q_id q' = q_id (hd e)" "q_rq q' = q_rq (hd e)" "q_state q' = q_state (hd e)" "q_tries q' = q_tries (hd e)"
       "q_flags (hd e) AND SMBR_MULTIPACKET \<noteq> 0" for q'
    using that assms(1) m by (auto simp: queue_inv_def heads_def entry_inv_def rq_inv_def dest: set_mp [OF set_remove1_subset])
  then show ?thesis
    using assms(2) removerq_inv [OF assms(1), of i] r
    by (auto simp: smb_iod_waitrq_def e Let_def split: if_splits)
qed

lemma send_internal_spec:
  assumes "send_internal env states e c = Some (err, e', c')" "sendable e"
  shows "e' \<noteq> [] \<and> q_id (hd e') = q_id (hd e) \<and> rq_weak (hd e') \<and> (err = ENOTCONN \<or> rq_inv (hd e')) \<and> steady c c'"
  using assms
proof (induction env states e c arbitrary: err e' c' rule: send_internal.induct)
  case (1 env states e c)
  obtain err1 e1 c1 where s: "smb_iod_sendrq env e c = (err1, e1, c1)" by (metis prod_cases3)
  note sp = sendrq_spec [OF 1(3) s]
  show ?case
  proof (cases "err1 \<noteq> 0 \<or> q_state (hd e1) \<noteq> SMBRQ_NOTSENT")
    case True
    then show ?thesis using 1(2) sp by (auto simp: s)
  next
    case False
    then obtain st states' where st: "states = st # states'" "send_internal env states' e1 (c1\<lparr>c_state := st\<rparr>) = Some (err, e', c')"
      using 1(2) by (auto simp: s split: list.splits)
    have "sendable e1" using sp False by (simp add: sendable_def entry_inv_def)
    moreover have "steady c (c1\<lparr>c_state := st\<rparr>)" using sp by (simp add: steady_def)
    ultimately show ?thesis
      using 1(1) [OF s [symmetric] refl refl False st(1,2)] sp steady_trans by auto
  qed
qed

lemma internal_inv:
  assumes "send_internal env states e c = Some (err, e', c')" "queue_inv c" "fresh e c" "q_state (hd e) = SMBRQ_NOTSENT"
  shows "weak_inv (c'\<lparr>c_rqlist := e' # c_rqlist c'\<rparr>) \<and> (err = 0 \<longrightarrow> queue_inv (c'\<lparr>c_rqlist := e' # c_rqlist c'\<rparr>))"
proof -
  have "sendable e" using assms(3,4) fresh_cons by (cases e) (auto simp: sendable_def entry_inv_def fresh_def)
  note sp = send_internal_spec [OF assms(1) this]
  have "queue_inv c'" using sp steady_inv assms(2) by blast
  then show ?thesis
    using sp assms(3) queue_inv_weak [of c'] by (auto simp: queue_inv_def weak_inv_def heads_def fresh_def entry_inv_def steady_def)
qed

lemma soft_wait_fresh:
  assumes "soft_wait now e c = (err, e')" "fresh e c"
  shows "fresh e' c"
  using assms by (auto simp: soft_wait_def Let_def fresh_def split: option.splits if_splits)

lemma share_dead_queue: "queue_inv c \<Longrightarrow> queue_inv (snd (share_dead e c))"
  by (rule steady_inv [OF same_channel_steady [OF share_dead_frame(2)]])

lemma enqueue_internal_inv:
  assumes "smb_iod_rq_enqueue cenv aead hdr env maxmux states e c = Some (err, e', c')"
    "queue_inv c" "fresh e c" "q_state (hd e) = SMBRQ_NOTSENT" "sr_context (q_rq (hd e)) = iod_context (iods (c_st c) (c_iod c))"
  shows "queue_inv c'"
proof -
  let ?e = "or_qflags SMBR_INTERNAL (hd e) # tl e"
  let ?re = "smb_iod_start_reconnect (se_now env) (se_later env) (se_proclaimed env)"
  have f: "fresh ?e c" "q_state (hd ?e) = SMBRQ_NOTSENT" using assms(3,4) by (simp_all add: fresh_def)
  obtain err1 e1 c1 where s: "seal_entry cenv aead hdr env ?e c = Some (err1, e1, c1)"
    using assms(1,5) by (auto simp: smb_iod_rq_enqueue_def Let_def split: bind_splits)
  have i: "queue_inv c1" "fresh e1 c1" "q_state (hd e1) = SMBRQ_NOTSENT" using seal_entry_inv [OF s assms(2) f(1)] f(2) by simp_all
  show ?thesis
  proof (cases "err1 = 0")
    case True
    let ?e1 = "or_qflags SMBR_ENQUEUED (hd e1) # tl e1"
    obtain err2 e2 c2 where t: "send_internal env states ?e1 c1 = Some (err2, e2, c2)"
      using assms(1,5) True by (auto simp: smb_iod_rq_enqueue_def Let_def s simp del: send_internal.simps split: bind_splits)
    have w: "weak_inv (c2\<lparr>c_rqlist := e2 # c_rqlist c2\<rparr>)" "err2 = 0 \<longrightarrow> queue_inv (c2\<lparr>c_rqlist := e2 # c_rqlist c2\<rparr>)"
      using internal_inv [OF t i(1)] i(2,3) by (simp_all add: fresh_def)
    define x where "x = (if err2 \<noteq> 0 then ?re (c2\<lparr>c_rqlist := e2 # c_rqlist c2\<rparr>) else c2\<lparr>c_rqlist := e2 # c_rqlist c2\<rparr>)"
    have "queue_inv x" using w start_reconnect_settles [OF w(1)] by (simp add: x_def)
    moreover have "c' = x \<or> (\<exists>i. c' = smb_iod_removerq i x)"
      using assms(1,5) True unfolding x_def
      by (auto simp: smb_iod_rq_enqueue_def Let_def s t simp del: send_internal.simps split: if_splits)
    ultimately show ?thesis using removerq_inv by auto
  next
    case False
    then show ?thesis using assms(1,5) i(1) by (auto simp: smb_iod_rq_enqueue_def Let_def s)
  qed
qed

lemma enqueue_inv:
  assumes "smb_iod_rq_enqueue cenv aead hdr env maxmux states e c = Some (err, e', c')"
    "queue_inv c" "fresh e c" "q_state (hd e) = SMBRQ_NOTSENT"
  shows "queue_inv c'"
proof (cases "sr_context (q_rq (hd e)) = iod_context (iods (c_st c) (c_iod c))")
  case True
  then show ?thesis using enqueue_internal_inv [OF assms] by simp
next
  case False
  obtain err1 e1 where s: "soft_wait (se_now env) e c = (err1, e1)" by fastforce
  note ins = insert_rq_inv [OF _ assms(2) soft_wait_fresh [OF s assms(3)]]
  show ?thesis
    using assms(1) False ins share_dead_queue [OF assms(2), of e] assms(2)
    unfolding smb_iod_rq_enqueue_def Let_def s by (auto split: if_splits)
qed

section \<open>Receiving\<close>

text \<open>What is done to the channel on the way leaves its queue and the flag of a reconnect that is starting.\<close>

definition undisturbed :: "channel \<Rightarrow> channel \<Rightarrow> bool" where
  "undisturbed c c' \<longleftrightarrow>
     c_iod c' = c_iod c \<and> c_rqlist c' = c_rqlist c \<and>
     iod_flags (iods (c_st c') (c_iod c)) AND SMBIOD_START_RECONNECT = c_flags c AND SMBIOD_START_RECONNECT"

lemma undisturbed_refl [simp]: "undisturbed c c"
  by (simp add: undisturbed_def)

lemma undisturbed_trans: "undisturbed a b \<Longrightarrow> undisturbed b c \<Longrightarrow> undisturbed a c"
  unfolding undisturbed_def by metis

lemma undisturbed_inv: "undisturbed c c' \<Longrightarrow> queue_inv c \<Longrightarrow> queue_inv c'"
  unfolding undisturbed_def queue_inv_def heads_def by metis

lemma upd_ciod_undisturbed: "(\<And>i. iod_flags (f i) AND 8 = iod_flags i AND 8) \<Longrightarrow> undisturbed c (upd_ciod f c)"
  by (simp add: undisturbed_def upd_ciod_def upd_iod_def)

lemma share_up_undisturbed: "undisturbed c (share_up rqp c)"
  by (simp add: undisturbed_def share_up_def split: option.split)

lemma save_setup_reply_undisturbed: "undisturbed c (save_setup_reply memory m mid c)"
proof -
  define d where "d = c\<lparr>c_sess_setup_reply := (if memory then Some (take (64 * 1024) (chain_bytes m)) else None)\<rparr>"
  define d' where "d' = (if c_flags d AND SMBIOD_ALTERNATE_CHANNEL \<noteq> 0 then set_cflags (\<lambda>f. f OR SMBIOD_USE_CHANNEL_KEYS) d else d)"
  have "undisturbed c d" by (simp add: undisturbed_def d_def)
  moreover have "undisturbed d d'" by (simp add: d'_def set_cflags_def upd_ciod_undisturbed bit.conj_disj_distrib2)
  moreover have "undisturbed d' (upd_ciod (\<lambda>i. i\<lparr>iod_sess_setup_message_id := mid\<rparr>) d')" by (rule upd_ciod_undisturbed) simp
  moreover have "save_setup_reply memory m mid c = upd_ciod (\<lambda>i. i\<lparr>iod_sess_setup_message_id := mid\<rparr>) d'"
    unfolding save_setup_reply_def Let_def d'_def d_def by simp
  ultimately show ?thesis by (metis undisturbed_trans)
qed

lemma reply_command_undisturbed: "undisturbed c (reply_command lib memory h m rqp c)"
  unfolding reply_command_def Let_def
  by (simp add: save_setup_reply_undisturbed upd_ciod_undisturbed smb311_pre_auth_integrity_hash_update_def)

lemma credit_increment_flags: "iod_flags (iods (snd (smb2_rq_credit_increment st rqp)) i) = iod_flags (iods st i)"
  by (simp add: smb2_rq_credit_increment_def upd_iod_def credit_wakeup_def Let_def split: option.split)

lemma take_credits_frame:
  assumes "take_credits rqp c = (rqp', c')"
  shows "sr_flags rqp' = sr_flags rqp" "sr_extflags rqp' = sr_extflags rqp \<or> sr_extflags rqp' = sr_extflags rqp OR SMB2_HDR_PREPARSED"
    "sr_rp rqp' = sr_rp rqp" "sr_messageid rqp' = sr_messageid rqp" "undisturbed c c'" "c_session c' = c_session c"
proof -
  define r where "r = parse_header_fields (\<lambda>_ _ _. 0) (\<lambda>_. id) (c_st c) (c_session c) rqp (md_shadow_copy (sr_rp rqp) (sr_rp zero_rq)) True"
  have r: "sr_flags (fst (snd r)) = sr_flags rqp \<and> sr_extflags (fst (snd r)) = sr_extflags rqp \<and> sr_rp (fst (snd r)) = sr_rp rqp \<and>
      sr_messageid (fst (snd r)) = sr_messageid rqp \<and> (\<forall>i. iod_flags (iods (snd (snd (snd r))) i) = iod_flags (iods (c_st c) i))"
    unfolding r_def parse_header_fields_def get_or_def Let_def
    by (auto simp: credit_increment_flags split: prod.splits sum.splits)
  have t: "take_credits rqp c =
      (if sr_extflags rqp AND SMB2_RESPONSE = 0 \<or> sr_flags rqp AND SMBR_COMPOUND_RQ \<noteq> 0 then (rqp, c)
       else (if fst r \<noteq> 0 then fst (snd r) else (fst (snd r))\<lparr>sr_extflags := sr_extflags (fst (snd r)) OR SMB2_HDR_PREPARSED\<rparr>,
             c\<lparr>c_st := snd (snd (snd r))\<rparr>))"
    unfolding take_credits_def smb2_rq_credit_preprocess_reply_def smb2_rq_parse_header_def r_def [symmetric]
    by (simp add: r_def [symmetric] split: prod.split)
  show "sr_flags rqp' = sr_flags rqp" "sr_extflags rqp' = sr_extflags rqp \<or> sr_extflags rqp' = sr_extflags rqp OR SMB2_HDR_PREPARSED"
    "sr_rp rqp' = sr_rp rqp" "sr_messageid rqp' = sr_messageid rqp" "undisturbed c c'" "c_session c' = c_session c"
    using assms r by (auto simp: t undisturbed_def split: if_splits)
qed

lemma find_pos_Some: "find_pos P xs = Some i \<Longrightarrow> i < length xs \<and> P (xs ! i)"
  by (induction xs arbitrary: i) (auto split: if_splits)

text \<open>What is found has the message id of the reply.\<close>

lemma match_queue_Some:
  assumes "match_queue s h es = Some (k, j, cmpd)"
  shows "k < length es \<and> j < length (es ! k) \<and> sr_messageid (q_rq (es ! k ! j)) = rh_messageid h"
  using assms
proof (induction es arbitrary: k)
  case (Cons e es)
  have "j < length e \<and> sr_messageid (q_rq (e ! j)) = rh_messageid h" if "match_entry s h e = Some (j, cmpd)"
    using that by (auto simp: match_entry_def split: list.splits if_splits dest!: find_pos_Some)
  then show ?case using Cons by (auto split: option.splits)
qed simp

lemma store_rq_inv:
  assumes "queue_inv c" "k < length (c_rqlist c)" "j < length (c_rqlist c ! k)"
    and "j = 0 \<longrightarrow> rq_inv q \<and> q_id q = q_id (hd (c_rqlist c ! k))"
  shows "queue_inv (store_rq k j q c)"
proof -
  have h: "hd ((c_rqlist c ! k)[j := q]) = (if j = 0 then q else hd (c_rqlist c ! k))"
    using assms(3) by (cases "c_rqlist c ! k"; cases j) auto
  have e: "entry_inv (c_rqlist c ! k)" using assms(1,2) by (simp add: queue_inv_def)
  have "map (q_id \<circ> hd) ((c_rqlist c)[k := (c_rqlist c ! k)[j := q]]) = map (q_id \<circ> hd) (c_rqlist c)"
    using assms(2,4) h by (auto simp: map_update list_update_same_conv)
  moreover have "entry_inv ((c_rqlist c ! k)[j := q])" using e assms(4) h by (simp add: entry_inv_def)
  ultimately show ?thesis
    using assms(1) set_update_subset_insert [of "c_rqlist c" k] by (auto simp: queue_inv_def heads_def store_rq_def)
qed

lemma entry_update_inv:
  assumes "queue_inv c" "k < length (c_rqlist c)" "keeps (c_rqlist c ! k) e"
  shows "queue_inv (c\<lparr>c_rqlist := (c_rqlist c)[k := e]\<rparr>)"
proof -
  have e: "entry_inv e" "q_id (hd e) = q_id (hd (c_rqlist c ! k))" using assms by (simp_all add: queue_inv_def keeps_def)
  then have "map (q_id \<circ> hd) ((c_rqlist c)[k := e]) = map (q_id \<circ> hd) (c_rqlist c)"
    using assms(2) by (simp add: map_update list_update_same_conv)
  then show ?thesis
    using assms(1) e(1) set_update_subset_insert [of "c_rqlist c" k] by (auto simp: queue_inv_def heads_def)
qed

lemma rq_inv_kind:
  assumes "rq_inv q" "same_kind (q_rq q) r"
  shows "rq_inv (q\<lparr>q_rq := r\<rparr>)"
  using assms by (simp add: rq_inv_def same_kind_def)

lemma put_reply_kind: "put_reply m rqp = Some rqp' \<Longrightarrow> same_kind rqp rqp'"
  by (auto simp: put_reply_def same_kind_def split: if_splits)

lemma take_credits_kind: "take_credits rqp c = (rqp', c') \<Longrightarrow> same_kind rqp rqp'"
  using take_credits_frame [of rqp c rqp' c'] by (auto simp: same_kind_def bit.conj_disj_distrib2)

lemma finish_reply_inv:
  assumes "queue_inv c" "k < length (c_rqlist c)" "j < length (c_rqlist c ! k)"
    and "j = 0 \<longrightarrow> rq_inv q \<and> q_id q = q_id (hd (c_rqlist c ! k))"
  shows "queue_inv (snd (finish_reply k j cmpd m q c))"
proof (cases "put_reply m (q_rq q)")
  case None
  then show ?thesis using store_rq_inv [OF assms] by (simp add: finish_reply_def)
next
  case (Some rqp)
  obtain rqp' d where t: "take_credits rqp c = (rqp', d)" by fastforce
  define x where "x = store_rq k j (q\<lparr>q_rq := rqp'\<rparr>) d"
  have cd: "undisturbed c d" using take_credits_frame(5) [OF t] .
  have kd: "same_kind (q_rq q) rqp'" using same_kind_trans [OF put_reply_kind [OF Some] take_credits_kind [OF t]] .
  have x: "queue_inv x" unfolding x_def
    by (rule store_rq_inv [OF undisturbed_inv [OF cd assms(1)]]) (use assms rq_inv_kind [OF _ kd] cd in \<open>auto simp: undisturbed_def\<close>)
  have len: "k < length (c_rqlist x)" using assms(2) cd by (simp add: x_def store_rq_def undisturbed_def)
  obtain e y where p: "smb_iod_rqprocessed 0 0 (c_rqlist x ! k) x = (e, y)" by fastforce
  have y: "steady x y" using same_channel_steady [OF processed_same, of x 0 0 "c_rqlist x ! k"] by (simp add: p)
  have "queue_inv (y\<lparr>c_rqlist := (c_rqlist y)[k := e]\<rparr>)"
    by (rule entry_update_inv [OF steady_inv [OF y x]])
      (use y len processed_keeps [of "c_rqlist x ! k" 0 0 x] in \<open>auto simp: steady_def p\<close>)
  then show ?thesis
    using x by (simp add: finish_reply_def Some t Let_def p flip: x_def)
qed

text \<open>The request and the channel when the reply is about to be put into the request.\<close>

definition answered :: "reply_hdr \<Rightarrow> queued \<Rightarrow> queued" where
  "answered h q = (if is_pending h then q else upd_rq (\<lambda>r. r\<lparr>sr_extflags := sr_extflags r OR SMB2_RESPONSE\<rparr>) q)"

definition noted :: "crypto_lib \<Rightarrow> bool \<Rightarrow> int \<Rightarrow> reply_hdr \<Rightarrow> mbuf list \<Rightarrow> bool \<Rightarrow> smb_rq \<Rightarrow> channel \<Rightarrow> channel" where
  "noted lib memory now h m separate rqp c =
     share_up rqp ((reply_command lib memory h m rqp
       (if separate
        then c\<lparr>c_lastrecv := now, c_session := (c_session c)\<lparr>session_misc_flags :=
                 session_misc_flags (c_session c) OR SMBV_NON_COMPOUND_REPLIES\<rparr>\<rparr>
        else c\<lparr>c_lastrecv := now\<rparr>))\<lparr>c_workflag := True\<rparr>)"

lemma noted_undisturbed: "undisturbed c (noted lib memory now h m separate rqp c)"
proof -
  define d where "d = (if separate then c\<lparr>c_lastrecv := now, c_session := (c_session c)\<lparr>session_misc_flags :=
      session_misc_flags (c_session c) OR SMBV_NON_COMPOUND_REPLIES\<rparr>\<rparr> else c\<lparr>c_lastrecv := now\<rparr>)"
  have "undisturbed c d" by (simp add: undisturbed_def d_def)
  moreover have "undisturbed d (reply_command lib memory h m rqp d)" by (rule reply_command_undisturbed)
  moreover have "undisturbed z (z\<lparr>c_workflag := True\<rparr>)" for z by (simp add: undisturbed_def)
  ultimately show ?thesis unfolding noted_def d_def [symmetric] by (meson undisturbed_trans share_up_undisturbed)
qed

lemma recv_smb2_found:
  assumes "match_queue (c_session c) h (c_rqlist c) = Some (k, j, cmpd)"
  shows "recv_smb2 lib memory now h m c =
    (let q = answered h (c_rqlist c ! k ! j);
         x = noted lib memory now h m (j = 0 \<and> cmpd) (q_rq q) c;
         rqp = (q_rq q)\<lparr>sr_rspasyncid := rh_asyncid h, sr_rspcreditsgranted := rh_credits h\<rparr>
     in if is_pending h
        then (RPending (q_id q),
              store_rq k j (q\<lparr>q_rq := rqp, q_timesent := now\<rparr>) (x\<lparr>c_st := snd (smb2_rq_credit_increment (c_st x) rqp)\<rparr>))
        else finish_reply k j cmpd m q x)"
  using assms unfolding recv_smb2_def answered_def noted_def Let_def by simp

lemma answered_kind: "same_kind (q_rq q) (q_rq (answered h q))" "answered h q = q\<lparr>q_rq := q_rq (answered h q)\<rparr>"
  by (simp_all add: answered_def same_kind_def upd_rq_def bit.conj_disj_distrib2)

lemma recv_smb2_inv:
  assumes "queue_inv c"
  shows "queue_inv (snd (recv_smb2 lib memory now h m c))"
proof (cases "match_queue (c_session c) h (c_rqlist c)")
  case None
  then show ?thesis using assms by (simp add: recv_smb2_def queue_inv_def heads_def)
next
  case (Some r)
  obtain k j cmpd where r: "r = (k, j, cmpd)" by (metis prod_cases3)
  note pos = match_queue_Some [OF Some [unfolded r]]
  define q where "q = answered h (c_rqlist c ! k ! j)"
  define x where "x = noted lib memory now h m (j = 0 \<and> cmpd) (q_rq q) c"
  have cx: "undisturbed c x" unfolding x_def by (rule noted_undisturbed)
  have x: "queue_inv x" by (rule undisturbed_inv [OF cx assms])
  have px: "k < length (c_rqlist x)" "j < length (c_rqlist x ! k)" "c_rqlist x = c_rqlist c" using cx pos by (simp_all add: undisturbed_def)
  have k: "rq_inv q \<and> q_id q = q_id (hd (c_rqlist x ! k))" if "j = 0"
  proof -
    have h: "hd (c_rqlist c ! k) = c_rqlist c ! k ! j" using pos that by (cases "c_rqlist c ! k") auto
    then have "rq_inv (c_rqlist c ! k ! j)" using assms pos by (metis queue_inv_def entry_inv_def nth_mem)
    then show ?thesis using rq_inv_kind [OF _ answered_kind(1)] answered_kind(2) [of h "c_rqlist c ! k ! j"] h
      unfolding q_def px(3) by (metis queued.select_convs(1) queued.surjective queued.update_convs(2))
  qed
  have pend: "queue_inv (store_rq k j (q\<lparr>q_rq := r, q_timesent := now\<rparr>) (x\<lparr>c_st := snd (smb2_rq_credit_increment (c_st x) r)\<rparr>))"
    if "same_kind (q_rq q) r" for r
  proof (rule store_rq_inv)
    show "queue_inv (x\<lparr>c_st := snd (smb2_rq_credit_increment (c_st x) r)\<rparr>)"
      using x by (simp add: queue_inv_def heads_def credit_increment_flags)
  qed (use px k that in \<open>auto simp: rq_inv_def same_kind_def\<close>)
  have fin: "queue_inv (snd (finish_reply k j cmpd m q x))" using finish_reply_inv [OF x px(1,2)] k by blast
  have "same_kind (q_rq q) ((q_rq q)\<lparr>sr_rspasyncid := rh_asyncid h, sr_rspcreditsgranted := rh_credits h\<rparr>)" by (simp add: same_kind_def)
  then show ?thesis
    unfolding recv_smb2_found [OF Some [unfolded r]] Let_def q_def [symmetric] x_def [symmetric] using pend fin by simp
qed

lemma recv_smb1_inv:
  assumes "queue_inv c"
  shows "queue_inv (snd (recv_smb1 now hp m c))"
proof -
  define hit where "hit = (\<lambda>e :: queued list. e \<noteq> [] \<and> q_mid (hd e) = of_nat (fld hp 30 2) \<and> sr_cmd (q_rq (hd e)) = hp ! 4 \<and>
      q_pidHigh (hd e) = of_nat (fld hp 12 2) \<and> q_pidLow (hd e) = of_nat (fld hp 26 2))"
  show ?thesis
  proof (cases "find_pos hit (c_rqlist c)")
    case None
    then show ?thesis using assms by (simp add: recv_smb1_def Let_def hit_def queue_inv_def heads_def)
  next
    case (Some k)
    have k: "k < length (c_rqlist c)" "c_rqlist c ! k \<noteq> []" using find_pos_Some [OF Some] by (simp_all add: hit_def)
    define q where "q = hd (c_rqlist c ! k)"
    define x where "x = share_up (q_rq q) (c\<lparr>c_lastrecv := now, c_workflag := True\<rparr>)"
    have "undisturbed c (c\<lparr>c_lastrecv := now, c_workflag := True\<rparr>)" by (simp add: undisturbed_def)
    then have cx: "undisturbed c x" unfolding x_def by (rule undisturbed_trans [OF _ share_up_undisturbed])
    have x: "queue_inv x" by (rule undisturbed_inv [OF cx assms])
    have px: "k < length (c_rqlist x)" "0 < length (c_rqlist x ! k)" "c_rqlist x = c_rqlist c"
      using cx k by (simp_all add: undisturbed_def)
    have "rq_inv q" using assms k(1) by (auto simp: queue_inv_def entry_inv_def q_def)
    then have "queue_inv (snd (finish_reply k 0 False m q x))" by (intro finish_reply_inv [OF x px(1,2)]) (simp add: q_def px(3))
    then show ?thesis using Some by (simp add: recv_smb1_def Let_def hit_def x_def q_def)
  qed
qed

lemma recv_message_inv:
  assumes "queue_inv c" "recv_message lib cenv ops memory now smb1_allowed m c = Some (r, smb1_allowed', c')"
  shows "queue_inv c'"
proof -
  define d where "d = c\<lparr>c_rx_bytes := c_rx_bytes c + of_nat (length (chain_bytes m)), c_rx_packets := c_rx_packets c + 1\<rparr>"
  have d: "queue_inv d" "queue_inv (d\<lparr>c_session := s\<rparr>)" for s using assms(1) by (simp_all add: d_def queue_inv_def heads_def)
  have s: "queue_inv x" if "recv_smb2 lib memory now h m' y = (r', x)" "queue_inv y" for h m' y r' x
    using recv_smb2_inv [OF that(2), of lib memory now h m'] that(1) by simp
  have o: "queue_inv x" if "recv_smb1 now hp m' d = (r', x)" for hp m' r' x
    using recv_smb1_inv [OF d(1), of now hp m'] that by simp
  show ?thesis
    using assms(2) d unfolding recv_message_def Let_def d_def [symmetric]
    by (auto split: option.splits if_splits outcome.splits prod.splits intro: s o)
qed

section \<open>Everything that can happen to a channel\<close>

text \<open>
  The steps of a channel: a request is put into the queue, waited for, or taken out; the sweep runs; a message comes in;
  the connection is lost, taken over by another channel or given up; the requests are all given back; a share goes away; the thread of the channel moves
  on to another state or changes its flags otherwise than to start a reconnect. The library of ciphers is the same all along.
\<close>

inductive iod_step :: "'c aead_lib \<Rightarrow> channel \<Rightarrow> channel \<Rightarrow> bool" for aead where
  enqueue: "fresh e c \<Longrightarrow> q_state (hd e) = SMBRQ_NOTSENT \<Longrightarrow>
      smb_iod_rq_enqueue cenv aead hdr env maxmux states e c = Some (error, e', c') \<Longrightarrow> iod_step aead c c'"
| waitrq: "smb_iod_waitrq i c = Some (error, q, c') \<Longrightarrow> iod_step aead c c'"
| removerq: "iod_step aead c (smb_iod_removerq i c)"
| sendall: "smb_iod_sendall env c = (echo, c') \<Longrightarrow> iod_step aead c c'"
| recv: "recv_message lib cenv ops memory now smb1_allowed m c = Some (r, smb1_allowed', c') \<Longrightarrow> iod_step aead c c'"
| reconnect: "iod_step aead c (smb_iod_start_reconnect now later proclaimed c)"
| dead: "iod_step aead c (smb_iod_dead c)"
| invrq: "iod_step aead c (smb_iod_invrq c)"
| errorout: "iod_step aead c (smb_iod_errorout_share_request share err c)"
| thread: "iod_step aead c (c\<lparr>c_state := s, c_tdata := t, c_session := sess\<rparr>)"
| flags: "\<forall>x. f x AND SMBIOD_START_RECONNECT = x AND SMBIOD_START_RECONNECT \<Longrightarrow> iod_step aead c (set_cflags f c)"

lemma iod_step_inv: "iod_step aead c c' \<Longrightarrow> queue_inv c \<Longrightarrow> queue_inv c'"
proof (induction rule: iod_step.induct)
  case (enqueue e c cenv hdr env maxmux states error e' c')
  then show ?case by (blast intro: enqueue_inv)
next
  case (reconnect c now later proclaimed)
  then show ?case using start_reconnect_settles [OF queue_inv_weak] by simp
next
  case (thread c s t sess)
  then show ?case by (simp add: queue_inv_def heads_def)
next
  case (flags f c)
  then show ?case by (simp add: queue_inv_def heads_def)
qed (auto intro: waitrq_inv removerq_inv sendall_inv recv_message_inv dead_inv invrq_inv errorout_inv)

interpretation channels: stepwise_invariant "iod_step aead" queue_inv for aead
  by unfold_locales (rule iod_step_inv)

end
