(* ===== verification/IodGuarantees.thy ===== *)
theory IodGuarantees
  imports IodProps
begin

text \<open>
  What a channel guarantees to the threads that use it: that a message is handed to the transport at most once, that nobody
  waits for ever, and that a reply reaches the request it is for.
\<close>

section \<open>What a channel guarantees\<close>

lemma find_head:
  assumes "queue_inv c" "e \<in> set (c_rqlist c)"
  shows "find (\<lambda>e'. e' \<noteq> [] \<and> q_id (hd e') = q_id (hd e)) (c_rqlist c) = Some e"
proof -
  have "e \<noteq> []" using assms by (auto simp: queue_inv_def entry_inv_def)
  then obtain e' where f: "find (\<lambda>e'. e' \<noteq> [] \<and> q_id (hd e') = q_id (hd e)) (c_rqlist c) = Some e'"
    using assms(2) by (cases "find (\<lambda>e'. e' \<noteq> [] \<and> q_id (hd e') = q_id (hd e)) (c_rqlist c)") (auto simp: find_None_iff)
  then obtain i where "i < length (c_rqlist c)" "e' = c_rqlist c ! i" "q_id (hd e') = q_id (hd e)" by (auto simp: find_Some_iff)
  then have "e' \<in> set (c_rqlist c)" "q_id (hd e') = q_id (hd e)" by simp_all
  then have "e' = e" using assms by (auto simp: queue_inv_def heads_def distinct_map inj_on_def)
  then show ?thesis using f by simp
qed

lemma head_removed:
  assumes "queue_inv c" "e \<in> set (c_rqlist c)"
  shows "q_id (hd e) \<notin> q_id ` hd ` set (remove1 e (c_rqlist c))"
proof -
  have d: "distinct (c_rqlist c)" "inj_on (q_id \<circ> hd) (set (c_rqlist c))"
    using assms(1) by (simp_all add: queue_inv_def heads_def distinct_map)
  then show ?thesis using assms(2) by (auto simp: inj_on_def)
qed

lemma removerq_list:
  assumes "queue_inv c" "e \<in> set (c_rqlist c)"
  shows "c_rqlist (smb_iod_removerq (q_id (hd e)) c) = remove1 e (c_rqlist c)"
  using find_head [OF assms] by (simp add: smb_iod_removerq_def Let_def)

text \<open>A thread that waits for a single reply and is notified gets its request back with the error it was given.\<close>

lemma notified_wait:
  assumes "queue_inv c" "e \<in> set (c_rqlist c)" "q_state (hd e) = SMBRQ_NOTIFIED" "q_flags (hd e) AND SMBR_MULTIPACKET = 0"
  shows "\<exists>q c'. smb_iod_waitrq (q_id (hd e)) c = Some (q_lerror (hd e), q, c') \<and> q_id q = q_id (hd e) \<and> q_rq q = q_rq (hd e) \<and>
           c_rqlist c' = remove1 e (c_rqlist c)"
proof -
  have "q_rplast (hd e) = 0" "0 < q_rpgen (hd e)"
    using assms by (auto simp: queue_inv_def entry_inv_def rq_inv_def)
  then show ?thesis
    using find_head [OF assms(1,2)] removerq_list [OF assms(1,2)] assms(4) by (simp add: smb_iod_waitrq_def Let_def)
qed

text \<open>C3: whatever is done to a channel, in whatever order: the message of an SMB 2/3 request is handed to the transport at
  most once, and a thread that waits for a single reply does not sleep on once its request has been notified: it gets the
  request and its error, and the request is in the queue no more.
\<close>

theorem sent_once_and_woken:
  assumes "(iod_step aead)\<^sup>*\<^sup>* c c'" "c_rqlist c = []" "c_flags c AND SMBIOD_START_RECONNECT = 0" "e \<in> set (c_rqlist c')"
  shows "(q_extflags (hd e) AND SMB2_REQUEST \<noteq> 0 \<longrightarrow> q_tries (hd e) \<le> 1) \<and>
    (q_state (hd e) = SMBRQ_NOTIFIED \<and> q_flags (hd e) AND SMBR_MULTIPACKET = 0 \<longrightarrow>
       (\<exists>q c''. smb_iod_waitrq (q_id (hd e)) c' = Some (q_lerror (hd e), q, c'') \<and> q_rq q = q_rq (hd e) \<and>
          (\<forall>e' \<in> set (c_rqlist c''). q_id (hd e') \<noteq> q_id (hd e))))"
proof -
  have i: "queue_inv c'" by (rule channels.kept_along [OF assms(1)]) (use assms(2,3) in \<open>simp add: queue_inv_def heads_def\<close>)
  then have "rq_inv (hd e)" using assms(4) by (simp add: queue_inv_def entry_inv_def)
  then have t: "q_extflags (hd e) AND SMB2_REQUEST \<noteq> 0 \<longrightarrow> q_tries (hd e) \<le> 1" by (simp add: rq_inv_def)
  have r: "\<forall>e' \<in> set (remove1 e (c_rqlist c')). q_id (hd e') \<noteq> q_id (hd e)" using head_removed [OF i assms(4)] by (auto simp: image_iff)
  show ?thesis using t notified_wait [OF i assms(4)] r by metis
qed

lemma finish_reply_first:
  assumes "c_rqlist c = es @ (q0 # qs) # es'" "md_top (sr_rp (q_rq q)) = []"
  shows "\<exists>q' c'. finish_reply (length es) 0 False m q c = (RDelivered (q_id q), c') \<and> c_rqlist c' = es @ (q' # qs) # es' \<and>
           q_id q' = q_id q \<and> q_state q' = SMBRQ_NOTIFIED \<and> q_lerror q' = 0 \<and> sr_rp (q_rq q') = md_initm m [] \<and> q_flags q' = q_flags q"
proof -
  obtain rqp d where t: "take_credits ((q_rq q)\<lparr>sr_rp := md_initm m []\<rparr>) c = (rqp, d)" by fastforce
  have d: "c_rqlist d = es @ (q0 # qs) # es'" "sr_rp rqp = md_initm m []" "sr_flags rqp = q_flags q"
    using take_credits_frame [OF t] assms(1) by (simp_all add: undisturbed_def)
  show ?thesis
    using assms(2) d by (simp add: finish_reply_def put_reply_def t Let_def store_rq_def callback_def)
qed

lemma match_queue_skip:
  assumes "\<forall>e \<in> set es. \<forall>q \<in> set e. sr_messageid (q_rq q) \<noteq> rh_messageid h"
  shows "match_queue s h es = None"
    "match_queue s h (es @ e # es') = (case match_entry s h e of Some (j, cmpd) \<Rightarrow> Some (length es, j, cmpd)
       | None \<Rightarrow> map_option (\<lambda>(k, r). (Suc (length es) + k, r)) (match_queue s h es'))"
proof -
  have f: "find_pos (\<lambda>q. sr_messageid (q_rq q) = rh_messageid h) e = None" if "\<forall>q \<in> set e. sr_messageid (q_rq q) \<noteq> rh_messageid h" for e
    using that by (induction e) auto
  have m: "match_entry s h e = None" if "\<forall>q \<in> set e. sr_messageid (q_rq q) \<noteq> rh_messageid h" for e
    using that f [of "tl e"] by (cases e) (simp_all add: match_entry_def)
  show "match_queue s h es = None" using assms m by (induction es) auto
  show "match_queue s h (es @ e # es') = (case match_entry s h e of Some (j, cmpd) \<Rightarrow> Some (length es, j, cmpd)
       | None \<Rightarrow> map_option (\<lambda>(k, r). (Suc (length es) + k, r)) (match_queue s h es'))"
    using assms m by (induction es) (auto split: option.splits simp: option.map_comp comp_def split_def)
qed

text \<open>C4: a reply with the message id of a request that stands alone and waits for one reply is delivered to that request and
  to no other: every other entry of the queue stays as it is, and the thread that waits for the request gets it with the
  message as its reply, without an error.
\<close>

theorem reply_reaches_thread:
  assumes "queue_inv c" "c_rqlist c = es @ (q # qs) # es'"
    and "\<forall>e \<in> set es. \<forall>q' \<in> set e. sr_messageid (q_rq q') \<noteq> rh_messageid h" "sr_messageid (q_rq q) = rh_messageid h"
    and "\<not> is_pending h" "q_flags q AND SMBR_COMPOUND_RQ = 0" "q_flags q AND SMBR_MULTIPACKET = 0" "md_top (sr_rp (q_rq q)) = []"
  shows "\<exists>q1 q2 c1 c2. recv_smb2 lib memory now h m c = (RDelivered (q_id q), c1) \<and> c_rqlist c1 = es @ (q1 # qs) # es' \<and>
    smb_iod_waitrq (q_id q) c1 = Some (0, q2, c2) \<and> q_id q2 = q_id q \<and> sr_rp (q_rq q2) = md_initm m [] \<and> c_rqlist c2 = es @ es'"
proof -
  have e: "match_entry (c_session c) h (q # qs) = Some (0, False)" using assms(4,6) by (simp add: match_entry_def)
  have mt: "match_queue (c_session c) h (c_rqlist c) = Some (length es, 0, False)"
    using match_queue_skip(2) [OF assms(3), of "c_session c" "q # qs" es'] e by (simp add: assms(2))
  define a where "a = answered h q"
  define x where "x = noted lib memory now h m False (q_rq a) c"
  have a: "q_id a = q_id q" "q_flags a = q_flags q" "sr_rp (q_rq a) = sr_rp (q_rq q)" using assms(5) by (simp_all add: a_def answered_def)
  have x: "c_rqlist x = es @ (q # qs) # es'" using noted_undisturbed [of c lib memory now h m False "q_rq a"] assms(2) by (simp add: x_def undisturbed_def)
  have r: "recv_smb2 lib memory now h m c = finish_reply (length es) 0 False m a x"
    using recv_smb2_found [OF mt, of lib memory now m] assms(2,5) by (simp add: Let_def a_def x_def)
  obtain q1 c1 where f: "finish_reply (length es) 0 False m a x = (RDelivered (q_id a), c1)" "c_rqlist c1 = es @ (q1 # qs) # es'"
      "q_id q1 = q_id a" "q_state q1 = SMBRQ_NOTIFIED" "q_lerror q1 = 0" "sr_rp (q_rq q1) = md_initm m []" "q_flags q1 = q_flags a"
    using finish_reply_first [OF x, of a m] a(3) assms(8) by auto
  have i: "queue_inv c1" using recv_smb2_inv [OF assms(1), of lib memory now h m] by (simp add: r f(1))
  have "distinct (c_rqlist c1)" using i by (simp add: queue_inv_def heads_def distinct_map)
  then have "q1 # qs \<notin> set es" by (simp add: f(2))
  then have rm: "remove1 (q1 # qs) (c_rqlist c1) = es @ es'" by (simp add: f(2) remove1_append)
  show ?thesis
    using notified_wait [OF i, of "q1 # qs"] f a assms(7) r rm by auto
qed

text \<open>A reply that no request waits for changes none.\<close>

lemma unknown_reply_ignored:
  assumes "\<forall>e \<in> set (c_rqlist c). \<forall>q \<in> set e. sr_messageid (q_rq q) \<noteq> rh_messageid h"
  shows "c_rqlist (snd (recv_smb2 lib memory now h m c)) = c_rqlist c" "fst (recv_smb2 lib memory now h m c) \<in> {RLease m, RDropped}"
  using match_queue_skip(1) [OF assms, of "c_session c"] by (simp_all add: recv_smb2_def)

section \<open>After a reconnect\<close>

lemma start_reconnect_all2:
  assumes "c_flags c AND SMBIOD_START_RECONNECT = 0"
  shows "list_all2 settles (c_rqlist c) (c_rqlist (smb_iod_start_reconnect now later proclaimed c))"
proof -
  define d where "d = c\<lparr>c_reconnect_start := now\<rparr>"
  have no: "\<not> c_flags c AND SMBIOD_START_RECONNECT \<noteq> 0" using assms by simp
  show ?thesis
  proof (cases "c_state d \<in> dead_states \<and> c_flags d AND SMBIOD_RECONNECT = 0")
    case True
    let ?c = "smb_iod_closetran (d\<lparr>c_state := SMBIOD_ST_DEAD\<rparr>)"
    have "list_all2 settles (c_rqlist ?c) (c_rqlist (smb_iod_invrq ?c))"
      unfolding smb_iod_invrq_def by (rule over_rqlist_spec(1)) (simp_all add: processed_settles)
    moreover have "list_all2 (=) (c_rqlist (smb_iod_invrq ?c)) (c_rqlist (smb_iod_dead d))"
      unfolding smb_iod_dead_def by (rule over_rqlist_spec(1)) (simp_all add: share_dead_frame)
    moreover have "smb_iod_start_reconnect now later proclaimed c = smb_iod_dead d"
      unfolding smb_iod_start_reconnect_def Let_def if_not_P [OF no] d_def [symmetric] if_P [OF True] by simp
    ultimately show ?thesis by (simp add: list.rel_eq closetran_fields d_def)
  next
    case False
    define d' where "d' = set_cflags (\<lambda>f. f OR SMBIOD_START_RECONNECT) d"
    obtain P where r: "smb_iod_start_reconnect now later proclaimed c = set_cflags (\<lambda>f. f AND NOT SMBIOD_START_RECONNECT)
        ((if P then smb_iod_alt_ch_failover d' else set_cflags (\<lambda>f. f OR SMBIOD_RECONNECT) (over_rqlist (hold_rq later) d'))
         \<lparr>c_state := SMBIOD_ST_RECONNECT\<rparr>)"
      unfolding smb_iod_start_reconnect_def Let_def if_not_P [OF no] d_def [symmetric] if_not_P [OF False] d'_def [symmetric]
      by blast
    have "list_all2 settles (c_rqlist d'') (c_rqlist (over_rqlist f d''))" if "f = failover_rq \<or> f = hold_rq later" for f d''
      by (rule over_rqlist_spec(1)) (use that failover_rq_settles hold_rq_settles in auto)
    from this [of failover_rq "set_cflags (\<lambda>f. f OR SMBIOD_SHUTDOWN) d'"] this [of "hold_rq later" d']
    show ?thesis by (simp add: r smb_iod_alt_ch_failover_def d'_def d_def)
  qed
qed

text \<open>The sweep after a reconnect gives an SMB 2/3 request back to its thread, which builds it again.\<close>

definition handed_back :: "queued list \<Rightarrow> channel \<Rightarrow> sweep \<Rightarrow> queued list \<times> channel \<times> sweep \<Rightarrow> bool" where
  "handed_back e c sw r \<longleftrightarrow>
     (case r of (e', c', sw') \<Rightarrow>
        e' \<noteq> [] \<and> q_id (hd e') = q_id (hd e) \<and> q_state (hd e') = SMBRQ_NOTIFIED \<and> sw_herror sw' = sw_herror sw \<and> steady c c')"

lemma processed_handed_back:
  "q_id q' = q_id q \<Longrightarrow> steady c c' \<Longrightarrow> handed_back (q # qs) c sw (case smb_iod_rqprocessed error flags (q' # qs) c' of (e, c) \<Rightarrow> (e, c, sw))"
  using steady_trans [OF _ same_channel_steady [OF callback_same]] by (simp add: handed_back_def)

lemma sweep_rq_handed_back:
  assumes "settled (q # qs)" "q_extflags q AND SMB2_REQUEST \<noteq> 0" "c_flags c AND SMBIOD_RECONNECT = 0"
  shows "handed_back (q # qs) c sw (sweep_rq env (q # qs) c sw)"
proof -
  have st: "steady c (c\<lparr>c_state := s\<rparr>)" for s by (simp add: steady_def)
  have n: "handed_back (q # qs) c sw (sweep_state env (q # qs) c sw)"
  proof (cases "q_state q = SMBRQ_NOTIFIED")
    case True
    then show ?thesis by (simp add: sweep_state_def handed_back_def)
  next
    case False
    then have "q_state q = SMBRQ_RECONNECT" using assms(1) by (simp add: settled_def)
    then show ?thesis
      using assms(2,3) processed_handed_back [OF _ steady_refl, where q = q] processed_handed_back [OF _ st, where q = q]
      by (simp add: sweep_state_def Let_def del: smb_iod_rqprocessed.simps)
  qed
  show ?thesis
    using n assms(3) processed_handed_back [OF refl steady_refl, where q = q]
    by (simp add: sweep_rq_def Let_def del: smb_iod_rqprocessed.simps)
qed

lemma sweep_all_handed_back:
  assumes "\<forall>e \<in> set es. e \<noteq> [] \<and> settled e \<and> q_extflags (hd e) AND SMB2_REQUEST \<noteq> 0" "c_flags c AND SMBIOD_RECONNECT = 0"
    "sw_herror sw = 0" "sweep_all env es c sw = (es', c', sw')"
  shows "(\<forall>e \<in> set es'. q_state (hd e) = SMBRQ_NOTIFIED) \<and> map (q_id \<circ> hd) es' = map (q_id \<circ> hd) es \<and> sw_herror sw' = 0"
  using assms
proof (induction es arbitrary: c sw es' c' sw')
  case (Cons e es)
  obtain q qs where e: "e = q # qs" using Cons.prems(1) by (cases e) auto
  obtain e1 c1 sw1 where r: "sweep_rq env e c sw = (e1, c1, sw1)" by (metis prod_cases3)
  have s: "q_id (hd e1) = q_id (hd e)" "q_state (hd e1) = SMBRQ_NOTIFIED" "sw_herror sw1 = 0" "steady c c1"
    using sweep_rq_handed_back [of q qs c sw env] Cons.prems(1-3) r by (simp_all add: e handed_back_def)
  obtain es2 c2 sw2 where a: "sweep_all env es c1 sw1 = (es2, c2, sw2)" by (metis prod_cases3)
  have f: "c_flags c1 AND SMBIOD_RECONNECT = 0" using s(4) Cons.prems(2) unfolding steady_def by metis
  have ih: "(\<forall>e \<in> set es2. q_state (hd e) = SMBRQ_NOTIFIED) \<and> map (q_id \<circ> hd) es2 = map (q_id \<circ> hd) es \<and> sw_herror sw2 = 0"
    using Cons.prems(1) by (intro Cons.IH [OF _ f s(3) a]) simp
  have "es' = e1 # es2" "sw' = sw2" using Cons.prems(4) s(3) by (simp_all add: r a)
  then show ?case using ih s(1,2) by (simp add: comp_def)
qed simp

lemma settles_smb2:
  assumes "list_all2 settles es es'" "\<forall>e \<in> set es. e \<noteq> [] \<and> rq_weak (hd e) \<and> q_extflags (hd e) AND SMB2_REQUEST \<noteq> 0"
  shows "\<forall>e \<in> set es'. e \<noteq> [] \<and> settled e \<and> q_extflags (hd e) AND SMB2_REQUEST \<noteq> 0"
proof
  fix e' assume "e' \<in> set es'"
  then obtain e where "e \<in> set es" "settles e e'" using assms(1) unfolding list_all2_conv_all_nth by (metis in_set_conv_nth)
  then show "e' \<noteq> [] \<and> settled e' \<and> q_extflags (hd e') AND SMB2_REQUEST \<noteq> 0" using assms(2) unfolding settles_def entry_inv_def by metis
qed

text \<open>C8: a lost connection strands nobody. When the channel has started a reconnect, and later its flags say that the reconnect is
  over, whatever its state, then one sweep notifies every request that was in the queue when the connection was
  lost: none is left waiting, and none has left the queue.
\<close>

theorem reconnect_strands_nobody:
  assumes "queue_inv c" "\<forall>e \<in> set (c_rqlist c). q_extflags (hd e) AND SMB2_REQUEST \<noteq> 0"
    and "d = smb_iod_start_reconnect now later proclaimed c"
    and "c_flags d' AND (SMBIOD_RECONNECT OR SMBIOD_READ_THREAD_ERROR) = 0" "c_rqlist d' = c_rqlist d"
  shows "map (q_id \<circ> hd) (c_rqlist (snd (smb_iod_sendall env d'))) = map (q_id \<circ> hd) (c_rqlist c) \<and>
    (\<forall>e \<in> set (c_rqlist (snd (smb_iod_sendall env d'))). q_state (hd e) = SMBRQ_NOTIFIED)"
proof -
  have start: "c_flags c AND SMBIOD_START_RECONNECT = 0" using assms(1) by (simp add: queue_inv_def)
  have all: "list_all2 settles (c_rqlist c) (c_rqlist d)" unfolding assms(3) by (rule start_reconnect_all2 [OF start])
  have w: "\<forall>e \<in> set (c_rqlist c). e \<noteq> [] \<and> rq_weak (hd e) \<and> q_extflags (hd e) AND SMB2_REQUEST \<noteq> 0"
    using queue_inv_weak [OF assms(1)] assms(2) by (simp add: weak_inv_def)
  have ids: "map (q_id \<circ> hd) (c_rqlist d') = map (q_id \<circ> hd) (c_rqlist c)" unfolding assms(5) using settles_queue [OF all] w by simp
  have "c_flags d' AND 132 = (c_flags d' AND 4) OR (c_flags d' AND 128)" by (simp flip: bit.conj_disj_distrib)
  then have fl: "c_flags d' AND SMBIOD_RECONNECT = 0" "c_flags d' AND SMBIOD_READ_THREAD_ERROR = 0" using assms(4) by (simp_all add: or_eq_0_iff)
  obtain es x sw where s: "sweep_all env (c_rqlist d') d' \<lparr>sw_herror = 0, sw_echo = False, sw_oldest = None\<rparr> = (es, x, sw)"
    by (metis prod_cases3)
  have h: "(\<forall>e \<in> set es. q_state (hd e) = SMBRQ_NOTIFIED) \<and> map (q_id \<circ> hd) es = map (q_id \<circ> hd) (c_rqlist d') \<and> sw_herror sw = 0"
    by (rule sweep_all_handed_back [OF _ fl(1) _ s]) (use settles_smb2 [OF all w] assms(5) in simp_all)
  have "c_rqlist (snd (smb_iod_sendall env d')) = es"
    using fl(2) h by (simp add: smb_iod_sendall_def s Let_def upd_ciod_def)
  then show ?thesis using h ids by simp
qed

section \<open>Examples\<close>

definition ex_session :: smb_session where
  "ex_session = wit_session\<lparr>session_hflags2 := 0, session_session_id := 9\<rparr>"

definition ex_queued :: "u64 \<Rightarrow> nat \<Rightarrow> smbrq_state \<Rightarrow> nat \<Rightarrow> queued" where
  "ex_queued mid i s tries =
     \<lparr>q_id = i, q_rq = zero_rq\<lparr>sr_extflags := 1, sr_command := 8, sr_creditcharge := 1, sr_rqsessionid := 9, sr_iod := Some 0,
        sr_messageid := mid, sr_messageidp := Some (0, 24)\<rparr>, q_state = s, q_rpgen = 0, q_rplast = 0, q_lerror = 0, q_timesent = 0,
      q_credit_timesent = 0, q_reconnect_cnt = 0, q_mid = 0, q_pidHigh = 0, q_pidLow = 0, q_tries = tries\<rparr>"

definition ex_channel :: "queued list list \<Rightarrow> channel" where
  "ex_channel es =
     \<lparr>c_iod = 0, c_st = wit_st, c_session = ex_session, c_state = SMBIOD_ST_SESSION_ACTIVE, c_tdata = None, c_rqlist = es,
      c_muxcnt = 0, c_muxwant = 0, c_asynccnt = 0, c_workflag = False, c_lastrecv = 0, c_lastrqsent = 0, c_reconnect_start = 0,
      c_sess_setup_reply = None, c_tx_bytes = 0, c_tx_packets = 0, c_rx_bytes = 0, c_rx_packets = 0, c_soft = (\<lambda>_. 0),
      c_down = (\<lambda>_. False), c_callbacks = [], c_ups = []\<rparr>"

definition ex_env :: send_env where
  "ex_env = \<lparr>se_lib = sum_lib, se_ops = flat_ops, se_smb1 = (\<lambda>_. Inl EINVAL), se_send = (\<lambda>_. 0), se_fatal = (\<lambda>_. False),
     se_now = 0, se_later = 0, se_proclaimed = False, se_shutdown = False, se_resp_wait = 30\<rparr>"

definition ex_hdr :: "u64 \<Rightarrow> reply_hdr" where
  "ex_hdr mid = \<lparr>rh_command = 8, rh_status = 0, rh_credits = 1, rh_flags = 1, rh_nextcmd = 0, rh_messageid = mid, rh_asyncid = 0,
     rh_treeid = 0\<rparr>"

lemma ex_queue_inv: "queue_inv (ex_channel [[ex_queued 100 1 SMBRQ_SENT 1], [ex_queued 101 2 SMBRQ_SENT 1]])"
  by (simp add: queue_inv_def heads_def entry_inv_def rq_inv_def ex_channel_def ex_queued_def wit_st_def wit_iod_def zero_rq_def)

lemma ex_enqueue:
  "\<exists>e' c'. smb_iod_rq_enqueue wit_env toy_aead None ex_env 50 [] [ex_queued 0 1 SMBRQ_NOTSENT 0] (ex_channel []) = Some (0, e', c') \<and>
     c_rqlist c' = [e'] \<and> q_id (hd e') = 1 \<and> e' \<noteq> [] \<and> q_extflags (hd e') = 1 \<and> q_flags (hd e') = SMBR_ENQUEUED"
  by (simp add: smb_iod_rq_enqueue_def insert_rq_def seal_entry_def soft_wait_def stale_def smb_iod_rq_sign_def
      smb2_rq_message_id_increment_def set_message_id_def sign_request_def do_encrypt_def compressible_def Let_def
      ex_channel_def ex_queued_def ex_session_def wit_session_def wit_st_def wit_iod_def zero_rq_def ex_env_def or_qflags_def upd_rq_def)

theorem sent_once_and_woken_witness:
  "\<exists>c' e. (iod_step toy_aead)\<^sup>*\<^sup>* (ex_channel []) c' \<and> e \<in> set (c_rqlist c') \<and> q_tries (hd e) \<le> 1 \<and>
     (\<exists>q c''. smb_iod_waitrq 1 c' = Some (ENOTCONN, q, c'') \<and> (\<forall>e' \<in> set (c_rqlist c''). q_id (hd e') \<noteq> 1))"
proof -
  obtain e c where e: "smb_iod_rq_enqueue wit_env toy_aead None ex_env 50 [] [ex_queued 0 1 SMBRQ_NOTSENT 0] (ex_channel []) = Some (0, e, c)"
    "c_rqlist c = [e]" "q_id (hd e) = 1" "e \<noteq> []" "q_extflags (hd e) = 1" "q_flags (hd e) = SMBR_ENQUEUED"
    using ex_enqueue by auto
  have "iod_step toy_aead (ex_channel []) c"
    by (rule iod_step.enqueue [OF _ _ e(1)]) (simp_all add: fresh_def heads_def ex_channel_def ex_queued_def)
  then have st: "(iod_step toy_aead)\<^sup>*\<^sup>* (ex_channel []) (smb_iod_invrq c)"
    using iod_step.invrq [of toy_aead c] by (meson converse_rtranclp_into_rtranclp r_into_rtranclp)
  obtain q qs where q: "e = q # qs" using e(4) by (cases e) auto
  let ?e = "rqprocessed ENOTCONN SMBR_DEAD q # qs"
  have l: "c_rqlist (smb_iod_invrq c) = [?e]" using e(2) by (simp add: smb_iod_invrq_def over_rqlist_def q)
  from sent_once_and_woken [OF st, of ?e] e show ?thesis
    by (intro exI [of _ "smb_iod_invrq c"] exI [of _ ?e]) (use st in \<open>auto simp: l q ex_channel_def wit_st_def wit_iod_def\<close>)
qed

theorem reply_reaches_thread_witness:
  "\<exists>q1 q2 c1 c2. recv_smb2 sum_lib True 5 (ex_hdr 101) [tf_mbuf] (ex_channel [[ex_queued 100 1 SMBRQ_SENT 1], [ex_queued 101 2 SMBRQ_SENT 1]]) =
       (RDelivered 2, c1) \<and> c_rqlist c1 = [[ex_queued 100 1 SMBRQ_SENT 1], [q1]] \<and>
     smb_iod_waitrq 2 c1 = Some (0, q2, c2) \<and> sr_rp (q_rq q2) = md_initm [tf_mbuf] [] \<and> c_rqlist c2 = [[ex_queued 100 1 SMBRQ_SENT 1]]"
  using reply_reaches_thread [OF ex_queue_inv, of "[[ex_queued 100 1 SMBRQ_SENT 1]]" "ex_queued 101 2 SMBRQ_SENT 1" "[]" "[]" "ex_hdr 101"
      sum_lib True 5 "[tf_mbuf]"]
  by (auto simp: ex_channel_def ex_queued_def ex_hdr_def is_pending_def zero_rq_def)

theorem reconnect_strands_nobody_witness:
  "\<exists>d d'. d = smb_iod_start_reconnect 7 8 False (ex_channel [[ex_queued 100 1 SMBRQ_SENT 1], [ex_queued 101 2 SMBRQ_SENT 1]]) \<and>
     d' = set_cflags (\<lambda>_. 0) (d\<lparr>c_state := SMBIOD_ST_SESSION_ACTIVE\<rparr>) \<and>
     map (q_id \<circ> hd) (c_rqlist (snd (smb_iod_sendall ex_env d'))) = [1, 2] \<and>
     (\<forall>e \<in> set (c_rqlist (snd (smb_iod_sendall ex_env d'))). q_state (hd e) = SMBRQ_NOTIFIED)"
proof -
  let ?c = "ex_channel [[ex_queued 100 1 SMBRQ_SENT 1], [ex_queued 101 2 SMBRQ_SENT 1]]"
  define d where "d = smb_iod_start_reconnect 7 8 False ?c"
  define d' where "d' = set_cflags (\<lambda>_. 0) (d\<lparr>c_state := SMBIOD_ST_SESSION_ACTIVE\<rparr>)"
  have f: "c_flags d' AND (SMBIOD_RECONNECT OR SMBIOD_READ_THREAD_ERROR) = 0" "c_rqlist d' = c_rqlist d"
    using set_cflags_fields(5) [of "\<lambda>_. 0" "d\<lparr>c_state := SMBIOD_ST_SESSION_ACTIVE\<rparr>"] by (simp_all add: d'_def)
  have s: "\<forall>e \<in> set (c_rqlist ?c). q_extflags (hd e) AND SMB2_REQUEST \<noteq> 0" by (simp add: ex_channel_def ex_queued_def)
  have l: "map (q_id \<circ> hd) (c_rqlist ?c) = [1, 2]" by (simp add: ex_channel_def ex_queued_def)
  have r: "map (q_id \<circ> hd) (c_rqlist (snd (smb_iod_sendall ex_env d'))) = [1, 2]"
    "\<forall>e \<in> set (c_rqlist (snd (smb_iod_sendall ex_env d'))). q_state (hd e) = SMBRQ_NOTIFIED"
    using reconnect_strands_nobody [OF ex_queue_inv s d_def f, of ex_env] unfolding l by blast+
  show ?thesis
    by (rule exI [of _ d], rule exI [of _ d'], intro conjI) (rule d_def, rule d'_def, rule r(1), rule r(2))
qed

end
