(* ===== verification/Spec2Isabelle.thy ===== *)
theory Spec2Isabelle
  imports Fid McProps Md4 IodGuarantees
begin

text \<open>
  A verification library of the SMB client in \<^verbatim>\<open>src/\<close>: the network file system client of a kernel, which speaks SMB 1 and
  SMB 2/3 with a server over one or more TCP connections (\<^emph>\<open>channels\<close>) of a session.

  \<^bold>\<open>How the program works.\<close> A thread that needs something from the server makes a request (\<^verbatim>\<open>smb_rq\<close>), takes the credits
  for it, and builds a message in a chain of mbufs. It puts the request into the queue of a channel, where it gets its message
  id and is signed, compressed or encrypted, and sleeps. The thread of the channel sweeps the queue and hands messages to the
  transport, which frames them. The read thread of the channel takes messages from the transport, which decrypts them,
  decompresses them, matches each with the request it is for, takes the credits it grants and wakes the sleeping thread, which
  verifies the signature and takes the reply apart. When a connection is lost, requests are held back until it has been
  made again, or are given to another channel. The table of multichannel decides which interfaces get channels.

  \<^bold>\<open>The theories\<close>, in the order of the layers:

  \<^item> \<open>Prelude\<close>: machine words, errno values, byte orders, shared lemmas, and the interface \<open>stepwise_invariant\<close> of the
    components with a step relation.
  \<^item> \<open>Mbuf\<close> (the mbuf interface of the kernel, \<^verbatim>\<open>lib/smb/mbuf.c\<close> as its implementation in user space) and \<open>Mchain\<close>
    (\<^verbatim>\<open>kernel/sys5/kern/subr_mchain.c\<close>): \<open>mb_put_*\<close> and \<open>md_get_*\<close> on chains. The locale \<open>mbuf_allocator\<close> says what the
    chains rely on of an allocator; it is interpreted on the allocators of the kernel and of user space. What is put is what is
    got (C24).
  \<^item> \<open>ErrMap\<close> (\<^verbatim>\<open>kernel/netsmb/smb_subr.c\<close>): statuses and errno values (C30).
  \<^item> \<open>Request\<close> and \<open>Credits\<close> (\<^verbatim>\<open>kernel/netsmb/smb_rq_2.c\<close>, parts of \<^verbatim>\<open>smb_rq.c\<close> and \<^verbatim>\<open>smb_conn.c\<close>): the request builder gives the bytes
    of the protocol (C5, C6), its header is read back by the parser (C7), message ids are disjoint (C15), and the credits of
    a channel are neither lost nor made up by any interleaving of sends, replies and abandoned requests (C1, C2, C27, C28, C29);
    where a credit is lost (C31).
  \<^item> \<open>Md4\<close> (\<^verbatim>\<open>kernel/netsmb/md4c.c\<close>): the digest is the one of RFC 1320 for every way to cut the message (C25).
  \<^item> \<open>Sign\<close>, \<open>Encrypt\<close> and \<open>Compress\<close> (\<^verbatim>\<open>kernel/netsmb/smb_crypt.c\<close>): signing and verification (C9, C12, C39), keys, nonces and
    encryption (C11, C36, C37, C38), compression (C20, C21, C33). \<open>Send\<close> (\<^verbatim>\<open>smb_iod_rq_sign\<close> of \<^verbatim>\<open>smb_iod.c\<close>) composes them: what is
    sent on an encrypted session is what the peer decrypts (C10).
  \<^item> \<open>Tran\<close> and \<open>TranConn\<close> (\<^verbatim>\<open>kernel/netsmb/smb_trantcp.c\<close>): framing and reassembly (C13, C35), the life of a connection as
    the step relation \<open>tran_step\<close> with its invariant (C14), NetBIOS sessions (C40).
  \<^item> \<open>Iod\<close>, \<open>IodProps\<close> and \<open>IodGuarantees\<close> (\<^verbatim>\<open>kernel/netsmb/smb_iod.c\<close>): the request queue. The record \<open>channel\<close> is a
    \<^verbatim>\<open>smbiod\<close> with its queue, \<open>queued\<close> a request in it; \<open>smb_iod_rq_enqueue\<close>, \<open>smb_iod_waitrq\<close>, \<open>smb_iod_removerq\<close>,
    \<open>smb_iod_sendall\<close>, \<open>smb_iod_sendrq\<close>, \<open>recv_message\<close> (one round of \<^verbatim>\<open>smb_iod_recvall\<close>), \<open>smb_iod_start_reconnect\<close>, \<open>smb_iod_dead\<close> and the
    rest have the names of the code. \<open>iod_step\<close> interleaves all of them; \<open>IodProps\<close> proves that they keep \<open>queue_inv\<close>, and
    \<open>IodGuarantees\<close> that a message is sent at most once and no wakeup is lost (C3), that a reply reaches its thread (C4) and that
    a lost connection strands nobody (C8).
  \<^item> \<open>Nic\<close>, \<open>Multichannel\<close>, \<open>McInvariant\<close> and \<open>McProps\<close> (\<^verbatim>\<open>kernel/netsmb/smb2_mc_support.c\<close>): the interface lists of client and server
    are parsed within their bounds (C22, C23), the table of connections stays well formed under every sequence of its operations
    (C16), and which connections are tried, kept and dropped (C17, C18, C19, C32).
  \<^item> \<open>Fid\<close> (\<^verbatim>\<open>kernel/netsmb/smb_fid.c\<close>): the table of open files implements a stack of server ids per number, through the locale
    \<open>handle_table\<close> (C26); numbers may collide (C34).

  \<^bold>\<open>How code becomes definitions.\<close> A structure is a record with the fields that the modelled code uses, an enumeration a
  datatype, a fixed width integer a word of that width; counters that cannot reach their limit are \<open>nat\<close> or \<open>int\<close>. A function
  that returns an error code and changes its arguments returns the code and the new values. \<open>None\<close> stands for what does not
  happen in a run that goes well: a loop without end, a sleep that is not over, a null pointer that is followed, or an access
  out of bounds; the theorems say where it cannot come out. Locks are not values: each definition is what the code does
  under one lock, and interleavings are the step relations \<open>iod_step\<close>, \<open>tran_step\<close> and \<open>encrypt_step\<close> and the sequences of
  operations in \<open>Credits\<close> and \<open>McInvariant\<close>. Definitions compute, so that the witness of a theorem evaluates them.

  \<^bold>\<open>Parameters.\<close> The mbuf interface and allocators of the kernel, the ciphers, digests and compression of the system,
  sockets, the clock, and in the queue the copy of an SMB 1 message. What the theorems need of them is stated as a hypothesis with a name
  (\<open>kpi_wf\<close>, \<open>malloc_wf\<close>, \<open>aead_wf\<close>, \<open>lib_wf\<close> and others), and a witness has a concrete instance of it.

  \<^bold>\<open>Bounds and fuel.\<close> No definition has fuel. Loops are structural or have a measure; the loops that may run for ever, as
  the compression of a write with a chunk length of 0 and the reads of the transport, are partial functions into \<open>option\<close>, and the
  theorems about them prove that they return. The wait for credits and the attempts to send an internal request take the list of
  what happens at each wakeup.

  \<^bold>\<open>Not modelled.\<close> The vnode and mount operations (\<^verbatim>\<open>kernel/smbfs\<close>), which work on vnodes, the buffer cache and the
  authorisation of the kernel; the single commands of SMB 1 and SMB 2/3 (\<^verbatim>\<open>smb_smb.c\<close>, \<^verbatim>\<open>smb_smb_2.c\<close>, \<^verbatim>\<open>smbfs_smb.c\<close>,
  \<^verbatim>\<open>smbfs_smb_2.c\<close>), which are sequences of the modelled puts and gets around kernel objects; of \<^verbatim>\<open>smb_iod.c\<close> the threads and their
  events, the dialogue of a reconnect and the choice of another main channel; of \<^verbatim>\<open>smb_crypt.c\<close> the NTLM responses; sessions and
  shares as reference counted objects with their ioctls; authentication, which is done by a service of the system; the libraries and
  commands of user space, which are mostly property lists, preferences and ioctls; and all logging, tracing and freeing of memory, where
  freeing does not change a modelled value.
\<close>

end
